(* ===== verification/Prelude.thy ===== *)
theory Prelude
  imports Main "HOL-Library.Word"
begin

text \<open>
  Shared vocabulary of the development: the fixed-width C integer types, the bit masks the
  drivers use, little-endian byte packing, C truncating division, and the facts about lists,
  folds and words that the component theories rest on.

  Conventions used by every theory:
  \<^item> \<open>uint8_t\<close> \<dots> \<open>uint64_t\<close> are words of that width, so arithmetic wraps as in C;
  \<^item> \<open>uintptr_t\<close>, \<open>size_t\<close> and \<open>unsigned int\<close> have 32 bits (the target is MIPS32, ILP32);
  \<^item> \<open>int\<close> values are HOL integers; where a range matters it is a hypothesis or a theorem,
    since signed overflow is undefined in C;
  \<^item> a buffer is a list, and an access outside it (undefined in C) is the value \<open>None\<close>.
\<close>

unbundle bit_operations_syntax

type_synonym u8 = "8 word"
type_synonym u16 = "16 word"
type_synonym u32 = "32 word"
type_synonym u64 = "64 word"

text \<open>\<open>rmw_simps\<close>: masks and read-modify-write; \<open>bytes_simps\<close>: byte packing.\<close>

named_theorems rmw_simps
named_theorems bytes_simps

section \<open>Bit masks\<close>

text \<open>The \<open>BIT(n)\<close> macro every driver header defines.\<close>

definition BIT :: "nat \<Rightarrow> u32" where
  "BIT n = push_bit n 1"

lemma bit_BIT [rmw_simps]: "bit (BIT n) k \<longleftrightarrow> k = n \<and> n < 32"
  by (auto simp: BIT_def bit_simps)

lemma BIT_eq_power: "BIT n = 2 ^ n"
  by (simp add: BIT_def push_bit_eq_mult)

lemma and_BIT_eq_0 [rmw_simps]: "n < 32 \<Longrightarrow> w AND BIT n = 0 \<longleftrightarrow> \<not> bit w n"
proof
  assume n: "n < 32" and z: "w AND BIT n = 0"
  have "bit (w AND BIT n) n \<longleftrightarrow> bit w n" using n by (simp add: bit_and_iff bit_BIT)
  then show "\<not> bit w n" using z by simp
next
  assume "n < 32" and "\<not> bit w n"
  then show "w AND BIT n = 0" by (auto intro!: bit_word_eqI simp: bit_and_iff bit_BIT)
qed

lemma bit_ffff_int: "bit (0xffff :: int) k \<longleftrightarrow> k < 16"
proof -
  have "(0xffff :: int) = mask 16" by (simp add: mask_eq_exp_minus_1)
  moreover have "bit (mask 16 :: int) k \<longleftrightarrow> k < 16"
    by (auto simp: bit_mask_iff simp del: mask_numeral)
  ultimately show ?thesis by (simp only:)
qed

lemma bit_ffff [rmw_simps]:
  "bit (0xffff :: u32) k \<longleftrightarrow> k < 16" "bit (0xffff :: u16) k \<longleftrightarrow> k < 16" "bit (0xffff :: int) k \<longleftrightarrow> k < 16"
  using bit_word_of_int_iff [of "0xffff" k, where 'a = 32] bit_word_of_int_iff [of "0xffff" k, where 'a = 16]
  by (auto simp: bit_ffff_int)

text \<open>Replacing the low half of a register.\<close>

lemma low_half_replaced:
  fixes x w :: u32
  assumes "unat w \<le> 0xffff"
  shows "((x AND 0xffff0000) OR w) AND 0xffff = w"
proof (rule bit_word_eqI)
  fix n assume n: "n < LENGTH(32)"
  have w: "bit w n \<Longrightarrow> n < 16"
  proof (rule ccontr)
    assume "bit w n" "\<not> n < 16"
    have "take_bit 16 w = w"
      using assms by (simp add: word_unat_eq_iff take_bit_eq_mod unat_mod)
    then have "\<not> bit w n" using \<open>\<not> n < 16\<close> by (metis bit_take_bit_iff)
    with \<open>bit w n\<close> show False by simp
  qed
  have "(0xffff0000 :: u32) = NOT 0xffff" by simp
  then have h: "bit (0xffff0000 :: u32) n \<longleftrightarrow> \<not> n < 16"
    using n by (simp only: bit_not_iff bit_ffff) simp
  show "bit (((x AND 0xffff0000) OR w) AND 0xffff) n = bit w n"
    unfolding bit_and_iff bit_or_iff h bit_ffff using w by auto
qed

text \<open>
  A masked update keeps the bits outside the mask and takes the bits inside it from the new
  value: the contract of every \<open>(old & ~mask) | (value & mask)\<close> in the drivers.
\<close>

definition masked :: "'a::len word \<Rightarrow> 'a word \<Rightarrow> 'a word \<Rightarrow> 'a word" where
  "masked mk old new = (old AND NOT mk) OR (new AND mk)"

lemma bit_masked [rmw_simps]:
  "bit (masked mk old new) n \<longleftrightarrow> (if bit mk n then bit new n else bit old n)"
  by (auto simp: masked_def bit_simps dest: bit_imp_le_length)

lemma masked_inside: "masked mk old new AND mk = new AND mk"
  by (rule bit_word_eqI) (auto simp: bit_masked bit_simps)

lemma masked_outside: "masked mk old new AND NOT mk = old AND NOT mk"
  by (rule bit_word_eqI) (auto simp: bit_masked bit_simps)

lemma xor_cancel: "a XOR b = a XOR c \<Longrightarrow> b = (c :: 'a::len word)"
  by (metis xor.assoc xor.left_neutral xor_self_eq)

text \<open>Bit numbers of a 32-bit word, one by one, for the bit-shuffling of the colour code.\<close>

lemma less_32_cases:
  "n < 32 \<Longrightarrow> n \<in> {0::nat, 1, 2, 3, 4, 5, 6, 7, 8, 9, 10, 11, 12, 13, 14, 15, 16, 17, 18, 19, 20,
     21, 22, 23, 24, 25, 26, 27, 28, 29, 30, 31}"
  by (simp add: numeral_eq_Suc less_Suc_eq)

lemma word32_eqI:
  "(\<And>n. n \<in> {0::nat, 1, 2, 3, 4, 5, 6, 7, 8, 9, 10, 11, 12, 13, 14, 15, 16, 17, 18, 19, 20,
     21, 22, 23, 24, 25, 26, 27, 28, 29, 30, 31} \<Longrightarrow> bit v n = bit w n) \<Longrightarrow> v = (w :: u32)"
  by (rule bit_word_eqI) (use less_32_cases in simp)

text \<open>Sums and products that do not leave 32 bits.\<close>

lemma unat_add_32: "unat a + unat b < 2 ^ 32 \<Longrightarrow> unat (a + b :: u32) = unat a + unat b"
  using unat_add_lem [of a b] by simp

lemma unat_mult_32: "unat a * unat b < 2 ^ 32 \<Longrightarrow> unat (a * b :: u32) = unat a * unat b"
  using unat_mult_lem [of a b] by simp

lemma unat_of_nat_32: "n < 2 ^ 32 \<Longrightarrow> unat (of_nat n :: u32) = n"
  by (simp only: unsigned_of_nat) (simp add: take_bit_nat_eq_self_iff)

section \<open>Little-endian byte packing\<close>

text \<open>
  The idiom \<open>(uint32_t)b[0] | (uint32_t)b[1] << 8 | \<dots>\<close> and its inverse, as written in
  the efuse driver, the ASD packer, the loader and the FAT code.
\<close>

definition le32_of :: "u8 \<Rightarrow> u8 \<Rightarrow> u8 \<Rightarrow> u8 \<Rightarrow> u32" where
  "le32_of b0 b1 b2 b3 = ucast b0 OR push_bit 8 (ucast b1) OR push_bit 16 (ucast b2)
     OR push_bit 24 (ucast b3)"

definition le16_of :: "u8 \<Rightarrow> u8 \<Rightarrow> u32" where
  "le16_of b0 b1 = ucast b0 OR push_bit 8 (ucast b1)"

definition byte_of :: "nat \<Rightarrow> u32 \<Rightarrow> u8" where
  "byte_of k w = ucast (drop_bit (8 * k) w)"

lemma bit_byte_of [bytes_simps]: "bit (byte_of k w) n \<longleftrightarrow> n < 8 \<and> bit w (8 * k + n)"
  by (auto simp: byte_of_def bit_simps)

lemma bit_le32_of [bytes_simps]:
  "bit (le32_of b0 b1 b2 b3) n \<longleftrightarrow>
     (if n < 8 then bit b0 n else if n < 16 then bit b1 (n - 8)
      else if n < 24 then bit b2 (n - 16) else n < 32 \<and> bit b3 (n - 24))"
  by (auto simp: le32_of_def bit_simps dest: bit_imp_le_length)

lemma le32_of_bytes [simp]:
  "le32_of (byte_of 0 w) (byte_of (Suc 0) w) (byte_of 2 w) (byte_of 3 w) = w"
  by (rule bit_word_eqI) (auto simp: bytes_simps)

lemma byte_of_le32 [simp]:
  "byte_of 0 (le32_of b0 b1 b2 b3) = b0" "byte_of (Suc 0) (le32_of b0 b1 b2 b3) = b1"
  "byte_of 2 (le32_of b0 b1 b2 b3) = b2" "byte_of 3 (le32_of b0 b1 b2 b3) = b3"
  by (auto intro!: bit_word_eqI simp: bytes_simps)

section \<open>C arithmetic\<close>

text \<open>Division of \<open>int\<close> truncates towards zero in C.\<close>

definition cdiv :: "int \<Rightarrow> int \<Rightarrow> int" where
  "cdiv a b = (if (a < 0) = (b < 0) then \<bar>a\<bar> div \<bar>b\<bar> else - (\<bar>a\<bar> div \<bar>b\<bar>))"

lemma cdiv_nonneg: "0 \<le> a \<Longrightarrow> 0 < b \<Longrightarrow> cdiv a b = a div b"
  by (simp add: cdiv_def)

lemma le_div_iff_int: "0 < b \<Longrightarrow> n \<le> a div b \<longleftrightarrow> n * b \<le> (a::int)"
proof
  assume b: "0 < b" and n: "n \<le> a div b"
  have "n * b \<le> a div b * b" using b n by simp
  also have "\<dots> \<le> a" using b by (simp add: minus_mod_eq_div_mult [symmetric])
  finally show "n * b \<le> a" .
next
  assume b: "0 < b" and n: "n * b \<le> a"
  then have "n * b div b \<le> a div b" by (intro zdiv_mono1)
  then show "n \<le> a div b" using b by simp
qed

lemma div_nonneg_int: "0 \<le> a \<Longrightarrow> 0 \<le> b \<Longrightarrow> 0 \<le> a div (b::int)"
  by (cases "b = 0") (auto simp: pos_imp_zdiv_nonneg_iff less_le)

text \<open>Conversions that do not change the value.\<close>

lemma sint_word_of_int_id:
  "- (2 ^ (LENGTH('a) - 1)) \<le> x \<Longrightarrow> x < 2 ^ (LENGTH('a) - 1) \<Longrightarrow> sint (word_of_int x :: 'a::len word) = x"
  by (simp add: sint_sbintrunc' signed_take_bit_int_eq_self)

lemma uint_word_of_int_id:
  "0 \<le> x \<Longrightarrow> x < 2 ^ LENGTH('a) \<Longrightarrow> uint (word_of_int x :: 'a::len word) = x"
  by (simp add: uint_word_of_int)

lemma uint_pos: "w \<noteq> 0 \<longleftrightarrow> 0 < uint (w :: 'a::len word)"
  using uint_0_iff [of w] by (auto simp: less_le)

section \<open>Lists and folds\<close>

lemma fold_invariant:
  assumes "P s" and "\<And>x s. x \<in> set xs \<Longrightarrow> P s \<Longrightarrow> P (f x s)"
  shows "P (fold f xs s)"
  using assms by (induction xs arbitrary: s) auto

text \<open>Four consecutive stores, as a little-endian word is stored, read back pointwise.\<close>

lemma nth_store4:
  assumes "n + 3 < length xs"
  shows "xs[n := a, n + 1 := b, n + 2 := c, n + 3 := d] ! j =
    (if j = n then a else if j = n + 1 then b else if j = n + 2 then c
     else if j = n + 3 then d else xs ! j)"
  using assms by (simp add: nth_list_update)

lemma length_fold_update [simp]:
  "length (fold (\<lambda>i xs. xs[g i := h i]) is xs) = length xs"
  by (induction "is" arbitrary: xs) auto

end
