(* ===== verification/Mmio.thy ===== *)
theory Mmio
  imports Prelude
begin

text \<open>
  The bus interface of the OS-neutral drivers under \<^verbatim>\<open>src/audio\<close>, \<^verbatim>\<open>src/vdec\<close>,
  \<^verbatim>\<open>src/dsc\<close> and \<^verbatim>\<open>src/efuse\<close>. Each driver is handed a structure of callbacks
  (\<open>read32\<close>, \<open>write32\<close>, \<open>delay_us\<close>, and for some a DMA barrier or cache maintenance); the
  adapters behind them belong to the operating system, so they are parameters of the model:
  a record of functions over an arbitrary machine state \<open>'m\<close>, which plays the part of the
  \<open>cookie\<close>. A read may change the machine, as a device register may.

  Two machines are used to state properties. The locale \<open>reg_file\<close> collects what a bank of plain
  registers promises; it is interpreted on the register arrays the repository's own driver tests
  run against. The trace bus answers reads from an arbitrary list of values and logs every
  callback in order: a theorem about all answer lists is a theorem about all hardware.
\<close>

section \<open>The callback structures\<close>

type_synonym addr = u32

record 'm mmio_io =
  read32 :: "'m \<Rightarrow> addr \<Rightarrow> u32 \<times> 'm"
  write32 :: "'m \<Rightarrow> addr \<Rightarrow> u32 \<Rightarrow> 'm"
  delay_us :: "'m \<Rightarrow> u32 \<Rightarrow> 'm"

text \<open>The audio core adds a DMA barrier; the video core adds optional cache maintenance.\<close>

record 'm audio_io = "'m mmio_io" +
  dma_barrier :: "'m \<Rightarrow> 'm"

record 'm vdec_io = "'m mmio_io" +
  cache_flush :: "('m \<Rightarrow> addr \<Rightarrow> u32 \<Rightarrow> 'm) option"
  cache_invalidate :: "('m \<Rightarrow> addr \<Rightarrow> u32 \<Rightarrow> 'm) option"

section \<open>What a bank of plain registers promises\<close>

text \<open>
  \<open>view m a\<close> is the content of register \<open>a\<close>, \<open>mapped a\<close> says that \<open>a\<close> is an address of the
  bank. Reads and delays leave the registers alone; a write changes exactly one of them.
\<close>

locale reg_file =
  fixes io :: "('m, 'z) mmio_io_scheme"
    and view :: "'m \<Rightarrow> addr \<Rightarrow> u32"
    and mapped :: "addr \<Rightarrow> bool"
  assumes read_value: "mapped a \<Longrightarrow> fst (read32 io m a) = view m a"
    and read_view: "mapped a \<Longrightarrow> view (snd (read32 io m a)) = view m"
    and write_view: "mapped a \<Longrightarrow> mapped b \<Longrightarrow>
          view (write32 io m a v) b = (if b = a then v else view m b)"
    and delay_view: "view (delay_us io m d) = view m"
begin

lemmas reg_simps = read_value read_view write_view delay_view

text \<open>Two writes to different registers commute, as far as the registers can tell.\<close>

lemma write_commute:
  assumes "mapped a" "mapped b" "mapped c" "a \<noteq> b"
  shows "view (write32 io (write32 io m a v) b w) c = view (write32 io (write32 io m b w) a v) c"
  using assms by (simp add: write_view)

text \<open>Reading back a register gives what was last written to it.\<close>

lemma read_after_write:
  assumes "mapped a"
  shows "fst (read32 io (write32 io m a v) a) = v"
  using assms by (simp add: reg_simps)

end

text \<open>The audio core also relies on its barrier, the video core on its cache maintenance.\<close>

locale audio_regs = reg_file io view mapped
  for io :: "('m, 'z) audio_io_scheme" and view :: "'m \<Rightarrow> addr \<Rightarrow> u32" and mapped :: "addr \<Rightarrow> bool" +
  assumes barrier_view: "view (dma_barrier io m) = view m"

locale vdec_regs = reg_file io view mapped
  for io :: "('m, 'z) vdec_io_scheme" and view :: "'m \<Rightarrow> addr \<Rightarrow> u32" and mapped :: "addr \<Rightarrow> bool" +
  assumes flush_view: "cache_flush io = Some fl \<Longrightarrow> view (fl m a n) = view m"
    and invalidate_view: "cache_invalidate io = Some iv \<Longrightarrow> view (iv m a n) = view m"

section \<open>The register arrays of the driver tests\<close>

text \<open>
  \<open>struct fake\<close> of the driver tests: an array of registers indexed by \<open>address / 4\<close> and counters
  for the other callbacks. The array is total here: its size is a limit of the harness.
\<close>

record fake =
  fake_regs :: "nat \<Rightarrow> u32"
  fake_delays :: nat
  fake_barriers :: nat
  fake_flushes :: nat
  fake_invalidates :: nat

definition fake_read :: "fake \<Rightarrow> addr \<Rightarrow> u32 \<times> fake" where
  "fake_read f a = (fake_regs f (unat a div 4), f)"

definition fake_write :: "fake \<Rightarrow> addr \<Rightarrow> u32 \<Rightarrow> fake" where
  "fake_write f a v = f\<lparr>fake_regs := (fake_regs f)(unat a div 4 := v)\<rparr>"

definition fake_delay :: "fake \<Rightarrow> u32 \<Rightarrow> fake" where
  "fake_delay f usec = f\<lparr>fake_delays := fake_delays f + unat usec\<rparr>"

definition fake_barrier :: "fake \<Rightarrow> fake" where
  "fake_barrier f = f\<lparr>fake_barriers := Suc (fake_barriers f)\<rparr>"

definition fake_cache_flush :: "fake \<Rightarrow> addr \<Rightarrow> u32 \<Rightarrow> fake" where
  "fake_cache_flush f a n = f\<lparr>fake_flushes := Suc (fake_flushes f)\<rparr>"

definition fake_cache_invalidate :: "fake \<Rightarrow> addr \<Rightarrow> u32 \<Rightarrow> fake" where
  "fake_cache_invalidate f a n = f\<lparr>fake_invalidates := Suc (fake_invalidates f)\<rparr>"

definition fake_io :: "fake mmio_io" where
  "fake_io = \<lparr>read32 = fake_read, write32 = fake_write, delay_us = fake_delay\<rparr>"

definition fake_audio_io :: "fake audio_io" where
  "fake_audio_io = mmio_io.extend fake_io \<lparr>dma_barrier = fake_barrier\<rparr>"

definition fake_vdec_io :: "fake vdec_io" where
  "fake_vdec_io = mmio_io.extend fake_io
     \<lparr>cache_flush = Some fake_cache_flush, cache_invalidate = Some fake_cache_invalidate\<rparr>"

definition fake_view :: "fake \<Rightarrow> addr \<Rightarrow> u32" where
  "fake_view f a = fake_regs f (unat a div 4)"

definition fake_zero :: fake where
  "fake_zero = \<lparr>fake_regs = (\<lambda>_. 0), fake_delays = 0, fake_barriers = 0, fake_flushes = 0,
     fake_invalidates = 0\<rparr>"

text \<open>Registers sit at word-aligned addresses, so the array index tells them apart.\<close>

definition word_aligned :: "addr \<Rightarrow> bool" where
  "word_aligned a \<longleftrightarrow> unat a mod 4 = 0"

lemma word_aligned_index:
  assumes "word_aligned a" "word_aligned b"
  shows "unat a div 4 = unat b div 4 \<longleftrightarrow> a = b"
proof
  assume "unat a div 4 = unat b div 4"
  moreover have "unat a = unat a div 4 * 4" "unat b = unat b div 4 * 4"
    using assms by (simp_all add: word_aligned_def mod_0_imp_dvd)
  ultimately have "unat a = unat b" by argo
  then show "a = b" by (simp add: word_unat_eq_iff)
qed simp

lemmas fake_io_defs = fake_io_def fake_read_def fake_write_def fake_delay_def fake_view_def

interpretation fake: reg_file fake_io fake_view word_aligned
  by unfold_locales (auto simp: fake_io_defs fun_eq_iff word_aligned_index)

interpretation fake_audio: audio_regs fake_audio_io fake_view word_aligned
  by unfold_locales (auto simp: fake_audio_io_def mmio_io.extend_def fake_barrier_def fake_io_defs
      fun_eq_iff word_aligned_index)

interpretation fake_vdec: vdec_regs fake_vdec_io fake_view word_aligned
  by unfold_locales (auto simp: fake_vdec_io_def mmio_io.extend_def fake_cache_flush_def
      fake_cache_invalidate_def fake_io_defs fun_eq_iff word_aligned_index)

section \<open>The trace bus\<close>

datatype bus_event =
    EvRead addr u32
  | EvWrite addr u32
  | EvDelay u32
  | EvBarrier
  | EvFlush addr u32
  | EvInvalidate addr u32

text \<open>\<open>answers\<close> holds what the hardware will say to the coming reads (0 once it is used up).\<close>

record trace_bus =
  answers :: "u32 list"
  events :: "bus_event list"

definition emit_ev :: "bus_event \<Rightarrow> trace_bus \<Rightarrow> trace_bus" where
  "emit_ev e t = t\<lparr>events := events t @ [e]\<rparr>"

definition trace_read :: "trace_bus \<Rightarrow> addr \<Rightarrow> u32 \<times> trace_bus" where
  "trace_read t a =
     (case answers t of
        [] \<Rightarrow> (0, emit_ev (EvRead a 0) t)
      | v # vs \<Rightarrow> (v, emit_ev (EvRead a v) (t\<lparr>answers := vs\<rparr>)))"

definition trace_io :: "trace_bus mmio_io" where
  "trace_io = \<lparr>read32 = trace_read, write32 = (\<lambda>t a v. emit_ev (EvWrite a v) t),
     delay_us = (\<lambda>t d. emit_ev (EvDelay d) t)\<rparr>"

definition trace_audio_io :: "trace_bus audio_io" where
  "trace_audio_io = mmio_io.extend trace_io \<lparr>dma_barrier = emit_ev EvBarrier\<rparr>"

definition trace_vdec_io :: "trace_bus vdec_io" where
  "trace_vdec_io = mmio_io.extend trace_io
     \<lparr>cache_flush = Some (\<lambda>t a n. emit_ev (EvFlush a n) t),
      cache_invalidate = Some (\<lambda>t a n. emit_ev (EvInvalidate a n) t)\<rparr>"

lemma emit_ev_simps [simp]:
  "events (emit_ev e t) = events t @ [e]" "answers (emit_ev e t) = answers t"
  by (simp_all add: emit_ev_def)

lemma trace_io_simps [simp]:
  "read32 trace_io = trace_read"
  "write32 trace_io t a v = emit_ev (EvWrite a v) t"
  "delay_us trace_io t d = emit_ev (EvDelay d) t"
  by (simp_all add: trace_io_def)

lemma trace_audio_io_simps [simp]:
  "read32 trace_audio_io = trace_read"
  "write32 trace_audio_io t a v = emit_ev (EvWrite a v) t"
  "delay_us trace_audio_io t d = emit_ev (EvDelay d) t"
  "dma_barrier trace_audio_io t = emit_ev EvBarrier t"
  by (simp_all add: trace_audio_io_def trace_io_def mmio_io.extend_def)

lemma trace_vdec_io_simps [simp]:
  "read32 trace_vdec_io = trace_read"
  "write32 trace_vdec_io t a v = emit_ev (EvWrite a v) t"
  "delay_us trace_vdec_io t d = emit_ev (EvDelay d) t"
  "cache_flush trace_vdec_io = Some (\<lambda>t a n. emit_ev (EvFlush a n) t)"
  "cache_invalidate trace_vdec_io = Some (\<lambda>t a n. emit_ev (EvInvalidate a n) t)"
  by (simp_all add: trace_vdec_io_def trace_io_def mmio_io.extend_def)

text \<open>The value the next read will see.\<close>

definition next_answer :: "trace_bus \<Rightarrow> u32" where
  "next_answer t = (case answers t of [] \<Rightarrow> 0 | v # _ \<Rightarrow> v)"

lemma trace_read_simps [simp]:
  "fst (trace_read t a) = next_answer t"
  "events (snd (trace_read t a)) = events t @ [EvRead a (next_answer t)]"
  "answers (snd (trace_read t a)) = tl (answers t)"
  by (auto simp: trace_read_def next_answer_def split: list.splits)

text \<open>Write events and read events of a log, for counting and ordering.\<close>

fun is_write :: "bus_event \<Rightarrow> bool" where
  "is_write (EvWrite _ _) = True"
| "is_write _ = False"

fun is_read :: "bus_event \<Rightarrow> bool" where
  "is_read (EvRead _ _) = True"
| "is_read _ = False"

text \<open>\<open>total_delay\<close>: the microseconds a log spends in delays.\<close>

fun ev_delay :: "bus_event \<Rightarrow> nat" where
  "ev_delay (EvDelay d) = unat d"
| "ev_delay _ = 0"

definition total_delay :: "bus_event list \<Rightarrow> nat" where
  "total_delay es = sum_list (map ev_delay es)"

lemma total_delay_simps [simp]:
  "total_delay [] = 0" "total_delay (e # es) = ev_delay e + total_delay es"
  "total_delay (xs @ ys) = total_delay xs + total_delay ys"
  by (simp_all add: total_delay_def)

section \<open>Bounded polling\<close>

text \<open>
  Every driver polls a status register a bounded number of times, with a fixed delay between two
  reads. \<open>poll_reg\<close> is that loop, shared by the efuse, video and display drivers: \<open>decide\<close> says
  which result a status ends the loop with, \<open>timeout\<close> is the result of a loop that ran out.
\<close>

fun poll_reg :: "('m, 'z) mmio_io_scheme \<Rightarrow> addr \<Rightarrow> u32 \<Rightarrow> (u32 \<Rightarrow> int option) \<Rightarrow> int \<Rightarrow>
    nat \<Rightarrow> 'm \<Rightarrow> int \<times> 'm" where
  "poll_reg io a usec decide timeout 0 m = (timeout, m)"
| "poll_reg io a usec decide timeout (Suc n) m =
     (let (status, m1) = read32 io m a
      in case decide status of
           Some r \<Rightarrow> (r, m1)
         | None \<Rightarrow> poll_reg io a usec decide timeout n (delay_us io m1 usec))"

text \<open>The statuses the loop looks at, on the trace bus: the answers, padded with 0.\<close>

definition polled :: "trace_bus \<Rightarrow> nat \<Rightarrow> u32 list" where
  "polled t n = map (\<lambda>i. if i < length (answers t) then answers t ! i else 0) [0..<n]"

lemma polled_Suc:
  "polled t (Suc n) = next_answer t # polled (emit_ev e (snd (trace_read t a))) n"
proof -
  have "polled t (Suc n) = (if 0 < length (answers t) then answers t ! 0 else 0) #
      map (\<lambda>i. if Suc i < length (answers t) then answers t ! Suc i else 0) [0..<n]"
    by (simp only: polled_def map_upt_Suc)
  also have "\<dots> = next_answer t # polled (emit_ev e (snd (trace_read t a))) n"
    by (cases "answers t") (auto simp: polled_def next_answer_def)
  finally show ?thesis .
qed

text \<open>
  The loop returns the decision on the first status that has one, and the timeout if none of the
  \<open>n\<close> statuses has: it always returns.
\<close>

fun first_decision :: "(u32 \<Rightarrow> int option) \<Rightarrow> int \<Rightarrow> u32 list \<Rightarrow> int" where
  "first_decision decide timeout [] = timeout"
| "first_decision decide timeout (s # ss) =
     (case decide s of Some r \<Rightarrow> r | None \<Rightarrow> first_decision decide timeout ss)"

lemma poll_reg_result:
  assumes "read32 io = trace_read" and "\<And>t d. delay_us io t d = emit_ev (EvDelay d) t"
  shows "fst (poll_reg io a usec decide timeout n t) = first_decision decide timeout (polled t n)"
proof (induction n arbitrary: t)
  case 0
  then show ?case by (simp add: polled_def)
next
  case (Suc n)
  then show ?case
    by (simp add: assms split_def Let_def polled_Suc [where e = "EvDelay usec" and a = a]
        split: option.split)
qed

text \<open>
  It does nothing but read the register and wait: at most \<open>n\<close> reads, at most \<open>n\<close> delays, no
  write and no cache operation.
\<close>

fun is_poll :: "addr \<Rightarrow> u32 \<Rightarrow> bus_event \<Rightarrow> bool" where
  "is_poll a usec (EvRead b _) \<longleftrightarrow> b = a"
| "is_poll a usec (EvDelay d) \<longleftrightarrow> d = usec"
| "is_poll a usec _ \<longleftrightarrow> False"

lemma is_poll_no_write: "list_all (is_poll a usec) es \<Longrightarrow> filter is_write es = []"
proof (induction es)
  case (Cons e es)
  then show ?case by (cases e) auto
qed simp

lemma poll_reg_events:
  assumes "read32 io = trace_read" and "\<And>t d. delay_us io t d = emit_ev (EvDelay d) t"
  shows "\<exists>es. events (snd (poll_reg io a usec decide timeout n t)) = events t @ es \<and>
     list_all (is_poll a usec) es \<and> length (filter is_read es) \<le> n \<and> total_delay es \<le> n * unat usec"
proof (induction n arbitrary: t)
  case 0
  then show ?case by auto
next
  case (Suc n)
  let ?t1 = "snd (trace_read t a)"
  show ?case
  proof (cases "decide (next_answer t)")
    case None
    from Suc.IH [of "emit_ev (EvDelay usec) ?t1"] obtain es where
      "events (snd (poll_reg io a usec decide timeout n (emit_ev (EvDelay usec) ?t1))) =
         events ?t1 @ EvDelay usec # es"
      and "list_all (is_poll a usec) es" "length (filter is_read es) \<le> n" "total_delay es \<le> n * unat usec"
      by auto
    with None show ?thesis
      by (intro exI [of _ "EvRead a (next_answer t) # EvDelay usec # es"])
        (simp add: assms split_def Let_def)
  next
    case (Some r)
    then show ?thesis by (simp add: assms split_def Let_def)
  qed
qed

lemma poll_reg_log:
  assumes "read32 io = trace_read" and "\<And>t d. delay_us io t d = emit_ev (EvDelay d) t"
  shows "\<exists>es. events (snd (poll_reg io a usec decide timeout n t)) = events t @ es \<and>
     length (filter is_read es) \<le> n \<and> filter is_write es = [] \<and> total_delay es \<le> n * unat usec"
  using poll_reg_events [OF assms] is_poll_no_write by metis

text \<open>Only the decisions and the timeout can come out, on any machine.\<close>

lemma poll_reg_range: "fst (poll_reg io a usec decide timeout n m) \<in> insert timeout (ran decide)"
  by (induction n arbitrary: m) (auto simp: split_def Let_def ran_def split: option.split)

text \<open>A register file seen by the loop does not change, whatever the outcome.\<close>

context reg_file
begin

lemma poll_reg_view:
  "mapped a \<Longrightarrow> view (snd (poll_reg io a usec decide timeout n m)) = view m"
  by (induction n arbitrary: m) (auto simp: split_def Let_def reg_simps split: option.split)

text \<open>On a bank of plain registers the status does not move, so one read decides.\<close>

lemma poll_reg_const:
  "mapped a \<Longrightarrow> fst (poll_reg io a usec decide timeout n m) =
     (if n = 0 then timeout else case decide (view m a) of Some r \<Rightarrow> r | None \<Rightarrow> timeout)"
proof (induction n arbitrary: m)
  case (Suc n)
  from Suc.IH [OF Suc.prems, of "delay_us io (snd (read32 io m a)) usec"] Suc.prems show ?case
    by (auto simp: split_def Let_def reg_simps split: option.split)
qed simp

end

end
