(* ===== verification/Efuse.thy ===== *)
theory Efuse
  imports Mmio
begin

text \<open>
  The one-time-programmable fuse block, \<^verbatim>\<open>src/efuse/hc15xx_efuse.c\<close>: reading the 32 fuse
  bytes, programming the bits that are still clear, and programming a bit string at an arbitrary
  bit offset. Return codes are the driver's: 32 bytes read, 0 programmed, -1 rejected or failed,
  -16 timed out.
\<close>

section \<open>Registers and constants\<close>

abbreviation (input) EFUSE_CTRL where "EFUSE_CTRL \<equiv> (0x00 :: u32)"
abbreviation (input) EFUSE_STATUS where "EFUSE_STATUS \<equiv> (0x08 :: u32)"
abbreviation (input) EFUSE_DATA0 where "EFUSE_DATA0 \<equiv> (0x10 :: u32)"
abbreviation (input) EFUSE_TIMING where "EFUSE_TIMING \<equiv> (0x40 :: u32)"
abbreviation (input) EFUSE_CTRL_READ where "EFUSE_CTRL_READ \<equiv> (0x01 :: u32)"
abbreviation (input) EFUSE_CTRL_WRITE where "EFUSE_CTRL_WRITE \<equiv> (0x02 :: u32)"
abbreviation (input) EFUSE_CTRL_MODE_MASK where "EFUSE_CTRL_MODE_MASK \<equiv> (0x03 :: u32)"
abbreviation (input) EFUSE_STATUS_BUSY where "EFUSE_STATUS_BUSY \<equiv> (0x80000000 :: u32)"
abbreviation (input) EFUSE_STATUS_ERR_MASK where "EFUSE_STATUS_ERR_MASK \<equiv> (0x00004c00 :: u32)"
abbreviation (input) EFUSE_TIMING_VALUE where "EFUSE_TIMING_VALUE \<equiv> (0x16004843 :: u32)"
abbreviation (input) EFUSE_POLL_LIMIT where "EFUSE_POLL_LIMIT \<equiv> (5000 :: nat)"
abbreviation (input) EFUSE_POLL_DELAY_US where "EFUSE_POLL_DELAY_US \<equiv> (1000 :: u32)"
abbreviation (input) HC15XX_EFUSE_DATA_WORDS where "HC15XX_EFUSE_DATA_WORDS \<equiv> (8 :: nat)"
abbreviation (input) HC15XX_EFUSE_DATA_BYTES where "HC15XX_EFUSE_DATA_BYTES \<equiv> (32 :: nat)"

record hc15xx_efuse =
  ef_base :: addr

section \<open>The driver\<close>

definition efuse_reg_read :: "('m, 'z) mmio_io_scheme \<Rightarrow> hc15xx_efuse \<Rightarrow> u32 \<Rightarrow> 'm \<Rightarrow> u32 \<times> 'm" where
  "efuse_reg_read io e off m = read32 io m (ef_base e + off)"

definition efuse_reg_write :: "('m, 'z) mmio_io_scheme \<Rightarrow> hc15xx_efuse \<Rightarrow> u32 \<Rightarrow> u32 \<Rightarrow> 'm \<Rightarrow> 'm" where
  "efuse_reg_write io e off v m = write32 io m (ef_base e + off) v"

definition efuse_clear_status :: "('m, 'z) mmio_io_scheme \<Rightarrow> hc15xx_efuse \<Rightarrow> 'm \<Rightarrow> 'm" where
  "efuse_clear_status io e m =
     (let (status, m) = efuse_reg_read io e EFUSE_STATUS m
      in efuse_reg_write io e EFUSE_STATUS status m)"

definition efuse_poll_ready :: "('m, 'z) mmio_io_scheme \<Rightarrow> hc15xx_efuse \<Rightarrow> 'm \<Rightarrow> int \<times> 'm" where
  "efuse_poll_ready io e m =
     poll_reg io (ef_base e + EFUSE_STATUS) EFUSE_POLL_DELAY_US
       (\<lambda>status. if status AND EFUSE_STATUS_BUSY = 0 then Some 0 else None)
       (-16) EFUSE_POLL_LIMIT m"

definition efuse_setup_read :: "('m, 'z) mmio_io_scheme \<Rightarrow> hc15xx_efuse \<Rightarrow> 'm \<Rightarrow> int \<times> 'm" where
  "efuse_setup_read io e m =
     (let (ctrl, m) = efuse_reg_read io e EFUSE_CTRL m;
          ctrl = ctrl AND NOT EFUSE_CTRL_MODE_MASK;
          ctrl = ctrl OR EFUSE_CTRL_READ;
          m = efuse_reg_write io e EFUSE_CTRL ctrl m
      in efuse_poll_ready io e m)"

definition hc15xx_efuse_init :: "addr \<Rightarrow> hc15xx_efuse" where
  "hc15xx_efuse_init base = \<lparr>ef_base = base\<rparr>"

text \<open>The body of the read loop: one data register, four bytes of the caller's buffer.\<close>

definition efuse_read_word :: "('m, 'z) mmio_io_scheme \<Rightarrow> hc15xx_efuse \<Rightarrow> nat \<Rightarrow> u8 list \<times> 'm \<Rightarrow>
    u8 list \<times> 'm" where
  "efuse_read_word io e i = (\<lambda>(data, m).
     let (word, m) = efuse_reg_read io e (EFUSE_DATA0 + of_nat (i * 4)) m;
         data = data[i * 4 + 0 := ucast word];
         data = data[i * 4 + 1 := ucast (drop_bit 8 word)];
         data = data[i * 4 + 2 := ucast (drop_bit 16 word)];
         data = data[i * 4 + 3 := ucast (drop_bit 24 word)]
     in (data, m))"

definition hc15xx_efuse_read :: "('m, 'z) mmio_io_scheme \<Rightarrow> hc15xx_efuse \<Rightarrow> u8 list \<Rightarrow> 'm \<Rightarrow>
    int \<times> u8 list \<times> 'm" where
  "hc15xx_efuse_read io e data m =
     (let (ret, m) = efuse_setup_read io e m
      in if ret < 0 then (ret, data, m)
         else let (data, m) = fold (efuse_read_word io e) [0..<HC15XX_EFUSE_DATA_WORDS] (data, m)
              in (int HC15XX_EFUSE_DATA_BYTES, data, efuse_clear_status io e m))"

definition efuse_raw_write :: "('m, 'z) mmio_io_scheme \<Rightarrow> hc15xx_efuse \<Rightarrow> u32 list \<Rightarrow> 'm \<Rightarrow> int \<times> 'm" where
  "efuse_raw_write io e words m =
     (let (ret, m) = efuse_poll_ready io e m
      in if ret < 0 then (ret, m)
         else
           let m = fold (\<lambda>i. efuse_reg_write io e (EFUSE_DATA0 + of_nat (i * 4)) (words ! i))
                     [0..<HC15XX_EFUSE_DATA_WORDS] m;
               m = efuse_reg_write io e EFUSE_TIMING EFUSE_TIMING_VALUE m;
               (ctrl, m) = efuse_reg_read io e EFUSE_CTRL m;
               ctrl = ctrl AND NOT EFUSE_CTRL_MODE_MASK;
               ctrl = ctrl OR EFUSE_CTRL_WRITE;
               m = efuse_reg_write io e EFUSE_CTRL ctrl m
           in poll_reg io (ef_base e + EFUSE_STATUS) EFUSE_POLL_DELAY_US
                (\<lambda>status. if status AND EFUSE_STATUS_ERR_MASK \<noteq> 0 then Some (-1)
                          else if status AND EFUSE_STATUS_BUSY = 0 then Some 0 else None)
                (-16) EFUSE_POLL_LIMIT m)"

text \<open>The words to program: the requested bits that are not set yet.\<close>

definition efuse_word_at :: "u8 list \<Rightarrow> nat \<Rightarrow> u32" where
  "efuse_word_at d i = le32_of (d ! (i * 4)) (d ! (i * 4 + 1)) (d ! (i * 4 + 2)) (d ! (i * 4 + 3))"

definition efuse_delta :: "u8 list \<Rightarrow> u8 list \<Rightarrow> u32 list" where
  "efuse_delta data current =
     map (\<lambda>i. let new_word = efuse_word_at data i; cur_word = efuse_word_at current i
              in new_word AND NOT cur_word) [0..<HC15XX_EFUSE_DATA_WORDS]"

text \<open>
  \<open>current\<close> is an uninitialised automatic array in the source; here its initial content is a
  parameter \<open>stack\<close>, and it is fully overwritten before it is used.
\<close>

definition hc15xx_efuse_write :: "('m, 'z) mmio_io_scheme \<Rightarrow> hc15xx_efuse \<Rightarrow> u8 list \<Rightarrow> u8 list \<Rightarrow>
    'm \<Rightarrow> int \<times> 'm" where
  "hc15xx_efuse_write io e stack data m =
     (let (ret, current, m) = hc15xx_efuse_read io e stack m
      in if ret < 0 then (ret, m)
         else let words = efuse_delta data current
              in if \<exists>w \<in> set words. w \<noteq> 0 then efuse_raw_write io e words m
                 else (0, m))"

text \<open>
  One step of the bit loop. \<open>bits[src_byte]\<close> is read from the caller's buffer and
  \<open>data[dst_byte]\<close> is written in the local one; \<open>None\<close> is an access outside either.
\<close>

definition efuse_bit_step :: "u32 \<Rightarrow> u8 list \<Rightarrow> nat \<Rightarrow> u8 list option \<Rightarrow> u8 list option" where
  "efuse_bit_step bit_offset bits i st =
     (case st of None \<Rightarrow> None | Some data \<Rightarrow>
        let src_byte = i div 8;
            src_bit = i mod 8;
            dst_bit = unat (bit_offset + of_nat i);
            dst_byte = dst_bit div 8;
            dst_off = dst_bit mod 8
        in if src_byte \<ge> length bits then None
           else if (ucast (bits ! src_byte) :: u32) AND push_bit src_bit 1 \<noteq> 0 then
             (if dst_byte \<ge> length data then None
              else Some (data[dst_byte := data ! dst_byte OR push_bit dst_off 1]))
           else Some data)"

definition efuse_bits_data :: "u32 \<Rightarrow> u8 list \<Rightarrow> u32 \<Rightarrow> u8 list option" where
  "efuse_bits_data bit_offset bits bit_count =
     fold (efuse_bit_step bit_offset bits) [0..<unat bit_count]
       (Some (replicate HC15XX_EFUSE_DATA_BYTES 0))"

text \<open>\<open>None\<close>: the call reads or writes outside its buffers.\<close>

definition hc15xx_efuse_bits_write :: "('m, 'z) mmio_io_scheme \<Rightarrow> hc15xx_efuse \<Rightarrow> u8 list \<Rightarrow> u32 \<Rightarrow>
    u8 list \<Rightarrow> u32 \<Rightarrow> 'm \<Rightarrow> (int \<times> 'm) option" where
  "hc15xx_efuse_bits_write io e stack bit_offset bits bit_count m =
     (if bit_offset + bit_count > 256 then Some (-1, m)
      else case efuse_bits_data bit_offset bits bit_count of
             None \<Rightarrow> None
           | Some data \<Rightarrow> Some (hc15xx_efuse_write io e stack data m))"

section \<open>Reading and programming on a bank of registers\<close>

definition efuse_offsets :: "u32 list" where
  "efuse_offsets = [EFUSE_CTRL, EFUSE_STATUS, EFUSE_TIMING] @
     map (\<lambda>i. EFUSE_DATA0 + of_nat (i * 4)) [0..<HC15XX_EFUSE_DATA_WORDS]"

definition efuse_mapped :: "(addr \<Rightarrow> bool) \<Rightarrow> hc15xx_efuse \<Rightarrow> bool" where
  "efuse_mapped mapped e \<longleftrightarrow> (\<forall>off \<in> set efuse_offsets. mapped (ef_base e + off))"

text \<open>The data register of word \<open>i\<close>; the eight of them and the control registers are distinct.\<close>

definition data_reg :: "hc15xx_efuse \<Rightarrow> nat \<Rightarrow> addr" where
  "data_reg e i = ef_base e + (EFUSE_DATA0 + of_nat (i * 4))"

lemma data_reg_mapped: "efuse_mapped mapped e \<Longrightarrow> i < 8 \<Longrightarrow> mapped (data_reg e i)"
  by (auto simp: efuse_mapped_def efuse_offsets_def data_reg_def)

lemma data_off_unat: "i < 8 \<Longrightarrow> unat (EFUSE_DATA0 + of_nat (i * 4)) = 16 + 4 * i"
  by (simp add: unat_word_ariths unat_of_nat)

lemma data_reg_inj:
  assumes "i < 8" "j < 8"
  shows "data_reg e i = data_reg e j \<longleftrightarrow> i = j"
proof
  assume "data_reg e i = data_reg e j"
  then have "unat (EFUSE_DATA0 + of_nat (i * 4)) = unat (EFUSE_DATA0 + of_nat (j * 4))"
    by (simp add: data_reg_def)
  then show "i = j" unfolding data_off_unat [OF assms(1)] data_off_unat [OF assms(2)] by simp
qed simp

lemma data_reg_other:
  assumes "i < 8" "off \<in> {EFUSE_CTRL, EFUSE_STATUS, EFUSE_TIMING}"
  shows "data_reg e i \<noteq> ef_base e + off"
proof
  assume "data_reg e i = ef_base e + off"
  then have "unat (EFUSE_DATA0 + of_nat (i * 4)) = unat off"
    by (simp add: data_reg_def)
  then show False unfolding data_off_unat [OF assms(1)] using assms by auto
qed

lemma data_reg_neqs:
  assumes "i < 8"
  shows "data_reg e i \<noteq> ef_base e" "data_reg e i \<noteq> ef_base e + EFUSE_STATUS"
    "data_reg e i \<noteq> ef_base e + EFUSE_TIMING"
  using data_reg_other [OF assms, of EFUSE_CTRL e] data_reg_other [OF assms, of EFUSE_STATUS e]
    data_reg_other [OF assms, of EFUSE_TIMING e] by simp_all

lemma efuse_read_word_length [simp]:
  "length (fst (efuse_read_word io e i (data, m))) = length data"
  by (simp add: efuse_read_word_def split_def Let_def)

lemma efuse_read_word_data:
  assumes "length data = 32" and "i < 8" and "j < 32"
  shows "fst (efuse_read_word io e i (data, m)) ! j =
      (if j div 4 = i then byte_of (j mod 4) (fst (read32 io m (data_reg e i))) else data ! j)"
proof -
  let ?w = "fst (read32 io m (data_reg e i))"
  have d: "fst (efuse_read_word io e i (data, m)) =
      data[i * 4 := byte_of 0 ?w, i * 4 + 1 := byte_of 1 ?w, i * 4 + 2 := byte_of 2 ?w,
           i * 4 + 3 := byte_of 3 ?w]"
    by (simp add: efuse_read_word_def efuse_reg_read_def data_reg_def byte_of_def split_def Let_def)
  define k where "k = j mod 4"
  have k: "k = 0 \<or> k = 1 \<or> k = 2 \<or> k = 3" unfolding k_def by arith
  have j: "j = j div 4 * 4 + k" by (simp add: k_def)
  have "i * 4 + 3 < length data" using assms by simp
  then show ?thesis unfolding d using k j
    by (subst nth_store4) (auto simp: k_def [symmetric])
qed

text \<open>The store loop of \<open>efuse_raw_write\<close>, in terms of the data registers.\<close>

lemma efuse_store_loop:
  "(\<lambda>i. efuse_reg_write io e (EFUSE_DATA0 + of_nat (i * 4)) (words ! i)) =
     (\<lambda>i m. write32 io m (data_reg e i) (words ! i))"
  by (simp add: fun_eq_iff efuse_reg_write_def data_reg_def)

context reg_file
begin

lemma efuse_read_fold:
  assumes "efuse_mapped mapped e" and "length data = 32" and "n \<le> 8"
  shows "length (fst (fold (efuse_read_word io e) [0..<n] (data, m))) = 32 \<and>
    view (snd (fold (efuse_read_word io e) [0..<n] (data, m))) = view m \<and>
    (\<forall>j < 32. fst (fold (efuse_read_word io e) [0..<n] (data, m)) ! j =
       (if j div 4 < n then byte_of (j mod 4) (view m (data_reg e (j div 4))) else data ! j))"
  using assms(3)
proof (induction n)
  case 0
  then show ?case using assms by simp
next
  case (Suc n)
  obtain d m' where f: "fold (efuse_read_word io e) [0..<n] (data, m) = (d, m')" by fastforce
  with Suc have d: "length d = 32" and m': "view m' = view m"
    and dj: "\<And>j. j < 32 \<Longrightarrow> d ! j =
       (if j div 4 < n then byte_of (j mod 4) (view m (data_reg e (j div 4))) else data ! j)"
    by simp_all
  have reg: "mapped (data_reg e n)" using assms(1) Suc.prems by (simp add: data_reg_mapped)
  have "view (snd (efuse_read_word io e n (d, m'))) = view m"
    using reg m' by (simp add: efuse_read_word_def efuse_reg_read_def split_def Let_def data_reg_def reg_simps)
  moreover have "fst (efuse_read_word io e n (d, m')) ! j =
      (if j div 4 < Suc n then byte_of (j mod 4) (view m (data_reg e (j div 4))) else data ! j)"
    if "j < 32" for j
    using that Suc.prems d dj [OF that] reg m'
    by (auto simp: efuse_read_word_data reg_simps less_Suc_eq)
  ultimately show ?case
    using Suc.prems d by (simp add: f)
qed

text \<open>A ready fuse block reads out as its data registers in little-endian order.\<close>

lemma efuse_setup_ready:
  assumes "efuse_mapped mapped e" and "view m (ef_base e + EFUSE_STATUS) AND EFUSE_STATUS_BUSY = 0"
  shows "fst (efuse_setup_read io e m) = 0"
    and "mapped b \<Longrightarrow> view (snd (efuse_setup_read io e m)) b =
      (if b = ef_base e + EFUSE_CTRL
       then masked EFUSE_CTRL_MODE_MASK (view m b) EFUSE_CTRL_READ else view m b)"
  using assms
  by (auto simp: efuse_setup_read_def efuse_poll_ready_def efuse_reg_read_def efuse_reg_write_def
      efuse_mapped_def efuse_offsets_def split_def Let_def poll_reg_const poll_reg_view reg_simps
      masked_def)

lemma efuse_read_ready:
  assumes map: "efuse_mapped mapped e" and len: "length data = 32"
    and ready: "view m (ef_base e + EFUSE_STATUS) AND EFUSE_STATUS_BUSY = 0"
  shows "\<exists>d m'. hc15xx_efuse_read io e data m = (32, d, m') \<and> length d = 32 \<and>
     (\<forall>j < 32. d ! j = byte_of (j mod 4) (view m (data_reg e (j div 4)))) \<and>
     (\<forall>b. mapped b \<longrightarrow> view m' b = (if b = ef_base e + EFUSE_CTRL
        then masked EFUSE_CTRL_MODE_MASK (view m b) EFUSE_CTRL_READ else view m b))"
proof -
  let ?m1 = "snd (efuse_setup_read io e m)"
  let ?f = "fold (efuse_read_word io e) [0..<8] (data, ?m1)"
  let ?m' = "efuse_clear_status io e (snd ?f)"
  note su = efuse_setup_ready [OF map ready]
  note f = efuse_read_fold [OF map len order_refl, of ?m1]
  have st: "mapped (ef_base e + EFUSE_STATUS)"
    using map by (simp add: efuse_mapped_def efuse_offsets_def)
  have "view ?m' b = view ?m1 b" if "mapped b" for b
    using that st f by (simp add: efuse_clear_status_def efuse_reg_read_def efuse_reg_write_def
        split_def Let_def reg_simps)
  moreover have "fst ?f ! j = byte_of (j mod 4) (view m (data_reg e (j div 4)))" if "j < 32" for j
  proof -
    have "j div 4 < 8" using that by simp
    with f that map su(2) [of "data_reg e (j div 4)"] show ?thesis
      by (simp add: data_reg_mapped data_reg_neqs)
  qed
  moreover have "hc15xx_efuse_read io e data m = (32, fst ?f, ?m')"
    using su(1) by (simp add: hc15xx_efuse_read_def split_def Let_def)
  ultimately show ?thesis
    using f su(2) by auto
qed

lemma efuse_store_words:
  assumes "efuse_mapped mapped e" and "n \<le> 8"
  shows "(\<forall>i < n. view (fold (\<lambda>i. efuse_reg_write io e (EFUSE_DATA0 + of_nat (i * 4)) (words ! i))
        [0..<n] m) (data_reg e i) = words ! i) \<and>
    (\<forall>b. mapped b \<and> (\<forall>i < n. b \<noteq> data_reg e i) \<longrightarrow>
      view (fold (\<lambda>i. efuse_reg_write io e (EFUSE_DATA0 + of_nat (i * 4)) (words ! i)) [0..<n] m) b
        = view m b)"
  using assms(2)
proof (induction n)
  case (Suc n)
  then show ?case using assms(1) unfolding efuse_store_loop
    by (auto simp: reg_simps data_reg_mapped data_reg_inj less_Suc_eq)
qed simp

text \<open>
  Programming a ready block: the words reach the data registers, the timing value is set, the
  control register is put in write mode, everything else is kept.
\<close>

lemma efuse_raw_write_ready:
  assumes map: "efuse_mapped mapped e"
    and ready: "view m (ef_base e + EFUSE_STATUS) AND EFUSE_STATUS_BUSY = 0"
    and ok: "view m (ef_base e + EFUSE_STATUS) AND EFUSE_STATUS_ERR_MASK = 0"
  shows "fst (efuse_raw_write io e words m) = 0"
    and "i < 8 \<Longrightarrow> view (snd (efuse_raw_write io e words m)) (data_reg e i) = words ! i"
    and "view (snd (efuse_raw_write io e words m)) (ef_base e + EFUSE_CTRL) =
      masked EFUSE_CTRL_MODE_MASK (view m (ef_base e + EFUSE_CTRL)) EFUSE_CTRL_WRITE"
proof -
  let ?poll = "efuse_poll_ready io e m"
  let ?m1 = "fold (\<lambda>i. efuse_reg_write io e (EFUSE_DATA0 + of_nat (i * 4)) (words ! i)) [0..<8] (snd ?poll)"
  have regs: "mapped (ef_base e)" "mapped (ef_base e + EFUSE_STATUS)" "mapped (ef_base e + EFUSE_TIMING)"
    using map by (simp_all add: efuse_mapped_def efuse_offsets_def)
  have poll: "fst ?poll = 0" "view (snd ?poll) = view m"
    using ready regs by (simp_all add: efuse_poll_ready_def poll_reg_const poll_reg_view)
  note store = efuse_store_words [OF map order_refl, of words "snd ?poll"]
  have keep: "view ?m1 (ef_base e) = view m (ef_base e)"
    "view ?m1 (ef_base e + EFUSE_STATUS) = view m (ef_base e + EFUSE_STATUS)"
    using store [THEN conjunct2, rule_format, of "ef_base e"]
      store [THEN conjunct2, rule_format, of "ef_base e + EFUSE_STATUS"] regs poll(2)
    by (simp_all add: data_reg_neqs [THEN not_sym])
  show "fst (efuse_raw_write io e words m) = 0"
    using poll keep regs ready ok
    by (simp add: efuse_raw_write_def split_def Let_def efuse_reg_write_def efuse_reg_read_def
        reg_simps poll_reg_const)
  show "view (snd (efuse_raw_write io e words m)) (data_reg e i) = words ! i" if "i < 8"
    using poll store that regs
    by (simp add: efuse_raw_write_def split_def Let_def efuse_reg_write_def efuse_reg_read_def
        reg_simps poll_reg_view data_reg_neqs data_reg_mapped [OF map])
  show "view (snd (efuse_raw_write io e words m)) (ef_base e + EFUSE_CTRL) =
      masked EFUSE_CTRL_MODE_MASK (view m (ef_base e + EFUSE_CTRL)) EFUSE_CTRL_WRITE"
    using poll keep regs
    by (simp add: efuse_raw_write_def split_def Let_def efuse_reg_write_def efuse_reg_read_def
        reg_simps poll_reg_view masked_def)
qed

end

lemma efuse_word_at_bytes:
  assumes "\<forall>j < 32. d ! j = byte_of (j mod 4) (f (j div 4))" and "i < 8"
  shows "efuse_word_at d i = f i"
proof -
  have "d ! (i * 4 + k) = byte_of k (f i)" if "k < 4" for k
  proof -
    have "(i * 4 + k) mod 4 = k" "(i * 4 + k) div 4 = i" using that by presburger+
    with assms that show ?thesis by simp
  qed
  from this [of 0] this [of 1] this [of 2] this [of 3] show ?thesis
    by (simp add: efuse_word_at_def)
qed

lemma length_efuse_delta [simp]: "length (efuse_delta data current) = 8"
  by (simp add: efuse_delta_def)

lemma nth_efuse_delta [simp]:
  "i < 8 \<Longrightarrow> efuse_delta data current ! i = efuse_word_at data i AND NOT (efuse_word_at current i)"
  by (simp add: efuse_delta_def Let_def)

lemma efuse_delta_zero_iff:
  "(\<exists>w \<in> set (efuse_delta data current). w \<noteq> 0) \<longleftrightarrow>
     (\<exists>i < 8. efuse_word_at data i AND NOT (efuse_word_at current i) \<noteq> 0)"
  by (auto simp: efuse_delta_def Let_def)

section \<open>The log of a programming run, whatever the hardware answers\<close>

text \<open>
  On the trace bus nothing is assumed of the fuse block. Each loop appends to the log; what a
  loop appends is described by a list of events.
\<close>

lemma efuse_read_word_log:
  "events (snd (efuse_read_word trace_io e i (d, t))) =
     events t @ [EvRead (data_reg e i) (next_answer t)]"
  "fst (read32 trace_io t a) = next_answer t"
  by (simp_all add: efuse_read_word_def efuse_reg_read_def data_reg_def split_def Let_def)

lemma efuse_read_fold_log:
  assumes "length data = 32" and "n \<le> 8"
  shows "\<exists>vs. length vs = n \<and>
    events (snd (fold (efuse_read_word trace_io e) [0..<n] (data, t))) =
      events t @ map (\<lambda>i. EvRead (data_reg e i) (vs ! i)) [0..<n] \<and>
    length (fst (fold (efuse_read_word trace_io e) [0..<n] (data, t))) = 32 \<and>
    (\<forall>j < 4 * n. fst (fold (efuse_read_word trace_io e) [0..<n] (data, t)) ! j =
       byte_of (j mod 4) (vs ! (j div 4)))"
  using assms(2)
proof (induction n)
  case 0
  then show ?case using assms by simp
next
  case (Suc n)
  obtain d t' where f: "fold (efuse_read_word trace_io e) [0..<n] (data, t) = (d, t')"
    by fastforce
  with Suc obtain vs where vs: "length vs = n" "length d = 32"
    and ev: "events t' = events t @ map (\<lambda>i. EvRead (data_reg e i) (vs ! i)) [0..<n]"
    and dj: "\<And>j. j < 4 * n \<Longrightarrow> d ! j = byte_of (j mod 4) (vs ! (j div 4))"
    by auto
  let ?vs = "vs @ [next_answer t']"
  have "fst (efuse_read_word trace_io e n (d, t')) ! j = byte_of (j mod 4) (?vs ! (j div 4))"
    if "j < 4 * Suc n" for j
  proof -
    have "j < 32" "j div 4 < Suc n" using that Suc.prems by simp_all
    with Suc.prems vs dj [of j] show ?thesis
      by (auto simp: efuse_read_word_data efuse_read_word_log nth_append less_Suc_eq)
  qed
  then show ?case using vs ev f
    by (intro exI [of _ ?vs]) (auto simp: efuse_read_word_log nth_append)
qed

definition quiet :: "hc15xx_efuse \<Rightarrow> bus_event list \<Rightarrow> bool" where
  "quiet e es \<longleftrightarrow> (\<forall>i v. i < 8 \<longrightarrow> EvWrite (data_reg e i) v \<notin> set es)"

lemma quiet_simps [simp]:
  "quiet e []" "quiet e (xs @ ys) \<longleftrightarrow> quiet e xs \<and> quiet e ys"
  "quiet e (EvRead a v # es) = quiet e es" "quiet e (EvDelay d # es) = quiet e es"
  by (auto simp: quiet_def)

lemma quiet_write [simp]:
  "quiet e (EvWrite (ef_base e) v # es) = quiet e es"
  "quiet e (EvWrite (ef_base e + EFUSE_STATUS) v # es) = quiet e es"
  "quiet e (EvWrite (ef_base e + EFUSE_TIMING) v # es) = quiet e es"
  by (auto simp: quiet_def data_reg_neqs)

lemma quiet_no_writes: "filter is_write es = [] \<Longrightarrow> quiet e es"
  by (auto simp: quiet_def filter_empty_conv)

lemmas poll_reg_trace_log = poll_reg_log [of trace_io, simplified]

lemma efuse_setup_log:
  "\<exists>es. events (snd (efuse_setup_read trace_io e t)) = events t @ es \<and> quiet e es \<and>
     total_delay es \<le> 5000 * 1000"
proof -
  let ?t1 = "snd (trace_read t (ef_base e))"
  let ?w = "EvWrite (ef_base e) (next_answer t AND NOT EFUSE_CTRL_MODE_MASK OR EFUSE_CTRL_READ)"
  obtain es where "events (snd (efuse_poll_ready trace_io e (emit_ev ?w ?t1))) =
      events (emit_ev ?w ?t1) @ es" "filter is_write es = []" "total_delay es \<le> 5000 * unat (1000::u32)"
    using poll_reg_trace_log unfolding efuse_poll_ready_def by blast
  then show ?thesis
    by (intro exI [of _ "[EvRead (ef_base e) (next_answer t), ?w] @ es"])
      (simp add: efuse_setup_read_def efuse_reg_read_def efuse_reg_write_def split_def Let_def
        quiet_no_writes)
qed

text \<open>Reading: eight data registers in order, and the buffer holds their bytes.\<close>

lemma efuse_read_log:
  assumes "length data = 32"
  shows "\<exists>ret d t' es vs. hc15xx_efuse_read trace_io e data t = (ret, d, t') \<and>
     events t' = events t @ es \<and> quiet e es \<and> total_delay es \<le> 5000 * 1000 \<and>
     (0 \<le> ret \<longrightarrow> (\<forall>i < 8. EvRead (data_reg e i) (vs i) \<in> set es \<and> efuse_word_at d i = vs i))"
proof -
  obtain r t1 where su: "efuse_setup_read trace_io e t = (r, t1)" by fastforce
  with efuse_setup_log [of e t] obtain es1 where
    es1: "events t1 = events t @ es1" "quiet e es1" "total_delay es1 \<le> 5000 * 1000" by auto
  obtain d t2 where f: "fold (efuse_read_word trace_io e) [0..<8] (data, t1) = (d, t2)" by fastforce
  with efuse_read_fold_log [OF assms order_refl, of e t1] obtain vs where
    ev: "events t2 = events t1 @ map (\<lambda>i. EvRead (data_reg e i) (vs ! i)) [0..<8]"
    and dj: "\<forall>j < 32. d ! j = byte_of (j mod 4) (vs ! (j div 4))"
    by auto
  let ?st = "ef_base e + EFUSE_STATUS"
  let ?es = "es1 @ map (\<lambda>i. EvRead (data_reg e i) (vs ! i)) [0..<8] @
    [EvRead ?st (next_answer t2), EvWrite ?st (next_answer t2)]"
  have q: "quiet e (map (\<lambda>i. EvRead (data_reg e i) (vs ! i)) [0..<8])"
    "total_delay (map (\<lambda>i. EvRead (data_reg e i) (vs ! i)) [0..<8]) = 0"
    by (auto simp: quiet_def total_delay_def comp_def)
  show ?thesis
  proof (cases "r < 0")
    case True
    then show ?thesis using su es1 by (auto simp: hc15xx_efuse_read_def)
  next
    case False
    have "hc15xx_efuse_read trace_io e data t = (32, d, efuse_clear_status trace_io e t2)"
      using False su f by (simp add: hc15xx_efuse_read_def)
    moreover have "events (efuse_clear_status trace_io e t2) = events t @ ?es"
      using es1 ev by (simp add: efuse_clear_status_def efuse_reg_read_def efuse_reg_write_def
          split_def Let_def)
    moreover have "total_delay ?es \<le> 5000 * 1000"
      using es1(3) q(2) by simp
    moreover have "\<forall>i < 8. EvRead (data_reg e i) (vs ! i) \<in> set ?es \<and> efuse_word_at d i = vs ! i"
      using efuse_word_at_bytes [OF dj] by auto
    ultimately show ?thesis using es1(2) q(1)
      by (intro exI [of _ "32"] exI [of _ d] exI [of _ "efuse_clear_status trace_io e t2"]
          exI [of _ ?es] exI [of _ "\<lambda>i. vs ! i"]) simp
  qed
qed

text \<open>Programming: the log writes word \<open>i\<close> to data register \<open>i\<close> and nothing else there.\<close>

lemma efuse_raw_write_log:
  assumes "length words = 8"
  shows "\<exists>es. events (snd (efuse_raw_write trace_io e words t)) = events t @ es \<and>
    (\<forall>i v. i < 8 \<and> EvWrite (data_reg e i) v \<in> set es \<longrightarrow> v = words ! i) \<and>
    total_delay es \<le> 2 * (5000 * 1000)"
proof -
  obtain r t1 where p: "efuse_poll_ready trace_io e t = (r, t1)" by fastforce
  obtain es1 where es1: "events t1 = events t @ es1" "filter is_write es1 = []"
    "total_delay es1 \<le> 5000 * unat (1000::u32)"
    using poll_reg_trace_log [of "ef_base e + EFUSE_STATUS" 1000 _ "-16" 5000 t] p
    unfolding efuse_poll_ready_def by (metis snd_conv)
  let ?ws = "map (\<lambda>i. EvWrite (data_reg e i) (words ! i)) [0..<8]"
  have store: "events (fold (\<lambda>i m. emit_ev (EvWrite (data_reg e i) (words ! i)) m) [0..<n] s) =
      events s @ map (\<lambda>i. EvWrite (data_reg e i) (words ! i)) [0..<n]" for n s
    by (induction n arbitrary: s) simp_all
  let ?t2 = "fold (\<lambda>i m. emit_ev (EvWrite (data_reg e i) (words ! i)) m) [0..<8] t1"
  let ?t3 = "emit_ev (EvWrite (ef_base e + EFUSE_TIMING) EFUSE_TIMING_VALUE) ?t2"
  let ?w = "EvWrite (ef_base e) (next_answer ?t3 AND NOT EFUSE_CTRL_MODE_MASK OR EFUSE_CTRL_WRITE)"
  let ?t4 = "emit_ev ?w (snd (trace_read ?t3 (ef_base e)))"
  let ?dec = "\<lambda>status. if status AND EFUSE_STATUS_ERR_MASK \<noteq> 0 then Some (-1 :: int)
    else if status AND EFUSE_STATUS_BUSY = 0 then Some 0 else None"
  obtain es2 where es2: "events (snd (poll_reg trace_io (ef_base e + EFUSE_STATUS) 1000 ?dec (-16) 5000 ?t4)) =
      events ?t4 @ es2" "filter is_write es2 = []" "total_delay es2 \<le> 5000 * unat (1000::u32)"
    using poll_reg_trace_log by blast
  let ?tail = "[EvWrite (ef_base e + EFUSE_TIMING) EFUSE_TIMING_VALUE,
      EvRead (ef_base e) (next_answer ?t3), ?w] @ es2"
  have quiet: "quiet e es1" "quiet e ?tail"
    using es1(2) es2(2) by (simp_all add: quiet_no_writes)
  have ws: "total_delay ?ws = 0" by (simp add: total_delay_def comp_def)
  show ?thesis
  proof (cases "r < 0")
    case True
    then show ?thesis using p es1 quiet(1) by (auto simp: efuse_raw_write_def quiet_def)
  next
    case False
    have "events (snd (efuse_raw_write trace_io e words t)) = events t @ es1 @ ?ws @ ?tail"
      using False p es1 es2(1) unfolding efuse_raw_write_def efuse_store_loop
      by (simp add: efuse_reg_read_def efuse_reg_write_def split_def Let_def store)
    moreover have "\<forall>i v. i < 8 \<and> EvWrite (data_reg e i) v \<in> set (es1 @ ?ws @ ?tail) \<longrightarrow> v = words ! i"
      using quiet by (auto simp: quiet_def data_reg_inj data_reg_neqs)
    moreover have "total_delay (es1 @ ?ws @ ?tail) \<le> 2 * (5000 * 1000)"
      using es1(3) es2(3) ws by simp
    ultimately show ?thesis by blast
  qed
qed

text \<open>The return codes, on any machine.\<close>

lemma efuse_poll_ready_range: "fst (efuse_poll_ready io e m) \<in> {0, -16}"
  unfolding efuse_poll_ready_def
  by (rule subsetD [OF _ poll_reg_range]) (auto simp: ran_def split: if_splits)

lemma efuse_setup_range: "fst (efuse_setup_read io e m) \<in> {0, -16}"
  unfolding efuse_setup_read_def split_def Let_def by (rule efuse_poll_ready_range)

lemma efuse_raw_write_range: "fst (efuse_raw_write io e words m) \<in> {0, -1, -16}"
proof -
  have "fst (poll_reg io a u (\<lambda>status. if status AND EFUSE_STATUS_ERR_MASK \<noteq> 0 then Some (-1)
      else if status AND EFUSE_STATUS_BUSY = 0 then Some 0 else None) (-16) n s) \<in> {0, -1, -16}"
    for a u n s
    by (rule subsetD [OF _ poll_reg_range]) (auto simp: ran_def split: if_splits)
  with efuse_poll_ready_range [of io e m] show ?thesis
    unfolding efuse_raw_write_def split_def Let_def by (auto split: if_splits)
qed

section \<open>Bit strings\<close>

text \<open>Bit \<open>k\<close> of a byte buffer, counted from the least significant bit of byte 0.\<close>

definition buf_bit :: "u8 list \<Rightarrow> nat \<Rightarrow> bool" where
  "buf_bit d k \<longleftrightarrow> bit (d ! (k div 8)) (k mod 8)"

lemma and_push_bit_1_iff:
  fixes b :: u8
  assumes "n < 8"
  shows "(ucast b :: u32) AND 2 ^ n \<noteq> 0 \<longleftrightarrow> bit b n"
  using assms and_BIT_eq_0 [of n "ucast b :: u32"] by (simp add: BIT_eq_power bit_simps)

lemma buf_bit_set:
  assumes "dst < 8 * length d" and "k < 8 * length d"
  shows "buf_bit (d[dst div 8 := d ! (dst div 8) OR 2 ^ (dst mod 8)]) k \<longleftrightarrow>
    buf_bit d k \<or> k = dst"
proof -
  have "dst div 8 < length d" "k div 8 < length d" using assms by linarith+
  moreover have "k = dst \<longleftrightarrow> k div 8 = dst div 8 \<and> k mod 8 = dst mod 8"
    by (metis div_mult_mod_eq)
  ultimately show ?thesis by (auto simp: buf_bit_def nth_list_update bit_simps)
qed

lemma efuse_bit_step_some:
  assumes "i < 8 * length bits" and "unat off + i < 8 * length d" and "length d = 32"
  shows "efuse_bit_step off bits i (Some d) =
    Some (if buf_bit bits i
          then d[(unat off + i) div 8 := d ! ((unat off + i) div 8) OR 2 ^ ((unat off + i) mod 8)]
          else d)"
proof -
  have "unat (off + of_nat i) = unat off + i"
    using assms by (simp add: unat_word_ariths unat_of_nat)
  moreover have "i div 8 < length bits" "(unat off + i) div 8 < length d" using assms by linarith+
  ultimately show ?thesis
    by (simp add: efuse_bit_step_def Let_def and_push_bit_1_iff buf_bit_def not_le)
qed

lemma efuse_bits_fold:
  assumes "unat off + n \<le> 256" and "n \<le> 8 * length bits"
  shows "\<exists>d. fold (efuse_bit_step off bits) [0..<n] (Some (replicate 32 0)) = Some d \<and> length d = 32 \<and>
    (\<forall>k < 256. buf_bit d k \<longleftrightarrow> unat off \<le> k \<and> k < unat off + n \<and> buf_bit bits (k - unat off))"
  using assms
proof (induction n)
  case 0
  then show ?case by (auto simp: buf_bit_def)
next
  case (Suc n)
  then obtain d where d: "fold (efuse_bit_step off bits) [0..<n] (Some (replicate 32 0)) = Some d"
    "length d = 32" and bits: "\<forall>k < 256. buf_bit d k \<longleftrightarrow>
       unat off \<le> k \<and> k < unat off + n \<and> buf_bit bits (k - unat off)"
    by auto
  let ?d = "if buf_bit bits n then d[(unat off + n) div 8 := d ! ((unat off + n) div 8) OR
      2 ^ ((unat off + n) mod 8)] else d"
  have "efuse_bit_step off bits n (Some d) = Some ?d"
    by (rule efuse_bit_step_some) (use Suc.prems d(2) in auto)
  moreover have "buf_bit ?d k \<longleftrightarrow> unat off \<le> k \<and> k < unat off + Suc n \<and> buf_bit bits (k - unat off)"
    if "k < 256" for k
    using that bits Suc.prems d(2) by (auto simp: buf_bit_set less_Suc_eq)
  ultimately show ?case using d by (intro exI [of _ ?d]) auto
qed

section \<open>Properties\<close>

text \<open>
  C5. On a ready fuse block \<open>hc15xx_efuse_write\<close> succeeds, and it programs exactly the requested
  bits that are not burnt yet: when there are such bits, every data register ends up holding the
  requested word without the bits already set and the controller is put in write mode; when there
  are none, no data register changes and the controller is left in read mode.
\<close>

theorem efuse_write_programs_delta:
  assumes "reg_file io view mapped" and "efuse_mapped mapped e"
    and "length stack = 32" and "length data = 32"
    and "view m (ef_base e + EFUSE_STATUS) AND EFUSE_STATUS_BUSY = 0"
    and "view m (ef_base e + EFUSE_STATUS) AND EFUSE_STATUS_ERR_MASK = 0"
    and "hc15xx_efuse_write io e stack data m = (ret, m')"
    and "delta = (\<lambda>i. efuse_word_at data i AND NOT (view m (data_reg e i)))"
  shows "ret = 0 \<and>
    (if \<exists>i < 8. delta i \<noteq> 0
     then (\<forall>i < 8. view m' (data_reg e i) = delta i) \<and>
       view m' (ef_base e) AND EFUSE_CTRL_MODE_MASK = EFUSE_CTRL_WRITE
     else (\<forall>i < 8. view m' (data_reg e i) = view m (data_reg e i)) \<and>
       view m' (ef_base e) AND EFUSE_CTRL_MODE_MASK = EFUSE_CTRL_READ)"
proof -
  note rf = assms(1) and map = assms(2)
  have regs: "mapped (ef_base e)" "mapped (ef_base e + EFUSE_STATUS)"
    using map by (simp_all add: efuse_mapped_def efuse_offsets_def)
  from reg_file.efuse_read_ready [OF rf map assms(3,5)] obtain d m1 where
    rd: "hc15xx_efuse_read io e stack m = (32, d, m1)"
    and d: "\<forall>j < 32. d ! j = byte_of (j mod 4) (view m (data_reg e (j div 4)))"
    and m1: "\<And>b. mapped b \<Longrightarrow> view m1 b = (if b = ef_base e
        then masked EFUSE_CTRL_MODE_MASK (view m b) EFUSE_CTRL_READ else view m b)"
    by auto
  have cur: "efuse_word_at d i = view m (data_reg e i)" if "i < 8" for i
    using efuse_word_at_bytes [OF d that] .
  have st: "view m1 (ef_base e + EFUSE_STATUS) = view m (ef_base e + EFUSE_STATUS)"
    using m1 regs by simp
  note raw = reg_file.efuse_raw_write_ready [OF rf map, of m1, unfolded st, OF assms(5,6)]
  have delta: "(\<exists>w \<in> set (efuse_delta data d). w \<noteq> 0) \<longleftrightarrow> (\<exists>i < 8. delta i \<noteq> 0)"
    using cur by (auto simp: efuse_delta_zero_iff assms(8))
  show ?thesis
  proof (cases "\<exists>i < 8. delta i \<noteq> 0")
    case True
    then have "efuse_raw_write io e (efuse_delta data d) m1 = (ret, m')"
      using assms(7) rd delta by (simp add: hc15xx_efuse_write_def)
    with raw(1,3) [of "efuse_delta data d"] raw(2) [of _ "efuse_delta data d"] True cur show ?thesis
      by (simp add: assms(8) masked_inside)
  next
    case False
    then have "ret = 0" "m' = m1"
      using assms(7) rd delta by (auto simp: hc15xx_efuse_write_def split: if_splits)
    with False m1 regs data_reg_mapped [OF map] show ?thesis
      by (simp add: data_reg_neqs masked_inside)
  qed
qed

lemma efuse_write_programs_delta_witness:
  "fst (hc15xx_efuse_write fake_io \<lparr>ef_base = 0\<rparr> (replicate 32 0) (replicate 32 3)
     (fake_zero\<lparr>fake_regs := (\<lambda>_. 0)(4 := 1)\<rparr>)) = 0"
proof -
  let ?e = "\<lparr>ef_base = 0\<rparr>"
  let ?m = "fake_zero\<lparr>fake_regs := (\<lambda>_. 0)(4 := 1)\<rparr>"
  obtain r m' where w: "hc15xx_efuse_write fake_io ?e (replicate 32 0) (replicate 32 3) ?m = (r, m')"
    by fastforce
  have map: "efuse_mapped word_aligned ?e"
    by (simp add: efuse_mapped_def efuse_offsets_def word_aligned_def upt_rec)
  have "r = 0"
    using efuse_write_programs_delta [OF fake.reg_file_axioms map _ _ _ _ w refl]
    by (simp add: fake_view_def)
  with w show ?thesis by simp
qed

text \<open>
  C6. Whatever the fuse block answers, a programming run only ever writes to a data register the
  requested word with every bit removed that the same run has read as already burnt there: no bit
  that was not asked for and no bit that is already set is ever sent to the hardware.
\<close>

theorem efuse_write_safe:
  assumes "length stack = 32" and "length data = 32"
  shows "\<exists>es. events (snd (hc15xx_efuse_write trace_io e stack data t)) = events t @ es \<and>
    (\<forall>i v. i < 8 \<and> EvWrite (data_reg e i) v \<in> set es \<longrightarrow>
       (\<exists>r. EvRead (data_reg e i) r \<in> set es \<and> v = efuse_word_at data i AND NOT r))"
proof -
  obtain ret d t' es vs where rd: "hc15xx_efuse_read trace_io e stack t = (ret, d, t')"
    and es: "events t' = events t @ es" "quiet e es"
    and vs: "0 \<le> ret \<longrightarrow> (\<forall>i < 8. EvRead (data_reg e i) (vs i) \<in> set es \<and> efuse_word_at d i = vs i)"
    using efuse_read_log [OF assms(1), of e t] by blast
  obtain es2 where es2: "events (snd (efuse_raw_write trace_io e (efuse_delta data d) t')) = events t' @ es2"
    "\<forall>i v. i < 8 \<and> EvWrite (data_reg e i) v \<in> set es2 \<longrightarrow> v = efuse_delta data d ! i"
    using efuse_raw_write_log [OF length_efuse_delta] by blast
  consider "events (snd (hc15xx_efuse_write trace_io e stack data t)) = events t @ es"
    | "0 \<le> ret" "events (snd (hc15xx_efuse_write trace_io e stack data t)) = events t @ es @ es2"
    using rd es(1) es2(1) unfolding hc15xx_efuse_write_def Let_def
    by (cases "ret < 0"; cases "\<exists>w \<in> set (efuse_delta data d). w \<noteq> 0") auto
  then show ?thesis
  proof cases
    case 1
    with es(2) show ?thesis by (auto simp: quiet_def)
  next
    case 2
    have "\<forall>i v. i < 8 \<and> EvWrite (data_reg e i) v \<in> set (es @ es2) \<longrightarrow>
        (\<exists>r. EvRead (data_reg e i) r \<in> set (es @ es2) \<and> v = efuse_word_at data i AND NOT r)"
      using es(2) es2(2) vs 2(1) by (fastforce simp: quiet_def)
    with 2(2) show ?thesis by (intro exI [of _ "es @ es2"]) simp
  qed
qed

lemma efuse_write_safe_witness:
  "\<exists>es. events (snd (hc15xx_efuse_write trace_io \<lparr>ef_base = 0\<rparr> (replicate 32 0) (replicate 32 255)
       \<lparr>answers = [0, 0, 5], events = []\<rparr>)) = [] @ es \<and>
    (\<forall>i v. i < 8 \<and> EvWrite (data_reg \<lparr>ef_base = 0\<rparr> i) v \<in> set es \<longrightarrow>
       (\<exists>r. EvRead (data_reg \<lparr>ef_base = 0\<rparr> i) r \<in> set es \<and>
          v = efuse_word_at (replicate 32 255) i AND NOT r))"
  using efuse_write_safe [of "replicate 32 0" "replicate 32 255" "\<lparr>ef_base = 0\<rparr>"
      "\<lparr>answers = [0, 0, 5], events = []\<rparr>"] by simp

text \<open>
  Whatever the fuse block answers, \<open>hc15xx_efuse_write\<close> returns, with 0, -1 or -16, after
  delays of at most 15 seconds in total.
\<close>

theorem efuse_write_bounded:
  assumes "length stack = 32"
  shows "\<exists>es. events (snd (hc15xx_efuse_write trace_io e stack data t)) = events t @ es \<and>
    total_delay es \<le> 15000000 \<and>
    fst (hc15xx_efuse_write trace_io e stack data t) \<in> {0, -1, -16}"
proof -
  obtain ret d t' es where rd: "hc15xx_efuse_read trace_io e stack t = (ret, d, t')"
    and es: "events t' = events t @ es" "total_delay es \<le> 5000 * 1000"
    using efuse_read_log [OF assms, of e t] by blast
  obtain es2 where es2: "events (snd (efuse_raw_write trace_io e (efuse_delta data d) t')) = events t' @ es2"
    "total_delay es2 \<le> 2 * (5000 * 1000)"
    using efuse_raw_write_log [OF length_efuse_delta] by blast
  have ret: "ret \<in> {32, -16}"
    using rd efuse_setup_range [of trace_io e t] by (auto simp: hc15xx_efuse_read_def split_def Let_def
        split: if_splits)
  show ?thesis
  proof (cases "0 \<le> ret \<and> (\<exists>w \<in> set (efuse_delta data d). w \<noteq> 0)")
    case True
    with rd es es2 efuse_raw_write_range [of trace_io e "efuse_delta data d" t'] show ?thesis
      by (intro exI [of _ "es @ es2"]) (auto simp: hc15xx_efuse_write_def)
  next
    case False
    with rd es ret show ?thesis
      by (intro exI [of _ es]) (auto simp: hc15xx_efuse_write_def)
  qed
qed

lemma efuse_write_bounded_witness:
  "\<exists>es. events (snd (hc15xx_efuse_write trace_io \<lparr>ef_base = 0\<rparr> (replicate 32 0) (replicate 32 1)
       \<lparr>answers = replicate 9 0x80000000, events = []\<rparr>)) = [] @ es \<and>
    total_delay es \<le> 15000000 \<and>
    fst (hc15xx_efuse_write trace_io \<lparr>ef_base = 0\<rparr> (replicate 32 0) (replicate 32 1)
       \<lparr>answers = replicate 9 0x80000000, events = []\<rparr>) \<in> {0, -1, -16}"
  using efuse_write_bounded [of "replicate 32 0" "\<lparr>ef_base = 0\<rparr>" "replicate 32 1"
      "\<lparr>answers = replicate 9 0x80000000, events = []\<rparr>"] by simp

text \<open>
  For a bit range inside the 256 fuses and a source buffer that holds the bits,
  \<open>hc15xx_efuse_bits_write\<close> stays inside its buffers and requests exactly the image in which
  fuse \<open>bit_offset + i\<close> is bit \<open>i\<close> of the source and every other fuse is clear.
\<close>

theorem efuse_bits_write_image:
  assumes "unat off + unat cnt \<le> 256" and "unat cnt \<le> 8 * length bits"
  shows "\<exists>d. length d = 32 \<and>
    hc15xx_efuse_bits_write io e stack off bits cnt m = Some (hc15xx_efuse_write io e stack d m) \<and>
    (\<forall>k < 256. buf_bit d k \<longleftrightarrow>
       unat off \<le> k \<and> k < unat off + unat cnt \<and> buf_bit bits (k - unat off))"
proof -
  have "unat (off + cnt) = unat off + unat cnt" using assms(1) by (simp add: unat_word_ariths)
  then have "\<not> off + cnt > 256" using assms(1) by (simp add: word_less_nat_alt)
  moreover obtain d where "efuse_bits_data off bits cnt = Some d" "length d = 32"
    "\<forall>k < 256. buf_bit d k \<longleftrightarrow> unat off \<le> k \<and> k < unat off + unat cnt \<and> buf_bit bits (k - unat off)"
    using efuse_bits_fold [OF assms] unfolding efuse_bits_data_def by auto
  ultimately show ?thesis by (intro exI [of _ d]) (auto simp: hc15xx_efuse_bits_write_def)
qed

lemma efuse_bits_write_image_witness:
  "\<exists>d. length d = 32 \<and>
    hc15xx_efuse_bits_write fake_io \<lparr>ef_base = 0\<rparr> (replicate 32 0) 250 [0x2d] 6 fake_zero =
      Some (hc15xx_efuse_write fake_io \<lparr>ef_base = 0\<rparr> (replicate 32 0) d fake_zero) \<and>
    (\<forall>k < 256. buf_bit d k \<longleftrightarrow>
       unat (250::u32) \<le> k \<and> k < unat (250::u32) + unat (6::u32) \<and> buf_bit [0x2d] (k - unat (250::u32)))"
  using efuse_bits_write_image [of 250 6 "[0x2d]" fake_io "\<lparr>ef_base = 0\<rparr>" "replicate 32 0" fake_zero]
  by simp

text \<open>Once an access was outside its buffer the loop has failed, and the image keeps its length.\<close>

lemma efuse_bit_step_None: "fold (efuse_bit_step off bits) is None = None"
  by (induction "is") (simp_all add: efuse_bit_step_def)

lemma efuse_bit_step_length: "efuse_bit_step off bits i (Some d) = Some d' \<Longrightarrow> length d' = length d"
  by (auto simp: efuse_bit_step_def Let_def split: if_splits)

lemma efuse_bits_outside:
  assumes "i \<in> set is" "buf_bit bits i" "8 * length d \<le> unat (off + of_nat i)"
  shows "fold (efuse_bit_step off bits) is (Some d) = None"
  using assms
proof (induction "is" arbitrary: d)
  case (Cons j js)
  show ?case
  proof (cases "efuse_bit_step off bits j (Some d)")
    case None
    then show ?thesis by (simp add: efuse_bit_step_None)
  next
    case (Some d')
    have "efuse_bit_step off bits i (Some d) = None"
      using Cons.prems(2,3) by (auto simp: efuse_bit_step_def Let_def buf_bit_def and_push_bit_1_iff)
    with Some Cons.prems(1) have "i \<in> set js" by auto
    with Some efuse_bit_step_length [OF Some] Cons.prems(2,3) show ?thesis
      by (simp add: Cons.IH)
  qed
qed simp

text \<open>
  The range check of \<open>hc15xx_efuse_bits_write\<close> adds two 32-bit values and can wrap. For every
  bit offset and count whose 32-bit sum is at most 256, if any of the requested bits lies outside
  the 256 fuses (which is possible only when the sum wrapped), the call is not refused: it writes
  outside its 32-byte image, whatever the hardware does.
\<close>

theorem efuse_bits_write_wraps:
  assumes "off + cnt \<le> 256" and "i < unat cnt" and "buf_bit bits i" and "256 \<le> unat (off + of_nat i)"
  shows "256 < unat off + unat cnt \<and> hc15xx_efuse_bits_write io e stack off bits cnt m = None"
proof
  show "256 < unat off + unat cnt"
  proof (rule ccontr)
    assume "\<not> ?thesis"
    with assms(2) have "unat off + i < 256" by simp
    then have "unat (off + of_nat i) < 256"
      by (simp add: unat_word_ariths unat_of_nat take_bit_nat_eq_self)
    with assms(4) show False by simp
  qed
  have "efuse_bits_data off bits cnt = None"
    unfolding efuse_bits_data_def using assms by (intro efuse_bits_outside [of i]) auto
  then show "hc15xx_efuse_bits_write io e stack off bits cnt m = None"
    using assms(1) by (simp add: hc15xx_efuse_bits_write_def linorder_not_less [symmetric])
qed

lemma efuse_bits_write_wraps_witness:
  "hc15xx_efuse_bits_write fake_io \<lparr>ef_base = 0\<rparr> (replicate 32 0) 0xfffffffe [0x06] 3 fake_zero = None"
  using efuse_bits_write_wraps [of "0xfffffffe" 3 1 "[0x06]" fake_io "\<lparr>ef_base = 0\<rparr>" "replicate 32 0" fake_zero]
  by (simp add: buf_bit_def)

end
