(* ===== verification/Dsc.thy ===== *)
theory Dsc
  imports Mmio
begin

text \<open>
  The display system controller, \<^verbatim>\<open>src/dsc/hc15xx_dsc.c\<close>: enabling and disabling the display
  clock domain, the vertical-blank interrupt handler with its software counter, and the bounded
  wait for a hardware frame count.
\<close>

section \<open>The driver\<close>

abbreviation (input) HC15XX_DSC_REG_CTRL where "HC15XX_DSC_REG_CTRL \<equiv> (0x00 :: u32)"
abbreviation (input) HC15XX_DSC_REG_IRQ_STATUS where "HC15XX_DSC_REG_IRQ_STATUS \<equiv> (0x04 :: u32)"
abbreviation (input) HC15XX_DSC_REG_VSYNC_COUNT where "HC15XX_DSC_REG_VSYNC_COUNT \<equiv> (0x08 :: u32)"
abbreviation (input) HC15XX_DSC_IRQ_VBLANK where "HC15XX_DSC_IRQ_VBLANK \<equiv> BIT 0"
abbreviation (input) HC15XX_DSC_CTRL_ENABLE where "HC15XX_DSC_CTRL_ENABLE \<equiv> BIT 0"
abbreviation (input) HC15XX_DSC_CTRL_VBLANK_IRQ where "HC15XX_DSC_CTRL_VBLANK_IRQ \<equiv> BIT 1"

datatype hc15xx_dsc_dac_type = HC15XX_DSC_DAC_CVBS | HC15XX_DSC_DAC_SVIDEO | HC15XX_DSC_DAC_YUV
  | HC15XX_DSC_DAC_RGB

record hc15xx_dsc_dac_config =
  dac_type :: hc15xx_dsc_dac_type
  dac_enable :: bool
  dac_progressive :: bool
  dac_mask :: u32

record hc15xx_dsc_bg_color =
  bg_y :: u8
  bg_cb :: u8
  bg_cr :: u8

record hc15xx_dsc =
  dsc_base :: addr
  vsync_count :: u32
  irq_accum :: u32
  dsc_enabled :: bool

definition dsc_read :: "('m, 'z) mmio_io_scheme \<Rightarrow> hc15xx_dsc \<Rightarrow> u32 \<Rightarrow> 'm \<Rightarrow> u32 \<times> 'm" where
  "dsc_read io d off m = read32 io m (dsc_base d + off)"

definition dsc_write :: "('m, 'z) mmio_io_scheme \<Rightarrow> hc15xx_dsc \<Rightarrow> u32 \<Rightarrow> u32 \<Rightarrow> 'm \<Rightarrow> 'm" where
  "dsc_write io d off v m = write32 io m (dsc_base d + off) v"

definition hc15xx_dsc_init :: "addr \<Rightarrow> hc15xx_dsc" where
  "hc15xx_dsc_init base = \<lparr>dsc_base = base, vsync_count = 0, irq_accum = 0, dsc_enabled = False\<rparr>"

definition hc15xx_dsc_enable :: "('m, 'z) mmio_io_scheme \<Rightarrow> hc15xx_dsc \<Rightarrow> 'm \<Rightarrow> int \<times> hc15xx_dsc \<times> 'm" where
  "hc15xx_dsc_enable io d m =
     (let m = dsc_write io d HC15XX_DSC_REG_CTRL (HC15XX_DSC_CTRL_ENABLE OR HC15XX_DSC_CTRL_VBLANK_IRQ) m
      in (0, d\<lparr>dsc_enabled := True\<rparr>, m))"

definition hc15xx_dsc_disable :: "('m, 'z) mmio_io_scheme \<Rightarrow> hc15xx_dsc \<Rightarrow> 'm \<Rightarrow> hc15xx_dsc \<times> 'm" where
  "hc15xx_dsc_disable io d m =
     (let m = dsc_write io d HC15XX_DSC_REG_CTRL 0 m in (d\<lparr>dsc_enabled := False\<rparr>, m))"

definition hc15xx_dsc_handle_irq :: "('m, 'z) mmio_io_scheme \<Rightarrow> hc15xx_dsc \<Rightarrow> 'm \<Rightarrow> int \<times> hc15xx_dsc \<times> 'm" where
  "hc15xx_dsc_handle_irq io d m =
     (let (status, m) = dsc_read io d HC15XX_DSC_REG_IRQ_STATUS m
      in if status = 0 then (0, d, m)
         else
           let m = dsc_write io d HC15XX_DSC_REG_IRQ_STATUS status m;
               d = d\<lparr>irq_accum := irq_accum d OR status\<rparr>;
               d = (if status AND HC15XX_DSC_IRQ_VBLANK \<noteq> 0
                    then d\<lparr>vsync_count := vsync_count d + 1\<rparr> else d)
           in (1, d, m))"

definition hc15xx_dsc_wait_vblank :: "('m, 'z) mmio_io_scheme \<Rightarrow> hc15xx_dsc \<Rightarrow> u32 \<Rightarrow> 'm \<Rightarrow> int \<times> 'm" where
  "hc15xx_dsc_wait_vblank io d target_count m =
     poll_reg io (dsc_base d + HC15XX_DSC_REG_VSYNC_COUNT) 100
       (\<lambda>hw_count. if hw_count \<ge> target_count then Some 0 else None) (-1) 100000 m"

definition hc15xx_dsc_get_vsync_count :: "('m, 'z) mmio_io_scheme \<Rightarrow> hc15xx_dsc \<Rightarrow> 'm \<Rightarrow> u32 \<times> 'm" where
  "hc15xx_dsc_get_vsync_count io d m = dsc_read io d HC15XX_DSC_REG_VSYNC_COUNT m"

definition hc15xx_dsc_set_dac :: "('m, 'z) mmio_io_scheme \<Rightarrow> hc15xx_dsc \<Rightarrow> hc15xx_dsc_dac_config option \<Rightarrow>
    'm \<Rightarrow> int \<times> 'm" where
  "hc15xx_dsc_set_dac io d cfg m =
     (case cfg of
        None \<Rightarrow> (-1, m)
      | Some c \<Rightarrow>
          let (ctrl, m) = dsc_read io d HC15XX_DSC_REG_CTRL m;
              ctrl = (if dac_enable c then ctrl OR HC15XX_DSC_CTRL_ENABLE
                      else ctrl AND NOT HC15XX_DSC_CTRL_ENABLE)
          in (0, dsc_write io d HC15XX_DSC_REG_CTRL ctrl m))"

definition hc15xx_dsc_set_bg_color :: "hc15xx_dsc \<Rightarrow> hc15xx_dsc_bg_color \<Rightarrow> 'm \<Rightarrow> int \<times> 'm" where
  "hc15xx_dsc_set_bg_color d color m = (0, m)"

definition hc15xx_dsc_suspend :: "('m, 'z) mmio_io_scheme \<Rightarrow> hc15xx_dsc \<Rightarrow> 'm \<Rightarrow> int \<times> hc15xx_dsc \<times> 'm" where
  "hc15xx_dsc_suspend io d m = (let (d, m) = hc15xx_dsc_disable io d m in (0, d, m))"

definition hc15xx_dsc_resume :: "('m, 'z) mmio_io_scheme \<Rightarrow> hc15xx_dsc \<Rightarrow> 'm \<Rightarrow> int \<times> hc15xx_dsc \<times> 'm" where
  "hc15xx_dsc_resume io d m = hc15xx_dsc_enable io d m"

section \<open>Interrupt histories\<close>

text \<open>A run of the handler, once per interrupt.\<close>

fun dsc_irqs :: "('m, 'z) mmio_io_scheme \<Rightarrow> nat \<Rightarrow> hc15xx_dsc \<Rightarrow> 'm \<Rightarrow> hc15xx_dsc \<times> 'm" where
  "dsc_irqs io 0 d m = (d, m)"
| "dsc_irqs io (Suc n) d m =
     (let (_, d, m) = hc15xx_dsc_handle_irq io d m in dsc_irqs io n d m)"

text \<open>What one interrupt adds to the log: the status is read and, unless it is zero, written back.\<close>

definition irq_events :: "hc15xx_dsc \<Rightarrow> u32 \<Rightarrow> bus_event list" where
  "irq_events d s = EvRead (dsc_base d + 4) s # (if s = 0 then [] else [EvWrite (dsc_base d + 4) s])"

lemma handle_irq_trace:
  assumes "answers t = s # ss"
  shows "fst (snd (hc15xx_dsc_handle_irq trace_io d t)) =
      d\<lparr>irq_accum := irq_accum d OR s, vsync_count := vsync_count d + (if bit s 0 then 1 else 0)\<rparr>"
    and "answers (snd (snd (hc15xx_dsc_handle_irq trace_io d t))) = ss"
    and "events (snd (snd (hc15xx_dsc_handle_irq trace_io d t))) = events t @ irq_events d s"
  using assms
  by (auto simp: hc15xx_dsc_handle_irq_def dsc_read_def dsc_write_def split_def Let_def next_answer_def
      irq_events_def and_BIT_eq_0)

lemma dsc_irqs_trace:
  assumes "answers t = ss"
  shows "vsync_count (fst (dsc_irqs trace_io (length ss) d t)) =
      vsync_count d + of_nat (length (filter (\<lambda>s. bit s 0) ss))"
    and "irq_accum (fst (dsc_irqs trace_io (length ss) d t)) = fold (OR) ss (irq_accum d)"
    and "events (snd (dsc_irqs trace_io (length ss) d t)) = events t @ concat (map (irq_events d) ss)"
proof -
  have "vsync_count (fst (dsc_irqs trace_io (length ss) d t)) =
      vsync_count d + of_nat (length (filter (\<lambda>s. bit s 0) ss)) \<and>
    irq_accum (fst (dsc_irqs trace_io (length ss) d t)) = fold (OR) ss (irq_accum d) \<and>
    events (snd (dsc_irqs trace_io (length ss) d t)) = events t @ concat (map (irq_events d) ss)"
    using assms
  proof (induction ss arbitrary: d t)
    case (Cons s ss)
    let ?d = "fst (snd (hc15xx_dsc_handle_irq trace_io d t))"
      and ?t = "snd (snd (hc15xx_dsc_handle_irq trace_io d t))"
    note h = handle_irq_trace [OF Cons.prems, of d]
    have "irq_events ?d = irq_events d" by (simp add: h(1) irq_events_def fun_eq_iff)
    with Cons.IH [OF h(2), of ?d] h show ?case
      by (simp add: split_def Let_def or.commute)
  qed simp
  then show "vsync_count (fst (dsc_irqs trace_io (length ss) d t)) =
      vsync_count d + of_nat (length (filter (\<lambda>s. bit s 0) ss))"
    "irq_accum (fst (dsc_irqs trace_io (length ss) d t)) = fold (OR) ss (irq_accum d)"
    "events (snd (dsc_irqs trace_io (length ss) d t)) = events t @ concat (map (irq_events d) ss)"
    by simp_all
qed

section \<open>Properties\<close>

text \<open>
  Over any history of interrupts with arbitrary status values, the software counter advances by
  exactly the number of vertical blanks among them, the accumulator collects every bit that was
  ever reported, and the log shows each non-zero status acknowledged with exactly the bits read.
\<close>

theorem dsc_irq_history:
  assumes "dsc_irqs trace_io (length ss) d \<lparr>answers = ss, events = []\<rparr> = (d', t')"
  shows "vsync_count d' = vsync_count d + of_nat (length (filter (\<lambda>s. bit s 0) ss)) \<and>
    (\<forall>n. bit (irq_accum d') n \<longleftrightarrow> bit (irq_accum d) n \<or> (\<exists>s \<in> set ss. bit s n)) \<and>
    events t' = concat (map (\<lambda>s. EvRead (dsc_base d + 4) s #
      (if s = 0 then [] else [EvWrite (dsc_base d + 4) s])) ss)"
proof -
  have acc: "bit (fold (OR) ss a) n \<longleftrightarrow> bit a n \<or> (\<exists>s \<in> set ss. bit s n)" for a :: u32 and n
    by (induction ss arbitrary: a) (auto simp: bit_or_iff)
  have "irq_events d = (\<lambda>s. EvRead (dsc_base d + 4) s #
      (if s = 0 then [] else [EvWrite (dsc_base d + 4) s]))"
    by (simp add: fun_eq_iff irq_events_def)
  then show ?thesis
    using dsc_irqs_trace [of "\<lparr>answers = ss, events = []\<rparr>" ss d] assms acc [of "irq_accum d"]
    by simp
qed

lemma dsc_irq_history_witness:
  "vsync_count (fst (dsc_irqs trace_io (length [1, 2, 3 :: u32]) (hc15xx_dsc_init 0x18870000)
     \<lparr>answers = [1, 2, 3], events = []\<rparr>)) = 2"
proof -
  obtain d' t' where e: "dsc_irqs trace_io (length [1, 2, 3 :: u32]) (hc15xx_dsc_init 0x18870000)
     \<lparr>answers = [1, 2, 3], events = []\<rparr> = (d', t')" by fastforce
  show ?thesis
    using dsc_irq_history [OF e] unfolding e by (simp add: hc15xx_dsc_init_def bit_0)
qed

text \<open>
  \<open>hc15xx_dsc_wait_vblank\<close> always returns: 0 exactly when one of the first 100000 counter reads
  has reached the target (as unsigned values), -1 otherwise; it writes no register and waits at
  most ten seconds.
\<close>

theorem wait_vblank_bounded:
  "fst (hc15xx_dsc_wait_vblank trace_io d target_count t) =
     (if \<exists>c \<in> set (polled t 100000). c \<ge> target_count then 0 else -1) \<and>
   (\<exists>es. events (snd (hc15xx_dsc_wait_vblank trace_io d target_count t)) = events t @ es \<and>
     filter is_write es = [] \<and> total_delay es \<le> 10000000)"
proof -
  let ?dec = "\<lambda>hw_count. if hw_count \<ge> target_count then Some 0 else (None :: int option)"
  have fd: "first_decision ?dec (-1) ss = (if \<exists>c \<in> set ss. c \<ge> target_count then 0 else -1)" for ss
    by (induction ss) auto
  have "fst (hc15xx_dsc_wait_vblank trace_io d target_count t) =
     (if \<exists>c \<in> set (polled t 100000). c \<ge> target_count then 0 else -1)"
    unfolding hc15xx_dsc_wait_vblank_def by (subst poll_reg_result) (simp_all add: fd)
  moreover obtain es where "events (snd (hc15xx_dsc_wait_vblank trace_io d target_count t)) = events t @ es"
    "filter is_write es = []" "total_delay es \<le> 100000 * unat (100::u32)"
    using poll_reg_log [of trace_io "dsc_base d + 8" 100 ?dec "-1" 100000 t]
    unfolding hc15xx_dsc_wait_vblank_def by auto
  ultimately show ?thesis by auto
qed

end
