(* ===== verification/Vdec.thy ===== *)
theory Vdec
  imports Mmio
begin

text \<open>
  The video block, \<^verbatim>\<open>src/vdec/hc15xx_vdec.c\<close> and the DMA/display backend
  \<^verbatim>\<open>src/vdec/hc15xx_vdec_codec.c\<close>: reset, configuration, frame decoding with cache maintenance
  around the hardware access, DMA transfers and compositor programming.
\<close>

section \<open>Data\<close>

datatype hc15xx_vdec_codec_id = HC15XX_VDEC_CODEC_H264 | HC15XX_VDEC_CODEC_MPEG2
  | HC15XX_VDEC_CODEC_MPEG4 | HC15XX_VDEC_CODEC_VC1 | HC15XX_VDEC_CODEC_VP8 | HC15XX_VDEC_CODEC_JPEG

fun codec_number :: "hc15xx_vdec_codec_id \<Rightarrow> u32" where
  "codec_number HC15XX_VDEC_CODEC_H264 = 0"
| "codec_number HC15XX_VDEC_CODEC_MPEG2 = 1"
| "codec_number HC15XX_VDEC_CODEC_MPEG4 = 2"
| "codec_number HC15XX_VDEC_CODEC_VC1 = 3"
| "codec_number HC15XX_VDEC_CODEC_VP8 = 4"
| "codec_number HC15XX_VDEC_CODEC_JPEG = 5"

record hc15xx_vdec_config =
  codec :: hc15xx_vdec_codec_id
  vd_width :: u32
  vd_height :: u32
  frame_rate :: u32
  input_buf :: addr
  input_buf_size :: u32
  output_buf :: addr
  output_buf_size :: u32

record hc15xx_vdec_status =
  decode_status :: u32
  pic_width :: u32
  pic_height :: u32
  st_frames_decoded :: u32
  st_frames_displayed :: u32
  decode_error :: u32

record hc15xx_vdec =
  vd_base :: addr
  vd_sys_base :: addr
  vd_config :: hc15xx_vdec_config
  frames_decoded :: u32
  frames_displayed :: u32

abbreviation (input) HC15XX_VDEC_REG_CTRL where "HC15XX_VDEC_REG_CTRL \<equiv> (0x000 :: u32)"
abbreviation (input) HC15XX_VDEC_REG_CONFIG where "HC15XX_VDEC_REG_CONFIG \<equiv> (0x084 :: u32)"
abbreviation (input) HC15XX_VDEC_REG_DMA_BASE where "HC15XX_VDEC_REG_DMA_BASE \<equiv> (0x0c0 :: u32)"
abbreviation (input) HC15XX_VDEC_REG_CHAN_BASE where "HC15XX_VDEC_REG_CHAN_BASE \<equiv> (0x140 :: u32)"
abbreviation (input) HC15XX_VDEC_REG_IRQ_STATUS where "HC15XX_VDEC_REG_IRQ_STATUS \<equiv> (0xf78 :: u32)"
abbreviation (input) HC15XX_VDEC_REG_STATUS2 where "HC15XX_VDEC_REG_STATUS2 \<equiv> (0xf84 :: u32)"
abbreviation (input) HC15XX_VDEC_REG_CMD where "HC15XX_VDEC_REG_CMD \<equiv> (0xff0 :: u32)"
abbreviation (input) HC15XX_VDEC_CMD_RESET where "HC15XX_VDEC_CMD_RESET \<equiv> (0xff :: u32)"
abbreviation (input) HC15XX_VDEC_CMD_START where "HC15XX_VDEC_CMD_START \<equiv> (0x10 :: u32)"
abbreviation (input) HC15XX_VDEC_STATUS_DONE where "HC15XX_VDEC_STATUS_DONE \<equiv> BIT 1"
abbreviation (input) HC15XX_VDEC_STATUS_ERROR where "HC15XX_VDEC_STATUS_ERROR \<equiv> BIT 2"
abbreviation (input) HC15XX_SYS_REG_CHIP_ID where "HC15XX_SYS_REG_CHIP_ID \<equiv> (0x00 :: u32)"
abbreviation (input) HC15XX_SYS_REG_CTRL0 where "HC15XX_SYS_REG_CTRL0 \<equiv> (0x80 :: u32)"
abbreviation (input) HC15XX_SYS_REG_CTRL1 where "HC15XX_SYS_REG_CTRL1 \<equiv> (0x84 :: u32)"
abbreviation (input) HC15XX_CHIP_ID_HC1512 where "HC15XX_CHIP_ID_HC1512 \<equiv> (0x1512 :: u32)"
abbreviation (input) HC15XX_VDEC_POLL_LIMIT where "HC15XX_VDEC_POLL_LIMIT \<equiv> (5000 :: nat)"
abbreviation (input) HC15XX_VDEC_POLL_DELAY_US where "HC15XX_VDEC_POLL_DELAY_US \<equiv> (1000 :: u32)"
abbreviation (input) HC15XX_VDEC_RESET_DELAY_US where "HC15XX_VDEC_RESET_DELAY_US \<equiv> (10000 :: u32)"

section \<open>The decoder block\<close>

definition vdec_read :: "('m, 'z) vdec_io_scheme \<Rightarrow> hc15xx_vdec \<Rightarrow> u32 \<Rightarrow> 'm \<Rightarrow> u32 \<times> 'm" where
  "vdec_read io v off m = read32 io m (vd_base v + off)"

definition vdec_write :: "('m, 'z) vdec_io_scheme \<Rightarrow> hc15xx_vdec \<Rightarrow> u32 \<Rightarrow> u32 \<Rightarrow> 'm \<Rightarrow> 'm" where
  "vdec_write io v off x m = write32 io m (vd_base v + off) x"

definition sys_read :: "('m, 'z) vdec_io_scheme \<Rightarrow> hc15xx_vdec \<Rightarrow> u32 \<Rightarrow> 'm \<Rightarrow> u32 \<times> 'm" where
  "sys_read io v off m = read32 io m (vd_sys_base v + off)"

definition sys_write :: "('m, 'z) vdec_io_scheme \<Rightarrow> hc15xx_vdec \<Rightarrow> u32 \<Rightarrow> u32 \<Rightarrow> 'm \<Rightarrow> 'm" where
  "sys_write io v off x m = write32 io m (vd_sys_base v + off) x"

text \<open>\<open>config\<close> is not initialised by the source; its old content is kept.\<close>

definition hc15xx_vdec_init :: "hc15xx_vdec \<Rightarrow> addr \<Rightarrow> addr \<Rightarrow> hc15xx_vdec" where
  "hc15xx_vdec_init v base sys =
     v\<lparr>vd_base := base, vd_sys_base := sys, frames_decoded := 0, frames_displayed := 0\<rparr>"

definition hc15xx_vdec_reset :: "('m, 'z) vdec_io_scheme \<Rightarrow> hc15xx_vdec \<Rightarrow> 'm \<Rightarrow> int \<times> hc15xx_vdec \<times> 'm" where
  "hc15xx_vdec_reset io v m =
     (let (raw, m) = sys_read io v HC15XX_SYS_REG_CHIP_ID m;
          chip_id = drop_bit 16 raw
      in if chip_id \<noteq> HC15XX_CHIP_ID_HC1512 then (-1, v, m)
         else
           let (ctrl, m) = sys_read io v HC15XX_SYS_REG_CTRL0 m;
               ctrl = ctrl AND NOT 3;
               m = sys_write io v HC15XX_SYS_REG_CTRL0 ctrl m;
               (ctrl, m) = sys_read io v HC15XX_SYS_REG_CTRL1 m;
               ctrl = ctrl AND (BIT 31 - 1);
               m = sys_write io v HC15XX_SYS_REG_CTRL1 ctrl m;
               m = vdec_write io v HC15XX_VDEC_REG_CMD HC15XX_VDEC_CMD_RESET m;
               m = delay_us io m HC15XX_VDEC_RESET_DELAY_US;
               m = vdec_write io v HC15XX_VDEC_REG_IRQ_STATUS 0xffffffff m
           in (0, v\<lparr>frames_decoded := 0, frames_displayed := 0\<rparr>, m))"

definition hc15xx_vdec_configure :: "('m, 'z) vdec_io_scheme \<Rightarrow> hc15xx_vdec \<Rightarrow> hc15xx_vdec_config \<Rightarrow> 'm \<Rightarrow>
    int \<times> hc15xx_vdec \<times> 'm" where
  "hc15xx_vdec_configure io v cfg m =
     (let v = v\<lparr>vd_config := cfg\<rparr>;
          (ctrl, m) = vdec_read io v HC15XX_VDEC_REG_CTRL m;
          ctrl = ctrl AND NOT 7;
          ctrl = ctrl OR (codec_number (codec cfg) AND 7);
          m = vdec_write io v HC15XX_VDEC_REG_CTRL ctrl m;
          m = vdec_write io v HC15XX_VDEC_REG_CONFIG
                ((vd_width cfg AND 0xfff) OR push_bit 16 (vd_height cfg AND 0xfff)) m;
          m = vdec_write io v HC15XX_VDEC_REG_DMA_BASE (input_buf cfg) m;
          m = vdec_write io v (HC15XX_VDEC_REG_DMA_BASE + 4) (input_buf_size cfg) m;
          m = vdec_write io v (HC15XX_VDEC_REG_DMA_BASE + 8) (output_buf cfg) m;
          m = vdec_write io v (HC15XX_VDEC_REG_DMA_BASE + 12) (output_buf_size cfg) m;
          m = vdec_write io v HC15XX_VDEC_REG_CHAN_BASE (frame_rate cfg) m
      in (0, v, m))"

definition hc15xx_vdec_start :: "('m, 'z) vdec_io_scheme \<Rightarrow> hc15xx_vdec \<Rightarrow> 'm \<Rightarrow> int \<times> 'm" where
  "hc15xx_vdec_start io v m = (0, vdec_write io v HC15XX_VDEC_REG_CMD HC15XX_VDEC_CMD_START m)"

text \<open>The decision both poll loops of the driver make on a status.\<close>

definition vdec_decide :: "u32 \<Rightarrow> int option" where
  "vdec_decide status =
     (if status AND HC15XX_VDEC_STATUS_ERROR \<noteq> 0 then Some (-1)
      else if status AND HC15XX_VDEC_STATUS_DONE \<noteq> 0 then Some 0 else None)"

definition hc15xx_vdec_poll_done :: "('m, 'z) vdec_io_scheme \<Rightarrow> hc15xx_vdec \<Rightarrow> 'm \<Rightarrow> int \<times> 'm" where
  "hc15xx_vdec_poll_done io v m =
     poll_reg io (vd_base v + HC15XX_VDEC_REG_STATUS2) HC15XX_VDEC_POLL_DELAY_US vdec_decide
       (-2) HC15XX_VDEC_POLL_LIMIT m"

definition hc15xx_vdec_get_status :: "('m, 'z) vdec_io_scheme \<Rightarrow> hc15xx_vdec \<Rightarrow> 'm \<Rightarrow>
    int \<times> hc15xx_vdec_status \<times> 'm" where
  "hc15xx_vdec_get_status io v m =
     (let (raw, m) = vdec_read io v HC15XX_VDEC_REG_STATUS2 m
      in (0, \<lparr>decode_status = raw, pic_width = vd_width (vd_config v),
              pic_height = vd_height (vd_config v), st_frames_decoded = frames_decoded v,
              st_frames_displayed = frames_displayed v,
              decode_error = (if raw AND HC15XX_VDEC_STATUS_ERROR \<noteq> 0 then 1 else 0)\<rparr>, m))"

definition hc15xx_vdec_ack_irq :: "('m, 'z) vdec_io_scheme \<Rightarrow> hc15xx_vdec \<Rightarrow> 'm \<Rightarrow> 'm" where
  "hc15xx_vdec_ack_irq io v m = vdec_write io v HC15XX_VDEC_REG_IRQ_STATUS 0xffffffff m"

text \<open>The optional cache callbacks.\<close>

definition flush_if :: "('m, 'z) vdec_io_scheme \<Rightarrow> addr \<Rightarrow> u32 \<Rightarrow> 'm \<Rightarrow> 'm" where
  "flush_if io a n m = (case cache_flush io of None \<Rightarrow> m | Some fl \<Rightarrow> fl m a n)"

definition invalidate_if :: "('m, 'z) vdec_io_scheme \<Rightarrow> addr \<Rightarrow> u32 \<Rightarrow> 'm \<Rightarrow> 'm" where
  "invalidate_if io a n m = (case cache_invalidate io of None \<Rightarrow> m | Some iv \<Rightarrow> iv m a n)"

definition hc15xx_vdec_decode_frame :: "('m, 'z) vdec_io_scheme \<Rightarrow> hc15xx_vdec \<Rightarrow> addr \<Rightarrow> u32 \<Rightarrow> 'm \<Rightarrow>
    int \<times> hc15xx_vdec \<times> 'm" where
  "hc15xx_vdec_decode_frame io v data sz m =
     (let m = flush_if io data sz m;
          m = vdec_write io v HC15XX_VDEC_REG_DMA_BASE data m;
          m = vdec_write io v (HC15XX_VDEC_REG_DMA_BASE + 4) sz m;
          m = vdec_write io v HC15XX_VDEC_REG_CMD HC15XX_VDEC_CMD_START m;
          (ret, m) = hc15xx_vdec_poll_done io v m
      in if ret \<noteq> 0 then (ret, v, m)
         else
           let m = hc15xx_vdec_ack_irq io v m;
               m = invalidate_if io (output_buf (vd_config v)) (output_buf_size (vd_config v)) m
           in (0, v\<lparr>frames_decoded := frames_decoded v + 1,
                    frames_displayed := frames_displayed v + 1\<rparr>, m))"

section \<open>The display backend\<close>

record hc15xx_vdec_display_config =
  fb_phys :: u32
  fb_size :: u32
  dc_width :: u32
  dc_height :: u32
  dc_stride :: u32
  dst_x :: u32
  dst_y :: u32
  dst_w :: u32
  dst_h :: u32
  dc_format :: u32

record hc15xx_vdec_dma_xfer =
  xfer_src :: addr
  xfer_dst :: addr
  xfer_size :: u32

abbreviation (input) VDEC_DMA_SRC where "VDEC_DMA_SRC \<equiv> (0x0c0 :: u32)"
abbreviation (input) VDEC_DMA_DST where "VDEC_DMA_DST \<equiv> (0x0c4 :: u32)"
abbreviation (input) VDEC_DMA_SIZE where "VDEC_DMA_SIZE \<equiv> (0x0c8 :: u32)"
abbreviation (input) VDEC_DMA_CTRL where "VDEC_DMA_CTRL \<equiv> (0x0cc :: u32)"
abbreviation (input) VDEC_DMA_STATUS where "VDEC_DMA_STATUS \<equiv> (0x0d0 :: u32)"
abbreviation (input) HC15XX_VDEC_CMD_DMA where "HC15XX_VDEC_CMD_DMA \<equiv> (0x20 :: u32)"
abbreviation (input) HC15XX_GMA_BASE where "HC15XX_GMA_BASE \<equiv> (0x18808000 :: u32)"

definition hc15xx_vdec_dma_submit :: "('m, 'z) vdec_io_scheme \<Rightarrow> hc15xx_vdec \<Rightarrow> hc15xx_vdec_dma_xfer \<Rightarrow> 'm \<Rightarrow>
    int \<times> 'm" where
  "hc15xx_vdec_dma_submit io v x m =
     (let m = vdec_write io v VDEC_DMA_SRC (xfer_src x) m;
          m = vdec_write io v VDEC_DMA_DST (xfer_dst x) m;
          m = vdec_write io v VDEC_DMA_SIZE (xfer_size x) m;
          m = vdec_write io v VDEC_DMA_CTRL (BIT 0 OR BIT 1) m;
          m = vdec_write io v HC15XX_VDEC_REG_CMD HC15XX_VDEC_CMD_DMA m
      in (0, m))"

definition hc15xx_vdec_dma_wait :: "('m, 'z) vdec_io_scheme \<Rightarrow> hc15xx_vdec \<Rightarrow> 'm \<Rightarrow> int \<times> 'm" where
  "hc15xx_vdec_dma_wait io v m =
     poll_reg io (vd_base v + VDEC_DMA_STATUS) HC15XX_VDEC_POLL_DELAY_US vdec_decide
       (-2) HC15XX_VDEC_POLL_LIMIT m"

definition hc15xx_vdec_gma_configure :: "('m, 'z) vdec_io_scheme \<Rightarrow> hc15xx_vdec_display_config \<Rightarrow> 'm \<Rightarrow>
    int \<times> 'm" where
  "hc15xx_vdec_gma_configure io cfg m =
     (let m = write32 io m (HC15XX_GMA_BASE + 0x04) (fb_phys cfg);
          m = write32 io m (HC15XX_GMA_BASE + 0x08) (dc_stride cfg);
          dst_rect = (dst_x cfg AND 0xfff) OR push_bit 12 (dst_y cfg AND 0xfff);
          m = write32 io m (HC15XX_GMA_BASE + 0x0c) dst_rect;
          src_rect = (dst_w cfg AND 0xfff) OR push_bit 12 (dst_h cfg AND 0xfff);
          m = write32 io m (HC15XX_GMA_BASE + 0x10) src_rect;
          m = write32 io m (HC15XX_GMA_BASE + 0x14) (dc_format cfg);
          m = write32 io m (HC15XX_GMA_BASE + 0x00) 1
      in (0, m))"

definition hc15xx_vdec_gma_swap :: "('m, 'z) vdec_io_scheme \<Rightarrow> 'm \<Rightarrow> int \<times> 'm" where
  "hc15xx_vdec_gma_swap io m = (0, write32 io m (HC15XX_GMA_BASE + 0x18) 1)"

definition hc15xx_vdec_display_init :: "('m, 'z) vdec_io_scheme \<Rightarrow> hc15xx_vdec \<Rightarrow>
    hc15xx_vdec_display_config \<Rightarrow> 'm \<Rightarrow> int \<times> hc15xx_vdec \<times> 'm" where
  "hc15xx_vdec_display_init io v cfg m =
     (let (ret, v, m) = hc15xx_vdec_reset io v m
      in if ret \<noteq> 0 then (ret, v, m)
         else
           let (ret, m) = hc15xx_vdec_gma_configure io cfg m
           in if ret \<noteq> 0 then (ret, v, m)
              else let (_, m) = hc15xx_vdec_start io v m in (0, v, m))"

definition hc15xx_vdec_display_frame :: "('m, 'z) vdec_io_scheme \<Rightarrow> hc15xx_vdec \<Rightarrow> addr \<Rightarrow> u32 \<Rightarrow> 'm \<Rightarrow>
    int \<times> 'm" where
  "hc15xx_vdec_display_frame io v frame_data sz m =
     (let m = flush_if io frame_data sz m;
          x = \<lparr>xfer_src = frame_data, xfer_dst = output_buf (vd_config v), xfer_size = sz\<rparr>;
          (ret, m) = hc15xx_vdec_dma_submit io v x m
      in if ret \<noteq> 0 then (ret, m)
         else
           let (ret, m) = hc15xx_vdec_dma_wait io v m
           in if ret \<noteq> 0 then (ret, m) else hc15xx_vdec_gma_swap io m)"

definition hc15xx_vdec_display_flush :: "('m, 'z) vdec_io_scheme \<Rightarrow> hc15xx_vdec \<Rightarrow> 'm \<Rightarrow> int \<times> 'm" where
  "hc15xx_vdec_display_flush io v m = hc15xx_vdec_dma_wait io v m"

definition hc15xx_vdec_display_close :: "('m, 'z) vdec_io_scheme \<Rightarrow> hc15xx_vdec \<Rightarrow> 'm \<Rightarrow> 'm" where
  "hc15xx_vdec_display_close io v m =
     (let m = hc15xx_vdec_ack_irq io v m
      in vdec_write io v HC15XX_VDEC_REG_CMD HC15XX_VDEC_CMD_RESET m)"

section \<open>Logs\<close>

lemma flush_invalidate_trace [simp]:
  "flush_if trace_vdec_io a n t = emit_ev (EvFlush a n) t"
  "invalidate_if trace_vdec_io a n t = emit_ev (EvInvalidate a n) t"
  by (simp_all add: flush_if_def invalidate_if_def)

lemma vdec_write_trace [simp]:
  "vdec_write trace_vdec_io v off x t = emit_ev (EvWrite (vd_base v + off) x) t"
  by (simp add: vdec_write_def)

text \<open>
  \<open>reports_done\<close>: the first status with its done or error bit set has no error bit. It is what the
  two poll loops of the driver compute.
\<close>

definition reports_done :: "u32 list \<Rightarrow> bool" where
  "reports_done ss = (case find (\<lambda>s. bit s 1 \<or> bit s 2) ss of None \<Rightarrow> False | Some s \<Rightarrow> \<not> bit s 2)"

lemma first_decision_vdec:
  "first_decision vdec_decide (-2) ss \<in> {0, -1, -2}"
  "first_decision vdec_decide (-2) ss = 0 \<longleftrightarrow> reports_done ss"
  by (induction ss) (auto simp: vdec_decide_def reports_done_def and_BIT_eq_0)

lemma vdec_poll_trace:
  "fst (poll_reg trace_vdec_io a usec vdec_decide (-2) n t) = first_decision vdec_decide (-2) (polled t n)"
  by (rule poll_reg_result) simp_all

lemma vdec_poll_log:
  "\<exists>es. events (snd (poll_reg trace_vdec_io a usec dec tmo n t)) = events t @ es \<and>
     list_all (is_poll a usec) es \<and> length (filter is_read es) \<le> n \<and> total_delay es \<le> n * unat usec"
  by (rule poll_reg_events) simp_all

section \<open>Properties\<close>

text \<open>
  C34. \<open>hc15xx_vdec_decode_frame\<close>, whatever the hardware answers: the input is flushed from the
  cache before its address and size are programmed and the start command is given; then it only
  reads the status register and waits 1000 us between reads, at most 5000 times. The result is 0
  exactly if, of those up to 5000 statuses, the first that reports done or error reports no error,
  and only then is the interrupt acknowledged, the output buffer invalidated, and both frame
  counters advanced; otherwise the counters are unchanged and nothing but the status reads and the
  delays follows the start command: no register write and no cache operation.
\<close>

theorem decode_frame_log:
  assumes "hc15xx_vdec_decode_frame trace_vdec_io v data sz t = (ret, v', t')"
    and "prefix = [EvFlush data sz, EvWrite (vd_base v + 0xc0) data, EvWrite (vd_base v + 0xc4) sz,
      EvWrite (vd_base v + 0xff0) 0x10]"
  shows "\<exists>es. list_all (is_poll (vd_base v + 0xf84) 1000) es \<and> length (filter is_read es) \<le> 5000 \<and>
    total_delay es \<le> 5000000 \<and>
    (if ret = 0
     then events t' = events t @ prefix @ es @ [EvWrite (vd_base v + 0xf78) 0xffffffff,
         EvInvalidate (output_buf (vd_config v)) (output_buf_size (vd_config v))] \<and>
       v' = v\<lparr>frames_decoded := frames_decoded v + 1, frames_displayed := frames_displayed v + 1\<rparr> \<and>
       reports_done (polled t 5000)
     else \<not> reports_done (polled t 5000) \<and> ret \<in> {-1, -2} \<and> v' = v \<and> events t' = events t @ prefix @ es)"
proof -
  let ?t = "emit_ev (EvWrite (vd_base v + 0xff0) 0x10) (emit_ev (EvWrite (vd_base v + 0xc4) sz)
      (emit_ev (EvWrite (vd_base v + 0xc0) data) (emit_ev (EvFlush data sz) t)))"
  have ev: "events ?t = events t @ prefix" by (simp add: assms(2))
  have pl: "polled ?t n = polled t n" for n by (simp add: polled_def)
  let ?p = "hc15xx_vdec_poll_done trace_vdec_io v ?t"
  have r: "fst ?p = first_decision vdec_decide (-2) (polled t 5000)"
    unfolding hc15xx_vdec_poll_done_def vdec_poll_trace pl ..
  obtain es where es: "events (snd ?p) = events ?t @ es" "list_all (is_poll (vd_base v + 0xf84) 1000) es"
    "length (filter is_read es) \<le> 5000" "total_delay es \<le> 5000 * unat (1000::u32)"
    using vdec_poll_log unfolding hc15xx_vdec_poll_done_def by blast
  have df: "(ret, v', t') = (if fst ?p \<noteq> 0 then (fst ?p, v, snd ?p)
      else (0, v\<lparr>frames_decoded := frames_decoded v + 1, frames_displayed := frames_displayed v + 1\<rparr>,
        emit_ev (EvInvalidate (output_buf (vd_config v)) (output_buf_size (vd_config v)))
          (emit_ev (EvWrite (vd_base v + 0xf78) 0xffffffff) (snd ?p))))"
    using assms(1) [symmetric]
    by (simp add: hc15xx_vdec_decode_frame_def hc15xx_vdec_ack_irq_def split_def Let_def)
  show ?thesis
    using df r es ev first_decision_vdec [of "polled t 5000"]
    by (intro exI [of _ es]) (auto split: if_splits)
qed

definition vdec_example :: hc15xx_vdec where
  "vdec_example = \<lparr>vd_base = 0x18810000, vd_sys_base = 0x18800000,
     vd_config = \<lparr>codec = HC15XX_VDEC_CODEC_MPEG2, vd_width = 320, vd_height = 240, frame_rate = 30,
       input_buf = 0x1000, input_buf_size = 0x800, output_buf = 0x2000, output_buf_size = 0x25800\<rparr>,
     frames_decoded = 7, frames_displayed = 7\<rparr>"

lemma decode_frame_log_witness:
  "\<exists>ret v' t'. hc15xx_vdec_decode_frame trace_vdec_io vdec_example 0x1000 0x800
      \<lparr>answers = [1, 2], events = []\<rparr> = (ret, v', t') \<and>
    (ret = 0 \<longrightarrow> frames_decoded v' = 8) \<and> (ret \<noteq> 0 \<longrightarrow> frames_decoded v' = 7)"
proof -
  obtain ret v' t' where r: "hc15xx_vdec_decode_frame trace_vdec_io vdec_example 0x1000 0x800
      \<lparr>answers = [1, 2], events = []\<rparr> = (ret, v', t')" by (metis prod_cases3)
  from decode_frame_log [OF r refl] r show ?thesis
    by (auto simp: vdec_example_def split: if_splits)
qed

text \<open>
  \<open>hc15xx_vdec_display_frame\<close>, whatever the hardware answers: the compositor swap is written
  only after the DMA engine reported done without error, and a failed or timed-out transfer leaves
  the visible buffer alone.
\<close>

theorem display_frame_swap:
  assumes "hc15xx_vdec_display_frame trace_vdec_io v data sz t = (ret, t')"
  shows "\<exists>es. filter is_write es = [] \<and> total_delay es \<le> 5000000 \<and>
    events t' = events t @ [EvFlush data sz, EvWrite (vd_base v + 0xc0) data,
        EvWrite (vd_base v + 0xc4) (output_buf (vd_config v)), EvWrite (vd_base v + 0xc8) sz,
        EvWrite (vd_base v + 0xcc) 3, EvWrite (vd_base v + 0xff0) 0x20] @ es @
      (if ret = 0 then [EvWrite 0x18808018 1] else []) \<and>
    (ret = 0 \<longleftrightarrow> reports_done (polled t 5000)) \<and> ret \<in> {0, -1, -2}"
proof -
  let ?t = "emit_ev (EvWrite (vd_base v + 0xff0) 0x20) (emit_ev (EvWrite (vd_base v + 0xcc) 3)
      (emit_ev (EvWrite (vd_base v + 0xc8) sz) (emit_ev (EvWrite (vd_base v + 0xc4) (output_buf (vd_config v)))
        (emit_ev (EvWrite (vd_base v + 0xc0) data) (emit_ev (EvFlush data sz) t)))))"
  have pl: "polled ?t n = polled t n" for n by (simp add: polled_def)
  let ?p = "hc15xx_vdec_dma_wait trace_vdec_io v ?t"
  have r: "fst ?p = first_decision vdec_decide (-2) (polled t 5000)"
    unfolding hc15xx_vdec_dma_wait_def vdec_poll_trace pl ..
  obtain es where es: "events (snd ?p) = events ?t @ es" "filter is_write es = []"
    "total_delay es \<le> 5000 * unat (1000::u32)"
    using vdec_poll_log is_poll_no_write unfolding hc15xx_vdec_dma_wait_def by metis
  have three: "BIT 0 OR BIT (Suc 0) = 3" by (simp add: BIT_eq_power)
  have df: "(ret, t') = (if fst ?p \<noteq> 0 then (fst ?p, snd ?p)
      else (0, emit_ev (EvWrite 0x18808018 1) (snd ?p)))"
    using assms [symmetric]
    by (simp add: hc15xx_vdec_display_frame_def hc15xx_vdec_dma_submit_def hc15xx_vdec_gma_swap_def
        split_def Let_def three)
  show ?thesis
    using df r es first_decision_vdec [of "polled t 5000"]
    by (intro exI [of _ es]) (auto split: if_splits)
qed

lemma display_frame_swap_witness:
  "\<exists>ret t'. hc15xx_vdec_display_frame trace_vdec_io vdec_example 0x1000 0x800
      \<lparr>answers = [1, 6], events = []\<rparr> = (ret, t') \<and> (ret = 0 \<longrightarrow> last (events t') = EvWrite 0x18808018 1)"
proof -
  obtain ret t' where r: "hc15xx_vdec_display_frame trace_vdec_io vdec_example 0x1000 0x800
      \<lparr>answers = [1, 6], events = []\<rparr> = (ret, t')" by (metis prod.exhaust)
  from display_frame_swap [OF r] r show ?thesis by auto
qed

end
