(* ===== verification/Audio.thy ===== *)
theory Audio
  imports Mmio
begin

text \<open>
  The SND0 output core, \<^verbatim>\<open>src/audio/hc15xx_audio.c\<close>: clock and output set-up, the DMA ring with
  its producer and consumer cursors, the two system time clocks, and interrupt acknowledgement.
  The cursors live in the register at offset 0x38: the consumer in its upper half, written by the
  hardware, the producer in its lower half, written by the driver, both in units of 16 bytes.
\<close>

section \<open>State\<close>

record hc15xx_audio =
  au_snd :: addr
  au_dac :: addr
  au_sys :: addr
  ring_bytes :: u32
  target :: u16
  published :: u16

abbreviation (input) HC15XX_AUDIO_RING_GUARD where "HC15XX_AUDIO_RING_GUARD \<equiv> (64 :: u32)"
abbreviation (input) HC15XX_STC_TICKS_PER_MS where "HC15XX_STC_TICKS_PER_MS \<equiv> (45 :: u32)"

text \<open>\<open>enum hc15xx_stc_id\<close>; the drivers also see values outside the enumeration.\<close>

datatype hc15xx_stc_id = HC15XX_STC0 | HC15XX_STC1 | STC_OTHER u32

definition stc_valid :: "hc15xx_stc_id \<Rightarrow> bool" where
  "stc_valid i \<longleftrightarrow> i = HC15XX_STC0 \<or> i = HC15XX_STC1"

section \<open>Register access\<close>

definition rd :: "('m, 'z) audio_io_scheme \<Rightarrow> addr \<Rightarrow> 'm \<Rightarrow> u32 \<times> 'm" where
  "rd io address m = read32 io m address"

definition wr :: "('m, 'z) audio_io_scheme \<Rightarrow> addr \<Rightarrow> u32 \<Rightarrow> 'm \<Rightarrow> 'm" where
  "wr io address val m = write32 io m address val"

definition update :: "('m, 'z) audio_io_scheme \<Rightarrow> addr \<Rightarrow> u32 \<Rightarrow> u32 \<Rightarrow> 'm \<Rightarrow> 'm" where
  "update io address msk val m =
     (let (old, m) = rd io address m in wr io address ((old AND NOT msk) OR (val AND msk)) m)"

section \<open>Set-up\<close>

definition hc15xx_audio_init :: "addr \<Rightarrow> addr \<Rightarrow> addr \<Rightarrow> hc15xx_audio" where
  "hc15xx_audio_init sn dac sys =
     \<lparr>au_snd = sn, au_dac = dac, au_sys = sys, ring_bytes = 0, target = 0, published = 0\<rparr>"

definition hc15xx_audio_clock_reset :: "('m, 'z) audio_io_scheme \<Rightarrow> hc15xx_audio \<Rightarrow> 'm \<Rightarrow> 'm" where
  "hc15xx_audio_clock_reset io a m =
     (let m = update io (au_sys a + 0x80) (BIT 5) (BIT 5) m;
          m = delay_us io m 1000
      in update io (au_sys a + 0x80) (BIT 5) 0 m)"

definition hc15xx_audio_configure_output :: "('m, 'z) audio_io_scheme \<Rightarrow> hc15xx_audio \<Rightarrow> 'm \<Rightarrow> 'm" where
  "hc15xx_audio_configure_output io a m =
     (let (v, m) = rd io (au_dac a) m;
          v = v AND NOT (BIT 10);
          v = v OR (BIT 9 OR BIT 8);
          v = v AND NOT (BIT 14 OR BIT 15 OR BIT 22 OR BIT 17 OR BIT 20);
          v = v OR (BIT 23 OR BIT 18);
          v = v AND NOT (push_bit 24 0xf);
          v = v OR BIT 25;
          v = v AND NOT (push_bit 28 7);
          v = v OR BIT 30;
          v = v AND NOT (BIT 23 OR BIT 18);
          m = wr io (au_dac a) v m;
          m = wr io (au_sys a + 0x148) 0x0c000120 m;
          m = update io (au_sys a + 0x154) (BIT 14) (BIT 14) m;
          m = update io (au_snd a + 0x50) (BIT 4 OR BIT 5 OR BIT 10 OR BIT 11) 0 m;
          m = update io (au_snd a + 0x04) (BIT 0 OR BIT 8) (BIT 0 OR BIT 8) m
      in wr io (au_snd a + 0x3c) 0x0000ff41 m)"

definition hc15xx_audio_configure_ring :: "('m, 'z) audio_io_scheme \<Rightarrow> hc15xx_audio \<Rightarrow> u32 \<Rightarrow> u32 \<Rightarrow>
    u32 \<Rightarrow> 'm \<Rightarrow> int \<times> hc15xx_audio \<times> 'm" where
  "hc15xx_audio_configure_ring io a dma_address bytes period_frames m =
     (if bytes = 0 \<or> bytes AND 15 \<noteq> 0 \<or> bytes > 0xffff0 \<or> period_frames = 0 \<or>
         period_frames > 0xffff
      then (-1, a, m)
      else
        let a = a\<lparr>ring_bytes := bytes, target := 0, published := 0\<rparr>;
            m = wr io (au_snd a + 0x30) dma_address m;
            (config, m) = rd io (au_snd a + 0x34) m;
            config = config AND NOT 0x1ff30000;
            config = config OR 0x09100000;
            m = wr io (au_snd a + 0x34) config m;
            (v, m) = rd io (au_snd a + 0x34) m;
            m = wr io (au_snd a + 0x34) ((v AND 0xffff0000) OR drop_bit 4 bytes) m;
            (v, m) = rd io (au_snd a + 0x5c) m;
            m = wr io (au_snd a + 0x5c) ((v AND 0xffff0000) OR period_frames) m;
            m = wr io (au_snd a + 0x38) 0 m
        in (0, a, m))"

definition hc15xx_audio_set_volume :: "('m, 'z) audio_io_scheme \<Rightarrow> hc15xx_audio \<Rightarrow> u8 \<Rightarrow> 'm \<Rightarrow> 'm" where
  "hc15xx_audio_set_volume io a volume m =
     (let (v, m) = rd io (au_snd a + 0x90) m;
          v = (v AND NOT 0x00ff0000) OR push_bit 16 (ucast volume)
      in wr io (au_snd a + 0x90) v m)"

section \<open>The ring\<close>

definition hc15xx_audio_consumer :: "('m, 'z) audio_io_scheme \<Rightarrow> hc15xx_audio \<Rightarrow> 'm \<Rightarrow> u32 \<times> 'm" where
  "hc15xx_audio_consumer io a m =
     (let (v, m) = rd io (au_snd a + 0x38) m in (push_bit 4 (drop_bit 16 v AND 0xffff), m))"

text \<open>The two conditional steps of \<open>hc15xx_audio_service_ring\<close>: release the target, start DMA.\<close>

definition service_publish :: "('m, 'z) audio_io_scheme \<Rightarrow> u16 \<Rightarrow> hc15xx_audio \<Rightarrow> 'm \<Rightarrow>
    int \<times> hc15xx_audio \<times> 'm" where
  "service_publish io consumer a m =
     (if published a \<noteq> target a \<and> consumer \<noteq> target a then
        let a = a\<lparr>published := target a\<rparr>;
            m = dma_barrier io m;
            m = update io (au_snd a + 0x38) 0xffff (ucast (published a)) m
        in (1, a, m)
      else (0, a, m))"

definition service_start :: "('m, 'z) audio_io_scheme \<Rightarrow> u16 \<Rightarrow> int \<Rightarrow> hc15xx_audio \<Rightarrow> 'm \<Rightarrow>
    int \<times> hc15xx_audio \<times> 'm" where
  "service_start io consumer changed a m =
     (if published a \<noteq> consumer then
        let (v, m) = rd io (au_snd a + 0x04) m
        in if v AND BIT 16 = 0
           then (1, a, update io (au_snd a + 0x04) (BIT 16) (BIT 16) m)
           else (changed, a, m)
      else (changed, a, m))"

definition hc15xx_audio_service_ring :: "('m, 'z) audio_io_scheme \<Rightarrow> hc15xx_audio \<Rightarrow> 'm \<Rightarrow>
    int \<times> hc15xx_audio \<times> 'm" where
  "hc15xx_audio_service_ring io a m =
     (let (cons, m) = hc15xx_audio_consumer io a m;
          consumer = (ucast (drop_bit 4 cons) :: u16);
          (changed, a, m) = service_publish io consumer a m
      in service_start io consumer changed a m)"

definition hc15xx_audio_set_target :: "('m, 'z) audio_io_scheme \<Rightarrow> hc15xx_audio \<Rightarrow> u32 \<Rightarrow> bool \<Rightarrow> 'm \<Rightarrow>
    hc15xx_audio \<times> 'm" where
  "hc15xx_audio_set_target io a byte_offset data_pending m =
     (if ring_bytes a = 0 then (a, m)
      else
        let byte_offset = byte_offset mod ring_bytes a;
            (consumer, m) = hc15xx_audio_consumer io a m;
            publ = (if data_pending \<and> byte_offset = consumer
                    then (byte_offset + ring_bytes a - HC15XX_AUDIO_RING_GUARD) mod ring_bytes a
                    else byte_offset);
            a = a\<lparr>target := ucast (drop_bit 4 byte_offset), published := ucast (drop_bit 4 publ)\<rparr>;
            m = dma_barrier io m;
            m = update io (au_snd a + 0x38) 0xffff (ucast (published a)) m;
            (_, a, m) = hc15xx_audio_service_ring io a m
        in (a, m))"

definition hc15xx_audio_start :: "('m, 'z) audio_io_scheme \<Rightarrow> hc15xx_audio \<Rightarrow> 'm \<Rightarrow> hc15xx_audio \<times> 'm" where
  "hc15xx_audio_start io a m =
     (let m = update io (au_snd a + 0x08) (BIT 0) (BIT 0) m;
          m = update io (au_snd a + 0x0c) (BIT 0) (BIT 0) m;
          m = update io (au_snd a + 0x50) (BIT 29) (BIT 29) m;
          (_, a, m) = hc15xx_audio_service_ring io a m
      in (a, m))"

definition hc15xx_audio_stop :: "('m, 'z) audio_io_scheme \<Rightarrow> hc15xx_audio \<Rightarrow> 'm \<Rightarrow> 'm" where
  "hc15xx_audio_stop io a m =
     (let m = update io (au_snd a + 0x50) (BIT 29) 0 m;
          m = update io (au_snd a + 0x04) (BIT 16) 0 m;
          m = update io (au_snd a + 0x0c) (BIT 0) 0 m;
          m = update io (au_snd a + 0x08) (BIT 0 OR BIT 8) 0 m;
          m = update io (au_snd a + 0x34) (BIT 28) 0 m
      in wr io (au_snd a + 0x38) 0 m)"

section \<open>System time clocks\<close>

definition hc15xx_stc_tick_register :: "hc15xx_audio \<Rightarrow> hc15xx_stc_id \<Rightarrow> addr" where
  "hc15xx_stc_tick_register a i = au_snd a + (if i = HC15XX_STC1 then 0xbc else 0xb4)"

definition hc15xx_audio_ms_to_stc_tick :: "u32 \<Rightarrow> u32" where
  "hc15xx_audio_ms_to_stc_tick ms = ms * HC15XX_STC_TICKS_PER_MS"

definition hc15xx_audio_stc_tick_to_ms :: "u32 \<Rightarrow> u32" where
  "hc15xx_audio_stc_tick_to_ms tick =
     (if tick = 0xffffffff then 0 else tick div HC15XX_STC_TICKS_PER_MS)"

definition hc15xx_audio_stc_tick :: "('m, 'z) audio_io_scheme \<Rightarrow> hc15xx_audio \<Rightarrow> hc15xx_stc_id \<Rightarrow> 'm \<Rightarrow>
    u32 \<times> 'm" where
  "hc15xx_audio_stc_tick io a i m =
     (if \<not> stc_valid i then (0, m) else read32 io m (hc15xx_stc_tick_register a i))"

definition hc15xx_audio_stc_ms :: "('m, 'z) audio_io_scheme \<Rightarrow> hc15xx_audio \<Rightarrow> hc15xx_stc_id \<Rightarrow> 'm \<Rightarrow>
    u32 \<times> 'm" where
  "hc15xx_audio_stc_ms io a i m =
     (let (tick, m) = hc15xx_audio_stc_tick io a i m in (hc15xx_audio_stc_tick_to_ms tick, m))"

definition hc15xx_audio_set_stc_tick :: "('m, 'z) audio_io_scheme \<Rightarrow> hc15xx_audio \<Rightarrow> hc15xx_stc_id \<Rightarrow>
    u32 \<Rightarrow> 'm \<Rightarrow> 'm" where
  "hc15xx_audio_set_stc_tick io a i tick m =
     (if \<not> stc_valid i then m else write32 io m (hc15xx_stc_tick_register a i) tick)"

definition hc15xx_audio_set_stc_ms :: "('m, 'z) audio_io_scheme \<Rightarrow> hc15xx_audio \<Rightarrow> hc15xx_stc_id \<Rightarrow>
    u32 \<Rightarrow> 'm \<Rightarrow> 'm" where
  "hc15xx_audio_set_stc_ms io a i ms m =
     hc15xx_audio_set_stc_tick io a i (hc15xx_audio_ms_to_stc_tick ms) m"

definition hc15xx_audio_set_stc_divisor :: "('m, 'z) audio_io_scheme \<Rightarrow> hc15xx_audio \<Rightarrow> hc15xx_stc_id \<Rightarrow>
    u16 \<Rightarrow> 'm \<Rightarrow> 'm" where
  "hc15xx_audio_set_stc_divisor io a i divisor m =
     (let control = au_snd a + (if i = HC15XX_STC1 then 0xb8 else 0xb0)
      in if \<not> stc_valid i then m
         else let (v, m) = read32 io m control
              in write32 io m control ((v AND 0xffff0000) OR ucast divisor))"

definition hc15xx_audio_pause_stc :: "('m, 'z) audio_io_scheme \<Rightarrow> hc15xx_audio \<Rightarrow> hc15xx_stc_id \<Rightarrow>
    bool \<Rightarrow> 'm \<Rightarrow> 'm" where
  "hc15xx_audio_pause_stc io a i resume m =
     (let control = au_snd a + 0xb0
      in if \<not> stc_valid i then m
         else let b = BIT (16 + (if i = HC15XX_STC1 then 1 else 0));
                  (v, m) = read32 io m control;
                  v = (if resume then v OR b else v AND NOT b)
              in write32 io m control v)"

section \<open>Interrupts\<close>

definition hc15xx_audio_ack_irq :: "('m, 'z) audio_io_scheme \<Rightarrow> hc15xx_audio \<Rightarrow> 'm \<Rightarrow> bool \<times> 'm" where
  "hc15xx_audio_ack_irq io a m =
     (let (ctl08, m) = rd io (au_snd a + 0x08) m;
          (ctl0c, m) = rd io (au_snd a + 0x0c) m;
          status08 = ctl08 AND (BIT 16 OR BIT 24 OR BIT 27 OR BIT 28);
          status0c = ctl0c AND (BIT 8 OR BIT 24);
          period = (ctl08 AND (BIT 16 OR BIT 0) = BIT 16 OR BIT 0 \<or>
                    ctl0c AND (BIT 8 OR BIT 0) = BIT 8 OR BIT 0);
          m = (if status08 \<noteq> 0
               then wr io (au_snd a + 0x08) ((ctl08 AND 0xffff) OR status08) m else m);
          m = (if status0c \<noteq> 0
               then wr io (au_snd a + 0x0c) ((ctl0c AND 0x00ff00ff) OR status0c) m else m)
      in (period, m))"

section \<open>The cursors\<close>

text \<open>The two halves of the register at offset 0x38.\<close>

definition producer_of :: "u32 \<Rightarrow> u16" where
  "producer_of r = ucast r"

definition consumer_of :: "u32 \<Rightarrow> u16" where
  "consumer_of r = ucast (drop_bit 16 r)"

lemma consumer_cursor:
  "(ucast (drop_bit 4 (push_bit 4 (drop_bit 16 r AND 0xffff) :: u32)) :: u16) = consumer_of r"
  by (rule bit_word_eqI) (auto simp: consumer_of_def bit_simps bit_ffff)

lemma cursors_of_masked [simp]:
  "producer_of (masked 0xffff r (ucast p)) = p" "consumer_of (masked 0xffff r v) = consumer_of r"
  by (rule bit_word_eqI, auto simp: producer_of_def consumer_of_def bit_masked bit_ffff bit_simps)+

context audio_regs
begin

lemma update_view:
  "mapped a \<Longrightarrow> mapped b \<Longrightarrow>
     view (update io a msk v m) b = (if b = a then masked msk (view m a) v else view m b)"
  by (simp add: update_def rd_def wr_def split_def Let_def reg_simps masked_def)

lemma consumer_view:
  "mapped (au_snd a + 0x38) \<Longrightarrow> view (snd (hc15xx_audio_consumer io a m)) = view m"
  "mapped (au_snd a + 0x38) \<Longrightarrow>
     ucast (drop_bit 4 (fst (hc15xx_audio_consumer io a m))) = consumer_of (view m (au_snd a + 0x38))"
  by (simp_all only: hc15xx_audio_consumer_def rd_def split_def Let_def fst_conv snd_conv read_view
      read_value consumer_cursor)

text \<open>
  Servicing the ring publishes the true target once the consumer has left it, keeps the consumer,
  and starts the DMA engine whenever there is something to play.
\<close>

lemma service_ring_view:
  assumes "mapped (au_snd a + 0x38)" and "mapped (au_snd a + 0x04)"
    and "hc15xx_audio_service_ring io a m = (ch, a', m')"
  defines "c \<equiv> consumer_of (view m (au_snd a + 0x38))"
  defines "release \<equiv> published a \<noteq> target a \<and> c \<noteq> target a"
  shows "a' = (if release then a\<lparr>published := target a\<rparr> else a)"
    and "view m' (au_snd a + 0x38) = (if release
       then masked 0xffff (view m (au_snd a + 0x38)) (ucast (target a)) else view m (au_snd a + 0x38))"
    and "bit (view m' (au_snd a + 0x04)) 16 \<longleftrightarrow>
       bit (view m (au_snd a + 0x04)) 16 \<or> published a' \<noteq> c"
proof -
  let ?m1 = "snd (hc15xx_audio_consumer io a m)"
  let ?m2 = "if release then update io (au_snd a + 0x38) 0xffff (ucast (target a)) (dma_barrier io ?m1)
    else ?m1"
  let ?a = "if release then a\<lparr>published := target a\<rparr> else a"
  note cv = consumer_view [OF assms(1), of m]
  have m1: "view ?m1 = view m" by (rule cv(1))
  have m2: "view ?m2 (au_snd a + 0x38) = (if release
       then masked 0xffff (view m (au_snd a + 0x38)) (ucast (target a)) else view m (au_snd a + 0x38))"
    "view ?m2 (au_snd a + 0x04) = view m (au_snd a + 0x04)"
    using assms(1,2) by (simp_all add: update_view barrier_view m1)
  have eq: "hc15xx_audio_service_ring io a m =
     (if published ?a \<noteq> c then
        if \<not> bit (view m (au_snd a + 0x04)) 16
        then (1, ?a, update io (au_snd a + 0x04) (BIT 16) (BIT 16) (snd (rd io (au_snd a + 0x04) ?m2)))
        else (if release then 1 else 0, ?a, snd (rd io (au_snd a + 0x04) ?m2))
      else (if release then 1 else 0, ?a, ?m2))"
    unfolding hc15xx_audio_service_ring_def service_publish_def service_start_def split_def Let_def
      cv(2) c_def [symmetric] release_def [symmetric]
    using m2(2) assms(2) by (cases release) (simp_all add: rd_def reg_simps and_BIT_eq_0)
  have rdv: "view (snd (rd io (au_snd a + 0x04) ?m2)) = view ?m2"
    using assms(2) by (simp add: rd_def reg_simps)
  show "a' = ?a" using eq assms(3) by (auto split: if_splits)
  then show "view m' (au_snd a + 0x38) = (if release
       then masked 0xffff (view m (au_snd a + 0x38)) (ucast (target a)) else view m (au_snd a + 0x38))"
    "bit (view m' (au_snd a + 0x04)) 16 \<longleftrightarrow> bit (view m (au_snd a + 0x04)) 16 \<or> published a' \<noteq> c"
    using eq assms(1-3) m2 rdv
    by (auto simp: update_view bit_masked bit_BIT split: if_splits)
qed

lemma configure_ring_view:
  assumes "\<forall>off \<in> {0x30, 0x34, 0x38, 0x5c}. mapped (au_snd a + off)"
    and "hc15xx_audio_configure_ring io a dma bytes period m = (ret, a', m')"
    and "\<not> (bytes = 0 \<or> bytes AND 15 \<noteq> 0 \<or> bytes > 0xffff0 \<or> period = 0 \<or> period > 0xffff)"
  shows "ret = 0" and "a' = a\<lparr>ring_bytes := bytes, target := 0, published := 0\<rparr>"
    and "view m' (au_snd a + 0x30) = dma" and "view m' (au_snd a + 0x38) = 0"
    and "\<exists>x. view m' (au_snd a + 0x34) = (x AND 0xffff0000) OR drop_bit 4 bytes"
    and "\<exists>x. view m' (au_snd a + 0x5c) = (x AND 0xffff0000) OR period"
  using assms(1) assms(2) [symmetric]
  unfolding hc15xx_audio_configure_ring_def if_not_P [OF assms(3)]
  by (auto simp: rd_def wr_def split_def Let_def reg_simps)

lemma set_target_view:
  assumes "mapped (au_snd a + 0x38)" and "mapped (au_snd a + 0x04)" and "ring_bytes a \<noteq> 0"
    and "hc15xx_audio_set_target io a off pending m = (a', m')"
  defines "r \<equiv> view m (au_snd a + 0x38)"
  defines "offset \<equiv> off mod ring_bytes a"
  defines "publ \<equiv> (if pending \<and> offset = push_bit 4 (drop_bit 16 r AND 0xffff)
     then (offset + ring_bytes a - 64) mod ring_bytes a else offset)"
  defines "full \<equiv> consumer_of r = ucast (drop_bit 4 offset)"
  shows "target a' = ucast (drop_bit 4 offset)"
    and "published a' = (if full then ucast (drop_bit 4 publ) else ucast (drop_bit 4 offset))"
    and "producer_of (view m' (au_snd a + 0x38)) = published a'"
    and "consumer_of (view m' (au_snd a + 0x38)) = consumer_of r"
    and "bit (view m' (au_snd a + 0x04)) 16 \<longleftrightarrow>
      bit (view m (au_snd a + 0x04)) 16 \<or> published a' \<noteq> consumer_of r"
proof -
  let ?a = "a\<lparr>target := ucast (drop_bit 4 offset), published := ucast (drop_bit 4 publ)\<rparr>"
  let ?m = "update io (au_snd a + 0x38) 0xffff (ucast (published ?a))
    (dma_barrier io (snd (hc15xx_audio_consumer io a m)))"
  have cons: "fst (hc15xx_audio_consumer io a m) = push_bit 4 (drop_bit 16 r AND 0xffff)"
    using assms(1) by (simp only: hc15xx_audio_consumer_def rd_def split_def Let_def fst_conv
        read_value r_def)
  have mv: "view ?m (au_snd a + 0x38) = masked 0xffff r (ucast (published ?a))"
    "view ?m (au_snd a + 0x04) = view m (au_snd a + 0x04)"
    using assms(1,2) by (simp_all add: update_view barrier_view consumer_view r_def)
  obtain ch a1 m1 where sr: "hc15xx_audio_service_ring io ?a ?m = (ch, a1, m1)"
    by (metis prod_cases3)
  have "(a', m') = (a1, m1)"
    using assms(3,4) sr unfolding hc15xx_audio_set_target_def split_def Let_def cons
      offset_def [symmetric] publ_def [symmetric] by simp
  then have eq: "a' = a1" "m' = m1" by simp_all
  have c: "consumer_of (view ?m (au_snd ?a + 0x38)) = consumer_of r"
    using mv(1) by simp
  note sv = service_ring_view [OF _ _ sr, unfolded c, simplified, OF assms(1,2)]
  from sv(1) show "target a' = ucast (drop_bit 4 offset)" by (simp add: eq)
  from sv(1) show pub: "published a' = (if full then ucast (drop_bit 4 publ) else ucast (drop_bit 4 offset))"
    by (auto simp: eq full_def)
  from sv(2) mv(1) show "producer_of (view m' (au_snd a + 0x38)) = published a'"
    "consumer_of (view m' (au_snd a + 0x38)) = consumer_of r"
    using sv(1) by (auto simp: eq)
  from sv(3) mv(2) show "bit (view m' (au_snd a + 0x04)) 16 \<longleftrightarrow>
      bit (view m (au_snd a + 0x04)) 16 \<or> published a' \<noteq> consumer_of r"
    by (simp add: eq)
qed

end

text \<open>
  Arithmetic of the 64-byte guard: in a ring larger than the guard, stepping back by the guard
  never lands on the same 16-byte unit.
\<close>

definition ring_valid :: "hc15xx_audio \<Rightarrow> bool" where
  "ring_valid a \<longleftrightarrow> 64 < unat (ring_bytes a) \<and> unat (ring_bytes a) \<le> 0xffff0 \<and>
     16 dvd unat (ring_bytes a)"

lemma guard_step:
  fixes off ring :: u32
  assumes "64 < unat ring" "unat ring \<le> 0xffff0" "16 dvd unat ring" "unat off < unat ring" "16 dvd unat off"
  shows "unat ((off + ring - 64) mod ring) div 16 \<noteq> unat off div 16"
    and "unat ((off + ring - 64) mod ring) < unat ring"
proof -
  have "unat (off + ring) = unat off + unat ring" using assms by (simp add: unat_word_ariths)
  then have "unat (off + ring - 64) = unat off + unat ring - 64"
    using assms(1) by (simp add: unat_sub word_le_nat_alt)
  then have u: "unat ((off + ring - 64) mod ring) = (unat off + unat ring - 64) mod unat ring"
    by (simp add: unat_mod)
  have "(unat off + unat ring - 64) mod unat ring =
      (if 64 \<le> unat off then unat off - 64 else unat off + unat ring - 64)"
  proof (cases "64 \<le> unat off")
    case True
    then have "unat off + unat ring - 64 = unat off - 64 + unat ring" by simp
    then have "(unat off + unat ring - 64) mod unat ring = (unat off - 64) mod unat ring"
      by (metis mod_add_self2)
    then show ?thesis using True assms(4) by simp
  next
    case False
    then show ?thesis using assms(1) by simp
  qed
  with u show "unat ((off + ring - 64) mod ring) div 16 \<noteq> unat off div 16"
    using assms by auto
  show "unat ((off + ring - 64) mod ring) < unat ring" unfolding u using assms(1) by simp
qed

lemma cursor_of_offset:
  fixes off :: u32
  assumes "unat off \<le> 0xfffff"
  shows "unat (ucast (drop_bit 4 off) :: u16) = unat off div 16"
proof -
  have "unat off div 16 < 65536" using assms by simp
  then show ?thesis
    by (simp add: unsigned_ucast_eq unsigned_drop_bit_eq drop_bit_eq_div take_bit_eq_mod unat_div)
qed

lemma consumer_bytes:
  "unat (push_bit 4 (drop_bit 16 r AND 0xffff) :: u32) = 16 * unat (consumer_of r)"
proof -
  have m: "drop_bit 16 r AND 0xffff = drop_bit 16 r"
  proof (rule bit_word_eqI)
    fix n assume "n < LENGTH(32)"
    show "bit (drop_bit 16 r AND 0xffff) n = bit (drop_bit 16 r) n"
      using bit_imp_le_length [of r "16 + n"] by (auto simp: bit_simps bit_ffff)
  qed
  have lt: "unat (drop_bit 16 r) < 65536"
    using unsigned_less [of r, where 'a = nat] by (simp add: unsigned_drop_bit_eq drop_bit_eq_div unat_div)
  then have "unat (consumer_of r) = unat (drop_bit 16 r)"
    by (simp add: consumer_of_def unsigned_ucast_eq take_bit_eq_mod)
  with m lt show ?thesis
    by (simp add: push_bit_eq_mult unat_word_ariths)
qed

lemmas trace_audio_unfold = hc15xx_audio_set_target_def hc15xx_audio_service_ring_def
  service_publish_def service_start_def
  hc15xx_audio_consumer_def update_def rd_def wr_def

section \<open>The order of publication\<close>

text \<open>Every write of the cursor register follows a barrier and the read half of its update.\<close>

definition barriered :: "addr \<Rightarrow> bus_event list \<Rightarrow> bool" where
  "barriered cur es \<longleftrightarrow> (\<forall>i v. i < length es \<and> es ! i = EvWrite cur v \<longrightarrow>
     2 \<le> i \<and> es ! (i - 2) = EvBarrier \<and> (\<exists>r. es ! (i - 1) = EvRead cur r))"

lemma barriered_append:
  assumes "barriered cur xs" "barriered cur ys"
  shows "barriered cur (xs @ ys)"
  unfolding barriered_def
proof (intro allI impI)
  fix i v assume i: "i < length (xs @ ys) \<and> (xs @ ys) ! i = EvWrite cur v"
  show "2 \<le> i \<and> (xs @ ys) ! (i - 2) = EvBarrier \<and> (\<exists>r. (xs @ ys) ! (i - 1) = EvRead cur r)"
  proof (cases "i < length xs")
    case True
    with i assms(1) show ?thesis by (auto simp: barriered_def nth_append)
  next
    case False
    let ?j = "i - length xs"
    have "?j < length ys \<and> ys ! ?j = EvWrite cur v" using i False by (auto simp: nth_append)
    from assms(2) [unfolded barriered_def, rule_format, OF this]
    have j: "2 \<le> ?j" "ys ! (?j - 2) = EvBarrier" "\<exists>r. ys ! (?j - 1) = EvRead cur r" by auto
    have "(xs @ ys) ! (i - 2) = ys ! (?j - 2)" "(xs @ ys) ! (i - 1) = ys ! (?j - 1)"
      using j(1) False by (auto simp: nth_append)
    with j False show ?thesis by auto
  qed
qed

lemma barriered_no_write: "filter is_write es = [] \<Longrightarrow> barriered cur es"
  by (auto simp: barriered_def filter_empty_conv dest!: nth_mem)

lemma barriered_publish: "barriered cur [EvBarrier, EvRead cur r, EvWrite cur v]"
  by (auto simp: barriered_def less_Suc_eq numeral_3_eq_3)

lemma barriered_other: "a \<noteq> cur \<Longrightarrow> barriered cur [EvRead b x, EvRead a r, EvWrite a v]"
  by (auto simp: barriered_def less_Suc_eq numeral_3_eq_3)

lemma update_log:
  "events (update trace_audio_io a msk v t) =
     events t @ [EvRead a (next_answer t), EvWrite a ((next_answer t AND NOT msk) OR (v AND msk))]"
  by (simp add: update_def rd_def wr_def split_def Let_def)

lemma service_publish_log:
  "\<exists>es. events (snd (snd (service_publish trace_audio_io c a t))) = events t @ es \<and>
     barriered (au_snd a + 0x38) es"
  by (auto simp: service_publish_def Let_def update_log intro: barriered_publish barriered_no_write)

lemma service_start_log:
  "\<exists>es. events (snd (snd (service_start trace_audio_io c ch a t))) = events t @ es \<and>
     barriered (au_snd a + 0x38) es"
  by (auto simp: service_start_def rd_def split_def Let_def update_log
      intro: barriered_other barriered_no_write)

lemma service_publish_snd: "au_snd (fst (snd (service_publish io c a m))) = au_snd a"
  by (simp add: service_publish_def Let_def)

lemma service_ring_log:
  "\<exists>es. events (snd (snd (hc15xx_audio_service_ring trace_audio_io a t))) = events t @ es \<and>
     barriered (au_snd a + 0x38) es"
proof -
  let ?cur = "au_snd a + 0x38"
  let ?c = "ucast (drop_bit 4 (fst (hc15xx_audio_consumer trace_audio_io a t))) :: u16"
  let ?t = "snd (hc15xx_audio_consumer trace_audio_io a t)"
  let ?p = "service_publish trace_audio_io ?c a ?t"
  obtain x where x: "events (snd (snd ?p)) = events ?t @ x" "barriered ?cur x"
    using service_publish_log by blast
  obtain y where y: "events (snd (snd (service_start trace_audio_io ?c (fst ?p) (fst (snd ?p)) (snd (snd ?p)))))
      = events (snd (snd ?p)) @ y" "barriered ?cur y"
    using service_start_log [of ?c "fst ?p" "fst (snd ?p)"] unfolding service_publish_snd by blast
  have t: "events ?t = events t @ [EvRead ?cur (next_answer t)]"
    by (simp add: hc15xx_audio_consumer_def rd_def split_def Let_def)
  have "barriered ?cur ([EvRead ?cur (next_answer t)] @ x @ y)"
    by (intro barriered_append x(2) y(2) barriered_no_write) simp
  then show ?thesis using x(1) y(1) t
    by (intro exI [of _ "[EvRead ?cur (next_answer t)] @ x @ y"])
      (simp add: hc15xx_audio_service_ring_def split_def Let_def)
qed

section \<open>Properties\<close>

text \<open>With the pending offset on a boundary or away from the consumer, the ring does not look empty.\<close>

lemma set_target_full:
  assumes "audio_regs io view mapped" and "mapped (au_snd a + 0x38)" and "mapped (au_snd a + 0x04)"
    and "ring_valid a"
    and "16 dvd unat (off mod ring_bytes a) \<or>
      unat (off mod ring_bytes a) div 16 \<noteq> unat (consumer_of (view m (au_snd a + 0x38)))"
    and "hc15xx_audio_set_target io a off True m = (a', m')"
  shows "producer_of (view m' (au_snd a + 0x38)) \<noteq> consumer_of (view m' (au_snd a + 0x38)) \<and>
    consumer_of (view m' (au_snd a + 0x38)) = consumer_of (view m (au_snd a + 0x38)) \<and>
    bit (view m' (au_snd a + 0x04)) 16"
proof -
  let ?r = "view m (au_snd a + 0x38)" and ?off = "off mod ring_bytes a"
  have ring: "64 < unat (ring_bytes a)" "unat (ring_bytes a) \<le> 0xffff0" "16 dvd unat (ring_bytes a)"
    using assms(4) by (simp_all add: ring_valid_def)
  then have nz: "ring_bytes a \<noteq> 0" by auto
  have off: "unat ?off < unat (ring_bytes a)" using ring(1) by (simp add: unat_mod)
  note st = audio_regs.set_target_view [OF assms(1-3) nz assms(6)]
  have offc: "unat (ucast (drop_bit 4 ?off) :: u16) = unat ?off div 16"
    using off ring(2) by (intro cursor_of_offset) simp
  have "published a' \<noteq> consumer_of ?r"
  proof (cases "consumer_of ?r = ucast (drop_bit 4 ?off)")
    case True
    then have al: "16 dvd unat ?off" using assms(5) offc by auto
    then have "unat ?off = 16 * unat (consumer_of ?r)"
      using offc True by (simp add: dvd_mult_div_cancel)
    then have eq: "?off = push_bit 4 (drop_bit 16 ?r AND 0xffff)"
      by (simp add: word_unat_eq_iff consumer_bytes del: push_bit_and)
    let ?p = "(?off + ring_bytes a - 64) mod ring_bytes a"
    have "published a' = ucast (drop_bit 4 ?p)" using st(2) True eq by simp
    moreover have "unat (ucast (drop_bit 4 ?p) :: u16) = unat ?p div 16"
      using guard_step(2) [OF ring off al] ring(2) by (intro cursor_of_offset) simp
    ultimately show ?thesis
      using guard_step(1) [OF ring off al] True offc by (simp add: word_unat_eq_iff)
  next
    case False
    then show ?thesis using st(2) by auto
  qed
  with st(3-5) show ?thesis by simp
qed

text \<open>
  Otherwise it does: the full test compares byte offsets where the hardware compares 16-byte units. The
  same happens in a 64-byte ring, which \<open>hc15xx_audio_configure_ring\<close> accepts and which is exactly the
  guard.
\<close>

lemma set_target_looks_empty:
  assumes "audio_regs io view mapped" and "mapped (au_snd a + 0x38)" and "mapped (au_snd a + 0x04)"
    and "0 < unat (ring_bytes a)" and "unat (ring_bytes a) \<le> 0xffff0"
    and "\<not> 16 dvd unat (off mod ring_bytes a) \<or> ring_bytes a = 64"
    and "unat (off mod ring_bytes a) div 16 = unat (consumer_of (view m (au_snd a + 0x38)))"
    and "hc15xx_audio_set_target io a off True m = (a', m')"
  shows "producer_of (view m' (au_snd a + 0x38)) = consumer_of (view m' (au_snd a + 0x38)) \<and>
    bit (view m' (au_snd a + 0x04)) 16 = bit (view m (au_snd a + 0x04)) 16"
proof -
  let ?r = "view m (au_snd a + 0x38)" and ?off = "off mod ring_bytes a"
  let ?cons = "push_bit 4 (drop_bit 16 ?r AND 0xffff) :: u32"
  have nz: "ring_bytes a \<noteq> 0" using assms(4) by auto
  have off: "unat ?off < unat (ring_bytes a)" using assms(4) by (simp add: unat_mod)
  note st = audio_regs.set_target_view [OF assms(1-3) nz assms(8)]
  have offc: "unat (ucast (drop_bit 4 ?off) :: u16) = unat ?off div 16"
    using off assms(5) by (intro cursor_of_offset) simp
  have full: "consumer_of ?r = ucast (drop_bit 4 ?off)"
    using offc assms(7) by (simp add: word_unat_eq_iff)
  have "(if True \<and> ?off = ?cons then (?off + ring_bytes a - 64) mod ring_bytes a else ?off) = ?off"
  proof (cases "ring_bytes a = 64")
    case True
    have "(?off + 64 - 64) mod 64 = off mod 64 mod 64" unfolding True by simp
    also have "\<dots> = off mod 64" by (simp add: word_unat_eq_iff unat_mod)
    finally have "(?off + 64 - 64) mod 64 = off mod 64" .
    then show ?thesis unfolding True by (simp only: if_cancel split: if_splits)
  next
    case False
    then have "\<not> 16 dvd unat ?off" using assms(6) by simp
    then have "unat ?off \<noteq> unat ?cons" unfolding consumer_bytes by (metis dvd_triv_left)
    then show ?thesis by auto
  qed
  then have "published a' = ucast (drop_bit 4 ?off)"
    using st(2) full by (simp only: if_cancel)
  then show ?thesis using st(3-5) full by simp
qed

definition audio_example :: hc15xx_audio where
  "audio_example = \<lparr>au_snd = 0, au_dac = 0x100, au_sys = 0x180, ring_bytes = 16384, target = 0,
     published = 0\<rparr>"

text \<open>
  C16. The hardware has no full flag: equal cursors mean an empty ring. For every ring larger than the
  64-byte guard (in 16-byte units, up to 0xffff0 bytes), \<open>hc15xx_audio_set_target\<close> with data pending
  leaves the consumer alone, and exactly one offset is treated wrongly: if the offset is on a 16-byte
  boundary or not in the 16-byte unit of the consumer, the published producer differs from the consumer and
  the DMA engine runs; if it lies inside the consumer's unit, the producer equals the consumer and the
  engine is not started, so the pending data looks like an empty ring.
\<close>

theorem set_target_full_not_empty:
  assumes "audio_regs io view mapped" and "mapped (au_snd a + 0x38)" and "mapped (au_snd a + 0x04)"
    and "ring_valid a" and "hc15xx_audio_set_target io a off True m = (a', m')"
  shows "consumer_of (view m' (au_snd a + 0x38)) = consumer_of (view m (au_snd a + 0x38)) \<and>
    (if 16 dvd unat (off mod ring_bytes a) \<or>
        unat (off mod ring_bytes a) div 16 \<noteq> unat (consumer_of (view m (au_snd a + 0x38)))
     then producer_of (view m' (au_snd a + 0x38)) \<noteq> consumer_of (view m' (au_snd a + 0x38)) \<and>
       bit (view m' (au_snd a + 0x04)) 16
     else producer_of (view m' (au_snd a + 0x38)) = consumer_of (view m' (au_snd a + 0x38)) \<and>
       bit (view m' (au_snd a + 0x04)) 16 = bit (view m (au_snd a + 0x04)) 16)"
proof (cases "16 dvd unat (off mod ring_bytes a) \<or>
    unat (off mod ring_bytes a) div 16 \<noteq> unat (consumer_of (view m (au_snd a + 0x38)))")
  case True
  show ?thesis unfolding if_P [OF True] using set_target_full [OF assms(1-4) True assms(5)] by blast
next
  case False
  then have off: "\<not> 16 dvd unat (off mod ring_bytes a) \<or> ring_bytes a = 64"
    "unat (off mod ring_bytes a) div 16 = unat (consumer_of (view m (au_snd a + 0x38)))" by simp_all
  have ring: "0 < unat (ring_bytes a)" "unat (ring_bytes a) \<le> 0xffff0" "ring_bytes a \<noteq> 0"
    using assms(4) by (auto simp: ring_valid_def)
  show ?thesis
    using set_target_looks_empty [OF assms(1-3) ring(1,2) off assms(5)]
      audio_regs.set_target_view(4) [OF assms(1-3) ring(3) assms(5)] False by simp
qed

lemma set_target_full_not_empty_witness:
  "producer_of (fake_view (snd (hc15xx_audio_set_target fake_audio_io audio_example 16384 True fake_zero)) 0x38)
    \<noteq> consumer_of (fake_view (snd (hc15xx_audio_set_target fake_audio_io audio_example 16384 True fake_zero)) 0x38) \<and>
   producer_of (fake_view (snd (hc15xx_audio_set_target fake_audio_io audio_example 8 True fake_zero)) 0x38)
    = consumer_of (fake_view (snd (hc15xx_audio_set_target fake_audio_io audio_example 8 True fake_zero)) 0x38)"
proof -
  obtain a1 m1 where r1: "hc15xx_audio_set_target fake_audio_io audio_example 16384 True fake_zero = (a1, m1)" by fastforce
  obtain a2 m2 where r2: "hc15xx_audio_set_target fake_audio_io audio_example 8 True fake_zero = (a2, m2)" by fastforce
  have m: "word_aligned (au_snd audio_example + 0x38)" "word_aligned (au_snd audio_example + 0x04)" "ring_valid audio_example"
    by (simp_all add: audio_example_def word_aligned_def ring_valid_def)
  have z: "consumer_of (fake_view fake_zero 0x38) = 0" by (simp add: fake_zero_def fake_view_def consumer_of_def)
  show ?thesis
    using set_target_full_not_empty [OF fake_audio.audio_regs_axioms m r1]
      set_target_full_not_empty [OF fake_audio.audio_regs_axioms m r2] z
    unfolding r1 r2 by (auto simp: audio_example_def)
qed

text \<open>
  The bytes held back by the guard are released: once the consumer has left the target, one
  call of \<open>hc15xx_audio_service_ring\<close> publishes the true target, keeps the consumer and has the
  DMA engine running.
\<close>

theorem service_ring_releases:
  assumes "audio_regs io view mapped" and "mapped (au_snd a + 0x38)" and "mapped (au_snd a + 0x04)"
    and "producer_of (view m (au_snd a + 0x38)) = published a"
    and "consumer_of (view m (au_snd a + 0x38)) \<noteq> target a"
    and "hc15xx_audio_service_ring io a m = (changed, a', m')"
  shows "producer_of (view m' (au_snd a + 0x38)) = target a \<and> published a' = target a \<and>
    consumer_of (view m' (au_snd a + 0x38)) = consumer_of (view m (au_snd a + 0x38)) \<and>
    bit (view m' (au_snd a + 0x04)) 16"
  using audio_regs.service_ring_view [OF assms(1-3,6)] assms(4,5) by auto

lemma service_ring_releases_witness:
  "producer_of (fake_view (snd (snd (hc15xx_audio_service_ring fake_audio_io
     (audio_example\<lparr>published := 1020\<rparr>) (fake_zero\<lparr>fake_regs := (\<lambda>_. 0)(14 := 0x000403fc)\<rparr>)))) 0x38) = 0"
  using service_ring_releases [OF fake_audio.audio_regs_axioms, of "audio_example\<lparr>published := 1020\<rparr>"
      "fake_zero\<lparr>fake_regs := (\<lambda>_. 0)(14 := 0x000403fc)\<rparr>"]
  by (cases "hc15xx_audio_service_ring fake_audio_io
     (audio_example\<lparr>published := 1020\<rparr>) (fake_zero\<lparr>fake_regs := (\<lambda>_. 0)(14 := 0x000403fc)\<rparr>)")
    (auto simp: audio_example_def word_aligned_def fake_view_def producer_of_def consumer_of_def)

text \<open>
  Publication order: whatever the hardware answers, every write of the cursor register in
  \<open>hc15xx_audio_set_target\<close> comes after a DMA barrier with nothing but the read of that register
  in between, so the samples reach memory before the producer moves over them.
\<close>

theorem set_target_barrier_first:
  "\<exists>es. events (snd (hc15xx_audio_set_target trace_audio_io a off pending t)) = events t @ es \<and>
     (\<forall>i v. i < length es \<and> es ! i = EvWrite (au_snd a + 0x38) v \<longrightarrow>
        2 \<le> i \<and> es ! (i - 2) = EvBarrier \<and> (\<exists>r. es ! (i - 1) = EvRead (au_snd a + 0x38) r))"
proof (cases "ring_bytes a = 0")
  case True
  then show ?thesis by (auto simp: hc15xx_audio_set_target_def)
next
  case False
  let ?cur = "au_snd a + 0x38"
  obtain a1 t1 r v where st: "snd (hc15xx_audio_set_target trace_audio_io a off pending t) =
      snd (snd (hc15xx_audio_service_ring trace_audio_io a1 t1))" and a1: "au_snd a1 = au_snd a"
    and t1: "events t1 = events t @ [EvRead ?cur (next_answer t)] @ [EvBarrier, EvRead ?cur r, EvWrite ?cur v]"
    using False unfolding hc15xx_audio_set_target_def hc15xx_audio_consumer_def
    by (auto simp: rd_def split_def Let_def update_log)
  obtain es where es: "events (snd (snd (hc15xx_audio_service_ring trace_audio_io a1 t1))) = events t1 @ es"
    "barriered ?cur es" using service_ring_log [of a1 t1] a1 by auto
  have "barriered ?cur ([EvRead ?cur (next_answer t)] @ [EvBarrier, EvRead ?cur r, EvWrite ?cur v] @ es)"
    by (intro barriered_append barriered_publish es(2) barriered_no_write) simp
  then show ?thesis using st t1 es(1) unfolding barriered_def
    by (intro exI [of _ "[EvRead ?cur (next_answer t)] @ [EvBarrier, EvRead ?cur r, EvWrite ?cur v] @ es"])
      simp
qed

lemma set_target_barrier_first_witness:
  "\<exists>es. events (snd (hc15xx_audio_set_target trace_audio_io audio_example 512 True \<lparr>answers = [0, 7], events = []\<rparr>)) = es \<and>
     (\<forall>i v. i < length es \<and> es ! i = EvWrite 0x38 v \<longrightarrow> 2 \<le> i \<and> es ! (i - 2) = EvBarrier)"
proof -
  have "au_snd audio_example = 0" by (simp add: audio_example_def)
  then show ?thesis
    using set_target_barrier_first [of audio_example 512 True "\<lparr>answers = [0, 7], events = []\<rparr>"] by auto
qed

text \<open>
  \<open>hc15xx_audio_configure_ring\<close> rejects every bad geometry without touching the driver or
  the hardware; otherwise it records the ring, resets both cursors, and programs the base
  address, the size in 16-byte units and the period in frames.
\<close>

theorem configure_ring_cases:
  assumes "audio_regs io view mapped"
    and "\<forall>off \<in> {0x30, 0x34, 0x38, 0x5c}. mapped (au_snd a + off)"
    and "hc15xx_audio_configure_ring io a dma bytes period m = (ret, a', m')"
    and "geometry_ok \<longleftrightarrow> bytes \<noteq> 0 \<and> bytes AND 15 = 0 \<and> bytes \<le> 0xffff0 \<and> period \<noteq> 0 \<and> period \<le> 0xffff"
  shows "if geometry_ok
    then ret = 0 \<and> a' = a\<lparr>ring_bytes := bytes, target := 0, published := 0\<rparr> \<and>
      view m' (au_snd a + 0x30) = dma \<and> view m' (au_snd a + 0x38) = 0 \<and>
      view m' (au_snd a + 0x34) AND 0xffff = drop_bit 4 bytes \<and>
      view m' (au_snd a + 0x5c) AND 0xffff = period
    else ret = -1 \<and> a' = a \<and> m' = m"
proof (cases geometry_ok)
  case False
  then show ?thesis using assms(3,4) by (auto simp: hc15xx_audio_configure_ring_def not_less
      split: if_splits)
next
  case True
  then have ok: "\<not> (bytes = 0 \<or> bytes AND 15 \<noteq> 0 \<or> bytes > 0xffff0 \<or> period = 0 \<or> period > 0xffff)"
    using assms(4) by (auto simp: not_less)
  have "unat bytes \<le> 0xffff0" "unat period \<le> 0xffff"
    using ok by (auto simp: word_le_nat_alt not_less)
  then have "unat (drop_bit 4 bytes) \<le> 0xffff"
    by (simp add: unsigned_drop_bit_eq drop_bit_eq_div unat_div)
  with \<open>unat period \<le> 0xffff\<close> True
    audio_regs.configure_ring_view [OF assms(1-3) ok] show ?thesis
    by (auto simp only: low_half_replaced if_True)
qed

lemma configure_ring_cases_witness:
  "fst (hc15xx_audio_configure_ring fake_audio_io audio_example 0x01234000 16384 1024 fake_zero) = 0"
proof -
  obtain r a' m' where e: "hc15xx_audio_configure_ring fake_audio_io audio_example 0x01234000 16384 1024
      fake_zero = (r, a', m')" by (metis prod_cases3)
  show ?thesis
    using configure_ring_cases [OF fake_audio.audio_regs_axioms _ e, of True] e
    by (simp add: audio_example_def word_aligned_def)
qed

text \<open>
  Milliseconds survive a round trip through either system time clock: what
  \<open>hc15xx_audio_set_stc_ms\<close> stores, \<open>hc15xx_audio_stc_ms\<close> reads back, for every time whose tick
  count fits the 32-bit counter.
\<close>

theorem stc_ms_roundtrip:
  assumes "audio_regs io view mapped" and "stc_valid i" and "mapped (hc15xx_stc_tick_register a i)"
    and "ms \<le> 95443717"
  shows "fst (hc15xx_audio_stc_ms io a i (hc15xx_audio_set_stc_ms io a i ms m)) = ms"
proof -
  have ms: "unat ms \<le> 95443717" using assms(4) by (simp add: word_le_nat_alt)
  then have t: "unat (ms * 45) = unat ms * 45" by (simp add: unat_word_ariths)
  then have "ms * 45 \<noteq> 0xffffffff" using ms by (auto simp: word_unat_eq_iff)
  moreover have "ms * 45 div 45 = ms" by (simp add: word_unat_eq_iff unat_div t)
  moreover have "fst (hc15xx_audio_stc_tick io a i (hc15xx_audio_set_stc_ms io a i ms m)) = ms * 45"
    using assms(2) reg_file.read_after_write [OF audio_regs.axioms(1) [OF assms(1)] assms(3)]
    by (simp add: hc15xx_audio_stc_tick_def hc15xx_audio_set_stc_ms_def hc15xx_audio_set_stc_tick_def
        hc15xx_audio_ms_to_stc_tick_def)
  ultimately show ?thesis
    by (simp add: hc15xx_audio_stc_ms_def hc15xx_audio_stc_tick_to_ms_def split_def Let_def)
qed

lemma stc_ms_roundtrip_witness:
  "fst (hc15xx_audio_stc_ms fake_audio_io audio_example HC15XX_STC1
     (hc15xx_audio_set_stc_ms fake_audio_io audio_example HC15XX_STC1 95443717 fake_zero)) = 95443717"
  by (rule stc_ms_roundtrip [OF fake_audio.audio_regs_axioms])
    (simp_all add: stc_valid_def word_aligned_def hc15xx_stc_tick_register_def audio_example_def)

end
