(* ===== verification/Avsync.thy ===== *)
theory Avsync
  imports Audio
begin

text \<open>
  Audio/video synchronisation on top of the audio core's system time clocks,
  \<^verbatim>\<open>src/audio/hc15xx_avsync.c\<close>. The per-clock arrays are functions of the clock; a NULL
  \<open>sync\<close> or \<open>sync->audio\<close> is \<open>None\<close>.
\<close>

section \<open>The synchroniser\<close>

datatype hc15xx_avsync_status =
  HC15XX_AVSYNC_NORMAL | HC15XX_AVSYNC_DROP | HC15XX_AVSYNC_HOLD | HC15XX_AVSYNC_INVALID

record hc15xx_avsync =
  av_audio :: "hc15xx_audio option"
  audio_update_delay :: "hc15xx_stc_id \<Rightarrow> u32"
  audio_update_threshold :: "hc15xx_stc_id \<Rightarrow> u32"
  audio_sync_delay :: "hc15xx_stc_id \<Rightarrow> u32"
  audio_sync_threshold :: "hc15xx_stc_id \<Rightarrow> u32"
  audio_valid_threshold :: "hc15xx_stc_id \<Rightarrow> u32"
  video_update_threshold :: "hc15xx_stc_id \<Rightarrow> u32"
  audio_hold :: "hc15xx_stc_id \<Rightarrow> bool"

abbreviation (input) AUDIO_UPDATE_THRESHOLD where "AUDIO_UPDATE_THRESHOLD \<equiv> 2 * HC15XX_STC_TICKS_PER_MS"
abbreviation (input) AUDIO_SYNC_THRESHOLD where "AUDIO_SYNC_THRESHOLD \<equiv> 180 * HC15XX_STC_TICKS_PER_MS"
abbreviation (input) AUDIO_VALID_THRESHOLD where "AUDIO_VALID_THRESHOLD \<equiv> 120000 * HC15XX_STC_TICKS_PER_MS"
abbreviation (input) VIDEO_UPDATE_THRESHOLD where "VIDEO_UPDATE_THRESHOLD \<equiv> 100 * HC15XX_STC_TICKS_PER_MS"

definition valid_id :: "hc15xx_stc_id \<Rightarrow> bool" where
  "valid_id i \<longleftrightarrow> i = HC15XX_STC0 \<or> i = HC15XX_STC1"

definition tick_distance :: "u32 \<Rightarrow> u32 \<Rightarrow> u32" where
  "tick_distance left right = (if left \<ge> right then left - right else right - left)"

definition hc15xx_avsync_init :: "hc15xx_audio option \<Rightarrow> hc15xx_avsync" where
  "hc15xx_avsync_init audio =
     \<lparr>av_audio = audio, audio_update_delay = (\<lambda>_. 0),
      audio_update_threshold = (\<lambda>_. AUDIO_UPDATE_THRESHOLD), audio_sync_delay = (\<lambda>_. 0),
      audio_sync_threshold = (\<lambda>_. AUDIO_SYNC_THRESHOLD),
      audio_valid_threshold = (\<lambda>_. AUDIO_VALID_THRESHOLD),
      video_update_threshold = (\<lambda>_. VIDEO_UPDATE_THRESHOLD), audio_hold = (\<lambda>_. True)\<rparr>"

definition hc15xx_avsync_audio_update :: "('m, 'z) audio_io_scheme \<Rightarrow> hc15xx_avsync option \<Rightarrow>
    hc15xx_stc_id \<Rightarrow> u32 \<Rightarrow> 'm \<Rightarrow> 'm" where
  "hc15xx_avsync_audio_update io sync i audio_tick m =
     (case sync of None \<Rightarrow> m | Some s \<Rightarrow>
      (case av_audio s of None \<Rightarrow> m | Some a \<Rightarrow>
       if \<not> valid_id i then m
       else
         let delayed = (if audio_tick > audio_update_delay s i
                        then audio_tick - audio_update_delay s i else 0);
             (current, m) = hc15xx_audio_stc_tick io a i m
         in if tick_distance current delayed \<ge> audio_update_threshold s i
            then hc15xx_audio_set_stc_tick io a i delayed m else m))"

definition hc15xx_avsync_video_update :: "('m, 'z) audio_io_scheme \<Rightarrow> hc15xx_avsync option \<Rightarrow>
    hc15xx_stc_id \<Rightarrow> u32 \<Rightarrow> 'm \<Rightarrow> 'm" where
  "hc15xx_avsync_video_update io sync i video_tick m =
     (case sync of None \<Rightarrow> m | Some s \<Rightarrow>
      (case av_audio s of None \<Rightarrow> m | Some a \<Rightarrow>
       if \<not> valid_id i then m
       else
         let (current, m) = hc15xx_audio_stc_tick io a i m
         in if tick_distance current video_tick \<ge> video_update_threshold s i
            then hc15xx_audio_set_stc_tick io a i video_tick m else m))"

definition hc15xx_avsync_audio_check :: "('m, 'z) audio_io_scheme \<Rightarrow> hc15xx_avsync option \<Rightarrow>
    hc15xx_stc_id \<Rightarrow> u32 \<Rightarrow> 'm \<Rightarrow> hc15xx_avsync_status \<times> 'm" where
  "hc15xx_avsync_audio_check io sync i audio_tick m =
     (case sync of None \<Rightarrow> (HC15XX_AVSYNC_INVALID, m) | Some s \<Rightarrow>
      (case av_audio s of None \<Rightarrow> (HC15XX_AVSYNC_INVALID, m) | Some a \<Rightarrow>
       if \<not> valid_id i then (HC15XX_AVSYNC_INVALID, m)
       else
         let (tick, m) = hc15xx_audio_stc_tick io a i m;
             stc = tick + audio_sync_delay s i;
             distance = tick_distance stc audio_tick
         in if distance > audio_valid_threshold s i then (HC15XX_AVSYNC_INVALID, m)
            else if stc > audio_tick \<and> stc - audio_tick > audio_sync_threshold s i
            then (HC15XX_AVSYNC_DROP, m)
            else if audio_tick > stc \<and> audio_tick - stc > audio_sync_threshold s i
            then (if audio_hold s i then HC15XX_AVSYNC_HOLD else HC15XX_AVSYNC_NORMAL, m)
            else (HC15XX_AVSYNC_NORMAL, m)))"

section \<open>Distances\<close>

lemma uint_tick_distance: "uint (tick_distance a b) = \<bar>uint a - uint b\<bar>"
  by (simp add: tick_distance_def uint_sub_if' word_le_def)

lemma uint_minus_less: "b < a \<Longrightarrow> uint (a - b) = uint a - uint b" for a b :: u32
  by (simp add: uint_sub_if' word_less_def)

lemma gap_exceeds_iff: "b < a \<and> t < a - b \<longleftrightarrow> uint b - uint a < - uint t" for a b t :: u32
proof -
  have "0 \<le> uint t" by simp
  then show ?thesis
    using uint_minus_less [of b a] unfolding word_less_def by linarith
qed

lemma valid_id_stc: "valid_id i = stc_valid i"
  by (simp add: valid_id_def stc_valid_def)

section \<open>Properties\<close>

text \<open>
  After \<open>hc15xx_avsync_audio_update\<close> the system time clock is within the update threshold
  of the delayed audio time, whatever it showed before; with a clock already that close it is
  left alone.
\<close>

theorem audio_update_tracks:
  assumes "audio_regs io view mapped" and "av_audio s = Some a" and "valid_id i"
    and "mapped (hc15xx_stc_tick_register a i)" and "audio_update_threshold s i \<noteq> 0"
    and "clock = (\<lambda>m. uint (view m (hc15xx_stc_tick_register a i)))"
    and "delayed = max 0 (uint audio_tick - uint (audio_update_delay s i))"
    and "m' = hc15xx_avsync_audio_update io (Some s) i audio_tick m"
  shows "\<bar>clock m' - delayed\<bar> < uint (audio_update_threshold s i) \<and>
    (\<bar>clock m - delayed\<bar> < uint (audio_update_threshold s i) \<longrightarrow> clock m' = clock m)"
proof -
  note rf = audio_regs.axioms(1) [OF assms(1)]
  let ?d = "if audio_tick > audio_update_delay s i then audio_tick - audio_update_delay s i else 0"
  have d: "uint ?d = delayed"
    by (auto simp: assms(7) uint_sub_if' word_less_def max_def)
  have m': "clock m' = (if \<bar>clock m - delayed\<bar> \<ge> uint (audio_update_threshold s i) then delayed else clock m)"
    using assms(2-4,8) d
    by (simp add: hc15xx_avsync_audio_update_def hc15xx_audio_stc_tick_def hc15xx_audio_set_stc_tick_def
        valid_id_stc split_def Let_def reg_file.read_value [OF rf] reg_file.read_view [OF rf]
        reg_file.write_view [OF rf] assms(6) word_le_def uint_tick_distance)
  have "0 < uint (audio_update_threshold s i)" using assms(5) by (simp add: uint_pos)
  then show ?thesis unfolding m' by auto
qed

lemma audio_update_tracks_witness:
  "fake_view (hc15xx_avsync_audio_update fake_audio_io
      (Some (hc15xx_avsync_init (Some audio_example))) HC15XX_STC0 9000 fake_zero) 0xb4 > 8910"
proof -
  let ?s = "hc15xx_avsync_init (Some audio_example)"
  let ?x = "uint (fake_view (hc15xx_avsync_audio_update fake_audio_io (Some ?s) HC15XX_STC0 9000 fake_zero) 0xb4)"
  have p: "av_audio ?s = Some audio_example" "valid_id HC15XX_STC0"
    "word_aligned (hc15xx_stc_tick_register audio_example HC15XX_STC0)"
    "audio_update_threshold ?s HC15XX_STC0 \<noteq> 0" "hc15xx_stc_tick_register audio_example HC15XX_STC0 = 0xb4"
    "audio_update_threshold ?s HC15XX_STC0 = 90" "audio_update_delay ?s HC15XX_STC0 = 0"
    by (simp_all add: hc15xx_avsync_init_def valid_id_def word_aligned_def
        hc15xx_stc_tick_register_def audio_example_def)
  have "\<bar>?x - 9000\<bar> < 90"
    using audio_update_tracks [OF fake_audio.audio_regs_axioms p(1-4) refl refl refl, of 9000 fake_zero]
    unfolding p(5-7) by simp
  then show ?thesis by (simp add: word_less_def abs_less_iff)
qed

text \<open>
  \<open>hc15xx_avsync_audio_check\<close> classifies by the signed lead of the audio time over the delayed
  clock: too far either way is invalid, late beyond the sync threshold is dropped, early beyond it
  is held when holding is on, everything else plays. It does not change any register.
\<close>

theorem audio_check_classifies:
  assumes "audio_regs io view mapped" and "av_audio s = Some a" and "valid_id i"
    and "mapped (hc15xx_stc_tick_register a i)"
    and "lead = uint audio_tick -
      uint (view m (hc15xx_stc_tick_register a i) + audio_sync_delay s i)"
    and "hc15xx_avsync_audio_check io (Some s) i audio_tick m = (status, m')"
  shows "view m' = view m \<and> status =
    (if \<bar>lead\<bar> > uint (audio_valid_threshold s i) then HC15XX_AVSYNC_INVALID
     else if lead < - uint (audio_sync_threshold s i) then HC15XX_AVSYNC_DROP
     else if lead > uint (audio_sync_threshold s i) \<and> audio_hold s i then HC15XX_AVSYNC_HOLD
     else HC15XX_AVSYNC_NORMAL)"
proof -
  note rf = audio_regs.axioms(1) [OF assms(1)]
  let ?stc = "view m (hc15xx_stc_tick_register a i) + audio_sync_delay s i"
  have dist: "tick_distance ?stc audio_tick > audio_valid_threshold s i \<longleftrightarrow>
      \<bar>lead\<bar> > uint (audio_valid_threshold s i)"
    unfolding word_less_def uint_tick_distance assms(5) by (simp add: abs_minus_commute)
  have late: "?stc > audio_tick \<and> ?stc - audio_tick > audio_sync_threshold s i \<longleftrightarrow>
      lead < - uint (audio_sync_threshold s i)"
    by (simp add: gap_exceeds_iff assms(5))
  have early: "audio_tick > ?stc \<and> audio_tick - ?stc > audio_sync_threshold s i \<longleftrightarrow>
      lead > uint (audio_sync_threshold s i)"
    unfolding gap_exceeds_iff assms(5) by linarith
  have "(status, m') = (if \<bar>lead\<bar> > uint (audio_valid_threshold s i) then HC15XX_AVSYNC_INVALID
     else if lead < - uint (audio_sync_threshold s i) then HC15XX_AVSYNC_DROP
     else if lead > uint (audio_sync_threshold s i) \<and> audio_hold s i then HC15XX_AVSYNC_HOLD
     else HC15XX_AVSYNC_NORMAL, snd (read32 io m (hc15xx_stc_tick_register a i)))"
    using assms(2-4) unfolding assms(6) [symmetric] hc15xx_avsync_audio_check_def
    by (simp add: hc15xx_audio_stc_tick_def valid_id_stc split_def Let_def
        reg_file.read_value [OF rf] dist late early)
  then show ?thesis using reg_file.read_view [OF rf assms(4)] by simp
qed

lemma audio_check_classifies_witness:
  "fst (hc15xx_avsync_audio_check fake_audio_io (Some (hc15xx_avsync_init (Some audio_example)))
      HC15XX_STC0 9000 fake_zero) = HC15XX_AVSYNC_HOLD"
proof -
  obtain st m' where r: "hc15xx_avsync_audio_check fake_audio_io
      (Some (hc15xx_avsync_init (Some audio_example))) HC15XX_STC0 9000 fake_zero = (st, m')" by fastforce
  show ?thesis
    using audio_check_classifies [OF fake_audio.audio_regs_axioms _ _ _ refl r, of audio_example] r
    by (simp add: hc15xx_avsync_init_def valid_id_def word_aligned_def hc15xx_stc_tick_register_def
        audio_example_def fake_zero_def fake_view_def)
qed

end
