(* ===== verification/Resampler.thy ===== *)
theory Resampler
  imports Prelude
begin

text \<open>
  The linear stereo-to-mono resampler, \<^verbatim>\<open>src/audio/hc15xx_resampler.c\<close>. The driver has three
  code paths: a copy loop for equal rates, a 32-bit loop for rates up to 65535, and a 64-bit loop
  for the rest. They are modelled separately and shown to compute the same samples and the same
  next state.

  A stereo buffer is a list of (left, right) frames, the mono buffer is the list of samples
  written from its start, and a NULL pointer is \<open>None\<close>. Samples and \<open>int32_t\<close> values are integers;
  the conversions to \<open>int16_t\<close> and between signed and unsigned are written out.
\<close>

section \<open>State and conversions\<close>

record hc15xx_resampler =
  input_rate :: u32
  output_rate :: u32
  phase :: u32
  previous :: int
  have_previous :: bool

definition to_s16 :: "int \<Rightarrow> int" where
  "to_s16 x = sint (word_of_int x :: u16)"

definition s16 :: "int \<Rightarrow> bool" where
  "s16 x \<longleftrightarrow> -32768 \<le> x \<and> x \<le> 32767"

type_synonym frame = "int \<times> int"

definition s16_frame :: "frame \<Rightarrow> bool" where
  "s16_frame f \<longleftrightarrow> s16 (fst f) \<and> s16 (snd f)"

text \<open>\<open>((int32_t)left + (int32_t)right) / 2\<close>\<close>

definition mix :: "frame \<Rightarrow> int" where
  "mix f = cdiv (fst f + snd f) 2"

section \<open>The three loops\<close>

text \<open>
  One input frame of the 64-bit reference loop: \<open>None\<close> is its \<open>break\<close>, otherwise the new state
  and the samples appended to \<open>mono\<close>. \<open>produced\<close> is how many samples are already there.
\<close>

definition wide_frame :: "hc15xx_resampler \<Rightarrow> frame \<Rightarrow> nat \<Rightarrow> nat \<Rightarrow>
    (hc15xx_resampler \<times> int list) option" where
  "wide_frame st f produced capacity =
     (let current = mix f in
      if \<not> have_previous st then
        (if produced \<ge> capacity then None
         else Some (st\<lparr>previous := current, have_previous := True\<rparr>, [to_s16 current]))
      else
        let old_phase = phase st;
            advanced = (ucast old_phase :: u64) + ucast (output_rate st);
            outputs = advanced div ucast (input_rate st)
        in if unat outputs > capacity - produced then None
           else
             let samples = map (\<lambda>output_index.
                   let fraction = (ucast (input_rate st) :: u64) - ucast old_phase +
                         of_nat output_index * ucast (input_rate st);
                       delta = current - previous st
                   in to_s16 (previous st + cdiv (delta * sint fraction) (uint (output_rate st))))
                 [0..<unat outputs];
                 phase' = ucast (advanced - outputs * ucast (input_rate st))
             in Some (st\<lparr>phase := phase', previous := current\<rparr>, samples))"

text \<open>The same frame in the 32-bit loop.\<close>

definition narrow_frame :: "hc15xx_resampler \<Rightarrow> frame \<Rightarrow> nat \<Rightarrow> nat \<Rightarrow>
    (hc15xx_resampler \<times> int list) option" where
  "narrow_frame st f produced capacity =
     (let current = mix f in
      if \<not> have_previous st then
        (if produced \<ge> capacity then None
         else Some (st\<lparr>previous := current, have_previous := True\<rparr>, [to_s16 current]))
      else
        let old_phase = phase st;
            advanced = old_phase + output_rate st;
            outputs = (if output_rate st \<le> input_rate st
                       then (if advanced \<ge> input_rate st then 1 else 0)
                       else advanced div input_rate st)
        in if unat outputs > capacity - produced then None
           else
             let samples = map (\<lambda>output_index.
                   let fraction = input_rate st - old_phase + of_nat output_index * input_rate st;
                       delta = current - previous st;
                       magnitude = (word_of_int (if delta < 0 then - delta else delta) :: u32);
                       interpolation = sint (magnitude * fraction div output_rate st);
                       interpolation = (if delta < 0 then - interpolation else interpolation)
                   in to_s16 (previous st + interpolation))
                 [0..<unat outputs];
                 phase' = advanced - outputs * input_rate st
             in Some (st\<lparr>phase := phase', previous := current\<rparr>, samples))"

text \<open>A loop over the frames; it stops at the first frame that does not fit.\<close>

fun resample_loop :: "(hc15xx_resampler \<Rightarrow> frame \<Rightarrow> nat \<Rightarrow> nat \<Rightarrow> (hc15xx_resampler \<times> int list) option) \<Rightarrow>
    nat \<Rightarrow> hc15xx_resampler \<Rightarrow> frame list \<Rightarrow> int list \<Rightarrow> int list \<times> hc15xx_resampler" where
  "resample_loop body capacity st [] pcm = (pcm, st)"
| "resample_loop body capacity st (f # fs) pcm =
     (case body st f (length pcm) capacity of
        None \<Rightarrow> (pcm, st)
      | Some (st', samples) \<Rightarrow> resample_loop body capacity st' fs (pcm @ samples))"

definition process_wide_rates :: "hc15xx_resampler \<Rightarrow> frame list \<Rightarrow> nat \<Rightarrow> int list \<times> hc15xx_resampler" where
  "process_wide_rates st stereo capacity = resample_loop wide_frame capacity st stereo []"

section \<open>The interface\<close>

definition hc15xx_resampler_init :: "hc15xx_resampler option \<Rightarrow> u32 \<Rightarrow> u32 \<Rightarrow>
    int \<times> hc15xx_resampler option" where
  "hc15xx_resampler_init st irate orate =
     (case st of
        None \<Rightarrow> (-1, None)
      | Some s \<Rightarrow>
          if irate = 0 \<or> orate = 0 then (-1, Some s)
          else (0, Some \<lparr>input_rate = irate, output_rate = orate, phase = 0, previous = 0,
                   have_previous = False\<rparr>))"

definition hc15xx_resampler_set_output_rate :: "hc15xx_resampler option \<Rightarrow> u32 \<Rightarrow>
    int \<times> hc15xx_resampler option" where
  "hc15xx_resampler_set_output_rate st orate =
     (case st of
        None \<Rightarrow> (-1, None)
      | Some s \<Rightarrow> if orate = 0 then (-1, Some s) else (0, Some (s\<lparr>output_rate := orate\<rparr>)))"

text \<open>
  \<open>stereo\<close> and \<open>mono_ok\<close> carry the NULL checks; the samples written are returned, their number
  is the function's result.
\<close>

definition hc15xx_resampler_process_stereo_s16 :: "hc15xx_resampler option \<Rightarrow> frame list option \<Rightarrow>
    nat \<Rightarrow> bool \<Rightarrow> nat \<Rightarrow> int list \<times> hc15xx_resampler option" where
  "hc15xx_resampler_process_stereo_s16 state stereo frames mono_ok capacity =
     (case state of
        None \<Rightarrow> ([], None)
      | Some st \<Rightarrow>
          if (stereo = None \<and> frames \<noteq> 0) \<or> (\<not> mono_ok \<and> capacity \<noteq> 0) \<or>
             input_rate st = 0 \<or> output_rate st = 0 \<or> capacity = 0
          then ([], Some st)
          else
            let input = (case stereo of None \<Rightarrow> [] | Some xs \<Rightarrow> take frames xs)
            in if input_rate st = output_rate st \<and> phase st = 0 then
                 let count = (if frames < capacity then frames else capacity);
                     pcm = map (\<lambda>f. to_s16 (mix f)) (take count input)
                 in (pcm, Some (if count \<noteq> 0
                       then st\<lparr>previous := pcm ! (count - 1), have_previous := True\<rparr> else st))
               else if input_rate st > 0xffff \<or> output_rate st > 0xffff then
                 apsnd Some (process_wide_rates st input capacity)
               else apsnd Some (resample_loop narrow_frame capacity st input []))"

definition hc15xx_resampler_push_stereo_s16 :: "hc15xx_resampler option \<Rightarrow> int \<Rightarrow> int \<Rightarrow> bool \<Rightarrow>
    int \<times> int list \<times> hc15xx_resampler option" where
  "hc15xx_resampler_push_stereo_s16 state left right mono_ok =
     (case state of
        None \<Rightarrow> (-1, [], None)
      | Some st \<Rightarrow>
          if \<not> mono_ok \<or> input_rate st = 0 \<or> output_rate st = 0 then (-1, [], Some st)
          else let (pcm, state') = hc15xx_resampler_process_stereo_s16 state (Some [(left, right)]) 1
                     mono_ok 1
               in (int (length pcm), pcm, state'))"

section \<open>Invariant\<close>

text \<open>
  The rates are set, the phase is a proper remainder of the input rate, and the last mixed sample
  is a 16-bit sample.
\<close>

definition resampler_ok :: "hc15xx_resampler \<Rightarrow> bool" where
  "resampler_ok st \<longleftrightarrow> input_rate st \<noteq> 0 \<and> output_rate st \<noteq> 0 \<and> phase st < input_rate st \<and>
     s16 (previous st)"

lemma to_s16_id [simp]: "s16 x \<Longrightarrow> to_s16 x = x"
  by (simp add: to_s16_def s16_def sint_word_of_int_id)

lemma cdiv_2_bounds: "min (a::int) b \<le> cdiv (a + b) 2 \<and> cdiv (a + b) 2 \<le> max a b"
  by (auto simp: cdiv_def min_def max_def split: if_splits)

lemma s16_mix [simp]: "s16_frame f \<Longrightarrow> s16 (mix f)"
  using cdiv_2_bounds [of "fst f" "snd f"] by (auto simp: s16_frame_def s16_def mix_def)

section \<open>The loops over the integers\<close>

text \<open>
  \<open>advance\<close> is the phase accumulator without word arithmetic: how many samples the next input
  frame yields, and \<open>lerp\<close> is sample \<open>k\<close> of them.
\<close>

definition advance :: "hc15xx_resampler \<Rightarrow> int" where
  "advance st = (uint (phase st) + uint (output_rate st)) div uint (input_rate st)"

definition lerp :: "hc15xx_resampler \<Rightarrow> int \<Rightarrow> nat \<Rightarrow> int" where
  "lerp st current k = previous st + cdiv ((current - previous st) *
     (uint (input_rate st) - uint (phase st) + int k * uint (input_rate st))) (uint (output_rate st))"

definition next_state :: "hc15xx_resampler \<Rightarrow> int \<Rightarrow> hc15xx_resampler" where
  "next_state st current = st\<lparr>phase := word_of_int ((uint (phase st) + uint (output_rate st))
     mod uint (input_rate st)), previous := current\<rparr>"

definition frame_spec :: "hc15xx_resampler \<Rightarrow> frame \<Rightarrow> nat \<Rightarrow> nat \<Rightarrow>
    (hc15xx_resampler \<times> int list) option" where
  "frame_spec st f produced capacity =
     (if \<not> have_previous st then
        (if produced \<ge> capacity then None
         else Some (st\<lparr>previous := mix f, have_previous := True\<rparr>, [mix f]))
      else if nat (advance st) > capacity - produced then None
      else Some (next_state st (mix f), map (lerp st (mix f)) [0..<nat (advance st)]))"

lemma resampler_ok_int:
  assumes "resampler_ok st"
  shows "0 < uint (input_rate st)" "0 < uint (output_rate st)"
    "0 \<le> uint (phase st)" "uint (phase st) < uint (input_rate st)"
    "uint (input_rate st) < 4294967296" "uint (output_rate st) < 4294967296"
  using assms uint_lt2p [of "input_rate st"] uint_lt2p [of "output_rate st"]
  by (auto simp: resampler_ok_def uint_pos word_less_def)

text \<open>The fraction of every sample lies in (0, output rate].\<close>

lemma fraction_bounds:
  assumes "resampler_ok st" and "k < nat (advance st)"
  defines "fr \<equiv> uint (input_rate st) - uint (phase st) + int k * uint (input_rate st)"
  shows "0 < fr" "fr \<le> uint (output_rate st)"
proof -
  note b = resampler_ok_int [OF assms(1)]
  have "int k + 1 \<le> advance st" using assms(2) by linarith
  then have "(int k + 1) * uint (input_rate st) \<le> uint (phase st) + uint (output_rate st)"
    using b(1) by (simp add: advance_def le_div_iff_int)
  then show "fr \<le> uint (output_rate st)" by (simp add: fr_def algebra_simps)
  show "0 < fr" using b by (simp add: fr_def add_pos_nonneg)
qed

lemma advance_nonneg: "0 \<le> advance st"
  by (cases "uint (input_rate st) = 0") (simp_all add: advance_def pos_imp_zdiv_nonneg_iff less_le)

text \<open>The 64-bit loop computes \<open>frame_spec\<close>: nothing overflows.\<close>

lemma wide_words:
  assumes "resampler_ok st"
  defines "adv \<equiv> (ucast (phase st) :: u64) + ucast (output_rate st)"
  shows "uint (adv div ucast (input_rate st)) = advance st"
    and "ucast (adv - adv div ucast (input_rate st) * ucast (input_rate st)) =
      (word_of_int ((uint (phase st) + uint (output_rate st)) mod uint (input_rate st)) :: u32)"
    and "k < nat (advance st) \<Longrightarrow>
      sint ((ucast (input_rate st) :: u64) - ucast (phase st) + of_nat k * ucast (input_rate st)) =
      uint (input_rate st) - uint (phase st) + int k * uint (input_rate st)"
proof -
  note b = resampler_ok_int [OF assms(1)]
  have adv: "uint adv = uint (phase st) + uint (output_rate st)"
    using b by (simp add: adv_def uint_word_ariths unsigned_ucast_eq take_bit_int_eq_self)
  have ir: "uint (ucast (input_rate st) :: u64) = uint (input_rate st)"
    using b by (simp add: unsigned_ucast_eq take_bit_int_eq_self)
  show d: "uint (adv div ucast (input_rate st)) = advance st"
    by (simp add: uint_div adv ir advance_def)
  have "adv - adv div ucast (input_rate st) * ucast (input_rate st) = adv mod ucast (input_rate st)"
    by (simp add: minus_div_mult_eq_mod)
  then show "ucast (adv - adv div ucast (input_rate st) * ucast (input_rate st)) =
      (word_of_int ((uint (phase st) + uint (output_rate st)) mod uint (input_rate st)) :: u32)"
    using ucast_eq [of "adv mod ucast (input_rate st)"] by (simp only: uint_mod adv ir)
  assume k: "k < nat (advance st)"
  have "(ucast (input_rate st) :: u64) - ucast (phase st) + of_nat k * ucast (input_rate st) =
      word_of_int (uint (input_rate st) - uint (phase st) + int k * uint (input_rate st))"
    by simp
  moreover have "sint (word_of_int (uint (input_rate st) - uint (phase st) +
      int k * uint (input_rate st)) :: u64) =
      uint (input_rate st) - uint (phase st) + int k * uint (input_rate st)"
    by (rule sint_word_of_int_id) (use fraction_bounds [OF assms(1) k] b in auto)
  ultimately show "sint ((ucast (input_rate st) :: u64) - ucast (phase st) + of_nat k * ucast (input_rate st)) =
      uint (input_rate st) - uint (phase st) + int k * uint (input_rate st)"
    by metis
qed

text \<open>Interpolated samples lie between the two inputs, so the final conversion is exact.\<close>

lemma cdiv_fraction:
  assumes "0 < fr" "fr \<le> (n::int)"
  shows "cdiv (d * fr) n = (if d < 0 then - (- d * fr div n) else d * fr div n)"
    and "0 \<le> d \<Longrightarrow> d * fr div n \<le> d" and "0 \<le> d \<Longrightarrow> 0 \<le> d * fr div n"
proof -
  have n: "0 < n" using assms by simp
  have neg: "d * fr < 0 \<longleftrightarrow> d < 0" using assms by (simp add: mult_less_0_iff)
  show "cdiv (d * fr) n = (if d < 0 then - (- d * fr div n) else d * fr div n)"
    using n neg by (auto simp: cdiv_def abs_if)
  assume d: "0 \<le> d"
  have "d * fr div n \<le> d * n div n"
    using assms d n by (intro zdiv_mono1 mult_left_mono) auto
  then show "d * fr div n \<le> d" using n by simp
  show "0 \<le> d * fr div n" using n d assms by (simp add: pos_imp_zdiv_nonneg_iff)
qed

lemma lerp_between:
  assumes "resampler_ok st" and "k < nat (advance st)"
  shows "min (previous st) cur \<le> lerp st cur k" and "lerp st cur k \<le> max (previous st) cur"
proof -
  let ?fr = "uint (input_rate st) - uint (phase st) + int k * uint (input_rate st)"
  note fr = fraction_bounds [OF assms]
  note c = cdiv_fraction [OF fr]
  from c(1) [of "cur - previous st"] c(2,3) [of "cur - previous st"] c(2,3) [of "previous st - cur"]
  show "min (previous st) cur \<le> lerp st cur k" and "lerp st cur k \<le> max (previous st) cur"
    by (auto simp: lerp_def min_def max_def split: if_splits)
qed

lemma s16_lerp:
  assumes "resampler_ok st" and "s16 cur" and "k < nat (advance st)"
  shows "s16 (lerp st cur k)"
  using lerp_between [OF assms(1,3), of cur] assms(1,2)
  by (auto simp: s16_def resampler_ok_def min_def max_def split: if_splits)

lemma wide_frame_spec:
  assumes "resampler_ok st" and "s16_frame f"
  shows "wide_frame st f p c = frame_spec st f p c"
proof -
  note w = wide_words [OF assms(1)]
  have n: "unat (((ucast (phase st) :: u64) + ucast (output_rate st)) div ucast (input_rate st))
      = nat (advance st)"
    by (simp only: unat_eq_nat_uint w(1))
  have "map (\<lambda>k. to_s16 (previous st + cdiv ((mix f - previous st) * sint ((ucast (input_rate st) :: u64)
          - ucast (phase st) + of_nat k * ucast (input_rate st))) (uint (output_rate st))))
        [0..<nat (advance st)] = map (lerp st (mix f)) [0..<nat (advance st)]"
    using w(3) s16_lerp [OF assms(1), of "mix f"] assms(2)
    by (intro map_cong refl) (simp add: lerp_def del: of_nat_mult)
  then show ?thesis
    unfolding wide_frame_def frame_spec_def Let_def n w(2) next_state_def
    using assms(2) by simp
qed

text \<open>The 32-bit loop computes \<open>frame_spec\<close> too, for rates up to 65535.\<close>

definition narrow_rates :: "hc15xx_resampler \<Rightarrow> bool" where
  "narrow_rates st \<longleftrightarrow> input_rate st \<le> 0xffff \<and> output_rate st \<le> 0xffff"

lemma narrow_outputs:
  assumes "resampler_ok st" and "narrow_rates st"
  defines "adv \<equiv> phase st + output_rate st"
  defines "outs \<equiv> (if output_rate st \<le> input_rate st
      then (if adv \<ge> input_rate st then 1 else 0) else adv div input_rate st)"
  shows "uint outs = advance st"
    and "adv - outs * input_rate st =
      word_of_int ((uint (phase st) + uint (output_rate st)) mod uint (input_rate st))"
proof -
  note b = resampler_ok_int [OF assms(1)]
  have nr: "uint (input_rate st) \<le> 65535" "uint (output_rate st) \<le> 65535"
    using assms(2) by (simp_all add: narrow_rates_def word_le_def)
  have adv: "uint adv = uint (phase st) + uint (output_rate st)"
    using b nr by (simp add: adv_def uint_word_ariths)
  have small: "uint (phase st) + uint (output_rate st) < 2 * uint (input_rate st)"
    if "output_rate st \<le> input_rate st" using b that by (simp add: word_le_def)
  show u: "uint outs = advance st"
  proof (cases "output_rate st \<le> input_rate st")
    case True
    from small [OF True] have "advance st =
        (if uint (phase st) + uint (output_rate st) \<ge> uint (input_rate st) then 1 else 0)"
      unfolding advance_def using b by (auto simp: div_pos_geq)
    with True adv show ?thesis by (simp add: outs_def word_le_def)
  next
    case False
    then show ?thesis by (simp add: outs_def uint_div adv advance_def)
  qed
  have "outs = adv div input_rate st"
    by (rule word_uint_eqI) (simp add: u uint_div adv advance_def)
  then have "adv - outs * input_rate st = adv mod input_rate st"
    by (simp add: minus_div_mult_eq_mod)
  then show "adv - outs * input_rate st =
      word_of_int ((uint (phase st) + uint (output_rate st)) mod uint (input_rate st))"
    by (simp add: word_mod_def adv)
qed

lemma narrow_sample:
  assumes "resampler_ok st" and "narrow_rates st" and "s16 cur" and "k < nat (advance st)"
  defines "delta \<equiv> cur - previous st"
  defines "fr \<equiv> input_rate st - phase st + of_nat k * input_rate st"
  defines "mag \<equiv> (word_of_int (if delta < 0 then - delta else delta) :: u32)"
  shows "previous st + (if delta < 0 then - sint (mag * fr div output_rate st)
      else sint (mag * fr div output_rate st)) = lerp st cur k"
proof -
  let ?F = "uint (input_rate st) - uint (phase st) + int k * uint (input_rate st)"
  let ?O = "uint (output_rate st)"
  let ?d = "if delta < 0 then - delta else delta"
  note b = resampler_ok_int [OF assms(1)] and F = fraction_bounds [OF assms(1,4)]
  have nr: "?O \<le> 65535" using assms(2) by (simp add: narrow_rates_def word_le_def)
  have d: "0 \<le> ?d" "?d \<le> 65535"
    using assms(1,3) by (auto simp: delta_def resampler_ok_def s16_def)
  have "uint (word_of_int ?F :: u32) = ?F"
    by (rule uint_word_of_int_id) (use F nr in auto)
  moreover have "fr = word_of_int ?F" by (simp add: fr_def)
  ultimately have fr: "uint fr = ?F" by (simp only:)
  have mag: "uint mag = ?d" using d by (simp add: mag_def uint_word_of_int)
  have "?d * ?F \<le> 65535 * 65535" using d F nr by (intro mult_mono) auto
  moreover have "0 \<le> ?d * ?F" using d F by simp
  ultimately have "uint (mag * fr) = ?d * ?F" by (simp add: uint_word_ariths mag fr)
  then have "mag * fr div output_rate st = word_of_int (?d * ?F div ?O)" by (simp add: word_div_def)
  moreover have "0 \<le> ?d * ?F div ?O" "?d * ?F div ?O \<le> 65535"
    using cdiv_fraction(2,3) [OF F, of ?d] d by auto
  ultimately have "sint (mag * fr div output_rate st) = ?d * ?F div ?O"
    by (simp add: sint_word_of_int_id)
  then show ?thesis
    using cdiv_fraction(1) [OF F, of delta] by (simp add: lerp_def delta_def)
qed

lemma narrow_frame_spec:
  assumes "resampler_ok st" and "narrow_rates st" and "s16_frame f"
  shows "narrow_frame st f p c = frame_spec st f p c"
proof -
  note o = narrow_outputs [OF assms(1,2)]
  let ?outs = "if output_rate st \<le> input_rate st
      then (if phase st + output_rate st \<ge> input_rate st then 1 else 0)
      else (phase st + output_rate st) div input_rate st"
  have n: "unat ?outs = nat (advance st)" by (simp only: unat_eq_nat_uint o(1))
  let ?smp = "\<lambda>k. let fraction = input_rate st - phase st + of_nat k * input_rate st;
        delta = mix f - previous st;
        magnitude = (word_of_int (if delta < 0 then - delta else delta) :: u32);
        interpolation = sint (magnitude * fraction div output_rate st);
        interpolation = (if delta < 0 then - interpolation else interpolation)
      in to_s16 (previous st + interpolation)"
  have "?smp k = lerp st (mix f) k" if "k < nat (advance st)" for k
    using narrow_sample [OF assms(1,2) _ that, of "mix f"] s16_lerp [OF assms(1) _ that, of "mix f"]
      assms(3) unfolding Let_def by simp
  then have "map ?smp [0..<nat (advance st)] = map (lerp st (mix f)) [0..<nat (advance st)]"
    by (intro map_cong refl) simp
  then show ?thesis
    unfolding narrow_frame_def frame_spec_def Let_def n o(2) next_state_def
    using assms(3) by simp
qed

text \<open>One frame keeps the invariant and appends at most what fits.\<close>

lemma frame_spec_ok:
  assumes "resampler_ok st" and "s16_frame f" and "frame_spec st f p c = Some (st', xs)" and "p \<le> c"
  shows "resampler_ok st'" and "p + length xs \<le> c" and "\<forall>x \<in> set xs. s16 x"
    and "input_rate st' = input_rate st" and "output_rate st' = output_rate st"
    and "have_previous st'"
proof -
  have ph: "word_of_int ((uint (phase st) + uint (output_rate st)) mod uint (input_rate st)) <
      input_rate st"
  proof -
    let ?x = "(uint (phase st) + uint (output_rate st)) mod uint (input_rate st)"
    have x: "0 \<le> ?x" "?x < uint (input_rate st)"
      using resampler_ok_int(1) [OF assms(1)] by (rule pos_mod_sign, rule pos_mod_bound)
    then have "uint (word_of_int ?x :: u32) = ?x"
      using resampler_ok_int(5) [OF assms(1)] by (intro uint_word_of_int_id) auto
    with x show ?thesis by (simp add: word_less_def)
  qed
  from assms ph show "resampler_ok st'" "p + length xs \<le> c" "input_rate st' = input_rate st"
    "output_rate st' = output_rate st" "have_previous st'"
    by (auto simp: frame_spec_def next_state_def resampler_ok_def split: if_splits)
  from assms show "\<forall>x \<in> set xs. s16 x"
    by (auto simp: frame_spec_def s16_lerp split: if_splits)
qed

lemma narrow_rates_cong:
  "input_rate st' = input_rate st \<Longrightarrow> output_rate st' = output_rate st \<Longrightarrow>
     narrow_rates st' = narrow_rates st"
  by (simp add: narrow_rates_def)

lemma resample_loop_cong:
  assumes "\<And>st f p. P st \<Longrightarrow> s16_frame f \<Longrightarrow> body st f p c = frame_spec st f p c"
    and "\<And>st f p st' xs. P st \<Longrightarrow> s16_frame f \<Longrightarrow> p \<le> c \<Longrightarrow> frame_spec st f p c = Some (st', xs) \<Longrightarrow>
      P st' \<and> p + length xs \<le> c"
    and "P st" and "list_all s16_frame fs" and "length pcm \<le> c"
  shows "resample_loop body c st fs pcm = resample_loop frame_spec c st fs pcm"
  using assms(3-5)
proof (induction fs arbitrary: st pcm)
  case (Cons f fs)
  show ?case
  proof (cases "frame_spec st f (length pcm) c")
    case None
    with Cons.prems assms(1) show ?thesis by simp
  next
    case (Some r)
    then obtain st' xs where "frame_spec st f (length pcm) c = Some (st', xs)" by (cases r) auto
    with Cons assms(1) assms(2) [of st f "length pcm" st' xs] show ?thesis by simp
  qed
qed simp

lemma wide_loop_spec:
  assumes "resampler_ok st" and "list_all s16_frame fs" and "length pcm \<le> c"
  shows "resample_loop wide_frame c st fs pcm = resample_loop frame_spec c st fs pcm"
  by (rule resample_loop_cong [where P = resampler_ok])
    (use assms in \<open>auto simp: wide_frame_spec dest: frame_spec_ok\<close>)

lemma narrow_loop_spec:
  assumes "resampler_ok st" and "narrow_rates st" and "list_all s16_frame fs" and "length pcm \<le> c"
  shows "resample_loop narrow_frame c st fs pcm = resample_loop frame_spec c st fs pcm"
  by (rule resample_loop_cong [where P = "\<lambda>st. resampler_ok st \<and> narrow_rates st"])
    (use assms in \<open>auto simp: narrow_frame_spec dest: frame_spec_ok
       intro: narrow_rates_cong [THEN iffD2]\<close>)

text \<open>Equal rates and no carried phase: every frame gives its own mix.\<close>

lemma frame_spec_identity:
  assumes "resampler_ok st" and "input_rate st = output_rate st" and "phase st = 0" and "p \<le> c"
  shows "frame_spec st f p c =
    (if p \<ge> c then None else Some (st\<lparr>previous := mix f, have_previous := True\<rparr>, [mix f]))"
proof -
  note b = resampler_ok_int [OF assms(1)]
  have adv: "advance st = 1" using b assms(2,3) by (simp add: advance_def)
  have l: "lerp st x 0 = x" for x
    using b assms(2,3) by (simp add: lerp_def cdiv_def abs_mult mult_less_0_iff)
  have nx: "have_previous st \<Longrightarrow> next_state st x = st\<lparr>previous := x, have_previous := True\<rparr>" for x
    using assms(2,3) by (cases st) (simp add: next_state_def)
  show ?thesis using assms(4) by (auto simp: frame_spec_def adv l nx)
qed

lemma identity_loop:
  assumes "resampler_ok st" and "input_rate st = output_rate st" and "phase st = 0"
    and "length pcm \<le> c" and "list_all s16_frame fs"
  shows "resample_loop frame_spec c st fs pcm =
    (pcm @ map mix (take (c - length pcm) fs),
     if take (c - length pcm) fs = [] then st
     else st\<lparr>previous := mix (last (take (c - length pcm) fs)), have_previous := True\<rparr>)"
  using assms
proof (induction fs arbitrary: st pcm)
  case (Cons f fs)
  show ?case
  proof (cases "length pcm < c")
    case True
    let ?st = "st\<lparr>previous := mix f, have_previous := True\<rparr>"
    have "resampler_ok ?st" using Cons.prems by (simp add: resampler_ok_def)
    with Cons.IH [of ?st "pcm @ [mix f]"] Cons.prems True
    have "resample_loop frame_spec c ?st fs (pcm @ [mix f]) =
      (pcm @ mix f # map mix (take (c - Suc (length pcm)) fs),
       if take (c - Suc (length pcm)) fs = [] then ?st
       else ?st\<lparr>previous := mix (last (take (c - Suc (length pcm)) fs))\<rparr>)" by simp
    moreover have "c - length pcm = Suc (c - Suc (length pcm))" using True by simp
    ultimately show ?thesis
      using frame_spec_identity [OF Cons.prems(1-3), of "length pcm" c f] True by simp
  next
    case False
    then show ?thesis
      using frame_spec_identity [OF Cons.prems(1-4), of f] by simp
  qed
qed simp

text \<open>The number of samples and the carried phase depend on the frame count only.\<close>

lemma loop_count:
  assumes "resampler_ok st" and "have_previous st" and "list_all s16_frame fs"
    and "length pcm + nat ((uint (phase st) + int (length fs) * uint (output_rate st))
       div uint (input_rate st)) \<le> c"
  shows "length (fst (resample_loop frame_spec c st fs pcm)) = length pcm +
      nat ((uint (phase st) + int (length fs) * uint (output_rate st)) div uint (input_rate st)) \<and>
    uint (phase (snd (resample_loop frame_spec c st fs pcm))) =
      (uint (phase st) + int (length fs) * uint (output_rate st)) mod uint (input_rate st)"
  using assms
proof (induction fs arbitrary: st pcm)
  case Nil
  then show ?case using resampler_ok_int [OF Nil.prems(1)] by simp
next
  case (Cons f fs)
  let ?I = "uint (input_rate st)" and ?O = "uint (output_rate st)" and ?P = "uint (phase st)"
  let ?st = "next_state st (mix f)" and ?n = "int (length fs)"
  note b = resampler_ok_int [OF Cons.prems(1)]
  have P': "uint (phase ?st) = (?P + ?O) mod ?I"
  proof -
    have "0 \<le> (?P + ?O) mod ?I" "(?P + ?O) mod ?I < ?I"
      using b(1) by (rule pos_mod_sign, rule pos_mod_bound)
    then show ?thesis using b(5) unfolding next_state_def
      by (simp add: uint_word_of_int_id del: pos_mod_bound)
  qed
  have "?P + (1 + ?n) * ?O = (?P + ?O) mod ?I + ?n * ?O + advance st * ?I"
    unfolding advance_def by (simp add: algebra_simps)
  then have tot: "(?P + (1 + ?n) * ?O) div ?I = (uint (phase ?st) + ?n * ?O) div ?I + advance st"
    "(?P + (1 + ?n) * ?O) mod ?I = (uint (phase ?st) + ?n * ?O) mod ?I"
    using b(1) by (simp_all add: P')
  have rest: "0 \<le> (uint (phase ?st) + ?n * ?O) div ?I"
    using b(1,2) P' by (simp add: pos_imp_zdiv_nonneg_iff)
  have step: "frame_spec st f (length pcm) c =
      Some (?st, map (lerp st (mix f)) [0..<nat (advance st)])"
    using Cons.prems(2,4) tot(1) rest advance_nonneg [of st]
    by (auto simp: frame_spec_def nat_add_distrib)
  have ok: "resampler_ok ?st" "have_previous ?st"
    using frame_spec_ok(1,6) [OF Cons.prems(1) _ step] Cons.prems(3,4) by simp_all
  have io: "input_rate ?st = input_rate st" "output_rate ?st = output_rate st"
    by (simp_all add: next_state_def)
  show ?case
    using Cons.IH [OF ok, of "pcm @ map (lerp st (mix f)) [0..<nat (advance st)]"] Cons.prems(3,4)
      step tot rest advance_nonneg [of st] io
    by (simp add: nat_add_distrib)
qed

lemma loop_ok:
  assumes "resampler_ok st" and "list_all s16_frame fs" and "length pcm \<le> c" and "\<forall>x \<in> set pcm. s16 x"
  shows "resampler_ok (snd (resample_loop frame_spec c st fs pcm)) \<and>
    length (fst (resample_loop frame_spec c st fs pcm)) \<le> c \<and>
    (\<forall>x \<in> set (fst (resample_loop frame_spec c st fs pcm)). s16 x)"
  using assms
proof (induction fs arbitrary: st pcm)
  case (Cons f fs)
  show ?case
  proof (cases "frame_spec st f (length pcm) c")
    case None
    with Cons.prems show ?thesis by simp
  next
    case (Some r)
    then obtain st' xs where step: "frame_spec st f (length pcm) c = Some (st', xs)" by (cases r) auto
    with Cons.prems Cons.IH [of st' "pcm @ xs"] frame_spec_ok [OF _ _ step] show ?thesis by auto
  qed
qed simp

lemma process_spec:
  assumes "resampler_ok st" and "list_all s16_frame xs" and "frames \<le> length xs" and "0 < capacity"
  shows "hc15xx_resampler_process_stereo_s16 (Some st) (Some xs) frames True capacity =
    apsnd Some (resample_loop frame_spec capacity st (take frames xs) [])"
proof -
  have ok: "input_rate st \<noteq> 0" "output_rate st \<noteq> 0" using assms(1) by (auto simp: resampler_ok_def)
  have s16: "list_all s16_frame (take frames xs)"
    using assms(2) by (auto simp: list_all_iff dest: in_set_takeD)
  show ?thesis
  proof (cases "input_rate st = output_rate st \<and> phase st = 0")
    case True
    let ?c = "min frames capacity"
    have count: "(if frames < capacity then frames else capacity) = ?c" by auto
    have tk: "take ?c (take frames xs) = take capacity (take frames xs)"
      by (simp add: take_take min.commute)
    have pcm: "map (\<lambda>f. to_s16 (mix f)) (take capacity (take frames xs)) =
        map mix (take capacity (take frames xs))"
      using assms(2) by (intro map_cong refl to_s16_id s16_mix)
        (auto simp: list_all_iff simp del: take_take dest!: in_set_takeD)
    have last: "map mix (take capacity (take frames xs)) ! (?c - 1) =
        mix (last (take capacity (take frames xs)))" if "?c \<noteq> 0"
      using that assms(3,4) by (subst last_conv_nth) (auto simp: min_def)
    have empty: "take capacity (take frames xs) = [] \<longleftrightarrow> ?c = 0"
      using assms(3,4) by (auto simp: min_def)
    have "hc15xx_resampler_process_stereo_s16 (Some st) (Some xs) frames True capacity =
       (map mix (take capacity (take frames xs)), Some (if ?c \<noteq> 0
          then st\<lparr>previous := map mix (take capacity (take frames xs)) ! (?c - 1), have_previous := True\<rparr>
          else st))"
      unfolding hc15xx_resampler_process_stereo_s16_def option.case Let_def count tk pcm
      using True ok assms(4) by simp
    then show ?thesis
      using identity_loop [OF assms(1) _ _ _ s16, of "[]" capacity] True empty last by auto
  next
    case False
    have "hc15xx_resampler_process_stereo_s16 (Some st) (Some xs) frames True capacity =
       (if input_rate st > 0xffff \<or> output_rate st > 0xffff
        then apsnd Some (process_wide_rates st (take frames xs) capacity)
        else apsnd Some (resample_loop narrow_frame capacity st (take frames xs) []))"
      unfolding hc15xx_resampler_process_stereo_s16_def option.case Let_def if_not_P [OF False]
      using ok assms(4) by simp
    then show ?thesis
      using wide_loop_spec [OF assms(1) s16, of "[]" capacity]
        narrow_loop_spec [OF assms(1) _ s16, of "[]" capacity]
      by (auto simp: process_wide_rates_def narrow_rates_def not_less)
  qed
qed

section \<open>Properties\<close>

text \<open>
  C9. All three code paths of \<open>hc15xx_resampler_process_stereo_s16\<close> agree with the 64-bit
  reference loop \<open>process_wide_rates\<close>, in the samples they write and in the state they leave:
  the copy loop for equal rates and the 32-bit loop are pure optimisations.
\<close>

theorem resampler_paths_agree:
  assumes "resampler_ok st" and "list_all s16_frame xs" and "frames \<le> length xs" and "0 < capacity"
  shows "hc15xx_resampler_process_stereo_s16 (Some st) (Some xs) frames True capacity =
    apsnd Some (process_wide_rates st (take frames xs) capacity)"
proof -
  have "list_all s16_frame (take frames xs)"
    using assms(2) by (auto simp: list_all_iff dest: in_set_takeD)
  then show ?thesis
    using process_spec [OF assms] wide_loop_spec [OF assms(1), of "take frames xs" "[]" capacity]
    by (simp add: process_wide_rates_def)
qed

lemma resampler_paths_agree_witness:
  "hc15xx_resampler_process_stereo_s16
     (Some \<lparr>input_rate = 44100, output_rate = 32000, phase = 100, previous = 7, have_previous = True\<rparr>)
     (Some [(1000, -2000), (32767, 32767)]) 2 True 8 =
   apsnd Some (process_wide_rates
     \<lparr>input_rate = 44100, output_rate = 32000, phase = 100, previous = 7, have_previous = True\<rparr>
     (take 2 [(1000, -2000), (32767, 32767)]) 8)"
  by (rule resampler_paths_agree) (simp_all add: resampler_ok_def s16_def s16_frame_def)

text \<open>
  The resampler keeps its invariant, never writes more samples than the output buffer holds,
  and every sample it writes is the exact 16-bit value: no conversion wraps.
\<close>

theorem resampler_invariant:
  assumes "resampler_ok st" and "list_all s16_frame xs" and "frames \<le> length xs" and "0 < capacity"
    and "hc15xx_resampler_process_stereo_s16 (Some st) (Some xs) frames True capacity = (pcm, st')"
  shows "length pcm \<le> capacity \<and> (\<forall>x \<in> set pcm. s16 x) \<and> (\<exists>s. st' = Some s \<and> resampler_ok s)"
proof -
  have "list_all s16_frame (take frames xs)"
    using assms(2) by (auto simp: list_all_iff dest: in_set_takeD)
  from loop_ok [OF assms(1) this, of "[]" capacity] show ?thesis
    using process_spec [OF assms(1-4)] assms(5) by (cases "resample_loop frame_spec capacity st (take frames xs) []") auto
qed

lemma resampler_invariant_witness:
  "\<exists>pcm s. hc15xx_resampler_process_stereo_s16
     (Some \<lparr>input_rate = 2, output_rate = 5, phase = 1, previous = -32768, have_previous = True\<rparr>)
     (Some [(32767, 32767)]) 1 True 3 = (pcm, Some s) \<and> length pcm \<le> 3 \<and> (\<forall>x \<in> set pcm. s16 x)"
  using resampler_invariant [of "\<lparr>input_rate = 2, output_rate = 5, phase = 1, previous = -32768,
      have_previous = True\<rparr>" "[(32767, 32767)]" 1 3]
  by (cases "hc15xx_resampler_process_stereo_s16
     (Some \<lparr>input_rate = 2, output_rate = 5, phase = 1, previous = -32768, have_previous = True\<rparr>)
     (Some [(32767, 32767)]) 1 True 3") (auto simp: resampler_ok_def s16_def s16_frame_def)

text \<open>
  C10. The rate conversion is exact and does not drift: once primed, \<open>n\<close> input frames give exactly
  \<open>(phase + n * output_rate) div input_rate\<close> samples, if they fit, and the remainder is carried in
  the phase.
\<close>

theorem resampler_rate_exact:
  assumes "resampler_ok st" and "have_previous st" and "list_all s16_frame xs" and "frames \<le> length xs"
    and "ticks = uint (phase st) + int frames * uint (output_rate st)"
    and "nat (ticks div uint (input_rate st)) \<le> capacity" and "0 < capacity"
    and "hc15xx_resampler_process_stereo_s16 (Some st) (Some xs) frames True capacity = (pcm, Some st')"
  shows "int (length pcm) = ticks div uint (input_rate st) \<and>
    uint (phase st') = ticks mod uint (input_rate st)"
proof -
  have s16: "list_all s16_frame (take frames xs)"
    using assms(3) by (auto simp: list_all_iff dest: in_set_takeD)
  have "0 \<le> ticks div uint (input_rate st)"
    unfolding assms(5) by (intro div_nonneg_int add_nonneg_nonneg mult_nonneg_nonneg) auto
  with loop_count [OF assms(1,2) s16, of "[]" capacity] assms(4-6)
    process_spec [OF assms(1,3,4,7)] assms(8)
  show ?thesis by (cases "resample_loop frame_spec capacity st (take frames xs) []") auto
qed

lemma resampler_rate_exact_witness:
  "\<exists>pcm st'. hc15xx_resampler_process_stereo_s16
     (Some \<lparr>input_rate = 3, output_rate = 7, phase = 1, previous = 0, have_previous = True\<rparr>)
     (Some [(3, 5), (7, 9)]) 2 True 9 = (pcm, Some st') \<and>
     int (length pcm) = 15 div 3 \<and> uint (phase st') = 15 mod 3"
proof -
  let ?st = "\<lparr>input_rate = 3, output_rate = 7, phase = 1, previous = 0, have_previous = True\<rparr>"
  obtain pcm st' where r: "hc15xx_resampler_process_stereo_s16 (Some ?st) (Some [(3, 5), (7, 9)]) 2 True 9
      = (pcm, Some st')"
    using process_spec [of ?st "[(3, 5), (7, 9)]" 2 9]
    by (cases "resample_loop frame_spec 9 ?st (take 2 [(3, 5), (7, 9)]) []")
      (simp add: resampler_ok_def s16_def s16_frame_def)
  with resampler_rate_exact [OF _ _ _ _ refl _ _ r] show ?thesis
    by (simp add: resampler_ok_def s16_def s16_frame_def)
qed

end
