(* ===== verification/Retained.thy ===== *)
theory Retained
  imports Prelude
begin

text \<open>
  The retained log, \<^verbatim>\<open>src/platform/hc15xx_retained.c\<close>: a ring of 1024 entries in memory that
  survives a reset. A mark is a sequence of volatile stores, and a reset can come between any two
  of them, so \<open>hc15xx_retained_mark\<close> is modelled as the list of its stores in program order.
\<close>

section \<open>The log\<close>

abbreviation (input) HC15XX_RETAINED_MAGIC where "HC15XX_RETAINED_MAGIC \<equiv> (0x52504653 :: u32)"
abbreviation (input) HC15XX_RETAINED_VERSION where "HC15XX_RETAINED_VERSION \<equiv> (1 :: u32)"
abbreviation (input) HC15XX_RETAINED_ENTRIES where "HC15XX_RETAINED_ENTRIES \<equiv> (1024 :: nat)"
abbreviation (input) HC15XX_RETAINED_NAME_LEN where "HC15XX_RETAINED_NAME_LEN \<equiv> (32 :: nat)"
abbreviation (input) NUL where "NUL \<equiv> (0 :: u8)"

record hc15xx_retained_entry =
  e_seq :: u32
  e_kind :: u32
  e_value :: u32
  e_name_ptr :: u32
  e_name :: "u8 list"

record hc15xx_retained_log =
  magic :: u32
  version :: u32
  log_seq :: u32
  write_index :: u32
  wrapped :: u32
  entries :: "hc15xx_retained_entry list"

section \<open>Stores\<close>

datatype log_store =
    StKind nat u32 | StValue nat u32 | StNamePtr nat u32 | StName nat nat u8 | StSeq nat u32
  | StWrapped u32 | StWriteIndex u32 | StLogSeq u32

definition upd_entry :: "nat \<Rightarrow> (hc15xx_retained_entry \<Rightarrow> hc15xx_retained_entry) \<Rightarrow> hc15xx_retained_log \<Rightarrow>
    hc15xx_retained_log" where
  "upd_entry i f l = l\<lparr>entries := (entries l)[i := f (entries l ! i)]\<rparr>"

fun do_store :: "log_store \<Rightarrow> hc15xx_retained_log \<Rightarrow> hc15xx_retained_log" where
  "do_store (StKind i v) l = upd_entry i (\<lambda>e. e\<lparr>e_kind := v\<rparr>) l"
| "do_store (StValue i v) l = upd_entry i (\<lambda>e. e\<lparr>e_value := v\<rparr>) l"
| "do_store (StNamePtr i v) l = upd_entry i (\<lambda>e. e\<lparr>e_name_ptr := v\<rparr>) l"
| "do_store (StName i j c) l = upd_entry i (\<lambda>e. e\<lparr>e_name := (e_name e)[j := c]\<rparr>) l"
| "do_store (StSeq i v) l = upd_entry i (\<lambda>e. e\<lparr>e_seq := v\<rparr>) l"
| "do_store (StWrapped v) l = l\<lparr>wrapped := v\<rparr>"
| "do_store (StWriteIndex v) l = l\<lparr>write_index := v\<rparr>"
| "do_store (StLogSeq v) l = l\<lparr>log_seq := v\<rparr>"

text \<open>The slot a mark writes to: an index out of range counts as 0.\<close>

definition slot :: "hc15xx_retained_log \<Rightarrow> nat" where
  "slot l = (if unat (write_index l) \<ge> HC15XX_RETAINED_ENTRIES then 0 else unat (write_index l))"

text \<open>The two loops over the name; \<open>name\<close> is a C string without its NUL.\<close>

definition name_stores :: "nat \<Rightarrow> u8 list \<Rightarrow> log_store list" where
  "name_stores i name =
     (let n = min (HC15XX_RETAINED_NAME_LEN - 1) (length name)
      in map (\<lambda>j. StName i j (name ! j)) [0..<n] @ map (\<lambda>j. StName i j NUL) [n..<HC15XX_RETAINED_NAME_LEN])"

definition mark_stores :: "hc15xx_retained_log \<Rightarrow> u8 list \<Rightarrow> u32 \<Rightarrow> u32 \<Rightarrow> log_store list" where
  "mark_stores l name kind val =
     (let index = slot l; seq = log_seq l + 1; index' = index + 1
      in [StKind index kind, StValue index val, StNamePtr index 0] @ name_stores index name @
         [StSeq index seq] @
         (if index' \<ge> HC15XX_RETAINED_ENTRIES then [StWrapped 1] else []) @
         [StWriteIndex (if index' \<ge> HC15XX_RETAINED_ENTRIES then 0 else of_nat index'), StLogSeq seq])"

definition hc15xx_retained_mark :: "hc15xx_retained_log option \<Rightarrow> u8 list option \<Rightarrow> u32 \<Rightarrow> u32 \<Rightarrow>
    int \<times> hc15xx_retained_log option" where
  "hc15xx_retained_mark lg nm kind val =
     (case (lg, nm) of
        (Some l, Some name) \<Rightarrow>
          if magic l \<noteq> HC15XX_RETAINED_MAGIC \<or> version l \<noteq> HC15XX_RETAINED_VERSION then (-1, lg)
          else (0, Some (fold do_store (mark_stores l name kind val) l))
      | _ \<Rightarrow> (-1, lg))"

section \<open>The ring, abstractly\<close>

text \<open>A log that has been set up: the header is valid and the arrays have their declared sizes.\<close>

definition log_ok :: "hc15xx_retained_log \<Rightarrow> bool" where
  "log_ok l \<longleftrightarrow> magic l = HC15XX_RETAINED_MAGIC \<and> version l = HC15XX_RETAINED_VERSION \<and>
     length (entries l) = HC15XX_RETAINED_ENTRIES \<and> (\<forall>e \<in> set (entries l). length (e_name e) = HC15XX_RETAINED_NAME_LEN) \<and>
     unat (write_index l) < HC15XX_RETAINED_ENTRIES"

text \<open>The entry a mark is meant to leave behind.\<close>

definition padded :: "u8 list \<Rightarrow> u8 list" where
  "padded name = take 31 name @ replicate (32 - min 31 (length name)) NUL"

definition mark_entry :: "u32 \<Rightarrow> u8 list \<Rightarrow> u32 \<Rightarrow> u32 \<Rightarrow> hc15xx_retained_entry" where
  "mark_entry seq name kind val =
     \<lparr>e_seq = seq, e_kind = kind, e_value = val, e_name_ptr = 0, e_name = padded name\<rparr>"

text \<open>The \<open>k\<close>-th newest entry, counting back from the write index.\<close>

definition newest :: "hc15xx_retained_log \<Rightarrow> nat \<Rightarrow> hc15xx_retained_entry" where
  "newest l k = entries l ! ((unat (write_index l) + 1023 - k) mod 1024)"

text \<open>Stores to an entry, as a function on that entry.\<close>

fun entry_store :: "log_store \<Rightarrow> hc15xx_retained_entry \<Rightarrow> hc15xx_retained_entry" where
  "entry_store (StKind i v) e = e\<lparr>e_kind := v\<rparr>"
| "entry_store (StValue i v) e = e\<lparr>e_value := v\<rparr>"
| "entry_store (StNamePtr i v) e = e\<lparr>e_name_ptr := v\<rparr>"
| "entry_store (StName i j c) e = e\<lparr>e_name := (e_name e)[j := c]\<rparr>"
| "entry_store (StSeq i v) e = e\<lparr>e_seq := v\<rparr>"
| "entry_store _ e = e"

fun targets :: "nat \<Rightarrow> log_store \<Rightarrow> bool" where
  "targets i (StKind i' v) \<longleftrightarrow> i' = i"
| "targets i (StValue i' v) \<longleftrightarrow> i' = i"
| "targets i (StNamePtr i' v) \<longleftrightarrow> i' = i"
| "targets i (StName i' j c) \<longleftrightarrow> i' = i"
| "targets i (StSeq i' v) \<longleftrightarrow> i' = i"
| "targets i _ \<longleftrightarrow> False"

lemma entry_stores:
  assumes "\<forall>s \<in> set ss. targets i s" and "i < length (entries l)"
  shows "fold do_store ss l = l\<lparr>entries := (entries l)[i := fold entry_store ss (entries l ! i)]\<rparr>"
  using assms
proof (induction ss arbitrary: l)
  case (Cons s ss)
  have "do_store s l = l\<lparr>entries := (entries l)[i := entry_store s (entries l ! i)]\<rparr>"
    using Cons.prems(1) by (cases s) (auto simp: upd_entry_def)
  then show ?case using Cons by simp
qed simp

lemma name_loop:
  "fold entry_store (map (\<lambda>j. StName i j (f j)) js) e = e\<lparr>e_name := fold (\<lambda>j xs. xs[j := f j]) js (e_name e)\<rparr>"
  by (induction js arbitrary: e) simp_all

lemma fold_update_range:
  assumes "b \<le> length xs"
  shows "fold (\<lambda>j xs. xs[j := f j]) [a..<b] xs ! k = (if a \<le> k \<and> k < b then f k else xs ! k)"
  using assms
proof (induction b)
  case (Suc b)
  then show ?case
    by (cases "a \<le> b") (auto simp: nth_list_update less_Suc_eq)
qed simp

lemma name_stores_padded:
  assumes "length (e_name e) = 32"
  shows "fold entry_store (name_stores i name) e = e\<lparr>e_name := padded name\<rparr>"
proof -
  let ?n = "min 31 (length name)"
  let ?xs = "fold (\<lambda>j xs. xs[j := name ! j]) [0..<?n] (e_name e)"
  let ?ys = "fold (\<lambda>j xs. xs[j := NUL]) [?n..<32] ?xs"
  have "?ys = padded name"
  proof (rule nth_equalityI)
    show "length ?ys = length (padded name)" using assms by (simp add: padded_def)
    fix k assume "k < length ?ys"
    then have k: "k < 32" using assms by simp
    have "?ys ! k = (if ?n \<le> k \<and> k < 32 then NUL else ?xs ! k)" by (rule fold_update_range) (simp add: assms)
    moreover have "?xs ! k = (if 0 \<le> k \<and> k < ?n then name ! k else e_name e ! k)"
      by (rule fold_update_range) (simp add: assms)
    ultimately show "?ys ! k = padded name ! k" using k by (auto simp: padded_def nth_append)
  qed
  then show ?thesis by (simp add: name_stores_def Let_def name_loop)
qed

text \<open>The stores of a mark in three groups: the payload, the sequence number, the header.\<close>

definition payload_stores :: "hc15xx_retained_log \<Rightarrow> u8 list \<Rightarrow> u32 \<Rightarrow> u32 \<Rightarrow> log_store list" where
  "payload_stores l name kind val =
     [StKind (slot l) kind, StValue (slot l) val, StNamePtr (slot l) 0] @ name_stores (slot l) name @
     [StSeq (slot l) (log_seq l + 1)]"

definition header_stores :: "hc15xx_retained_log \<Rightarrow> log_store list" where
  "header_stores l =
     (if slot l + 1 \<ge> 1024 then [StWrapped 1] else []) @
     [StWriteIndex (if slot l + 1 \<ge> 1024 then 0 else of_nat (slot l + 1)), StLogSeq (log_seq l + 1)]"

lemma mark_stores_split: "mark_stores l name kind val = payload_stores l name kind val @ header_stores l"
  by (simp add: mark_stores_def payload_stores_def header_stores_def Let_def)

lemma payload_targets: "\<forall>s \<in> set (payload_stores l name kind val). targets (slot l) s"
  by (auto simp: payload_stores_def name_stores_def Let_def)

lemma payload_entry:
  assumes "length (e_name e) = 32"
  shows "fold entry_store (payload_stores l name kind val) e = mark_entry (log_seq l + 1) name kind val"
  using assms by (simp add: payload_stores_def name_stores_padded mark_entry_def)

lemma slot_ok: "log_ok l \<Longrightarrow> slot l = unat (write_index l)"
  by (simp add: log_ok_def slot_def)

lemma entry_name_length: "log_ok l \<Longrightarrow> i < 1024 \<Longrightarrow> length (e_name (entries l ! i)) = 32"
  by (auto simp: log_ok_def)

text \<open>A whole mark.\<close>

lemma mark_result:
  assumes "log_ok l" and "hc15xx_retained_mark (Some l) (Some name) kind val = (ret, Some l')"
  shows "ret = 0" "entries l' = (entries l)[unat (write_index l) := mark_entry (log_seq l + 1) name kind val]"
    "unat (write_index l') = (unat (write_index l) + 1) mod 1024" "log_seq l' = log_seq l + 1" "log_ok l'"
proof -
  let ?i = "unat (write_index l)"
  have i: "?i < 1024" "slot l = ?i" "length (entries l) = 1024"
    using assms(1) slot_ok by (auto simp: log_ok_def)
  have r: "ret = 0" "l' = fold do_store (mark_stores l name kind val) l"
    using assms by (auto simp: hc15xx_retained_mark_def log_ok_def)
  show "ret = 0" by (fact r(1))
  have p: "fold do_store (payload_stores l name kind val) l =
      l\<lparr>entries := (entries l)[?i := mark_entry (log_seq l + 1) name kind val]\<rparr>"
    using entry_stores [OF payload_targets] i payload_entry entry_name_length [OF assms(1)] by simp
  show e: "entries l' = (entries l)[?i := mark_entry (log_seq l + 1) name kind val]"
    by (simp add: r(2) mark_stores_split p header_stores_def)
  have u: "unat (of_nat (?i + 1) :: u32) = ?i + 1" if "?i + 1 < 1024"
    by (simp only: unsigned_of_nat) (use that in \<open>simp add: take_bit_nat_eq_self_iff\<close>)
  show w: "unat (write_index l') = (?i + 1) mod 1024"
  proof (cases "?i + 1 < 1024")
    case True
    then show ?thesis using i u by (simp add: r(2) mark_stores_split p header_stores_def)
  next
    case False
    then have "?i = 1023" using i by simp
    then show ?thesis using i by (simp add: r(2) mark_stores_split p header_stores_def)
  qed
  show "log_seq l' = log_seq l + 1" by (simp add: r(2) mark_stores_split p header_stores_def)
  have "magic l' = magic l" "version l' = version l" by (simp_all add: r(2) mark_stores_split p header_stores_def)
  moreover have "\<forall>e \<in> set (entries l'). length (e_name e) = 32"
  proof
    fix x assume "x \<in> set (entries l')"
    then have "x \<in> insert (mark_entry (log_seq l + 1) name kind val) (set (entries l))"
      unfolding e using set_update_subset_insert by fast
    then show "length (e_name x) = 32"
      using assms(1) by (auto simp: mark_entry_def padded_def log_ok_def)
  qed
  ultimately show "log_ok l'" using assms(1) e w by (simp add: log_ok_def)
qed

text \<open>Marking pushes onto the newest end; the oldest entry falls off.\<close>

lemma mark_pushes:
  assumes "log_ok l" and "hc15xx_retained_mark (Some l) (Some name) kind val = (ret, Some l')"
  shows "newest l' 0 = mark_entry (log_seq l + 1) name kind val"
    "k < 1023 \<Longrightarrow> newest l' (Suc k) = newest l k"
proof -
  let ?i = "unat (write_index l)"
  have i: "?i < 1024" "length (entries l) = 1024" using assms(1) by (auto simp: log_ok_def)
  note m = mark_result [OF assms]
  have "((?i + 1) mod 1024 + 1023) mod 1024 = ?i" using i by (simp add: mod_Suc)
  then show "newest l' 0 = mark_entry (log_seq l + 1) name kind val"
    using i m(2,3) by (simp add: newest_def)
  assume k: "k < 1023"
  have eq: "((?i + 1) mod 1024 + 1023 - Suc k) mod 1024 = (?i + 1023 - k) mod 1024"
  proof (cases "?i = 1023")
    case True
    have "2046 - k = 1022 - k + 1024" using k by simp
    then have "(2046 - k) mod 1024 = 1022 - k" using k by (simp only: mod_add_self2) simp
    then show ?thesis using True k by simp
  next
    case False
    then have "(?i + 1) mod 1024 = ?i + 1" using i by simp
    then show ?thesis using k by (simp add: add.commute)
  qed
  have ne: "(?i + 1023 - k) mod 1024 \<noteq> ?i"
  proof (cases "?i + 1023 - k < 1024")
    case True
    then show ?thesis using k by simp
  next
    case False
    then have "(?i + 1023 - k) mod 1024 = ?i + 1023 - k - 1024" using i by (simp add: mod_if)
    then show ?thesis using k i False by simp
  qed
  show "newest l' (Suc k) = newest l k"
    using eq ne m(2,3) by (simp add: newest_def)
qed

section \<open>Properties\<close>

definition mark_all :: "(u8 list \<times> u32 \<times> u32) list \<Rightarrow> hc15xx_retained_log \<Rightarrow> hc15xx_retained_log" where
  "mark_all ms l = fold (\<lambda>(name, kind, val) l.
     case snd (hc15xx_retained_mark (Some l) (Some name) kind val) of Some l' \<Rightarrow> l' | None \<Rightarrow> l) ms l"

lemma mark_all_snoc:
  assumes "log_ok l"
  shows "log_ok (mark_all ms l) \<and> log_seq (mark_all ms l) = log_seq l + of_nat (length ms)"
    "\<exists>ret l'. hc15xx_retained_mark (Some (mark_all ms l)) (Some name) kind val = (ret, Some l') \<and>
       mark_all (ms @ [(name, kind, val)]) l = l'"
proof -
  have some: "\<exists>ret l'. hc15xx_retained_mark (Some x) (Some nm) kd v = (ret, Some l')" for x nm kd v
    by (simp add: hc15xx_retained_mark_def)
  show 1: "log_ok (mark_all ms l) \<and> log_seq (mark_all ms l) = log_seq l + of_nat (length ms)"
  proof (induction ms rule: rev_induct)
    case Nil
    then show ?case using assms by (simp add: mark_all_def)
  next
    case (snoc m ms)
    obtain nm kd v where m: "m = (nm, kd, v)" by (cases m)
    obtain ret l' where r: "hc15xx_retained_mark (Some (mark_all ms l)) (Some nm) kd v = (ret, Some l')"
      using some by blast
    then have "mark_all (ms @ [m]) l = l'" by (simp add: mark_all_def m)
    then show ?case using mark_result(4,5) [OF _ r] snoc by simp
  qed
  obtain ret l' where "hc15xx_retained_mark (Some (mark_all ms l)) (Some name) kind val = (ret, Some l')"
    using some by blast
  then show "\<exists>ret l'. hc15xx_retained_mark (Some (mark_all ms l)) (Some name) kind val = (ret, Some l') \<and>
       mark_all (ms @ [(name, kind, val)]) l = l'" by (simp add: mark_all_def)
qed

text \<open>
  C7. The retained log keeps the last 1024 marks. After any sequence of marks on a set-up log, the
  \<open>k\<close>-th newest entry, counted back from the write index through the wrap-around, is the \<open>k\<close>-th
  mark from the end, with its sequence number, kind, value and NUL-terminated name.
\<close>

theorem retained_history:
  assumes "log_ok l" and "k < length ms" "k < 1024" and "ms ! (length ms - 1 - k) = (name, kind, val)"
  shows "newest (mark_all ms l) k = mark_entry (log_seq l + of_nat (length ms - k)) name kind val"
  using assms
proof (induction ms arbitrary: k rule: rev_induct)
  case (snoc m ms)
  obtain nm kd v where m: "m = (nm, kd, v)" by (cases m)
  obtain ret l' where r: "hc15xx_retained_mark (Some (mark_all ms l)) (Some nm) kd v = (ret, Some l')"
    and l': "mark_all (ms @ [m]) l = l'"
    using mark_all_snoc(2) [OF assms(1)] m by blast
  note st = mark_all_snoc(1) [OF assms(1), of ms]
  note push = mark_pushes [OF conjunct1 [OF st] r]
  show ?case
  proof (cases k)
    case 0
    then show ?thesis using snoc.prems push(1) st l' m by (simp add: add.commute add.left_commute)
  next
    case (Suc j)
    have "newest l' (Suc j) = newest (mark_all ms l) j" using snoc.prems Suc by (intro push(2)) simp
    moreover have "newest (mark_all ms l) j = mark_entry (log_seq l + of_nat (length ms - j)) name kind val"
      using snoc.prems Suc by (intro snoc.IH) (auto simp: nth_append split: if_splits)
    ultimately show ?thesis using l' Suc by simp
  qed
qed simp

definition log_example :: hc15xx_retained_log where
  "log_example = \<lparr>magic = HC15XX_RETAINED_MAGIC, version = HC15XX_RETAINED_VERSION, log_seq = 41,
     write_index = 1023, wrapped = 0,
     entries = replicate 1024 \<lparr>e_seq = 0, e_kind = 0, e_value = 0, e_name_ptr = 0, e_name = replicate 32 0\<rparr>\<rparr>"

lemma log_example_ok: "log_ok log_example"
  by (simp add: log_ok_def log_example_def)

lemma retained_history_witness:
  "newest (mark_all [([1], 2, 3), ([4], 5, 6)] log_example) 1 = mark_entry 42 [1] 2 3"
  using retained_history [OF log_example_ok, of 1 "[([1], 2, 3), ([4], 5, 6)]"] by (simp add: log_example_def)

text \<open>
  C8. A reset in the middle of a mark does not damage the log. After any number of the mark's
  stores, every entry but the one being written is unchanged, the header is still valid, and the
  header has moved (write index or sequence number) only if the new entry is already complete.
\<close>

theorem retained_crash_consistent:
  assumes "log_ok l" and "c = fold do_store (take n (mark_stores l name kind val)) l"
  shows "magic c = HC15XX_RETAINED_MAGIC \<and> version c = HC15XX_RETAINED_VERSION \<and>
    (\<forall>j. j \<noteq> slot l \<longrightarrow> entries c ! j = entries l ! j) \<and>
    (write_index c \<noteq> write_index l \<or> log_seq c \<noteq> log_seq l \<longrightarrow>
       entries c ! slot l = mark_entry (log_seq l + 1) name kind val)"
proof -
  let ?p = "payload_stores l name kind val"
  have i: "slot l < length (entries l)" "magic l = HC15XX_RETAINED_MAGIC" "version l = HC15XX_RETAINED_VERSION"
    using assms(1) slot_ok [OF assms(1)] by (simp_all add: log_ok_def)
  show ?thesis
  proof (cases "n \<le> length ?p")
    case True
    then have "c = fold do_store (take n ?p) l" by (simp add: assms(2) mark_stores_split)
    also have "\<dots> = l\<lparr>entries := (entries l)[slot l := fold entry_store (take n ?p) (entries l ! slot l)]\<rparr>"
      by (rule entry_stores [OF _ i(1)]) (use payload_targets in \<open>auto dest: in_set_takeD\<close>)
    finally show ?thesis using i by simp
  next
    case False
    then obtain m where c: "c = fold do_store (take m (header_stores l)) (fold do_store ?p l)"
      by (simp add: assms(2) mark_stores_split)
    have p: "fold do_store ?p l = l\<lparr>entries := (entries l)[slot l := mark_entry (log_seq l + 1) name kind val]\<rparr>"
      using entry_stores [OF payload_targets i(1)] payload_entry entry_name_length [OF assms(1)]
        slot_ok [OF assms(1)] assms(1) by (simp add: log_ok_def)
    have "entries (fold do_store (take m (header_stores l)) x) = entries x \<and>
        magic (fold do_store (take m (header_stores l)) x) = magic x \<and>
        version (fold do_store (take m (header_stores l)) x) = version x" for x
      by (auto simp: header_stores_def take_Cons split: nat.split)
    then show ?thesis using i by (simp add: c p)
  qed
qed

lemma retained_crash_consistent_witness:
  "entries (fold do_store (take 7 (mark_stores log_example [1] 2 3)) log_example) ! 5 = entries log_example ! 5"
proof -
  have "slot log_example = 1023" by (simp add: slot_def log_example_def)
  then show ?thesis using retained_crash_consistent [OF log_example_ok refl, of 7 "[1]" 2 3] by simp
qed

end
