(* ===== verification/Asdpack.thy ===== *)
theory Asdpack
  imports Prelude
begin

text \<open>
  The firmware image packer \<^verbatim>\<open>src/tools/asdpack.c\<close>: the CRC-32/MPEG-2 of a payload by table,
  the LCFG header with size and checksum, packing and checking an image. It runs on the build host,
  where \<open>size_t\<close> has 64 bits, so buffer sizes are natural numbers. Files are byte lists; reading a
  file gives \<open>None\<close> on any I/O or memory error, and writing succeeds or not as a parameter says.
\<close>

section \<open>The tool\<close>

abbreviation (input) IMAGE_START where "IMAGE_START \<equiv> (0x1000 :: nat)"
abbreviation (input) LCFG_HEADER_SIZE where "LCFG_HEADER_SIZE \<equiv> (0x200 :: nat)"
abbreviation (input) LCFG_SIZE_OFF where "LCFG_SIZE_OFF \<equiv> (0x184 :: nat)"
abbreviation (input) LCFG_CRC_OFF where "LCFG_CRC_OFF \<equiv> (0x18c :: nat)"

text \<open>One turn of the inner loop of the table.\<close>

definition crc_bit :: "u32 \<Rightarrow> u32" where
  "crc_bit c = (if c AND push_bit 31 1 \<noteq> 0 then push_bit 1 c XOR 0x04c11db7 else push_bit 1 c)"

definition crc_tab :: "u32 list" where
  "crc_tab = map (\<lambda>i. (crc_bit ^^ 8) (push_bit 24 (of_nat i))) [0..<256]"

definition crc_byte :: "u32 \<Rightarrow> u8 \<Rightarrow> u32" where
  "crc_byte c b = push_bit 8 c XOR crc_tab ! unat (drop_bit 24 c XOR ucast b)"

definition crc32_mpeg2 :: "u8 list \<Rightarrow> u32" where
  "crc32_mpeg2 buf = foldl crc_byte 0xffffffff buf"

definition read_le32 :: "u8 list \<Rightarrow> nat \<Rightarrow> u32" where
  "read_le32 buf off = le32_of (buf ! off) (buf ! (off + 1)) (buf ! (off + 2)) (buf ! (off + 3))"

definition write_le32 :: "u8 list \<Rightarrow> nat \<Rightarrow> u32 \<Rightarrow> u8 list" where
  "write_le32 buf off val =
     buf[off := byte_of 0 val, off + 1 := byte_of 1 val, off + 2 := byte_of 2 val, off + 3 := byte_of 3 val]"

text \<open>The image \<open>pack_file\<close> builds for an input.\<close>

definition pack_image :: "u8 list \<Rightarrow> u8 list" where
  "pack_image in_buf =
     (let in_sz = length in_buf;
          out_sz = IMAGE_START + in_sz;
          payload_sz = out_sz - LCFG_HEADER_SIZE;
          out_buf = replicate IMAGE_START 0 @ in_buf;
          out_buf = out_buf[0 := 0x4c, 1 := 0x43, 2 := 0x46, 3 := 0x47];
          out_buf = write_le32 out_buf LCFG_SIZE_OFF (of_nat payload_sz);
          crc = crc32_mpeg2 (take payload_sz (drop LCFG_HEADER_SIZE out_buf))
      in write_le32 out_buf LCFG_CRC_OFF crc)"

datatype exit_code = EXIT_SUCCESS | EXIT_FAILURE

text \<open>
  \<open>file\<close> is what reading the input gives, \<open>mem\<close> whether \<open>calloc\<close> succeeds, \<open>wr\<close> whether the output
  is opened, written and closed. The second result is the output file, if one was completed.
\<close>

definition pack_file :: "u8 list option \<Rightarrow> bool \<Rightarrow> bool \<Rightarrow> exit_code \<times> u8 list option" where
  "pack_file file mem wr =
     (case file of None \<Rightarrow> (EXIT_FAILURE, None)
      | Some in_buf \<Rightarrow>
          if \<not> mem then (EXIT_FAILURE, None)
          else if \<not> wr then (EXIT_FAILURE, None)
          else (EXIT_SUCCESS, Some (pack_image in_buf)))"

definition check_file :: "u8 list option \<Rightarrow> exit_code" where
  "check_file file =
     (case file of None \<Rightarrow> EXIT_FAILURE
      | Some buf \<Rightarrow>
          let sz = length buf
          in if sz < IMAGE_START then EXIT_FAILURE
             else if take 4 buf \<noteq> [0x4c, 0x43, 0x46, 0x47] then EXIT_FAILURE
             else
               let payload_sz = sz - LCFG_HEADER_SIZE;
                   stored_payload = read_le32 buf LCFG_SIZE_OFF
               in if unat stored_payload \<noteq> payload_sz then EXIT_FAILURE
                  else
                    let stored_crc = read_le32 buf LCFG_CRC_OFF;
                        crc = crc32_mpeg2 (take payload_sz (drop LCFG_HEADER_SIZE buf))
                    in if stored_crc \<noteq> crc then EXIT_FAILURE else EXIT_SUCCESS)"

section \<open>The checksum, bit by bit\<close>

text \<open>The reference: each byte enters at the top, eight shifts follow.\<close>

definition crc_byte_ref :: "u32 \<Rightarrow> u8 \<Rightarrow> u32" where
  "crc_byte_ref c b = (crc_bit ^^ 8) (c XOR push_bit 24 (ucast b))"

definition crc_ref :: "u8 list \<Rightarrow> u32" where
  "crc_ref buf = foldl crc_byte_ref 0xffffffff buf"

lemma crc_bit_bits:
  "n < 32 \<Longrightarrow> bit (crc_bit c) n \<longleftrightarrow> (0 < n \<and> bit c (n - 1)) \<noteq> (bit c 31 \<and> bit (0x04c11db7 :: u32) n)"
proof -
  assume n: "n < 32"
  have t: "c AND push_bit 31 1 \<noteq> 0 \<longleftrightarrow> bit c 31"
    using and_BIT_eq_0 [of 31 c] by (simp add: BIT_def)
  have p: "bit (push_bit 1 c) n \<longleftrightarrow> 0 < n \<and> bit c (n - 1)"
    using n unfolding bit_push_bit_iff by (auto dest: bit_imp_le_length)
  show ?thesis
  proof (cases "bit c 31")
    case True
    then show ?thesis unfolding crc_bit_def t if_P [OF True] bit_xor_iff p by blast
  next
    case False
    then show ?thesis unfolding crc_bit_def t if_not_P [OF False] p by blast
  qed
qed

text \<open>The shift register is linear and loses no information: its feedback has a constant term.\<close>

lemma crc_bit_xor: "crc_bit (x XOR y) = crc_bit x XOR crc_bit y"
  by (rule bit_word_eqI) (simp add: crc_bit_bits bit_xor_iff, blast)

lemma crc_bit_inj: "crc_bit x = crc_bit y \<Longrightarrow> x = y"
proof (rule bit_word_eqI)
  fix n assume eq: "crc_bit x = crc_bit y" and n: "n < LENGTH(32)"
  have b: "bit (crc_bit x) m = bit (crc_bit y) m" for m using eq by simp
  have top: "bit x 31 = bit y 31" using b [of 0] by (simp add: crc_bit_bits)
  show "bit x n = bit y n"
  proof (cases "n = 31")
    case False
    then have "bit (crc_bit x) (Suc n) = bit (crc_bit y) (Suc n)" and "Suc n < 32" using b n by simp_all
    then show ?thesis using top by (simp add: crc_bit_bits) blast
  qed (simp add: top)
qed

lemma crc_bits_xor: "(crc_bit ^^ k) (x XOR y) = (crc_bit ^^ k) x XOR (crc_bit ^^ k) y"
  by (induction k) (simp_all add: crc_bit_xor)

lemma crc_bits_inj: "(crc_bit ^^ k) x = (crc_bit ^^ k) y \<Longrightarrow> x = y"
  by (induction k) (auto dest: crc_bit_inj)

text \<open>While the top bits are clear, the register only shifts.\<close>

lemma crc_bits_shift:
  "k \<le> 8 \<Longrightarrow> \<forall>n \<ge> 24. \<not> bit c n \<Longrightarrow> (crc_bit ^^ k) c = push_bit k c"
proof (induction k)
  case (Suc k)
  then have e: "(crc_bit ^^ k) c = push_bit k c" by simp
  have "\<not> bit (push_bit k c) 31" using Suc.prems by (auto simp: bit_push_bit_iff)
  then have "crc_bit (push_bit k c) = push_bit 1 (push_bit k c)"
    using and_BIT_eq_0 [of 31 "push_bit k c"] by (simp add: crc_bit_def BIT_def)
  then show ?case using e by (simp add: push_bit_push_bit)
qed simp

lemma crc_byte_refines: "crc_byte c b = crc_byte_ref c b"
proof -
  let ?i = "drop_bit 24 c XOR ucast b :: u32"
  have i: "\<not> bit ?i n" if "8 \<le> n" for n
    using that by (auto simp: bit_xor_iff bit_drop_bit_eq bit_ucast_iff dest: bit_imp_le_length)
  have i': "bit ?i n \<Longrightarrow> n < 8" for n using i not_le by blast
  have lt: "unat ?i < 256"
  proof -
    have "take_bit 8 ?i = ?i" by (rule bit_word_eqI) (auto simp: bit_take_bit_iff simp del: take_bit_xor dest: i')
    then have "unat ?i = unat (take_bit 8 ?i)" by simp
    also have "\<dots> < 2 ^ 8" by (simp only: unsigned_take_bit_eq take_bit_nat_less_exp)
    finally show ?thesis by simp
  qed
  have tab: "crc_tab ! unat ?i = (crc_bit ^^ 8) (push_bit 24 ?i)"
    using lt by (simp add: crc_tab_def)
  have split: "c XOR push_bit 24 (ucast b) = push_bit 24 ?i XOR take_bit 24 c"
    by (rule bit_word_eqI)
      (auto simp: bit_xor_iff bit_push_bit_iff bit_drop_bit_eq bit_take_bit_iff)
  have "\<forall>n \<ge> 24. \<not> bit (take_bit 24 c) n" by (simp add: bit_take_bit_iff)
  then have "(crc_bit ^^ 8) (take_bit 24 c) = push_bit 8 (take_bit 24 c)" by (intro crc_bits_shift) simp_all
  also have "\<dots> = push_bit 8 c"
    by (rule bit_word_eqI) (auto simp: bit_push_bit_iff bit_take_bit_iff)
  finally have sh: "(crc_bit ^^ 8) (take_bit 24 c) = push_bit 8 c" .
  show ?thesis unfolding crc_byte_def crc_byte_ref_def tab split crc_bits_xor sh by (rule xor.commute)
qed

lemma crc_byte_inj_state: "crc_byte c b = crc_byte c' b \<Longrightarrow> c = c'"
  unfolding crc_byte_refines crc_byte_ref_def xor.commute [of _ "push_bit 24 (ucast b)"]
  by (rule xor_cancel) (rule crc_bits_inj)

lemma crc_byte_inj_byte: "crc_byte c b = crc_byte c b' \<Longrightarrow> b = b'"
proof -
  assume "crc_byte c b = crc_byte c b'"
  then have "push_bit 24 (ucast b) = (push_bit 24 (ucast b') :: u32)"
    unfolding crc_byte_refines crc_byte_ref_def 
    by (rule xor_cancel [OF crc_bits_inj])
  then have "bit (push_bit 24 (ucast b) :: u32) (24 + n) = bit (push_bit 24 (ucast b') :: u32) (24 + n)" for n
    by simp
  note eq = this
  show "b = b'"
  proof (rule bit_word_eqI)
    fix n assume "n < LENGTH(8)"
    then show "bit b n = bit b' n" using eq [of n] by (simp add: bit_push_bit_iff bit_ucast_iff)
  qed
qed

lemma foldl_crc_inj: "foldl crc_byte c xs = foldl crc_byte c' xs \<Longrightarrow> c = c'"
  by (induction xs arbitrary: c c') (auto dest: crc_byte_inj_state)

lemma crc_detects_byte:
  assumes "i < length buf" and "v \<noteq> buf ! i"
  shows "crc32_mpeg2 (buf[i := v]) \<noteq> crc32_mpeg2 buf"
proof
  assume eq: "crc32_mpeg2 (buf[i := v]) = crc32_mpeg2 buf"
  let ?c = "foldl crc_byte 0xffffffff (take i buf)"
  have "buf[i := v] = take i buf @ v # drop (Suc i) buf" using assms(1) by (rule upd_conv_take_nth_drop)
  moreover have "buf = take i buf @ buf ! i # drop (Suc i) buf" using assms(1) by (rule id_take_nth_drop)
  ultimately have "foldl crc_byte (crc_byte ?c v) (drop (Suc i) buf) =
      foldl crc_byte (crc_byte ?c (buf ! i)) (drop (Suc i) buf)"
    using eq unfolding crc32_mpeg2_def by (metis foldl_append foldl_Cons)
  then have "crc_byte ?c v = crc_byte ?c (buf ! i)" by (rule foldl_crc_inj)
  then show False using assms(2) crc_byte_inj_byte by blast
qed

section \<open>Images\<close>

lemma length_write_le32 [simp]: "length (write_le32 buf off v) = length buf"
  by (simp add: write_le32_def)

lemma nth_write_le32:
  assumes "off + 3 < length buf"
  shows "write_le32 buf off v ! j =
    (if j = off then byte_of 0 v else if j = off + 1 then byte_of 1 v else if j = off + 2 then byte_of 2 v
     else if j = off + 3 then byte_of 3 v else buf ! j)"
  unfolding write_le32_def using assms by (rule nth_store4)

lemma read_write_le32: "off + 3 < length buf \<Longrightarrow> read_le32 (write_le32 buf off v) off = v"
  by (simp add: read_le32_def nth_write_le32)

lemma read_le32_other:
  "off + 3 < length buf \<Longrightarrow> off' + 3 < off \<or> off + 3 < off' \<Longrightarrow>
     read_le32 (write_le32 buf off v) off' = read_le32 buf off'"
  by (auto simp: read_le32_def nth_write_le32)

lemma drop_write_le32: "off + 3 < n \<Longrightarrow> drop n (write_le32 buf off v) = drop n buf"
  by (simp add: write_le32_def)

lemma take_write_le32: "n \<le> off \<Longrightarrow> take n (write_le32 buf off v) = take n buf"
  by (simp add: write_le32_def)

text \<open>The parts of a packed image.\<close>

lemma pack_image_parts:
  assumes "length in_buf + 0xe00 < 2 ^ 32"
  shows "length (pack_image in_buf) = 0x1000 + length in_buf"
    and "take 4 (pack_image in_buf) = [0x4c, 0x43, 0x46, 0x47]"
    and "unat (read_le32 (pack_image in_buf) 0x184) = length in_buf + 0xe00"
    and "read_le32 (pack_image in_buf) 0x18c = crc32_mpeg2 (drop 0x200 (pack_image in_buf))"
    and "drop 0x1000 (pack_image in_buf) = in_buf"
proof -
  define out0 where "out0 = (replicate 0x1000 (0 :: u8) @ in_buf)[0 := 0x4c, 1 := 0x43, 2 := 0x46, 3 := 0x47]"
  define out1 where "out1 = write_le32 out0 0x184 (of_nat (length in_buf + 0xe00))"
  define crc where "crc = crc32_mpeg2 (drop 0x200 out1)"
  have l0: "length out0 = 0x1000 + length in_buf" by (simp add: out0_def)
  have l1: "length out1 = 0x1000 + length in_buf" by (simp add: out1_def l0)
  have p: "pack_image in_buf = write_le32 out1 0x18c crc"
  proof -
    have sz: "0x1000 + length in_buf - 0x200 = length in_buf + 0xe00" by simp
    have "take (length in_buf + 0xe00) (drop 0x200 out1) = drop 0x200 out1" using l1 by simp
    then show ?thesis
      unfolding pack_image_def Let_def sz out0_def [symmetric] out1_def [symmetric] crc_def by simp
  qed
  show "length (pack_image in_buf) = 0x1000 + length in_buf" by (simp add: p l1)
  have "take 4 out0 = [0x4c, 0x43, 0x46, 0x47]"
    by (simp add: out0_def take_update_swap [symmetric] numeral_eq_Suc)
  then show "take 4 (pack_image in_buf) = [0x4c, 0x43, 0x46, 0x47]"
    by (simp add: p out1_def take_write_le32)
  have "read_le32 (pack_image in_buf) 0x184 = of_nat (length in_buf + 0xe00)"
    by (simp add: p read_le32_other l1 out1_def read_write_le32 l0)
  then show "unat (read_le32 (pack_image in_buf) 0x184) = length in_buf + 0xe00"
    using assms by (simp only: unsigned_of_nat) (simp add: take_bit_nat_eq_self_iff)
  show "read_le32 (pack_image in_buf) 0x18c = crc32_mpeg2 (drop 0x200 (pack_image in_buf))"
    by (simp add: p read_write_le32 l1 drop_write_le32 crc_def)
  show "drop 0x1000 (pack_image in_buf) = in_buf"
    by (simp add: p drop_write_le32 out1_def out0_def)
qed

section \<open>Properties\<close>

text \<open>
  The table-driven \<open>crc32_mpeg2\<close> is the bit-serial CRC-32/MPEG-2 (initial value all ones,
  polynomial 0x04c11db7, no reflection, no final inversion) on every buffer.
\<close>

theorem crc_table_is_bitwise: "crc32_mpeg2 buf = crc_ref buf"
  unfolding crc32_mpeg2_def crc_ref_def by (simp add: crc_byte_refines [abs_def])

text \<open>
  C15. What \<open>pack_file\<close> writes, \<open>check_file\<close> accepts, and the input is found unchanged behind the
  0x1000-byte header area, for every input whose payload size fits the 32-bit header field.
\<close>

theorem pack_check_roundtrip:
  assumes "length in_buf + 0xe00 < 2 ^ 32" and "pack_file (Some in_buf) True True = (rc, Some img)"
  shows "rc = EXIT_SUCCESS \<and> check_file (Some img) = EXIT_SUCCESS \<and> drop IMAGE_START img = in_buf"
proof -
  have i: "img = pack_image in_buf" "rc = EXIT_SUCCESS" using assms(2) by (simp_all add: pack_file_def)
  note p = pack_image_parts [OF assms(1)]
  have "take (length img - 0x200) (drop 0x200 img) = drop 0x200 img" by simp
  then show ?thesis using p unfolding i by (simp add: check_file_def Let_def)
qed

lemma pack_check_roundtrip_witness:
  "check_file (Some (pack_image [1, 2, 3])) = EXIT_SUCCESS"
proof -
  have "length ([1, 2, 3] :: u8 list) + 0xe00 < 2 ^ 32" by simp
  moreover have "pack_file (Some [1, 2, 3]) True True = (EXIT_SUCCESS, Some (pack_image [1, 2, 3]))"
    by (simp add: pack_file_def)
  ultimately show ?thesis using pack_check_roundtrip by blast
qed

text \<open>
  \<open>check_file\<close> rejects every img that differs from an accepted one in a single byte of the
  payload, whatever the byte is changed to: the checksum detects all such corruption.
\<close>

theorem check_detects_corruption:
  assumes "check_file (Some img) = EXIT_SUCCESS"
    and "LCFG_HEADER_SIZE \<le> i" "i < length img" "v \<noteq> img ! i"
  shows "check_file (Some (img[i := v])) = EXIT_FAILURE"
proof -
  let ?bad = "img[i := v]"
  have ok: "0x1000 \<le> length img"
    "read_le32 img 0x18c = crc32_mpeg2 (drop 0x200 img)"
    using assms(1) by (auto simp: check_file_def Let_def split: if_splits)
  have stored: "read_le32 ?bad 0x18c = read_le32 img 0x18c" using assms(2) by (simp add: read_le32_def)
  have "drop 0x200 ?bad = (drop 0x200 img)[i - 0x200 := v]" using assms(2) by (simp add: drop_update_swap)
  then have "crc32_mpeg2 (drop 0x200 ?bad) \<noteq> crc32_mpeg2 (drop 0x200 img)"
    using crc_detects_byte [of "i - 0x200" "drop 0x200 img" v] assms(2-4) by simp
  then show ?thesis using ok(2) stored by (auto simp: check_file_def Let_def)
qed

lemma check_detects_corruption_witness:
  "check_file (Some ((pack_image [1, 2, 3])[0x1001 := 9])) = EXIT_FAILURE"
proof -
  have l: "length ([1, 2, 3] :: u8 list) + 0xe00 < 2 ^ 32" by simp
  note p = pack_image_parts [OF l]
  have ok: "check_file (Some (pack_image [1, 2, 3])) = EXIT_SUCCESS"
    using p by (simp add: check_file_def Let_def)
  have "pack_image [1, 2, 3] ! (0x1000 + 1) = drop 0x1000 (pack_image [1, 2, 3]) ! 1"
    by (rule nth_drop [symmetric]) (simp add: p(1))
  also have "\<dots> = 2" by (simp add: p(5))
  finally have "pack_image [1, 2, 3] ! 0x1001 = 2" by simp
  then show ?thesis using p(1)
    by (intro check_detects_corruption [OF ok]) simp_all
qed

end
