(* ===== verification/GeNode.thy ===== *)
theory GeNode
  imports Prelude "HOL-Library.Monad_Syntax"
begin

text \<open>
  The command-node serialiser of the graphics engine, \<^verbatim>\<open>src/ge/hcge_node.c\<close>. A context of 170
  words and a mask of twenty register groups are flattened into a node: a two-word record for
  every base address above 256 MiB, the header, then the words of every selected group.

  Stores are \<open>node[output++] = v\<close> on a buffer of known length; a store or a load outside its buffer
  is \<open>None\<close>, so that the absence of one is a theorem.
\<close>

section \<open>Sequential stores\<close>

text \<open>\<open>node[output++] = v\<close>; the graphics routines build their nodes with the same idiom.\<close>

type_synonym out_buf = "u32 list \<times> nat"

definition emit :: "u32 \<Rightarrow> out_buf \<Rightarrow> out_buf option" where
  "emit v st = (let (node, output) = st in
     if output < length node then Some (node[output := v], output + 1) else None)"

definition load :: "u32 list \<Rightarrow> nat \<Rightarrow> u32 option" where
  "load mem i = (if i < length mem then Some (mem ! i) else None)"

text \<open>A loop body over a list of indices, stopping at the first access out of bounds.\<close>

fun for_each :: "('i \<Rightarrow> 's \<Rightarrow> 's option) \<Rightarrow> 'i list \<Rightarrow> 's \<Rightarrow> 's option" where
  "for_each body [] s = Some s"
| "for_each body (i # is) s = (body i s \<bind> for_each body is)"

text \<open>What a run of stores amounts to: the words are placed at the cursor.\<close>

definition placed :: "u32 list \<Rightarrow> out_buf \<Rightarrow> out_buf" where
  "placed ws st = (take (snd st) (fst st) @ ws @ drop (snd st + length ws) (fst st), snd st + length ws)"

definition room :: "nat \<Rightarrow> out_buf \<Rightarrow> bool" where
  "room n st \<longleftrightarrow> snd st + n \<le> length (fst st)"

lemma placed_Nil [simp]: "placed [] st = st"
  by (simp add: placed_def)

lemma length_placed [simp]: "room (length ws) st \<Longrightarrow> length (fst (placed ws st)) = length (fst st)"
  by (simp add: placed_def room_def)

lemma snd_placed [simp]: "snd (placed ws st) = snd st + length ws"
  by (simp add: placed_def)

lemma placed_append:
  "room (length xs + length ys) st \<Longrightarrow> placed ys (placed xs st) = placed (xs @ ys) st"
  by (cases xs) (auto simp: placed_def room_def min_def add.commute add.left_commute)

lemma room_placed: "room (length ws) st \<Longrightarrow> room n (placed ws st) \<longleftrightarrow> room (length ws + n) st"
  by (auto simp: room_def placed_def)

lemma room_mono: "room n st \<Longrightarrow> m \<le> n \<Longrightarrow> room m st"
  by (simp add: room_def)

lemma emit_placed: "emit v st = (if room 1 st then Some (placed [v] st) else None)"
  by (auto simp: emit_def room_def placed_def split_def Let_def upd_conv_take_nth_drop)

text \<open>A loop whose bodies place words places the concatenation.\<close>

lemma for_each_placed:
  assumes "\<And>i s. i \<in> set is \<Longrightarrow> room (length (f i)) s \<Longrightarrow> body i s = Some (placed (f i) s)"
    and "room (length (concat (map f is))) st"
  shows "for_each body is st = Some (placed (concat (map f is)) st)"
  using assms
proof (induction "is" arbitrary: st)
  case (Cons i "is")
  have "room (length (f i)) st" using Cons.prems(2) by (auto intro: room_mono)
  moreover from this have "room (length (concat (map f is))) (placed (f i) st)"
    using Cons.prems(2) by (simp add: room_placed)
  ultimately show ?case
    using Cons.IH [of "placed (f i) st"] Cons.prems by (simp add: placed_append)
qed simp

section \<open>The serialiser\<close>

abbreviation (input) HCGE_NODE_CONTEXT_WORDS where "HCGE_NODE_CONTEXT_WORDS \<equiv> (170 :: nat)"
abbreviation (input) HCGE_NODE_MAX_WORDS where "HCGE_NODE_MAX_WORDS \<equiv> (172 :: nat)"

datatype hcge_node_group = HCGE_GROUP_FUNC | HCGE_GROUP_DST_CTX | HCGE_GROUP_SRC_CTX
  | HCGE_GROUP_PTN_CTX | HCGE_GROUP_MSK_CTX | HCGE_GROUP_COLOR | HCGE_GROUP_PAINT_TYPE
  | HCGE_GROUP_COLOR_KEY | HCGE_GROUP_DST_POS | HCGE_GROUP_SRC_POS | HCGE_GROUP_PTN_POS
  | HCGE_GROUP_MSK_POS | HCGE_GROUP_RESERVED12 | HCGE_GROUP_CLUT | HCGE_GROUP_CLIP
  | HCGE_GROUP_ROP | HCGE_GROUP_RESERVED16 | HCGE_GROUP_DFB_GCOLOR | HCGE_GROUP_MATRIX
  | HCGE_GROUP_FILTER

record group_layout =
  context_word :: nat
  gl_words :: nat
  second_word :: nat

definition layout :: "nat \<Rightarrow> nat \<Rightarrow> nat \<Rightarrow> group_layout" where
  "layout c w s = \<lparr>context_word = c, gl_words = w, second_word = s\<rparr>"

text \<open>The table, in the order of the enumerators; a missing third initialiser is 0.\<close>

fun group_layouts :: "hcge_node_group \<Rightarrow> group_layout" where
  "group_layouts HCGE_GROUP_FUNC = layout 1 1 0"
| "group_layouts HCGE_GROUP_DST_CTX = layout 2 2 4"
| "group_layouts HCGE_GROUP_SRC_CTX = layout 7 2 9"
| "group_layouts HCGE_GROUP_PTN_CTX = layout 11 2 13"
| "group_layouts HCGE_GROUP_MSK_CTX = layout 16 2 18"
| "group_layouts HCGE_GROUP_COLOR = layout 28 3 0"
| "group_layouts HCGE_GROUP_PAINT_TYPE = layout 33 1 0"
| "group_layouts HCGE_GROUP_COLOR_KEY = layout 26 2 0"
| "group_layouts HCGE_GROUP_DST_POS = layout 5 2 0"
| "group_layouts HCGE_GROUP_SRC_POS = layout 10 1 0"
| "group_layouts HCGE_GROUP_PTN_POS = layout 14 2 0"
| "group_layouts HCGE_GROUP_MSK_POS = layout 19 2 0"
| "group_layouts HCGE_GROUP_RESERVED12 = layout 0 0 0"
| "group_layouts HCGE_GROUP_CLUT = layout 21 2 0"
| "group_layouts HCGE_GROUP_CLIP = layout 23 2 0"
| "group_layouts HCGE_GROUP_ROP = layout 25 1 0"
| "group_layouts HCGE_GROUP_RESERVED16 = layout 0 0 0"
| "group_layouts HCGE_GROUP_DFB_GCOLOR = layout 34 1 0"
| "group_layouts HCGE_GROUP_MATRIX = layout 35 7 0"
| "group_layouts HCGE_GROUP_FILTER = layout 42 128 0"

definition hcge_groups :: "hcge_node_group list" where
  "hcge_groups = [HCGE_GROUP_FUNC, HCGE_GROUP_DST_CTX, HCGE_GROUP_SRC_CTX,
     HCGE_GROUP_PTN_CTX, HCGE_GROUP_MSK_CTX, HCGE_GROUP_COLOR, HCGE_GROUP_PAINT_TYPE,
     HCGE_GROUP_COLOR_KEY, HCGE_GROUP_DST_POS, HCGE_GROUP_SRC_POS, HCGE_GROUP_PTN_POS,
     HCGE_GROUP_MSK_POS, HCGE_GROUP_RESERVED12, HCGE_GROUP_CLUT, HCGE_GROUP_CLIP,
     HCGE_GROUP_ROP, HCGE_GROUP_RESERVED16, HCGE_GROUP_DFB_GCOLOR, HCGE_GROUP_MATRIX,
     HCGE_GROUP_FILTER]"

text \<open>The pairs (bit number, layout) the two loops over \<open>group < 20\<close> visit.\<close>

definition group_table :: "(nat \<times> group_layout) list" where
  "group_table = zip [0..<20] (map group_layouts hcge_groups)"

definition hcge_node_words :: "u32 \<Rightarrow> nat" where
  "hcge_node_words group_mask =
     fold (\<lambda>(group, lay) words. if group_mask AND BIT group \<noteq> 0 then words + gl_words lay else words)
       group_table 1"

abbreviation (input) base_words where "base_words \<equiv> [2, 7, 11, 16 :: nat]"

text \<open>The size check: two more words for every base address with a bit above 27.\<close>

definition node_required :: "u32 list \<Rightarrow> u32 \<Rightarrow> nat option" where
  "node_required context gmask =
     for_each (\<lambda>base required. do {
         w \<leftarrow> load context base;
         Some (if w AND 0xf0000000 \<noteq> 0 then required + 2 else required)
       }) base_words (hcge_node_words gmask)"

definition emit_base :: "u32 list \<Rightarrow> nat \<Rightarrow> out_buf \<Rightarrow> out_buf option" where
  "emit_base context base st = do {
     w \<leftarrow> load context base;
     let high = drop_bit 28 w;
     if high = 0 then Some st
     else do {
       st \<leftarrow> emit (push_bit 10 (high + 0x2f) OR 0x81000001) st;
       v \<leftarrow> load context (base + 1);
       emit v st
     }
   }"

definition emit_group :: "u32 list \<Rightarrow> u32 \<Rightarrow> nat \<times> group_layout \<Rightarrow> out_buf \<Rightarrow> out_buf option" where
  "emit_group context gmask gl st = (let (group, lay) = gl in
     if gmask AND BIT group = 0 then Some st
     else for_each (\<lambda>index st. do {
            let cw = (if index = 1 \<and> second_word lay \<noteq> 0 then second_word lay
                      else context_word lay + index);
            v \<leftarrow> load context cw;
            emit v st
          }) [0..<gl_words lay] st)"

text \<open>
  \<open>None\<close> is an access out of bounds; otherwise the return value, the buffer, and the count stored
  through \<open>words\<close> (\<open>None\<close> where it is not stored). A NULL argument is \<open>None\<close>.
\<close>

definition hcge_node_build :: "u32 list option \<Rightarrow> u32 list option \<Rightarrow> nat \<Rightarrow> bool \<Rightarrow>
    (int \<times> u32 list option \<times> nat option) option" where
  "hcge_node_build context node capacity words_ptr =
     (case (context, node) of
        (Some context, Some node) \<Rightarrow>
          if \<not> words_ptr then Some (-1, Some node, None)
          else do {
            gmask \<leftarrow> load context 0;
            required \<leftarrow> node_required context gmask;
            if required > capacity then Some (-1, Some node, None)
            else do {
              st \<leftarrow> for_each (emit_base context) base_words (node, 0);
              st \<leftarrow> emit (gmask OR 0x02000000) st;
              st \<leftarrow> for_each (emit_group context gmask) group_table st;
              Some (0, Some (fst st), Some (snd st))
            }
          }
      | _ \<Rightarrow> Some (-1, node, None))"

section \<open>What a node is\<close>

text \<open>The node a context denotes, as a list.\<close>

definition base_record :: "u32 list \<Rightarrow> nat \<Rightarrow> u32 list" where
  "base_record context base =
     (if drop_bit 28 (context ! base) = 0 then []
      else [push_bit 10 (drop_bit 28 (context ! base) + 0x2f) OR 0x81000001, context ! (base + 1)])"

definition group_words :: "u32 list \<Rightarrow> u32 \<Rightarrow> nat \<times> group_layout \<Rightarrow> u32 list" where
  "group_words context gmask gl = (let (group, lay) = gl in
     if bit gmask group
     then map (\<lambda>index. context ! (if index = 1 \<and> second_word lay \<noteq> 0 then second_word lay
                                   else context_word lay + index)) [0..<gl_words lay]
     else [])"

definition node_image :: "u32 list \<Rightarrow> u32 list" where
  "node_image context =
     concat (map (base_record context) base_words) @ [context ! 0 OR 0x02000000] @
     concat (map (group_words context (context ! 0)) group_table)"

lemma high_nibble_zero: "(w :: u32) AND 0xf0000000 = 0 \<longleftrightarrow> drop_bit 28 w = 0"
proof -
  have m: "(0xf0000000 :: u32) = NOT (mask 28)" by (simp add: mask_eq_exp_minus_1)
  have b: "bit (0xf0000000 :: u32) n \<longleftrightarrow> 28 \<le> n \<and> n < 32" for n
    unfolding m bit_not_iff bit_mask_iff by auto
  show ?thesis
  proof
    assume z: "w AND 0xf0000000 = 0"
    show "drop_bit 28 w = 0"
    proof (rule bit_word_eqI)
      fix n assume "n < LENGTH(32)"
      have "\<not> bit (w AND 0xf0000000) (28 + n)" using z by simp
      then have "\<not> (bit w (28 + n) \<and> 28 + n < 32)" unfolding bit_and_iff b by simp
      then show "bit (drop_bit 28 w) n = bit 0 n"
        using bit_imp_le_length [of w "28 + n"] by (auto simp: bit_drop_bit_eq)
    qed
  next
    assume z: "drop_bit 28 w = 0"
    have "\<not> bit w n" if "28 \<le> n" for n
    proof -
      have "\<not> bit (drop_bit 28 w) (n - 28)" using z by simp
      with that show ?thesis by (simp add: bit_drop_bit_eq)
    qed
    then have "\<not> bit (w AND 0xf0000000) n" for n unfolding bit_and_iff b by blast
    then show "w AND 0xf0000000 = 0" by (intro bit_word_eqI) simp
  qed
qed

lemma group_table_bits: "gl \<in> set group_table \<Longrightarrow> fst gl < 20"
  by (cases gl) (auto simp: group_table_def dest: set_zip_leftD)

text \<open>Every context word a group names is inside the context.\<close>

lemma group_table_range:
  "gl \<in> set group_table \<Longrightarrow> i < gl_words (snd gl) \<Longrightarrow>
     context_word (snd gl) + i < 170 \<and> second_word (snd gl) < 170"
proof -
  have "\<forall>lay \<in> set (map group_layouts hcge_groups).
      context_word lay + gl_words lay \<le> 170 \<and> second_word lay < 170"
    by (simp add: hcge_groups_def layout_def)
  then show "gl \<in> set group_table \<Longrightarrow> i < gl_words (snd gl) \<Longrightarrow> ?thesis"
    by (cases gl) (force simp: group_table_def dest: set_zip_rightD)
qed

lemma emit_base_placed:
  assumes "base + 1 < length context" and "room (length (base_record context base)) st"
  shows "emit_base context base st = Some (placed (base_record context base) st)"
  using assms
  by (auto simp: emit_base_def base_record_def load_def emit_placed room_placed placed_append Let_def
      intro: room_mono)

lemma emit_group_placed:
  assumes gl: "gl \<in> set group_table" and len: "length context = 170"
    and room: "room (length (group_words context gmask gl)) st"
  shows "emit_group context gmask gl st = Some (placed (group_words context gmask gl) st)"
proof -
  obtain g lay where gl': "gl = (g, lay)" by (cases gl)
  have g: "g < 32" using group_table_bits [OF gl] gl' by simp
  let ?w = "\<lambda>i. [context ! (if i = 1 \<and> second_word lay \<noteq> 0 then second_word lay else context_word lay + i)]"
  have body: "(do { let cw = (if i = 1 \<and> second_word lay \<noteq> 0 then second_word lay else context_word lay + i);
            v \<leftarrow> load context cw; emit v s }) = Some (placed (?w i) s)"
    if "i \<in> set [0..<gl_words lay]" "room (length (?w i)) s" for i s
    using that group_table_range [OF gl, of i] len by (simp add: gl' load_def emit_placed)
  have cat: "concat (map ?w [0..<gl_words lay]) =
      map (\<lambda>i. context ! (if i = 1 \<and> second_word lay \<noteq> 0 then second_word lay else context_word lay + i))
        [0..<gl_words lay]"
    by (simp add: concat_map_singleton)
  show ?thesis
  proof (cases "bit gmask g")
    case True
    then have "room (length (concat (map ?w [0..<gl_words lay]))) st"
      using room unfolding cat by (simp add: group_words_def gl')
    from for_each_placed [of "[0..<gl_words lay]" ?w, OF body this] True show ?thesis
      unfolding cat by (simp add: emit_group_def group_words_def gl' and_BIT_eq_0 [OF g])
  next
    case False
    then show ?thesis by (simp add: emit_group_def group_words_def gl' and_BIT_eq_0 [OF g])
  qed
qed

lemma hcge_node_words_sum:
  "hcge_node_words gmask = 1 + length (concat (map (group_words context gmask) group_table))"
proof -
  have "fold (\<lambda>(group, lay) words. if gmask AND BIT group \<noteq> 0 then words + gl_words lay else words) xs n =
      n + length (concat (map (group_words context gmask) xs))"
    if "\<forall>gl \<in> set xs. fst gl < 20" for xs and n :: nat
    using that by (induction xs arbitrary: n) (auto simp: group_words_def and_BIT_eq_0)
  then show ?thesis using group_table_bits by (simp add: hcge_node_words_def)
qed

lemma node_required_length:
  assumes "length context = 170"
  shows "node_required context (context ! 0) = Some (length (node_image context))"
  using assms
  by (simp add: node_required_def load_def node_image_def base_record_def high_nibble_zero
      hcge_node_words_sum [of _ "context"])

lemma hcge_node_words_le: "hcge_node_words gmask \<le> 164"
proof -
  have "hcge_node_words gmask = 1 + sum_list (map (\<lambda>gl. length (group_words [] gmask gl)) group_table)"
    by (simp add: hcge_node_words_sum [of _ "[]"] length_concat comp_def)
  also have "\<dots> \<le> 1 + sum_list (map (\<lambda>gl. gl_words (snd gl)) group_table)"
    by (intro add_mono sum_list_mono) (auto simp: group_words_def)
  also have "map (\<lambda>gl. gl_words (snd gl)) group_table = map gl_words (map group_layouts hcge_groups)"
  proof -
    have "length hcge_groups = 20" by (simp add: hcge_groups_def)
    then have "map snd group_table = map group_layouts hcge_groups"
      unfolding group_table_def by (intro map_snd_zip) simp
    then have "map gl_words (map snd group_table) = map gl_words (map group_layouts hcge_groups)"
      by (rule arg_cong)
    then show ?thesis by (simp add: comp_def)
  qed
  also have "1 + sum_list (map gl_words (map group_layouts hcge_groups)) = 164"
    by (simp add: hcge_groups_def layout_def)
  finally show ?thesis .
qed

lemma node_image_length_le: "length (node_image context) \<le> 172"
proof -
  have "length (base_record context b) \<le> 2" for b by (simp add: base_record_def)
  note this [of 2] this [of 7] this [of 11] this [of 16]
  moreover have "length (concat (map (group_words context (context ! 0)) group_table)) \<le> 163"
    using hcge_node_words_le [of "context ! 0"] by (simp add: hcge_node_words_sum [of _ "context"])
  ultimately show ?thesis by (simp add: node_image_def)
qed

section \<open>Properties\<close>

text \<open>
  C11. \<open>hcge_node_build\<close> on a 170-word context and a buffer of at least \<open>capacity\<close> words never
  leaves either buffer. It succeeds exactly if the node fits in \<open>capacity\<close>; then the buffer starts
  with the node the context denotes (high-address records, header, the words of each selected
  group in group order), is unchanged behind it, and the count is its length. Otherwise the buffer
  is untouched and no count is stored.
\<close>

theorem node_build_refines_image:
  assumes "length context = 170" and "capacity \<le> length node"
  shows "hcge_node_build (Some context) (Some node) capacity True =
    Some (if length (node_image context) \<le> capacity
          then (0, Some (node_image context @ drop (length (node_image context)) node),
                Some (length (node_image context)))
          else (-1, Some node, None))"
proof (cases "length (node_image context) \<le> capacity")
  case False
  then show ?thesis
    using assms node_required_length [OF assms(1)] by (simp add: hcge_node_build_def load_def)
next
  case True
  let ?b = "concat (map (base_record context) base_words)"
  let ?g = "concat (map (group_words context (context ! 0)) group_table)"
  let ?h = "context ! 0 OR 0x02000000"
  have room: "room (length ?b + (1 + length ?g)) (node, 0)"
    using True assms(2) by (simp add: room_def node_image_def)
  have rb: "room (length ?b) (node, 0)" using room by (rule room_mono) simp
  have 1: "for_each (emit_base context) base_words (node, 0) = Some (placed ?b (node, 0))"
    by (rule for_each_placed [OF _ rb]) (auto intro: emit_base_placed simp: assms(1))
  have r1: "room (1 + length ?g) (placed ?b (node, 0))" using room room_placed [OF rb] by blast
  have 2: "emit ?h (placed ?b (node, 0)) = Some (placed (?b @ [?h]) (node, 0))"
    using room_mono [OF r1, of 1] room_mono [OF room, of "length ?b + 1"]
    by (simp add: emit_placed placed_append)
  have rh: "room (length (?b @ [?h])) (node, 0)" using room by (rule room_mono) simp
  have r2: "room (length ?g) (placed (?b @ [?h]) (node, 0))"
    using room room_placed [OF rh] by simp
  have 3: "for_each (emit_group context (context ! 0)) group_table (placed (?b @ [?h]) (node, 0)) =
      Some (placed ?g (placed (?b @ [?h]) (node, 0)))"
    by (rule for_each_placed [OF _ r2]) (auto intro: emit_group_placed simp: assms(1))
  have 4: "placed ?g (placed (?b @ [?h]) (node, 0)) = placed (node_image context) (node, 0)"
    using room by (subst placed_append) (simp_all add: node_image_def)
  show ?thesis
    using True node_required_length [OF assms(1)] assms(1) 1 2 3 4
    by (simp add: hcge_node_build_def load_def) (simp add: placed_def)
qed

text \<open>The context of the serialiser test: every group selected, every base address high.\<close>

definition test_context :: "u32 list" where
  "test_context = 0x000fffff # map (\<lambda>i. 0x10000000 + of_nat i) [1..<170]"

lemma node_build_refines_image_witness:
  "length test_context = 170 \<and>
   hcge_node_build (Some test_context) (Some (replicate 172 0)) 172 True =
     Some (if length (node_image test_context) \<le> 172
           then (0, Some (node_image test_context @ drop (length (node_image test_context)) (replicate 172 0)),
                 Some (length (node_image test_context)))
           else (-1, Some (replicate 172 0), None))"
proof -
  have l: "length test_context = 170" by (simp add: test_context_def)
  show ?thesis using node_build_refines_image [OF l, of 172 "replicate 172 0"] l by simp
qed

text \<open>
  \<open>HCGE_NODE_MAX_WORDS\<close> is enough: no context gives a node of more than 172 words, so
  serialising into a buffer of that size always succeeds, and \<open>hcge_node_words\<close> plus two words per
  high base address is the exact length.
\<close>

theorem node_max_words_enough:
  "length (node_image context) \<le> HCGE_NODE_MAX_WORDS \<and>
   length (node_image context) = hcge_node_words (context ! 0) +
     2 * length (filter (\<lambda>base. drop_bit 28 (context ! base) \<noteq> 0) base_words)"
proof
  show "length (node_image context) \<le> HCGE_NODE_MAX_WORDS" by (rule node_image_length_le)
  show "length (node_image context) = hcge_node_words (context ! 0) +
     2 * length (filter (\<lambda>base. drop_bit 28 (context ! base) \<noteq> 0) base_words)"
    by (simp add: node_image_def hcge_node_words_sum [of _ "context"] base_record_def)
qed

end
