(* ===== verification/GeSurface.thy ===== *)
theory GeSurface
  imports Prelude
begin

text \<open>
  The data of the graphics-engine library (\<^verbatim>\<open>src/ge/ge_api.h\<close>) and the surface, colour,
  validity and raster-operation helpers of \<^verbatim>\<open>src/ge/hcge_linux.c\<close>.

  Flag sets are 32-bit words. C \<open>int\<close> coordinates are integers. A pixel format outside the
  enumeration is treated as \<open>HCGE_DSPF_UNKNOWN\<close>: no code distinguishes the two.
\<close>

section \<open>Enumerations and flags\<close>

datatype HCGESurfacePixelFormat = HCGE_DSPF_UNKNOWN | HCGE_DSPF_ARGB1555 | HCGE_DSPF_RGB16
  | HCGE_DSPF_RGB24 | HCGE_DSPF_RGB32 | HCGE_DSPF_ARGB | HCGE_DSPF_A8 | HCGE_DSPF_LUT8
  | HCGE_DSPF_ARGB4444 | HCGE_DSPF_RGB444 | HCGE_DSPF_RGB555 | HCGE_DSPF_BGR555

abbreviation (input) HCGE_DFXL_FILLRECTANGLE where "HCGE_DFXL_FILLRECTANGLE \<equiv> (0x00000001 :: u32)"
abbreviation (input) HCGE_DFXL_BLIT where "HCGE_DFXL_BLIT \<equiv> (0x00010000 :: u32)"
abbreviation (input) HCGE_DFXL_STRETCHBLIT where "HCGE_DFXL_STRETCHBLIT \<equiv> (0x00020000 :: u32)"
abbreviation (input) HCGE_DFXL_ALL_BLIT where "HCGE_DFXL_ALL_BLIT \<equiv> (0x011f0000 :: u32)"
abbreviation (input) HCGE_DSDRAW_BLEND where "HCGE_DSDRAW_BLEND \<equiv> (0x01 :: u32)"
abbreviation (input) HCGE_DSDRAW_DST_COLORKEY where "HCGE_DSDRAW_DST_COLORKEY \<equiv> (0x02 :: u32)"
abbreviation (input) HCGE_DSDRAW_SRC_PREMULTIPLY where "HCGE_DSDRAW_SRC_PREMULTIPLY \<equiv> (0x04 :: u32)"
abbreviation (input) HCGE_DSDRAW_DST_PREMULTIPLY where "HCGE_DSDRAW_DST_PREMULTIPLY \<equiv> (0x08 :: u32)"
abbreviation (input) HCGE_DSDRAW_DEMULTIPLY where "HCGE_DSDRAW_DEMULTIPLY \<equiv> (0x10 :: u32)"
abbreviation (input) HCGE_DSDRAW_XOR where "HCGE_DSDRAW_XOR \<equiv> (0x20 :: u32)"
abbreviation (input) HCGE_DSRO_NONE where "HCGE_DSRO_NONE \<equiv> (0 :: u32)"
abbreviation (input) HCGE_DSRO_MATRIX where "HCGE_DSRO_MATRIX \<equiv> (4 :: u32)"
abbreviation (input) HCGE_CKEY_OP_MAX where "HCGE_CKEY_OP_MAX \<equiv> (6 :: u32)"
abbreviation (input) HCGE_DSBLIT_NOFX where "HCGE_DSBLIT_NOFX \<equiv> (0 :: u32)"
abbreviation (input) HCGE_DSBLIT_BLEND_ALPHACHANNEL where "HCGE_DSBLIT_BLEND_ALPHACHANNEL \<equiv> (0x00000001 :: u32)"
abbreviation (input) HCGE_DSBLIT_BLEND_COLORALPHA where "HCGE_DSBLIT_BLEND_COLORALPHA \<equiv> (0x00000002 :: u32)"
abbreviation (input) HCGE_DSBLIT_COLORIZE where "HCGE_DSBLIT_COLORIZE \<equiv> (0x00000004 :: u32)"
abbreviation (input) HCGE_DSBLIT_SRC_COLORKEY where "HCGE_DSBLIT_SRC_COLORKEY \<equiv> (0x00000008 :: u32)"
abbreviation (input) HCGE_DSBLIT_DST_COLORKEY where "HCGE_DSBLIT_DST_COLORKEY \<equiv> (0x00000010 :: u32)"
abbreviation (input) HCGE_DSBLIT_SRC_PREMULTIPLY where "HCGE_DSBLIT_SRC_PREMULTIPLY \<equiv> (0x00000020 :: u32)"
abbreviation (input) HCGE_DSBLIT_DST_PREMULTIPLY where "HCGE_DSBLIT_DST_PREMULTIPLY \<equiv> (0x00000040 :: u32)"
abbreviation (input) HCGE_DSBLIT_DEMULTIPLY where "HCGE_DSBLIT_DEMULTIPLY \<equiv> (0x00000080 :: u32)"
abbreviation (input) HCGE_DSBLIT_SRC_PREMULTCOLOR where "HCGE_DSBLIT_SRC_PREMULTCOLOR \<equiv> (0x00000200 :: u32)"
abbreviation (input) HCGE_DSBLIT_XOR where "HCGE_DSBLIT_XOR \<equiv> (0x00000400 :: u32)"
abbreviation (input) HCGE_DSBLIT_ROTATE90 where "HCGE_DSBLIT_ROTATE90 \<equiv> (0x00002000 :: u32)"
abbreviation (input) HCGE_DSBLIT_ROTATE180 where "HCGE_DSBLIT_ROTATE180 \<equiv> (0x00001000 :: u32)"
abbreviation (input) HCGE_DSBLIT_ROTATE270 where "HCGE_DSBLIT_ROTATE270 \<equiv> (0x00004000 :: u32)"
abbreviation (input) HCGE_DSBLIT_COLORKEY_PROTECT where "HCGE_DSBLIT_COLORKEY_PROTECT \<equiv> (0x00010000 :: u32)"
abbreviation (input) HCGE_DSBLIT_SRC_MASK_ALPHA where "HCGE_DSBLIT_SRC_MASK_ALPHA \<equiv> (0x00100000 :: u32)"
abbreviation (input) HCGE_DSBLIT_FLIP_HORIZONTAL where "HCGE_DSBLIT_FLIP_HORIZONTAL \<equiv> (0x01000000 :: u32)"
abbreviation (input) HCGE_DSBLIT_FLIP_VERTICAL where "HCGE_DSBLIT_FLIP_VERTICAL \<equiv> (0x02000000 :: u32)"
abbreviation (input) HCGE_CUST_DST_COLORKEY where "HCGE_CUST_DST_COLORKEY \<equiv> (0x20000000 :: u32)"
abbreviation (input) HCGE_CUST_SRC_COLORKEY where "HCGE_CUST_SRC_COLORKEY \<equiv> (0x40000000 :: u32)"
abbreviation (input) HCGE_DSBF_ZERO where "HCGE_DSBF_ZERO \<equiv> (1 :: u32)"
abbreviation (input) HCGE_DSBF_SRCALPHASAT where "HCGE_DSBF_SRCALPHASAT \<equiv> (11 :: u32)"
abbreviation (input) HCGE_DSMF_STENCIL where "HCGE_DSMF_STENCIL \<equiv> (1 :: u32)"

section \<open>Structures\<close>

record HCGEColor =
  col_a :: u8
  col_r :: u8
  col_g :: u8
  col_b :: u8

record HCGERectangle =
  rx :: int
  ry :: int
  rw :: int
  rh :: int

record HCGERegion =
  reg_x1 :: int
  reg_y1 :: int
  reg_x2 :: int
  reg_y2 :: int

text \<open>\<open>HCGE_CoreSurface\<close>: the palette is only carried along and is left out.\<close>

record HCGE_CoreSurface =
  sf_format :: HCGESurfacePixelFormat
  sf_w :: int
  sf_h :: int

record HCGE_CoreSurfaceBuffer =
  phys :: u32
  pitch :: u32

record hcge_state =
  render_options :: u32
  drawingflags :: u32
  accel :: u32
  blittingflags :: u32
  src_mask_offset_x :: int
  src_mask_offset_y :: int
  src_mask_flags :: u32
  st_matrix :: "int list"
  destination :: HCGE_CoreSurface
  source :: HCGE_CoreSurface
  source_mask :: HCGE_CoreSurface
  st_color :: HCGEColor
  dst_colorkey :: u32
  src_colorkey :: u32
  src_blend :: u32
  dst_blend :: u32
  src_colorkey_opt :: u32
  dst_colorkey_opt :: u32
  dst :: HCGE_CoreSurfaceBuffer
  src :: HCGE_CoreSurfaceBuffer
  src_mask :: HCGE_CoreSurfaceBuffer
  clip :: HCGERegion

section \<open>Formats, colours and buffers\<close>

record hcge_format =
  fm_format :: HCGESurfacePixelFormat
  fm_code :: u8
  fm_bytes :: u8

definition hcge_formats :: "hcge_format list" where
  "hcge_formats =
    [\<lparr>fm_format = HCGE_DSPF_ARGB1555, fm_code = 5, fm_bytes = 2\<rparr>,
     \<lparr>fm_format = HCGE_DSPF_RGB16, fm_code = 6, fm_bytes = 2\<rparr>,
     \<lparr>fm_format = HCGE_DSPF_RGB32, fm_code = 0, fm_bytes = 4\<rparr>,
     \<lparr>fm_format = HCGE_DSPF_ARGB, fm_code = 1, fm_bytes = 4\<rparr>,
     \<lparr>fm_format = HCGE_DSPF_ARGB4444, fm_code = 3, fm_bytes = 2\<rparr>,
     \<lparr>fm_format = HCGE_DSPF_RGB555, fm_code = 4, fm_bytes = 2\<rparr>,
     \<lparr>fm_format = HCGE_DSPF_BGR555, fm_code = 4, fm_bytes = 2\<rparr>]"

definition hcge_get_format :: "HCGESurfacePixelFormat \<Rightarrow> hcge_format option" where
  "hcge_get_format f = find (\<lambda>d. fm_format d = f) hcge_formats"

definition hcge_xy :: "int \<Rightarrow> int \<Rightarrow> u32" where
  "hcge_xy x y = push_bit 16 (word_of_int y AND 0xfff) OR (word_of_int x AND 0xfff)"

definition hcge_wh :: "int \<Rightarrow> int \<Rightarrow> u32" where
  "hcge_wh width height = push_bit 16 (word_of_int height AND 0xfff) OR (word_of_int width AND 0xfff)"

definition hcge_surface_color :: "HCGESurfacePixelFormat \<Rightarrow> HCGEColor \<Rightarrow> u32" where
  "hcge_surface_color f c =
     (let a = ucast (col_a c) :: u32; r = ucast (col_r c) :: u32;
          g = ucast (col_g c) :: u32; b = ucast (col_b c) :: u32
      in case f of
        HCGE_DSPF_ARGB1555 \<Rightarrow> push_bit 15 (drop_bit 7 a) OR push_bit 10 (drop_bit 3 r) OR
          push_bit 5 (drop_bit 3 g) OR drop_bit 3 b
      | HCGE_DSPF_RGB555 \<Rightarrow> push_bit 10 (drop_bit 3 r) OR push_bit 5 (drop_bit 3 g) OR drop_bit 3 b
      | HCGE_DSPF_BGR555 \<Rightarrow> push_bit 10 (drop_bit 3 b) OR push_bit 5 (drop_bit 3 g) OR drop_bit 3 r
      | HCGE_DSPF_RGB16 \<Rightarrow> 0x00010000 OR push_bit 8 (r AND 0xf8) OR push_bit 3 (g AND 0xfc) OR drop_bit 3 b
      | HCGE_DSPF_ARGB4444 \<Rightarrow> push_bit 12 (drop_bit 4 a) OR push_bit 8 (drop_bit 4 r) OR
          push_bit 4 (drop_bit 4 g) OR drop_bit 4 b
      | _ \<Rightarrow> push_bit 24 a OR push_bit 16 r OR push_bit 8 g OR b)"

text \<open>The pointers are to members of the state in every call, so they are not NULL.\<close>

definition hcge_surface_valid :: "HCGE_CoreSurface \<Rightarrow> HCGE_CoreSurfaceBuffer \<Rightarrow> bool" where
  "hcge_surface_valid surface buffer =
     (case hcge_get_format (sf_format surface) of None \<Rightarrow> False
      | Some f \<Rightarrow>
          sf_w surface > 0 \<and> sf_w surface \<le> 0xfff \<and> sf_h surface > 0 \<and> sf_h surface \<le> 0xfff \<and>
          phys buffer \<noteq> 0 \<and>
          phys buffer AND (ucast (fm_bytes f) - 1) = 0 \<and>
          pitch buffer \<ge> word_of_int (sf_w surface) * ucast (fm_bytes f) \<and>
          pitch buffer mod ucast (fm_bytes f) = 0 \<and>
          pitch buffer div ucast (fm_bytes f) \<le> 0xfff)"

definition hcge_mask_surface_valid :: "hcge_state \<Rightarrow> bool" where
  "hcge_mask_surface_valid state \<longleftrightarrow>
     sf_format (source_mask state) = HCGE_DSPF_A8 \<and>
     sf_w (source_mask state) > 0 \<and> sf_w (source_mask state) \<le> 0xfff \<and>
     sf_h (source_mask state) > 0 \<and> sf_h (source_mask state) \<le> 0xfff \<and>
     phys (src_mask state) \<noteq> 0 \<and>
     pitch (src_mask state) \<ge> word_of_int (sf_w (source_mask state)) \<and>
     pitch (src_mask state) \<le> 0xfff"

definition hcge_mask_buffer :: "hcge_state \<Rightarrow> u32" where
  "hcge_mask_buffer state = 0x0001d000 OR (pitch (src_mask state) AND 0xfff)"

definition hcge_surface_buffer :: "HCGESurfacePixelFormat \<Rightarrow> u32 \<Rightarrow> u32" where
  "hcge_surface_buffer f ptch =
     (case hcge_get_format f of None \<Rightarrow> 0
      | Some d \<Rightarrow>
          let ctx = push_bit 12 (ucast (fm_code d)) OR ((ptch div ucast (fm_bytes d)) AND 0xfff)
          in if f = HCGE_DSPF_BGR555 then ctx OR 0x00020000 else ctx)"

definition hcge_rectangle_valid :: "HCGERectangle option \<Rightarrow> bool" where
  "hcge_rectangle_valid r =
     (case r of None \<Rightarrow> False
      | Some r \<Rightarrow> rx r \<ge> 0 \<and> ry r \<ge> 0 \<and> rw r > 0 \<and> rh r > 0 \<and> rx r \<le> 0xfff \<and>
          ry r \<le> 0xfff \<and> rw r \<le> 0xfff \<and> rh r \<le> 0xfff)"

definition hcge_rectangle_in_surface :: "HCGERectangle option \<Rightarrow> HCGE_CoreSurface \<Rightarrow> bool" where
  "hcge_rectangle_in_surface r surface =
     (hcge_rectangle_valid r \<and>
      (case r of None \<Rightarrow> False
       | Some r \<Rightarrow> rx r + rw r \<le> sf_w surface \<and> ry r + rh r \<le> sf_h surface))"

text \<open>\<open>None\<close>: \<open>format->bytes\<close> through a NULL pointer.\<close>

definition hcge_surface_offset :: "HCGE_CoreSurface \<Rightarrow> HCGE_CoreSurfaceBuffer \<Rightarrow> int \<Rightarrow> int \<Rightarrow> u32 option" where
  "hcge_surface_offset surface buffer x y =
     (case hcge_get_format (sf_format surface) of None \<Rightarrow> None
      | Some f \<Rightarrow> Some (phys buffer + word_of_int y * pitch buffer + word_of_int x * ucast (fm_bytes f)))"

section \<open>Effects and raster operations\<close>

definition hcge_blit_effects_supported :: "u32 \<Rightarrow> bool" where
  "hcge_blit_effects_supported flags =
     (let supported = HCGE_DSBLIT_BLEND_ALPHACHANNEL OR HCGE_DSBLIT_BLEND_COLORALPHA OR
            HCGE_DSBLIT_COLORIZE OR HCGE_DSBLIT_SRC_COLORKEY OR HCGE_DSBLIT_DST_COLORKEY OR
            HCGE_DSBLIT_SRC_PREMULTIPLY OR HCGE_DSBLIT_DST_PREMULTIPLY OR HCGE_DSBLIT_DEMULTIPLY OR
            HCGE_DSBLIT_SRC_PREMULTCOLOR OR HCGE_DSBLIT_XOR OR HCGE_DSBLIT_COLORKEY_PROTECT OR
            HCGE_DSBLIT_SRC_MASK_ALPHA OR HCGE_DSBLIT_FLIP_HORIZONTAL OR HCGE_DSBLIT_FLIP_VERTICAL OR
            HCGE_DSBLIT_ROTATE90 OR HCGE_DSBLIT_ROTATE180 OR HCGE_DSBLIT_ROTATE270 OR
            HCGE_CUST_DST_COLORKEY OR HCGE_CUST_SRC_COLORKEY;
          rotations = flags AND (HCGE_DSBLIT_ROTATE90 OR HCGE_DSBLIT_ROTATE180 OR HCGE_DSBLIT_ROTATE270)
      in flags AND NOT supported = 0 \<and> (rotations = 0 \<or> rotations AND (rotations - 1) = 0))"

definition hcge_drawing_effects_supported :: "u32 \<Rightarrow> bool" where
  "hcge_drawing_effects_supported flags =
     (let supported = HCGE_DSDRAW_BLEND OR HCGE_DSDRAW_DST_COLORKEY OR HCGE_DSDRAW_SRC_PREMULTIPLY OR
            HCGE_DSDRAW_DST_PREMULTIPLY OR HCGE_DSDRAW_DEMULTIPLY OR HCGE_DSDRAW_XOR
      in flags AND NOT supported = 0)"

definition hcge_premultiply_color :: "HCGEColor \<Rightarrow> HCGEColor" where
  "hcge_premultiply_color c =
     (let alpha = (ucast (col_a c) :: u32) + 1
      in c\<lparr>col_r := ucast (drop_bit 8 (ucast (col_r c) * alpha)),
           col_g := ucast (drop_bit 8 (ucast (col_g c) * alpha)),
           col_b := ucast (drop_bit 8 (ucast (col_b c) * alpha))\<rparr>)"

definition hcge_blend_functions_valid :: "hcge_state \<Rightarrow> bool \<Rightarrow> bool" where
  "hcge_blend_functions_valid state enabled \<longleftrightarrow>
     \<not> enabled \<or> (src_blend state \<ge> HCGE_DSBF_ZERO \<and> src_blend state \<le> HCGE_DSBF_SRCALPHASAT \<and>
       dst_blend state \<ge> HCGE_DSBF_ZERO \<and> dst_blend state \<le> HCGE_DSBF_SRCALPHASAT)"

text \<open>The vendor's bit spread of a 15-bit key, shared by the ARGB1555, RGB555 and BGR555 cases.\<close>

definition key_spread_15 :: "u32 \<Rightarrow> u32" where
  "key_spread_15 color =
     (let blue = color AND 0x1f
      in (push_bit 4 color AND 0x00070000) OR (push_bit 1 color AND 0x00000700) OR drop_bit 2 blue OR
         (push_bit 9 color AND 0x07f80000) OR (push_bit 6 color AND 0x0007f800) OR push_bit 3 blue)"

definition hcge_color_key_argb :: "HCGESurfacePixelFormat \<Rightarrow> u32 \<Rightarrow> u32" where
  "hcge_color_key_argb f color =
     (case f of
        HCGE_DSPF_ARGB1555 \<Rightarrow> key_spread_15 color
      | HCGE_DSPF_RGB555 \<Rightarrow> key_spread_15 color
      | HCGE_DSPF_BGR555 \<Rightarrow> key_spread_15 color
      | HCGE_DSPF_RGB16 \<Rightarrow>
          let red = drop_bit 11 color AND 0x1f; green = drop_bit 5 color AND 0x3f; blue = color AND 0x1f
          in push_bit 16 (push_bit 3 red OR drop_bit 2 red) OR
             push_bit 8 (push_bit 2 green OR drop_bit 4 green) OR push_bit 3 blue OR drop_bit 2 blue
      | HCGE_DSPF_ARGB4444 \<Rightarrow>
          let red = drop_bit 8 color AND 0xf; green = drop_bit 4 color AND 0xf; blue = color AND 0xf
          in push_bit 16 (push_bit 4 red OR red) OR push_bit 8 (push_bit 4 green OR green) OR
             (push_bit 4 blue OR blue)
      | _ \<Rightarrow> color)"

definition src_key_operations :: "u32 list" where
  "src_key_operations = [0xe0400000, 0xe0800000, 0x10800000, 0x10400000, 0xe0800000, 0xe0400000]"

definition dst_key_operations :: "u32 list" where
  "dst_key_operations = [0x0e100000, 0x0e200000, 0x01200000, 0x01100000, 0x0e200000, 0x0e100000]"

text \<open>The blending part of the raster operation, before the per-flag additions.\<close>

definition blit_rop_blend :: "hcge_state \<Rightarrow> u32" where
  "blit_rop_blend state =
     (let flags = blittingflags state;
          blend = flags AND (HCGE_DSBLIT_BLEND_ALPHACHANNEL OR HCGE_DSBLIT_BLEND_COLORALPHA)
      in if blend \<noteq> 0 then
           let rop = 0x00008000 OR push_bit 4 (src_blend state AND 0xf) OR (dst_blend state AND 0xf)
           in if blend = HCGE_DSBLIT_BLEND_COLORALPHA then rop OR 0x00000200
              else if blend = HCGE_DSBLIT_BLEND_ALPHACHANNEL OR HCGE_DSBLIT_BLEND_COLORALPHA
                then rop OR 0x00000400
              else if flags AND HCGE_DSBLIT_SRC_MASK_ALPHA \<noteq> 0 then rop OR 0x00000400
              else rop
         else if flags AND HCGE_DSBLIT_SRC_MASK_ALPHA \<noteq> 0 then 0x00008421 else 0x00004000)"

definition or_if :: "bool \<Rightarrow> u32 \<Rightarrow> u32 \<Rightarrow> u32" where
  "or_if b m rop = (if b then rop OR m else rop)"

text \<open>\<open>None\<close>: a key operator outside its table.\<close>

definition hcge_blit_rop :: "hcge_state \<Rightarrow> u32 option" where
  "hcge_blit_rop state =
     (let flags = blittingflags state;
          rop = blit_rop_blend state;
          rop = (if flags AND HCGE_DSBLIT_COLORIZE \<noteq> 0 then rop + 0x00000600 else rop);
          rop = or_if (flags AND HCGE_DSBLIT_SRC_PREMULTIPLY \<noteq> 0) 0x00001000 rop;
          rop = or_if (flags AND HCGE_DSBLIT_DST_PREMULTIPLY \<noteq> 0) 0x00002000 rop;
          rop = or_if (flags AND HCGE_DSBLIT_SRC_PREMULTCOLOR \<noteq> 0) 0x00000100 rop;
          rop = or_if (flags AND HCGE_DSBLIT_DEMULTIPLY \<noteq> 0) 0x00040000 rop;
          rop = or_if (flags AND HCGE_DSBLIT_XOR \<noteq> 0) 0x00080000 rop;
          rop = or_if (flags AND HCGE_DSBLIT_SRC_COLORKEY \<noteq> 0) 0xe0800000 rop;
          rop = or_if (flags AND HCGE_DSBLIT_DST_COLORKEY \<noteq> 0) 0x0e100000 rop
      in if flags AND HCGE_CUST_SRC_COLORKEY \<noteq> 0 \<and> unat (src_colorkey_opt state) \<ge> length src_key_operations
         then None
         else
           let rop = or_if (flags AND HCGE_CUST_SRC_COLORKEY \<noteq> 0)
                 (src_key_operations ! unat (src_colorkey_opt state)) rop
           in if flags AND HCGE_CUST_DST_COLORKEY \<noteq> 0 \<and> unat (dst_colorkey_opt state) \<ge> length dst_key_operations
              then None
              else Some (or_if (flags AND HCGE_CUST_DST_COLORKEY \<noteq> 0)
                 (dst_key_operations ! unat (dst_colorkey_opt state)) rop))"

definition hcge_blit_state_valid :: "hcge_state \<Rightarrow> bool" where
  "hcge_blit_state_valid state =
     (let flags = blittingflags state
      in if flags AND HCGE_DSBLIT_SRC_MASK_ALPHA \<noteq> 0 \<and> \<not> hcge_mask_surface_valid state then False
         else if flags AND HCGE_CUST_SRC_COLORKEY \<noteq> 0 \<and> src_colorkey_opt state \<ge> HCGE_CKEY_OP_MAX then False
         else if flags AND HCGE_CUST_DST_COLORKEY \<noteq> 0 \<and> dst_colorkey_opt state \<ge> HCGE_CKEY_OP_MAX then False
         else True)"

definition hcge_check_state :: "hcge_state option \<Rightarrow> u32 \<Rightarrow> hcge_state option" where
  "hcge_check_state st acc =
     (case st of None \<Rightarrow> None
      | Some state \<Rightarrow> Some (
        if acc AND (HCGE_DFXL_FILLRECTANGLE OR HCGE_DFXL_BLIT OR HCGE_DFXL_STRETCHBLIT) = 0 then state
        else if hcge_get_format (sf_format (destination state)) = None then state
        else if acc AND 0x0000ffff \<noteq> 0 \<and>
           (render_options state \<noteq> HCGE_DSRO_NONE \<or> \<not> hcge_drawing_effects_supported (drawingflags state) \<or>
            \<not> hcge_blend_functions_valid state (drawingflags state AND HCGE_DSDRAW_BLEND \<noteq> 0))
          then state
        else
          let state = (if acc AND 0x0000ffff \<noteq> 0 \<and> acc AND HCGE_DFXL_FILLRECTANGLE \<noteq> 0
                then state\<lparr>accel := accel state OR (acc AND HCGE_DFXL_FILLRECTANGLE)\<rparr> else state)
          in if acc AND 0xffff0000 \<noteq> 0 \<and> hcge_get_format (sf_format (source state)) \<noteq> None \<and>
               render_options state = HCGE_DSRO_NONE \<and> hcge_blit_effects_supported (blittingflags state) \<and>
               hcge_blit_state_valid state \<and>
               hcge_blend_functions_valid state (blittingflags state AND
                 (HCGE_DSBLIT_BLEND_ALPHACHANNEL OR HCGE_DSBLIT_BLEND_COLORALPHA) \<noteq> 0)
             then
               let state = state\<lparr>accel := accel state OR (acc AND HCGE_DFXL_BLIT)\<rparr>
               in if blittingflags state AND
                    (HCGE_DSBLIT_ROTATE90 OR HCGE_DSBLIT_ROTATE180 OR HCGE_DSBLIT_ROTATE270) = 0
                  then state\<lparr>accel := accel state OR (acc AND HCGE_DFXL_STRETCHBLIT)\<rparr> else state
             else state))"

definition hcge_check_blit_state :: "hcge_state option \<Rightarrow> u32 \<Rightarrow> hcge_state option" where
  "hcge_check_blit_state st acc =
     (case st of None \<Rightarrow> None | Some state \<Rightarrow> hcge_check_state (Some state) (acc AND HCGE_DFXL_ALL_BLIT))"

section \<open>Formats\<close>

lemma hcge_get_format_cases:
  assumes "hcge_get_format f = Some d"
  shows "fm_bytes d = 2 \<and> fm_code d \<in> {3, 4, 5, 6} \<or> fm_bytes d = 4 \<and> fm_code d \<in> {0, 1}"
  using assms by (cases f) (auto simp: hcge_get_format_def hcge_formats_def)

lemma hcge_get_format_bytes:
  "hcge_get_format f = Some d \<Longrightarrow> uint (fm_bytes d) = 2 \<or> uint (fm_bytes d) = 4"
  using hcge_get_format_cases [of f d] by auto

lemma and_1_mod: "(w::u32) AND 1 = 0 \<longleftrightarrow> uint w mod 2 = 0"
proof -
  have "w AND 1 = take_bit 1 w" by (simp add: take_bit_eq_mask mask_eq_exp_minus_1)
  moreover have "take_bit 1 w = 0 \<longleftrightarrow> take_bit 1 (uint w) = 0"
    by (metis unsigned_take_bit_eq uint_0_iff)
  ultimately show ?thesis by (simp add: take_bit_eq_mod)
qed

lemma and_3_mod: "(w::u32) AND 3 = 0 \<longleftrightarrow> uint w mod 4 = 0"
proof -
  have "w AND 3 = take_bit 2 w" by (simp add: take_bit_eq_mask mask_eq_exp_minus_1)
  moreover have "take_bit 2 w = 0 \<longleftrightarrow> take_bit 2 (uint w) = 0"
    by (metis unsigned_take_bit_eq uint_0_iff)
  ultimately show ?thesis by (simp add: take_bit_eq_mod)
qed

lemma uint_word_of_int_small: "0 \<le> x \<Longrightarrow> x \<le> 0xfff \<Longrightarrow> uint (word_of_int x :: u32) = x"
  by (rule uint_word_of_int_id) simp_all

text \<open>Bytes per pixel of a surface, 0 for an unsupported format.\<close>

definition bpp :: "HCGE_CoreSurface \<Rightarrow> int" where
  "bpp s = (case hcge_get_format (sf_format s) of None \<Rightarrow> 0 | Some f \<Rightarrow> uint (fm_bytes f))"

lemma surface_valid_geometry:
  assumes "hcge_surface_valid s b"
  shows "hcge_get_format (sf_format s) \<noteq> None" and "bpp s = 2 \<or> bpp s = 4"
    and "0 < sf_w s" "sf_w s \<le> 0xfff" "0 < sf_h s" "sf_h s \<le> 0xfff"
    and "uint (phys b) mod bpp s = 0" and "sf_w s * bpp s \<le> uint (pitch b)"
    and "uint (pitch b) mod bpp s = 0" and "uint (pitch b) \<le> 0xfff * bpp s"
proof -
  obtain f where f: "hcge_get_format (sf_format s) = Some f"
    using assms by (cases "hcge_get_format (sf_format s)") (simp_all add: hcge_surface_valid_def)
  then show "hcge_get_format (sf_format s) \<noteq> None" by simp
  have bp: "bpp s = uint (fm_bytes f)" using f by (simp add: bpp_def)
  have by_cases: "fm_bytes f = 2 \<or> fm_bytes f = 4" using hcge_get_format_cases [OF f] by blast
  then show bpp: "bpp s = 2 \<or> bpp s = 4" unfolding bp by auto
  note v = assms [unfolded hcge_surface_valid_def f option.case]
  show w: "0 < sf_w s" "sf_w s \<le> 0xfff" and h: "0 < sf_h s" "sf_h s \<le> 0xfff" using v by auto
  let ?B = "ucast (fm_bytes f) :: u32"
  have B: "uint ?B = bpp s" "?B = 2 \<and> bpp s = 2 \<or> ?B = 4 \<and> bpp s = 4"
    unfolding bp using by_cases by auto
  show "uint (phys b) mod bpp s = 0"
    using v B(2) and_1_mod [of "phys b"] and_3_mod [of "phys b"] by auto
  have m: "uint (pitch b) mod uint ?B = 0" using v by (metis uint_mod_distrib uint_0_eq)
  then show "uint (pitch b) mod bpp s = 0" unfolding B(1) .
  have "uint (word_of_int (sf_w s) * ?B) = sf_w s * bpp s"
  proof -
    have "uint (word_of_int (sf_w s) :: u32) * uint ?B < 2 ^ LENGTH(32)"
      using w bpp unfolding B(1) by (auto simp: uint_word_of_int_small)
    then have "uint (word_of_int (sf_w s) * ?B) = uint (word_of_int (sf_w s) :: u32) * uint ?B"
      using uint_mult_lem by blast
    then show ?thesis using w B(1) by (simp add: uint_word_of_int_small)
  qed
  moreover have "word_of_int (sf_w s) * ?B \<le> pitch b" using v by simp
  ultimately show "sf_w s * bpp s \<le> uint (pitch b)" by (simp add: word_le_def)
  have "pitch b div ?B \<le> 0xfff" using v by simp
  then have "uint (pitch b) div bpp s \<le> 0xfff" using B(1) by (simp add: word_le_def uint_div_distrib)
  with m bpp B(1) show "uint (pitch b) \<le> 0xfff * bpp s" by auto
qed

text \<open>The address of a pixel inside a valid surface, as an integer.\<close>

lemma surface_offset_exact:
  assumes v: "hcge_surface_valid s b" and x: "0 \<le> x" "x < sf_w s" and y: "0 \<le> y" "y < sf_h s"
    and fit: "uint (phys b) + uint (pitch b) * sf_h s \<le> 2 ^ 32"
  shows "\<exists>a. hcge_surface_offset s b x y = Some a \<and>
    uint a = uint (phys b) + y * uint (pitch b) + x * bpp s \<and>
    uint a + bpp s \<le> uint (phys b) + (y + 1) * uint (pitch b) \<and> uint a mod bpp s = 0"
proof -
  note g = surface_valid_geometry [OF v]
  obtain f where f: "hcge_get_format (sf_format s) = Some f" using g(1) by blast
  let ?B = "ucast (fm_bytes f) :: u32"
  have B: "uint ?B = bpp s" using hcge_get_format_cases [OF f] by (auto simp: bpp_def f)
  let ?a = "phys b + word_of_int y * pitch b + word_of_int x * ?B"
  have xb: "(x + 1) * bpp s \<le> uint (pitch b)"
    using x g(2) g(8) mult_right_mono [of "x + 1" "sf_w s" "bpp s"] by auto
  have yb: "(y + 1) * uint (pitch b) \<le> sf_h s * uint (pitch b)" using y by (intro mult_right_mono) auto
  have fit': "uint (phys b) + (y + 1) * uint (pitch b) \<le> 2 ^ 32" using yb fit by (simp add: mult.commute)
  have lt: "uint (phys b) + y * uint (pitch b) + x * bpp s < 2 ^ 32"
    using xb fit' g(2) by (auto simp: algebra_simps)
  have nn: "0 \<le> uint (phys b) + y * uint (pitch b) + x * bpp s" using x y g(2) by auto
  have "?a = word_of_int (uint (phys b) + y * uint (pitch b) + x * uint ?B)" by simp
  then have a: "uint ?a = uint (phys b) + y * uint (pitch b) + x * bpp s"
    using uint_word_of_int_id [OF nn, where 'a = 32] lt B by simp
  moreover have "uint ?a mod bpp s = 0"
  proof -
    have "bpp s dvd uint (phys b)" "bpp s dvd uint (pitch b)" using g(7,9) by auto
    then have "bpp s dvd uint (phys b) + y * uint (pitch b) + x * bpp s" by auto
    then show ?thesis using a by (simp add: mod_eq_0_iff_dvd)
  qed
  moreover have "uint ?a + bpp s \<le> uint (phys b) + (y + 1) * uint (pitch b)"
    using a xb by (simp add: algebra_simps)
  ultimately show ?thesis by (simp add: hcge_surface_offset_def f)
qed

section \<open>Raster operations\<close>

text \<open>The tables of key operators are as long as the validity check says.\<close>

lemma hcge_blit_rop_defined:
  assumes "hcge_blit_state_valid state"
  shows "\<exists>rop. hcge_blit_rop state = Some rop"
proof -
  have "src_colorkey_opt state < 6 \<Longrightarrow> unat (src_colorkey_opt state) < 6"
    "dst_colorkey_opt state < 6 \<Longrightarrow> unat (dst_colorkey_opt state) < 6"
    by (simp_all add: word_less_nat_alt)
  then show ?thesis
    using assms
    by (auto simp: hcge_blit_state_valid_def hcge_blit_rop_def src_key_operations_def
        dst_key_operations_def Let_def not_le split: if_splits)
qed

section \<open>Properties\<close>

text \<open>An ARGB word seen as a colour.\<close>

definition color_of_argb :: "u32 \<Rightarrow> HCGEColor" where
  "color_of_argb w = \<lparr>col_a = ucast (drop_bit 24 w), col_r = ucast (drop_bit 16 w),
     col_g = ucast (drop_bit 8 w), col_b = ucast w\<rparr>"

lemmas color_key_defs = hcge_surface_color_def color_of_argb_def hcge_color_key_argb_def
  key_spread_15_def Let_def

lemma color_key_555:
  "hcge_surface_color HCGE_DSPF_RGB555 (color_of_argb (hcge_color_key_argb HCGE_DSPF_RGB555 key)) = take_bit 15 key"
  by (rule word32_eqI, elim insertE) (simp_all add: color_key_defs bit_simps)

lemma color_key_1555:
  "hcge_surface_color HCGE_DSPF_ARGB1555 (color_of_argb (hcge_color_key_argb HCGE_DSPF_ARGB1555 key)) = take_bit 15 key"
  by (rule word32_eqI, elim insertE) (simp_all add: color_key_defs bit_simps)

lemma color_key_565:
  "hcge_surface_color HCGE_DSPF_RGB16 (color_of_argb (hcge_color_key_argb HCGE_DSPF_RGB16 key)) =
     0x00010000 OR take_bit 16 key"
  by (rule word32_eqI, elim insertE) (simp_all add: color_key_defs bit_simps)

lemma color_key_4444:
  "hcge_surface_color HCGE_DSPF_ARGB4444 (color_of_argb (hcge_color_key_argb HCGE_DSPF_ARGB4444 key)) = take_bit 12 key"
  by (rule word32_eqI, elim insertE) (simp_all add: color_key_defs bit_simps)

lemma color_key_8888:
  "hcge_surface_color HCGE_DSPF_ARGB (color_of_argb key) = key"
  by (rule word32_eqI, elim insertE) (simp_all add: color_key_defs bit_simps)

lemma color_key_bgr:
  "hcge_surface_color HCGE_DSPF_BGR555 (color_of_argb (hcge_color_key_argb HCGE_DSPF_BGR555 key)) =
     push_bit 10 (take_bit 5 key) OR push_bit 5 (take_bit 5 (drop_bit 5 key)) OR take_bit 5 (drop_bit 10 key)"
  by (rule word32_eqI, elim insertE) (simp_all add: color_key_defs bit_simps)

text \<open>
  Expanding a colour key to ARGB (\<open>hcge_color_key_argb\<close>) and packing the result back into the
  surface format (\<open>hcge_surface_color\<close>) gives the key's colour bits again, for every key and every
  supported format: no key is confused with another by the expansion. RGB565 carries its
  format tag. For BGR555, whose key path is the RGB one, red and blue come out exchanged.
\<close>

theorem color_key_roundtrip:
  "hcge_surface_color f (color_of_argb (hcge_color_key_argb f key)) =
     (case f of
        HCGE_DSPF_ARGB1555 \<Rightarrow> take_bit 15 key
      | HCGE_DSPF_RGB555 \<Rightarrow> take_bit 15 key
      | HCGE_DSPF_BGR555 \<Rightarrow> push_bit 10 (take_bit 5 key) OR push_bit 5 (take_bit 5 (drop_bit 5 key)) OR
          take_bit 5 (drop_bit 10 key)
      | HCGE_DSPF_RGB16 \<Rightarrow> 0x00010000 OR take_bit 16 key
      | HCGE_DSPF_ARGB4444 \<Rightarrow> take_bit 12 key
      | _ \<Rightarrow> key)"
proof -
  have other: "hcge_surface_color f (color_of_argb (hcge_color_key_argb f key)) =
      hcge_surface_color HCGE_DSPF_ARGB (color_of_argb key)"
    if "f \<notin> {HCGE_DSPF_ARGB1555, HCGE_DSPF_RGB555, HCGE_DSPF_BGR555, HCGE_DSPF_RGB16, HCGE_DSPF_ARGB4444}"
    using that by (cases f) (simp_all add: hcge_surface_color_def hcge_color_key_argb_def Let_def)
  show ?thesis
    using color_key_555 color_key_1555 color_key_565 color_key_4444 color_key_8888 color_key_bgr other
    by (cases f) simp_all
qed

text \<open>
  In a surface that \<open>hcge_surface_valid\<close> accepts and whose buffer fits in the 32-bit address
  space, the address \<open>hcge_surface_offset\<close> computes for a pixel does not wrap: it is the exact
  row-major address, it is aligned to the pixel size, and the pixel's bytes stay inside its own
  row of \<open>pitch\<close> bytes.
\<close>

theorem surface_offset_inside:
  assumes "hcge_surface_valid s b" and "0 \<le> x" "x < sf_w s" and "0 \<le> y" "y < sf_h s"
    and "uint (phys b) + uint (pitch b) * sf_h s \<le> 2 ^ 32"
  shows "\<exists>a. hcge_surface_offset s b x y = Some a \<and>
    uint a = uint (phys b) + y * uint (pitch b) + x * bpp s \<and>
    uint a + bpp s \<le> uint (phys b) + (y + 1) * uint (pitch b) \<and> uint a mod bpp s = 0"
  by (rule surface_offset_exact) (fact assms)+

text \<open>A 320x240 RGB565 surface, as the console uses.\<close>

definition lcd_surface :: HCGE_CoreSurface where
  "lcd_surface = \<lparr>sf_format = HCGE_DSPF_RGB16, sf_w = 320, sf_h = 240\<rparr>"

definition lcd_buffer :: HCGE_CoreSurfaceBuffer where
  "lcd_buffer = \<lparr>phys = 0x06000000, pitch = 640\<rparr>"

lemma lcd_valid: "hcge_surface_valid lcd_surface lcd_buffer"
  by (simp add: hcge_surface_valid_def hcge_get_format_def hcge_formats_def lcd_surface_def lcd_buffer_def)

lemma surface_offset_inside_witness:
  "\<exists>a. hcge_surface_offset lcd_surface lcd_buffer 319 239 = Some a \<and> uint a = 0x06000000 + 239 * 640 + 319 * 2"
proof -
  have "bpp lcd_surface = 2"
    by (simp add: bpp_def lcd_surface_def hcge_get_format_def hcge_formats_def)
  then show ?thesis
    using surface_offset_inside [OF lcd_valid, of 319 239] by (auto simp: lcd_surface_def lcd_buffer_def)
qed

end
