(* ===== verification/GeClip.thy ===== *)
theory GeClip
  imports GeSurface Complex_Main
begin

text \<open>
  The graphics context and the integer geometry of \<^verbatim>\<open>src/ge/hcge_matrix.c\<close>: clipping of
  rectangles, blits and stretched blits, the quad-word alignment of a clip, and the selection of
  the transformation matrix. The floating-point routines (rotation, inverse, bounding rectangle)
  are not modelled; the matrix elements \<open>hcge_process_matrix\<close> stores are quotients of a 32-bit
  integer by 65536, which a \<open>double\<close> represents exactly, so they are rationals here.

  Sums, differences and products are C \<open>int\<close> arithmetic: \<open>c_int\<close> reduces every one of them to 32 bits
  in two's complement, as the compiled code does (the C standard leaves an overflow undefined; the
  facts below carry range hypotheses under which none happens, so that they do not depend on it).

  Rectangles are checked by the set of pixels they cover.
\<close>

section \<open>The context\<close>

text \<open>A batch is named by a number, see \<open>GeQueue\<close>; \<open>ge_regs\<close> is only stored.\<close>

record hcge_context =
  ctx_state :: hcge_state
  ge_regs :: u32
  cmdq_buf_map_phyaddr :: u32
  cmdq_buf_map_size :: u32
  cmdq_buf_phyaddr :: u32
  cmdq_buf_vaddr :: u32
  cmdq_buf_size :: u32
  clut_tbl_paddr :: u32
  ge_fd :: int
  blit_direct :: bool
  clip_en :: bool
  msk_en :: bool
  x_translate :: u32
  y_translate :: u32
  matrix_en :: bool
  matrix :: "rat list"
  nd_ctx :: "u32 list option"
  ctx_batch :: "nat option"

definition c_int :: "int \<Rightarrow> int" where
  "c_int v = signed_take_bit 31 v"

lemma c_int_id: "- 2147483648 \<le> v \<Longrightarrow> v < 2147483648 \<Longrightarrow> c_int v = v"
  by (simp add: c_int_def signed_take_bit_int_eq_self)

lemma c_int_range: "- 2147483648 \<le> c_int v" "c_int v < 2147483648"
  using signed_take_bit_int_greater_eq_minus_exp [of 31 v] signed_take_bit_int_less_exp [of 31 v]
  by (simp_all add: c_int_def)

lemma c_int_wrap: "2147483648 \<le> v \<Longrightarrow> v < 6442450944 \<Longrightarrow> c_int v = v - 4294967296"
proof -
  assume v: "2147483648 \<le> v" "v < 6442450944"
  have "c_int v = c_int (v - 4294967296)"
    unfolding c_int_def by (simp add: signed_take_bit_eq_iff_take_bit_eq take_bit_eq_mod mod_diff_eq)
  then show ?thesis using v by (simp add: c_int_id)
qed

definition hcge_process_matrix :: "hcge_context option \<Rightarrow> u32 \<Rightarrow> hcge_context option" where
  "hcge_process_matrix ctx acc =
     (case ctx of None \<Rightarrow> None
      | Some ctx \<Rightarrow> Some (
          let ctx = ctx\<lparr>matrix_en := False, x_translate := 0, y_translate := 0\<rparr>;
              m = st_matrix (ctx_state ctx)
          in if acc \<noteq> HCGE_DFXL_BLIT \<and> acc \<noteq> HCGE_DFXL_STRETCHBLIT then ctx
             else if acc = HCGE_DFXL_STRETCHBLIT \<and> render_options (ctx_state ctx) \<noteq> HCGE_DSRO_MATRIX
             then ctx\<lparr>matrix_en := True, matrix := [1, 0, 0, 0, 1, 0]\<rparr>
             else if render_options (ctx_state ctx) \<noteq> HCGE_DSRO_MATRIX then ctx
             else if m ! 0 = 0x10000 \<and> m ! 1 = 0 \<and> m ! 3 = 0 \<and> m ! 4 = 0x10000
             then ctx\<lparr>x_translate := word_of_int (drop_bit 16 (c_int (m ! 2 + 0x8000))),
                      y_translate := word_of_int (drop_bit 16 (c_int (m ! 5 + 0x8000)))\<rparr>
             else ctx\<lparr>matrix_en := True, matrix := map (\<lambda>i. of_int (m ! i) / 65536) [0..<6]\<rparr>))"

section \<open>Clipping\<close>

definition hcge_intersect :: "HCGERectangle \<Rightarrow> int \<Rightarrow> int \<Rightarrow> int \<Rightarrow> int \<Rightarrow> bool \<times> HCGERectangle" where
  "hcge_intersect r left upper right bottom =
     (let x2 = c_int (rx r + rw r);
          y2 = c_int (ry r + rh r);
          r = (if rx r < left then r\<lparr>rx := left\<rparr> else r);
          r = (if ry r < upper then r\<lparr>ry := upper\<rparr> else r);
          x2 = (if x2 > right then right else x2);
          y2 = (if y2 > bottom then bottom else y2);
          r = r\<lparr>rw := c_int (x2 - rx r)\<rparr>;
          r = r\<lparr>rh := c_int (y2 - ry r)\<rparr>
      in (rw r > 0 \<and> rh r > 0, r))"

text \<open>The result is the return value, the rectangle and the hardware clip.\<close>

definition hcge_clip_qw :: "HCGERectangle option \<Rightarrow> HCGERectangle option \<Rightarrow>
    bool \<times> HCGERectangle option \<times> HCGERectangle option" where
  "hcge_clip_qw rectangle hardware_clip =
     (case (rectangle, hardware_clip) of
        (Some r, Some hc) \<Rightarrow>
          if rw r \<le> 0 \<or> rh r \<le> 0 then (False, rectangle, hardware_clip)
          else let aligned_right = c_int (c_int (rx r + rw r) + 3) AND NOT 3
               in (True, Some (r\<lparr>rw := c_int (aligned_right - rx r)\<rparr>), Some r)
      | _ \<Rightarrow> (False, rectangle, hardware_clip))"

definition hcge_clip_rect :: "hcge_state option \<Rightarrow> HCGERectangle option \<Rightarrow> bool \<times> HCGERectangle option" where
  "hcge_clip_rect st rectangle =
     (case (st, rectangle) of
        (Some state, Some r) \<Rightarrow>
          let left = (if reg_x1 (clip state) > 0 then reg_x1 (clip state) else 0);
              upper = (if reg_y1 (clip state) > 0 then reg_y1 (clip state) else 0);
              right = c_int (reg_x2 (clip state) + 1);
              bottom = c_int (reg_y2 (clip state) + 1);
              right = (if right > sf_w (destination state) then sf_w (destination state) else right);
              bottom = (if bottom > sf_h (destination state) then sf_h (destination state) else bottom);
              (ok, r) = hcge_intersect r left upper right bottom
          in (ok, Some r)
      | _ \<Rightarrow> (False, rectangle))"

text \<open>The result is the return value, the source rectangle and the destination position.\<close>

definition hcge_clip_blit :: "hcge_state option \<Rightarrow> HCGERectangle option \<Rightarrow> int option \<Rightarrow> int option \<Rightarrow>
    bool \<times> HCGERectangle option \<times> int option \<times> int option" where
  "hcge_clip_blit st src0 dxp dyp =
     (case (src0, dxp, dyp) of
        (Some s, Some dx, Some dy) \<Rightarrow>
          let d = \<lparr>rx = dx, ry = dy, rw = rw s, rh = rh s\<rparr>;
              source_x = rx s;
              source_y = ry s
          in (case hcge_clip_rect st (Some d) of
                (True, Some d) \<Rightarrow>
                  let s = s\<lparr>rx := c_int (c_int (source_x + rx d) - dx)\<rparr>;
                      s = s\<lparr>ry := c_int (c_int (source_y + ry d) - dy)\<rparr>;
                      s = s\<lparr>rw := rw d, rh := rh d\<rparr>
                  in (True, Some s, Some (rx d), Some (ry d))
              | _ \<Rightarrow> (False, src0, dxp, dyp))
      | _ \<Rightarrow> (False, src0, dxp, dyp))"

text \<open>The result is the return value, the source and the destination rectangle.\<close>

definition hcge_clip_stretch_blit :: "hcge_state option \<Rightarrow> HCGERectangle option \<Rightarrow> HCGERectangle option \<Rightarrow>
    bool \<times> HCGERectangle option \<times> HCGERectangle option" where
  "hcge_clip_stretch_blit st src0 dst0 =
     (case (src0, dst0) of
        (Some s, Some original) \<Rightarrow>
          if rw original \<le> 0 \<or> rh original \<le> 0 then (False, src0, dst0)
          else (case hcge_clip_rect st (Some original) of
             (True, Some d) \<Rightarrow>
               let left = c_int (rx d - rx original);
                   upper = c_int (ry d - ry original);
                   right = c_int (c_int (c_int (rx original + rw original) - rx d) - rw d);
                   bottom = c_int (c_int (c_int (ry original + rh original) - ry d) - rh d);
                   s = s\<lparr>rx := c_int (rx s + cdiv (c_int (left * rw s)) (rw original))\<rparr>;
                   s = s\<lparr>ry := c_int (ry s + cdiv (c_int (upper * rh s)) (rh original))\<rparr>;
                   s = s\<lparr>rw := c_int (rw s - c_int (cdiv (c_int (left * rw s)) (rw original) +
                          cdiv (c_int (right * rw s)) (rw original)))\<rparr>;
                   s = s\<lparr>rh := c_int (rh s - c_int (cdiv (c_int (upper * rh s)) (rh original) +
                          cdiv (c_int (bottom * rh s)) (rh original)))\<rparr>;
                   s = (if (left \<noteq> 0 \<or> right \<noteq> 0) \<and> rw s > 0 then s\<lparr>rw := rw s - 1\<rparr> else s)
               in (rw s > 0 \<and> rh s > 0, Some s, Some d)
           | (_, d) \<Rightarrow> (False, src0, d))
      | _ \<Rightarrow> (False, src0, dst0))"

section \<open>Pixels\<close>

definition pixels :: "HCGERectangle \<Rightarrow> (int \<times> int) set" where
  "pixels r = {(px, py). rx r \<le> px \<and> px < rx r + rw r \<and> ry r \<le> py \<and> py < ry r + rh r}"

text \<open>The pixels drawing is allowed to touch: inside the clip region and on the surface.\<close>

definition drawable :: "hcge_state \<Rightarrow> (int \<times> int) set" where
  "drawable state = {(px, py). reg_x1 (clip state) \<le> px \<and> px \<le> reg_x2 (clip state) \<and>
     reg_y1 (clip state) \<le> py \<and> py \<le> reg_y2 (clip state) \<and>
     0 \<le> px \<and> px < sf_w (destination state) \<and> 0 \<le> py \<and> py < sf_h (destination state)}"

lemma pixels_empty_iff: "pixels r = {} \<longleftrightarrow> rw r \<le> 0 \<or> rh r \<le> 0"
proof
  assume e: "pixels r = {}"
  show "rw r \<le> 0 \<or> rh r \<le> 0"
  proof (rule ccontr)
    assume "\<not> (rw r \<le> 0 \<or> rh r \<le> 0)"
    then have "(rx r, ry r) \<in> pixels r" by (simp add: pixels_def)
    with e show False by simp
  qed
qed (auto simp: pixels_def)

text \<open>The ranges in which no computation of the clipping overflows.\<close>

definition int_within :: "int \<Rightarrow> int \<Rightarrow> bool" where
  "int_within b v \<longleftrightarrow> - b \<le> v \<and> v < b"

definition rect_within :: "int \<Rightarrow> HCGERectangle \<Rightarrow> bool" where
  "rect_within b r \<longleftrightarrow> int_within b (rx r) \<and> int_within b (ry r) \<and> int_within b (rx r + rw r) \<and> int_within b (ry r + rh r)"

definition clip_within :: "int \<Rightarrow> hcge_state \<Rightarrow> bool" where
  "clip_within b state \<longleftrightarrow> int_within b (reg_x1 (clip state)) \<and> int_within b (reg_y1 (clip state)) \<and>
     int_within b (reg_x2 (clip state)) \<and> int_within b (reg_y2 (clip state)) \<and>
     int_within b (sf_w (destination state)) \<and> int_within b (sf_h (destination state))"

abbreviation (input) coord_limit :: int where "coord_limit \<equiv> 1073741824"

text \<open>The intersection in closed form.\<close>

lemma hcge_intersect_eq:
  assumes "rect_within coord_limit r"
    and "int_within coord_limit left" "int_within coord_limit upper" "int_within coord_limit right" "int_within coord_limit bottom"
  shows "hcge_intersect r left upper right bottom =
     (let r1 = \<lparr>rx = max (rx r) left, ry = max (ry r) upper,
            rw = min (rx r + rw r) right - max (rx r) left,
            rh = min (ry r + rh r) bottom - max (ry r) upper\<rparr>
      in (0 < rw r1 \<and> 0 < rh r1, r1))"
proof -
  have w: "c_int (rx r + rw r) = rx r + rw r" "c_int (ry r + rh r) = ry r + rh r"
    "c_int (min (rx r + rw r) right - max (rx r) left) = min (rx r + rw r) right - max (rx r) left"
    "c_int (min (ry r + rh r) bottom - max (ry r) upper) = min (ry r + rh r) bottom - max (ry r) upper"
    using assms by (auto simp: rect_within_def int_within_def intro!: c_int_id)
  have "hcge_intersect r left upper right bottom =
     (let r1 = \<lparr>rx = max (rx r) left, ry = max (ry r) upper,
            rw = c_int (min (c_int (rx r + rw r)) right - max (rx r) left),
            rh = c_int (min (c_int (ry r + rh r)) bottom - max (ry r) upper)\<rparr>
      in (0 < rw r1 \<and> 0 < rh r1, r1))"
    by (simp add: hcge_intersect_def Let_def min_def max_def)
  then show ?thesis unfolding w .
qed

lemma hcge_intersect_pixels:
  assumes "rect_within coord_limit r"
    and "int_within coord_limit left" "int_within coord_limit upper" "int_within coord_limit right" "int_within coord_limit bottom"
  shows "pixels (snd (hcge_intersect r left upper right bottom)) =
     pixels r \<inter> {(px, py). left \<le> px \<and> px < right \<and> upper \<le> py \<and> py < bottom}"
  "fst (hcge_intersect r left upper right bottom) \<longleftrightarrow> pixels (snd (hcge_intersect r left upper right bottom)) \<noteq> {}"
proof -
  note e = hcge_intersect_eq [OF assms]
  show "pixels (snd (hcge_intersect r left upper right bottom)) =
     pixels r \<inter> {(px, py). left \<le> px \<and> px < right \<and> upper \<le> py \<and> py < bottom}"
    unfolding e by (auto simp: pixels_def Let_def)
  show "fst (hcge_intersect r left upper right bottom) \<longleftrightarrow> pixels (snd (hcge_intersect r left upper right bottom)) \<noteq> {}"
    unfolding e pixels_empty_iff by (simp add: Let_def not_le)
qed

lemma clip_rect_eq:
  assumes "clip_within coord_limit state"
  shows "hcge_clip_rect (Some state) (Some r) =
     apsnd Some (hcge_intersect r (max 0 (reg_x1 (clip state))) (max 0 (reg_y1 (clip state)))
        (min (reg_x2 (clip state) + 1) (sf_w (destination state)))
        (min (reg_y2 (clip state) + 1) (sf_h (destination state))))"
proof -
  have c: "c_int (reg_x2 (clip state) + 1) = reg_x2 (clip state) + 1"
    "c_int (reg_y2 (clip state) + 1) = reg_y2 (clip state) + 1"
    using assms by (auto simp: clip_within_def int_within_def intro!: c_int_id)
  have ifs: "(if reg_x1 (clip state) > 0 then reg_x1 (clip state) else 0) = max 0 (reg_x1 (clip state))"
    "(if reg_y1 (clip state) > 0 then reg_y1 (clip state) else 0) = max 0 (reg_y1 (clip state))"
    "(if reg_x2 (clip state) + 1 > sf_w (destination state) then sf_w (destination state)
      else reg_x2 (clip state) + 1) = min (reg_x2 (clip state) + 1) (sf_w (destination state))"
    "(if reg_y2 (clip state) + 1 > sf_h (destination state) then sf_h (destination state)
      else reg_y2 (clip state) + 1) = min (reg_y2 (clip state) + 1) (sf_h (destination state))"
    by auto
  obtain ok r1 where "hcge_intersect r (max 0 (reg_x1 (clip state))) (max 0 (reg_y1 (clip state)))
        (min (reg_x2 (clip state) + 1) (sf_w (destination state)))
        (min (reg_y2 (clip state) + 1) (sf_h (destination state))) = (ok, r1)" by fastforce
  then show ?thesis
    by (simp only: hcge_clip_rect_def Let_def option.case prod.case c ifs apsnd_conv)
qed

text \<open>The clip box of a state in range is in range.\<close>

lemma clip_box_within:
  assumes "clip_within coord_limit state"
  shows "int_within coord_limit (max 0 (reg_x1 (clip state)))" "int_within coord_limit (max 0 (reg_y1 (clip state)))"
    "int_within coord_limit (min (reg_x2 (clip state) + 1) (sf_w (destination state)))"
    "int_within coord_limit (min (reg_y2 (clip state) + 1) (sf_h (destination state)))"
  using assms by (auto simp: clip_within_def int_within_def)

lemma drawable_box:
  "drawable state = {(px, py). max 0 (reg_x1 (clip state)) \<le> px \<and>
     px < min (reg_x2 (clip state) + 1) (sf_w (destination state)) \<and>
     max 0 (reg_y1 (clip state)) \<le> py \<and> py < min (reg_y2 (clip state) + 1) (sf_h (destination state))}"
  by (auto simp: drawable_def)

lemma clip_rect_drawable:
  assumes "rect_within coord_limit r" "clip_within coord_limit state"
    and "hcge_clip_rect (Some state) (Some r) = (ok, Some r')"
  shows "pixels r' = pixels r \<inter> drawable state" and "ok \<longleftrightarrow> pixels r \<inter> drawable state \<noteq> {}"
proof -
  let ?l = "max 0 (reg_x1 (clip state))" and ?u = "max 0 (reg_y1 (clip state))"
    and ?rt = "min (reg_x2 (clip state) + 1) (sf_w (destination state))"
    and ?b = "min (reg_y2 (clip state) + 1) (sf_h (destination state))"
  note box = hcge_intersect_pixels [OF assms(1) clip_box_within [OF assms(2)]]
  have i: "hcge_intersect r ?l ?u ?rt ?b = (ok, r')"
    using assms(3) unfolding clip_rect_eq [OF assms(2)] by (cases "hcge_intersect r ?l ?u ?rt ?b") simp
  show "pixels r' = pixels r \<inter> drawable state"
    using box(1) unfolding i drawable_box snd_conv .
  then show "ok \<longleftrightarrow> pixels r \<inter> drawable state \<noteq> {}"
    using box(2) unfolding i by simp
qed

lemma clip_rect_some: "\<exists>ok r'. hcge_clip_rect (Some state) (Some r) = (ok, Some r')"
  by (simp add: hcge_clip_rect_def Let_def split_def)

text \<open>A clipped rectangle that is not empty lies inside the old one, edge by edge, and on the surface.\<close>

lemma clip_rect_edges:
  assumes "rect_within coord_limit r" "clip_within coord_limit state"
    and "hcge_clip_rect (Some state) (Some r) = (True, Some r')"
  shows "rx r \<le> rx r'" "ry r \<le> ry r'" "rx r' + rw r' \<le> rx r + rw r" "ry r' + rh r' \<le> ry r + rh r"
    "0 < rw r'" "0 < rh r'" "0 \<le> rx r'" "0 \<le> ry r'"
proof -
  obtain ok r1 where i: "hcge_intersect r (max 0 (reg_x1 (clip state))) (max 0 (reg_y1 (clip state)))
        (min (reg_x2 (clip state) + 1) (sf_w (destination state)))
        (min (reg_y2 (clip state) + 1) (sf_h (destination state))) = (ok, r1)" by fastforce
  have "ok = True" "r1 = r'" using assms(3) unfolding clip_rect_eq [OF assms(2)] i by simp_all
  from i [unfolded this]
  show "rx r \<le> rx r'" "ry r \<le> ry r'" "rx r' + rw r' \<le> rx r + rw r" "ry r' + rh r' \<le> ry r + rh r"
    "0 < rw r'" "0 < rh r'" "0 \<le> rx r'" "0 \<le> ry r'"
    unfolding hcge_intersect_eq [OF assms(1) clip_box_within [OF assms(2)]] by (auto simp: Let_def)
qed

text \<open>The scaled margins of a stretched blit take less than the whole source.\<close>

lemma scaled_margins:
  fixes l r w W d :: int
  assumes "0 \<le> l" "0 \<le> r" "0 < d" "l + d + r = W" "0 < w"
  shows "0 \<le> cdiv (l * w) W" "0 \<le> cdiv (r * w) W" "cdiv (l * w) W + cdiv (r * w) W < w"
proof -
  have W: "0 < W" using assms by linarith
  have l: "cdiv (l * w) W = l * w div W" and r: "cdiv (r * w) W = r * w div W"
    using assms W by (simp_all add: cdiv_nonneg)
  show "0 \<le> cdiv (l * w) W" "0 \<le> cdiv (r * w) W"
    unfolding l r using assms W by (simp_all add: pos_imp_zdiv_nonneg_iff)
  have "l * w div W * W \<le> l * w" "r * w div W * W \<le> r * w"
    using W by (simp_all add: minus_mod_eq_div_mult [symmetric])
  then have "(l * w div W + r * w div W) * W \<le> (l + r) * w" by (simp add: distrib_right)
  also have "\<dots> < W * w" using assms by (intro mult_strict_right_mono) auto
  finally have "(l * w div W + r * w div W) * W < w * W" by (simp add: mult.commute)
  then show "cdiv (l * w) W + cdiv (r * w) W < w" unfolding l r using W by simp
qed

lemma and_not_3: "(v :: int) AND - 4 = 4 * (v div 4)"
proof -
  have m: "(- 4 :: int) = NOT (mask 2)" by (simp add: mask_eq_exp_minus_1)
  have "v AND NOT (mask 2) = push_bit 2 (drop_bit 2 v)"
  proof (rule bit_eqI)
    fix n
    show "bit (v AND NOT (mask 2)) n = bit (push_bit 2 (drop_bit 2 v)) n"
      unfolding bit_and_iff bit_not_iff bit_mask_iff bit_push_bit_iff bit_drop_bit_eq
      by (cases "2 \<le> n") (auto simp flip: add_2_eq_Suc')
  qed
  then show ?thesis unfolding m by (simp add: push_bit_eq_mult drop_bit_eq_div)
qed

text \<open>\<open>hcge_clip_qw\<close> widens a rectangle to the next multiple of four and keeps the exact clip.\<close>

lemma clip_qw_aligned:
  assumes "rect_within coord_limit r" "0 \<le> rx r" "hcge_clip_qw (Some r) (Some hc) = (True, Some r', Some hc')"
  shows "hc' = r" "(rx r' + rw r') mod 4 = 0" "pixels r \<subseteq> pixels r'" "rw r' \<le> rw r + 3"
proof -
  have up: "rx r + rw r \<le> 4 * ((rx r + rw r + 3) div 4)" "4 * ((rx r + rw r + 3) div 4) \<le> rx r + rw r + 3"
    by presburger+
  have w: "c_int (rx r + rw r) = rx r + rw r" "c_int (rx r + rw r + 3) = rx r + rw r + 3"
    "c_int (4 * ((rx r + rw r + 3) div 4) - rx r) = 4 * ((rx r + rw r + 3) div 4) - rx r"
    using assms(1,2) up by (auto simp: rect_within_def int_within_def intro!: c_int_id)
  have r: "hc' = r" "r' = r\<lparr>rw := 4 * ((rx r + rw r + 3) div 4) - rx r\<rparr>"
    using assms(3) by (auto simp: hcge_clip_qw_def Let_def and_not_3 w split: if_splits)
  then show "hc' = r" "(rx r' + rw r') mod 4 = 0" by simp_all
  show "pixels r \<subseteq> pixels r'" "rw r' \<le> rw r + 3" using up r by (auto simp: pixels_def)
qed

section \<open>Properties\<close>

text \<open>
  C33. For a rectangle, a clip region and a surface whose edges lie in -2^30 to 2^30 - 1 (where no C
  \<open>int\<close> of the computation overflows), \<open>hcge_clip_rect\<close> computes exactly the part of the
  rectangle that may be drawn: the pixels of the clipped rectangle are the old ones that lie in the
  clip region and on the destination surface, and it returns true exactly if there are any.
\<close>

theorem clip_rect_pixels:
  assumes "rect_within coord_limit r" "clip_within coord_limit state"
  shows "\<exists>ok r'. hcge_clip_rect (Some state) (Some r) = (ok, Some r') \<and>
     pixels r' = pixels r \<inter> drawable state \<and> (ok \<longleftrightarrow> pixels r \<inter> drawable state \<noteq> {})"
  using clip_rect_some [of state r] clip_rect_drawable [OF assms] by blast

text \<open>The state of the clipping test: a 320x240 surface and the region (10,20)-(299,219).\<close>

definition clip_example :: hcge_state where
  "clip_example = \<lparr>render_options = 0, drawingflags = 0, accel = 0, blittingflags = 0,
     src_mask_offset_x = 0, src_mask_offset_y = 0, src_mask_flags = 0, st_matrix = replicate 9 0,
     destination = lcd_surface, source = lcd_surface,
     source_mask = \<lparr>sf_format = HCGE_DSPF_UNKNOWN, sf_w = 0, sf_h = 0\<rparr>,
     st_color = \<lparr>col_a = 0, col_r = 0, col_g = 0, col_b = 0\<rparr>, dst_colorkey = 0, src_colorkey = 0,
     src_blend = 0, dst_blend = 0, src_colorkey_opt = 0, dst_colorkey_opt = 0,
     dst = lcd_buffer, src = lcd_buffer, src_mask = \<lparr>phys = 0, pitch = 0\<rparr>,
     clip = \<lparr>reg_x1 = 10, reg_y1 = 20, reg_x2 = 299, reg_y2 = 219\<rparr>\<rparr>"

lemma clip_rect_pixels_witness:
  "\<exists>ok r'. hcge_clip_rect (Some clip_example) (Some \<lparr>rx = -15, ry = 190, rw = 80, rh = 60\<rparr>) = (ok, Some r') \<and>
     pixels r' = pixels \<lparr>rx = -15, ry = 190, rw = 80, rh = 60\<rparr> \<inter> drawable clip_example \<and>
     (ok \<longleftrightarrow> pixels \<lparr>rx = -15, ry = 190, rw = 80, rh = 60\<rparr> \<inter> drawable clip_example \<noteq> {})"
  by (rule clip_rect_pixels)
    (simp_all add: rect_within_def clip_within_def int_within_def clip_example_def lcd_surface_def)

text \<open>
  \<open>hcge_clip_blit\<close> keeps a blit the same blit: if it returns true, the destination is the
  drawable part of the old destination, the source rectangle has its size and lies inside the old
  source, and every remaining destination pixel is still copied from the source pixel it was
  copied from before clipping. If nothing can be drawn, nothing is changed.
\<close>

theorem clip_blit_consistent:
  assumes "hcge_clip_blit (Some state) (Some s) (Some dx) (Some dy) = (ok, Some s', Some dx', Some dy')"
    and "d = \<lparr>rx = dx, ry = dy, rw = rw s, rh = rh s\<rparr>"
    and "d' = \<lparr>rx = dx', ry = dy', rw = rw s', rh = rh s'\<rparr>"
    and range: "rect_within coord_limit s" "rect_within coord_limit d" "clip_within coord_limit state"
  shows "if ok then pixels d' = pixels d \<inter> drawable state \<and> pixels d' \<noteq> {} \<and> pixels s' \<subseteq> pixels s \<and>
           (\<forall>px py. (px - dx' + rx s', py - dy' + ry s') = (px - dx + rx s, py - dy + ry s))
         else pixels d \<inter> drawable state = {} \<and> s' = s \<and> dx' = dx \<and> dy' = dy"
proof -
  obtain ok1 d1 where c: "hcge_clip_rect (Some state) (Some d) = (ok1, Some d1)"
    using clip_rect_some by blast
  note a = assms(1) [unfolded hcge_clip_blit_def assms(2) [symmetric] Let_def]
  note draw = clip_rect_drawable [OF range(2,3) c]
  show ?thesis
  proof (cases ok1)
    case True
    have c': "hcge_clip_rect (Some state) (Some d) = (True, Some d1)" using c True by simp
    note e = clip_rect_edges [OF range(2,3) c']
    have small: "rx d1 < coord_limit" "ry d1 < coord_limit"
      using e range(2) by (auto simp: rect_within_def int_within_def)
    have w: "c_int (c_int (rx s + rx d1) - dx) = rx s + rx d1 - dx"
      "c_int (c_int (ry s + ry d1) - dy) = ry s + ry d1 - dy"
    proof -
      have "c_int (rx s + rx d1) = rx s + rx d1" "c_int (ry s + ry d1) = ry s + ry d1"
        using e small range(1) by (auto simp: rect_within_def int_within_def intro!: c_int_id)
      moreover have "c_int (rx s + rx d1 - dx) = rx s + rx d1 - dx" "c_int (ry s + ry d1 - dy) = ry s + ry d1 - dy"
        using e range(1,2) assms(2) by (auto simp: rect_within_def int_within_def intro!: c_int_id)
      ultimately show "c_int (c_int (rx s + rx d1) - dx) = rx s + rx d1 - dx"
        "c_int (c_int (ry s + ry d1) - dy) = ry s + ry d1 - dy" by simp_all
    qed
    have r: "ok" "s' = s\<lparr>rx := rx s + rx d1 - dx, ry := ry s + ry d1 - dy, rw := rw d1, rh := rh d1\<rparr>"
      "dx' = rx d1" "dy' = ry d1"
      using a c' assms(2) w by auto
    have d1: "d' = d1" using assms(3) r by simp
    have "pixels s' \<subseteq> pixels s" using e assms(2) r(2) by (auto simp: pixels_def)
    then show ?thesis
      using r draw True d1 by simp
  next
    case False
    then have "\<not> ok" "s' = s" "dx' = dx" "dy' = dy" using a c assms(2) by auto
    then show ?thesis using draw(2) False by simp
  qed
qed

lemma clip_blit_consistent_witness:
  "hcge_clip_blit (Some clip_example) (Some \<lparr>rx = 7, ry = 9, rw = 80, rh = 60\<rparr>) (Some (-15)) (Some 190) =
     (True, Some \<lparr>rx = 32, ry = 9, rw = 55, rh = 30\<rparr>, Some 10, Some 190) \<and>
   pixels \<lparr>rx = 32, ry = 9, rw = 55, rh = 30\<rparr> \<subseteq> pixels \<lparr>rx = 7, ry = 9, rw = 80, rh = 60\<rparr>"
proof
  show c: "hcge_clip_blit (Some clip_example) (Some \<lparr>rx = 7, ry = 9, rw = 80, rh = 60\<rparr>) (Some (-15)) (Some 190) =
     (True, Some \<lparr>rx = 32, ry = 9, rw = 55, rh = 30\<rparr>, Some 10, Some 190)"
    by (simp add: hcge_clip_blit_def hcge_clip_rect_def hcge_intersect_def Let_def clip_example_def
        lcd_surface_def c_int_id)
  show "pixels \<lparr>rx = 32, ry = 9, rw = 55, rh = 30\<rparr> \<subseteq> pixels \<lparr>rx = 7, ry = 9, rw = 80, rh = 60\<rparr>"
    using clip_blit_consistent [OF c refl refl]
    by (simp add: rect_within_def clip_within_def int_within_def clip_example_def lcd_surface_def)
qed

text \<open>
  \<open>hcge_clip_stretch_blit\<close> on a source that is not empty, with all edges in -2^14 to 2^14 - 1: the
  destination becomes its drawable part, and the source rectangle only shrinks (its edges stay inside
  the old ones), so a scaled blit never reads outside the source it was given. An unclipped blit
  keeps its source unchanged.
\<close>

abbreviation (input) scale_limit :: int where "scale_limit \<equiv> 16384"

lemma int_within_mono: "int_within a v \<Longrightarrow> a \<le> b \<Longrightarrow> int_within b v"
  by (simp add: int_within_def)

lemma rect_within_mono: "rect_within a r \<Longrightarrow> a \<le> b \<Longrightarrow> rect_within b r"
  by (auto simp: rect_within_def intro: int_within_mono)

text \<open>A scaled margin is computed without overflow.\<close>

lemma scaled_product:
  fixes m w :: int
  assumes "0 \<le> m" "m < 32768" "0 < w" "w < 32768"
  shows "c_int (m * w) = m * w"
proof (rule c_int_id)
  have "m * w \<le> 32768 * 32768" using assms by (intro mult_mono) auto
  then show "m * w < 2147483648" by simp
  have "0 \<le> m * w" using assms by simp
  then show "- 2147483648 \<le> m * w" by simp
qed

text \<open>One axis: the margins \<open>l\<close> and \<open>r\<close> around a part of length \<open>d\<close> of \<open>W\<close> pixels, scaled to a source of \<open>w\<close>.\<close>

lemma scaled_axis:
  fixes l r w W d x :: int
  assumes "0 \<le> l" "0 \<le> r" "0 < d" "l + d + r = W" "0 < w" "W < 32768" "int_within scale_limit x" "int_within scale_limit (x + w)"
  shows "c_int (x + cdiv (c_int (l * w)) W) = x + cdiv (l * w) W"
    and "c_int (w - c_int (cdiv (c_int (l * w)) W + cdiv (c_int (r * w)) W)) = w - (cdiv (l * w) W + cdiv (r * w) W)"
proof -
  have p: "c_int (l * w) = l * w" "c_int (r * w) = r * w"
    using assms by (auto simp: int_within_def intro!: scaled_product)
  note m = scaled_margins [OF assms(1-5)]
  show "c_int (x + cdiv (c_int (l * w)) W) = x + cdiv (l * w) W"
    unfolding p using m assms(7,8) by (auto simp: int_within_def intro!: c_int_id)
  have "c_int (cdiv (l * w) W + cdiv (r * w) W) = cdiv (l * w) W + cdiv (r * w) W"
    using m assms(7,8) by (auto simp: int_within_def intro!: c_int_id)
  then show "c_int (w - c_int (cdiv (c_int (l * w)) W + cdiv (c_int (r * w)) W)) = w - (cdiv (l * w) W + cdiv (r * w) W)"
    unfolding p using m assms(7,8) by (auto simp: int_within_def intro!: c_int_id)
qed

theorem clip_stretch_shrinks:
  assumes "hcge_clip_stretch_blit (Some state) (Some s) (Some d) = (True, Some s', Some d')"
    and "0 < rw s" "0 < rh s"
    and range: "rect_within scale_limit s" "rect_within scale_limit d" "clip_within coord_limit state"
  shows "pixels d' = pixels d \<inter> drawable state \<and> pixels d' \<noteq> {} \<and> pixels s' \<noteq> {} \<and>
    pixels s' \<subseteq> pixels s \<and> (d' = d \<longrightarrow> s' = s)"
proof -
  obtain ok1 d1 where c: "hcge_clip_rect (Some state) (Some d) = (ok1, Some d1)"
    using clip_rect_some by blast
  have dpos: "0 < rw d" "0 < rh d" and ok1: "ok1"
    using assms(1) c by (auto simp: hcge_clip_stretch_blit_def split: if_splits bool.splits)
  have c': "hcge_clip_rect (Some state) (Some d) = (True, Some d1)" using c ok1 by simp
  have rd: "rect_within coord_limit d" using rect_within_mono [OF range(2)] by simp
  note e = clip_rect_edges [OF rd range(3) c']
  note wide = range(1,2) [unfolded rect_within_def int_within_def]
  define left where "left = rx d1 - rx d"
  define upper where "upper = ry d1 - ry d"
  define right where "right = rx d + rw d - rx d1 - rw d1"
  define bottom where "bottom = ry d + rh d - ry d1 - rh d1"
  define w1 where "w1 = rw s - (cdiv (left * rw s) (rw d) + cdiv (right * rw s) (rw d))"
  define h1 where "h1 = rh s - (cdiv (upper * rh s) (rh d) + cdiv (bottom * rh s) (rh d))"
  have margins: "c_int (rx d1 - rx d) = left" "c_int (ry d1 - ry d) = upper"
    "c_int (c_int (c_int (rx d + rw d) - rx d1) - rw d1) = right"
    "c_int (c_int (c_int (ry d + rh d) - ry d1) - rh d1) = bottom"
  proof -
    have "c_int (rx d + rw d) = rx d + rw d" "c_int (ry d + rh d) = ry d + rh d"
      "c_int (rx d + rw d - rx d1) = rx d + rw d - rx d1" "c_int (ry d + rh d - ry d1) = ry d + rh d - ry d1"
      using e wide by (auto intro!: c_int_id)
    then show "c_int (rx d1 - rx d) = left" "c_int (ry d1 - ry d) = upper"
      "c_int (c_int (c_int (rx d + rw d) - rx d1) - rw d1) = right"
      "c_int (c_int (c_int (ry d + rh d) - ry d1) - rh d1) = bottom"
      using e wide by (auto simp: left_def upper_def right_def bottom_def intro!: c_int_id)
  qed
  have lx: "0 \<le> left" "0 \<le> right" "left + rw d1 + right = rw d" "rw d < 32768"
    and ly: "0 \<le> upper" "0 \<le> bottom" "upper + rh d1 + bottom = rh d" "rh d < 32768"
    using e wide by (auto simp: left_def right_def upper_def bottom_def)
  note ax = scaled_axis [OF lx(1,2) e(5) lx(3) assms(2) lx(4), of "rx s"]
    and ay = scaled_axis [OF ly(1,2) e(6) ly(3) assms(3) ly(4), of "ry s"]
  note mx = scaled_margins [OF lx(1,2) e(5) lx(3) assms(2)]
    and my = scaled_margins [OF ly(1,2) e(6) ly(3) assms(3)]
  have pos: "0 < w1" "0 < h1" using mx(3) my(3) by (simp_all add: w1_def h1_def)
  have r: "d' = d1" "s' = \<lparr>rx = rx s + cdiv (left * rw s) (rw d), ry = ry s + cdiv (upper * rh s) (rh d),
      rw = (if left \<noteq> 0 \<or> right \<noteq> 0 then w1 - 1 else w1), rh = h1\<rparr>" "0 < rw s'" "0 < rh s'"
    using assms(1) dpos c ok1 pos ax ay range(1)
    by (auto simp: hcge_clip_stretch_blit_def Let_def margins w1_def h1_def rect_within_def)
  have "pixels s' \<subseteq> pixels s" using r(2) mx my by (auto simp: pixels_def w1_def h1_def split: if_splits)
  moreover have "pixels s' \<noteq> {}" using r(3,4) by (simp add: pixels_empty_iff)
  moreover have "s' = s" if "d' = d"
    using that r(1,2) by (simp add: left_def right_def upper_def bottom_def w1_def h1_def cdiv_def)
  ultimately show ?thesis using clip_rect_drawable [OF rd range(3) c] ok1 r(1) by simp
qed

lemma clip_stretch_shrinks_witness:
  "hcge_clip_stretch_blit (Some clip_example) (Some \<lparr>rx = 5, ry = 7, rw = 160, rh = 120\<rparr>)
      (Some \<lparr>rx = -30, ry = 180, rw = 240, rh = 100\<rparr>) =
     (True, Some \<lparr>rx = 31, ry = 7, rw = 133, rh = 48\<rparr>, Some \<lparr>rx = 10, ry = 180, rw = 200, rh = 40\<rparr>) \<and>
   pixels \<lparr>rx = 31, ry = 7, rw = 133, rh = 48\<rparr> \<subseteq> pixels \<lparr>rx = 5, ry = 7, rw = 160, rh = 120\<rparr>"
proof
  show c: "hcge_clip_stretch_blit (Some clip_example) (Some \<lparr>rx = 5, ry = 7, rw = 160, rh = 120\<rparr>)
      (Some \<lparr>rx = -30, ry = 180, rw = 240, rh = 100\<rparr>) =
     (True, Some \<lparr>rx = 31, ry = 7, rw = 133, rh = 48\<rparr>, Some \<lparr>rx = 10, ry = 180, rw = 200, rh = 40\<rparr>)"
  proof -
    have "hcge_clip_rect (Some clip_example) (Some \<lparr>rx = -30, ry = 180, rw = 240, rh = 100\<rparr>) =
        (True, Some \<lparr>rx = 10, ry = 180, rw = 200, rh = 40\<rparr>)"
      by (simp add: hcge_clip_rect_def hcge_intersect_def Let_def clip_example_def lcd_surface_def c_int_id)
    then show ?thesis
      by (simp add: hcge_clip_stretch_blit_def) (simp add: Let_def c_int_id cdiv_def)
  qed
  show "pixels \<lparr>rx = 31, ry = 7, rw = 133, rh = 48\<rparr> \<subseteq> pixels \<lparr>rx = 5, ry = 7, rw = 160, rh = 120\<rparr>"
    using clip_stretch_shrinks [OF c]
    by (simp add: rect_within_def clip_within_def int_within_def clip_example_def lcd_surface_def)
qed

text \<open>
  Out of that range: a rectangle with a positive width whose right edge passes the largest
  \<open>int\<close> keeps its right edge, however narrow the clip box. The sum wraps to a negative number,
  which is not to the right of anything, and the difference wraps back to the full width.
\<close>

lemma overflow_passes_clip:
  assumes "left \<le> rx r" "rx r < 2147483648" "rw r < 2147483648" "2147483648 \<le> rx r + rw r" "0 \<le> right"
  shows "rx (snd (hcge_intersect r left upper right bottom)) = rx r \<and>
    rw (snd (hcge_intersect r left upper right bottom)) = rw r"
proof -
  have x2: "c_int (rx r + rw r) = rx r + rw r - 4294967296" using assms by (intro c_int_wrap) auto
  have unwrap: "c_int (rw r - 4294967296) = rw r"
  proof -
    have "c_int (rw r - 4294967296) = c_int (rw r)"
      unfolding c_int_def by (simp add: signed_take_bit_eq_iff_take_bit_eq take_bit_eq_mod mod_diff_eq)
    then show ?thesis using assms by (simp add: c_int_id)
  qed
  show ?thesis using assms by (simp add: hcge_intersect_def Let_def x2 unwrap)
qed

end
