(* ===== verification/GeQueue.thy ===== *)
theory GeQueue
  imports GeClip GeNode
begin

text \<open>
  The queue side of the graphics library, \<^verbatim>\<open>src/ge/hcge_linux.c\<close>: opening and closing the
  device, submission with its retry, caller-owned batches, cache maintenance and the capture of the
  last node.

  The kernel is a parameter: \<open>open\<close>, \<open>close\<close> and \<open>ioctl\<close> on a device state \<open>'d\<close>, an \<open>ioctl\<close> giving
  either an error number or a reply. The process has contexts and batches in two stores, so that the
  pointers between them (\<open>ctx->batch\<close>, \<open>batch->context\<close>) are names into the stores; NULL is \<open>None\<close>.
\<close>

section \<open>The kernel interface\<close>

record hcge_linux_cache_range =
  cr_address :: u32
  cr_length :: u32

datatype ge_request =
    HCGE_REQUEST_IRQ | HCGE_FREE_IRQ | HCGE_RESET | HCGE_SYNC_TIMEOUT u32 | HCGE_GET_CMDQ_BUFINFO
  | HCGE_SET_CLOCK u32 | HCGE_GET_GE_REGISTER | HCGE_SUBMIT "u32 list"
  | HCGE_CACHE_CLEAN hcge_linux_cache_range | HCGE_CACHE_CLEAN_BATCH "hcge_linux_cache_range list"
  | HCGE_ALLOC_BUFFER u32 | HCGE_FREE_BUFFER u32

text \<open>What a successful request stores through its argument.\<close>

datatype ge_reply = Done | Register u32 | Bufinfo u32 u32 | Buffer u32 u32 u32

record 'd ge_kernel =
  k_open :: "'d \<Rightarrow> (int + int) \<times> 'd"
  k_close :: "'d \<Rightarrow> int \<Rightarrow> 'd"
  k_ioctl :: "'d \<Rightarrow> int \<Rightarrow> ge_request \<Rightarrow> (int + ge_reply) \<times> 'd"

text \<open>The conventions of the system calls: error numbers are positive, descriptors are not negative.\<close>

locale ge_syscalls =
  fixes k :: "'d ge_kernel"
  assumes open_errno: "k_open k d = (Inl e, d') \<Longrightarrow> 0 < e"
    and open_fd: "k_open k d = (Inr fd, d') \<Longrightarrow> 0 \<le> fd"
    and ioctl_errno: "k_ioctl k d fd req = (Inl e, d') \<Longrightarrow> 0 < e"

abbreviation (input) EIO where "EIO \<equiv> (5 :: int)"
abbreviation (input) ENOMEM where "ENOMEM \<equiv> (12 :: int)"
abbreviation (input) EBUSY where "EBUSY \<equiv> (16 :: int)"
abbreviation (input) ENODEV where "ENODEV \<equiv> (19 :: int)"
abbreviation (input) EINVAL where "EINVAL \<equiv> (22 :: int)"
abbreviation (input) ENOSPC where "ENOSPC \<equiv> (28 :: int)"
abbreviation (input) ENODATA where "ENODATA \<equiv> (61 :: int)"

section \<open>The process\<close>

record hcge_batch =
  bt_context :: "nat option"
  bt_buffer :: "u32 list"
  bt_capacity :: u32
  bt_words :: u32
  bt_error :: int

record 'd ge_proc =
  dev :: 'd
  ge_errno :: int
  contexts :: "nat \<Rightarrow> hcge_context"
  batches :: "nat \<Rightarrow> hcge_batch"
  hcge_last_node :: "u32 list"
  hcge_last_node_words :: u32
  hcge_last_node_hash :: u32

definition set_ctx :: "nat \<Rightarrow> hcge_context \<Rightarrow> 'd ge_proc \<Rightarrow> 'd ge_proc" where
  "set_ctx c v p = p\<lparr>contexts := (contexts p)(c := v)\<rparr>"

definition set_batch :: "nat \<Rightarrow> hcge_batch \<Rightarrow> 'd ge_proc \<Rightarrow> 'd ge_proc" where
  "set_batch b v p = p\<lparr>batches := (batches p)(b := v)\<rparr>"

text \<open>\<open>ioctl\<close> with its C convention: on failure \<open>errno\<close> is set.\<close>

definition ioctl :: "'d ge_kernel \<Rightarrow> int \<Rightarrow> ge_request \<Rightarrow> 'd ge_proc \<Rightarrow> ge_reply option \<times> 'd ge_proc" where
  "ioctl k fd req p =
     (let (r, d) = k_ioctl k (dev p) fd req; p = p\<lparr>dev := d\<rparr>
      in case r of Inl e \<Rightarrow> (None, p\<lparr>ge_errno := e\<rparr>) | Inr reply \<Rightarrow> (Some reply, p))"

text \<open>\<open>ioctl(\<dots>) < 0 ? -errno : 0\<close>\<close>

definition ioctl_ret :: "'d ge_kernel \<Rightarrow> int \<Rightarrow> ge_request \<Rightarrow> 'd ge_proc \<Rightarrow> int \<times> 'd ge_proc" where
  "ioctl_ret k fd req p =
     (let (r, p) = ioctl k fd req p in (if r = None then - ge_errno p else 0, p))"

section \<open>Opening and closing\<close>

definition hcge_state_zero :: hcge_state where
  "hcge_state_zero = \<lparr>render_options = 0, drawingflags = 0, accel = 0, blittingflags = 0,
     src_mask_offset_x = 0, src_mask_offset_y = 0, src_mask_flags = 0, st_matrix = replicate 9 0,
     destination = \<lparr>sf_format = HCGE_DSPF_UNKNOWN, sf_w = 0, sf_h = 0\<rparr>,
     source = \<lparr>sf_format = HCGE_DSPF_UNKNOWN, sf_w = 0, sf_h = 0\<rparr>,
     source_mask = \<lparr>sf_format = HCGE_DSPF_UNKNOWN, sf_w = 0, sf_h = 0\<rparr>,
     st_color = \<lparr>col_a = 0, col_r = 0, col_g = 0, col_b = 0\<rparr>, dst_colorkey = 0, src_colorkey = 0,
     src_blend = 0, dst_blend = 0, src_colorkey_opt = 0, dst_colorkey_opt = 0,
     dst = \<lparr>phys = 0, pitch = 0\<rparr>, src = \<lparr>phys = 0, pitch = 0\<rparr>, src_mask = \<lparr>phys = 0, pitch = 0\<rparr>,
     clip = \<lparr>reg_x1 = 0, reg_y1 = 0, reg_x2 = 0, reg_y2 = 0\<rparr>\<rparr>"

text \<open>\<open>memset(ctx, 0, sizeof(*ctx)); ctx->ge_fd = -1;\<close>\<close>

definition hcge_context_zero :: hcge_context where
  "hcge_context_zero = \<lparr>ctx_state = hcge_state_zero, ge_regs = 0, cmdq_buf_map_phyaddr = 0,
     cmdq_buf_map_size = 0, cmdq_buf_phyaddr = 0, cmdq_buf_vaddr = 0, cmdq_buf_size = 0,
     clut_tbl_paddr = 0, ge_fd = -1, blit_direct = False, clip_en = False, msk_en = False,
     x_translate = 0, y_translate = 0, matrix_en = False, matrix = replicate 6 0, nd_ctx = None,
     ctx_batch = None\<rparr>"

definition hcge_context_fd :: "nat option \<Rightarrow> 'd ge_proc \<Rightarrow> int" where
  "hcge_context_fd ctx p = (case ctx of None \<Rightarrow> -1 | Some c \<Rightarrow> ge_fd (contexts p c))"

text \<open>The queries of \<open>hcge_open_context\<close>, in their short-circuit order: the registers and the queue.\<close>

definition open_query :: "'d ge_kernel \<Rightarrow> int \<Rightarrow> 'd ge_proc \<Rightarrow> (u32 \<times> u32 \<times> u32) option \<times> 'd ge_proc" where
  "open_query k fd p =
     (case ioctl k fd HCGE_GET_GE_REGISTER p of
        (None, p) \<Rightarrow> (None, p)
      | (Some r1, p) \<Rightarrow>
          let registers = (case r1 of Register r \<Rightarrow> r | _ \<Rightarrow> 0)
          in (case ioctl k fd HCGE_GET_CMDQ_BUFINFO p of
                (None, p) \<Rightarrow> (None, p)
              | (Some r2, p) \<Rightarrow>
                  let (addr, sz) = (case r2 of Bufinfo a s \<Rightarrow> (a, s) | _ \<Rightarrow> (0, 0))
                  in if addr = 0 \<or> sz \<le> 1056 then (None, p) else (Some (registers, addr, sz), p)))"

definition hcge_open_context :: "'d ge_kernel \<Rightarrow> nat option \<Rightarrow> 'd ge_proc \<Rightarrow> int \<times> 'd ge_proc" where
  "hcge_open_context k ctx p =
     (case ctx of None \<Rightarrow> (- EINVAL, p)
      | Some c \<Rightarrow>
          let p = set_ctx c hcge_context_zero p;
              (r, d) = k_open k (dev p);
              p = p\<lparr>dev := d\<rparr>
          in (case r of
                Inl e \<Rightarrow> (- e, p\<lparr>ge_errno := e\<rparr>)
              | Inr fd \<Rightarrow>
                  let p = set_ctx c (hcge_context_zero\<lparr>ge_fd := fd\<rparr>) p
                  in (case open_query k fd p of
                        (None, p) \<Rightarrow>
                          let err = (if ge_errno p \<noteq> 0 then - ge_errno p else - ENODEV);
                              p = p\<lparr>dev := k_close k (dev p) fd\<rparr>
                          in (err, set_ctx c (contexts p c\<lparr>ge_fd := -1\<rparr>) p)
                      | (Some (registers, addr, sz), p) \<Rightarrow>
                          let v = (contexts p c)\<lparr>ge_regs := registers, cmdq_buf_map_phyaddr := addr,
                                cmdq_buf_map_size := sz, cmdq_buf_phyaddr := addr + 1056,
                                cmdq_buf_size := sz - 1056, clut_tbl_paddr := addr + 32\<rparr>;
                              p = set_ctx c v p
                          in (case ioctl k fd HCGE_REQUEST_IRQ p of
                                (None, p) \<Rightarrow>
                                  let err = (if ge_errno p \<noteq> 0 then - ge_errno p else - EIO);
                                      p = p\<lparr>dev := k_close k (dev p) fd\<rparr>
                                  in (err, set_ctx c (contexts p c\<lparr>ge_fd := -1\<rparr>) p)
                              | (Some _, p) \<Rightarrow> (0, p)))))"

text \<open>\<open>block\<close> is what \<open>calloc\<close> returns; the second result is what is stored through \<open>pctx\<close>.\<close>

definition hcge_open :: "'d ge_kernel \<Rightarrow> bool \<Rightarrow> nat option \<Rightarrow> 'd ge_proc \<Rightarrow> int \<times> nat option \<times> 'd ge_proc" where
  "hcge_open k pctx block p =
     (if \<not> pctx then (- EINVAL, None, p)
      else case block of None \<Rightarrow> (- ENOMEM, None, p)
           | Some c \<Rightarrow>
               let (ret, p) = hcge_open_context k (Some c) p
               in if ret \<noteq> 0 then (ret, None, p) else (0, Some c, p))"

definition hcge_engine_sync :: "'d ge_kernel \<Rightarrow> nat option \<Rightarrow> 'd ge_proc \<Rightarrow> int \<times> 'd ge_proc" where
  "hcge_engine_sync k ctx p =
     (if hcge_context_fd ctx p < 0 then (- EINVAL, p)
      else ioctl_ret k (hcge_context_fd ctx p) (HCGE_SYNC_TIMEOUT 1000) p)"

definition hcge_close_context :: "'d ge_kernel \<Rightarrow> nat option \<Rightarrow> 'd ge_proc \<Rightarrow> 'd ge_proc" where
  "hcge_close_context k ctx p =
     (case ctx of None \<Rightarrow> p
      | Some c \<Rightarrow>
          let fd = ge_fd (contexts p c);
              p = (if fd \<ge> 0 then
                     let (_, p) = hcge_engine_sync k ctx p;
                         (_, p) = ioctl k fd HCGE_FREE_IRQ p
                     in p\<lparr>dev := k_close k (dev p) fd\<rparr>
                   else p)
          in set_ctx c hcge_context_zero p)"

definition hcge_close :: "'d ge_kernel \<Rightarrow> nat option \<Rightarrow> 'd ge_proc \<Rightarrow> 'd ge_proc" where
  "hcge_close k ctx p = (case ctx of None \<Rightarrow> p | Some c \<Rightarrow> hcge_close_context k ctx p)"

definition hcge_hw_reset :: "'d ge_kernel \<Rightarrow> nat option \<Rightarrow> 'd ge_proc \<Rightarrow> int \<times> 'd ge_proc" where
  "hcge_hw_reset k ctx p =
     (if hcge_context_fd ctx p < 0 then (- EINVAL, p)
      else ioctl_ret k (hcge_context_fd ctx p) HCGE_RESET p)"

definition hcge_reset :: "'d ge_kernel \<Rightarrow> nat option \<Rightarrow> 'd ge_proc \<Rightarrow> int \<times> 'd ge_proc" where
  "hcge_reset k ctx p =
     (case ctx of None \<Rightarrow> (- EINVAL, p)
      | Some c \<Rightarrow>
          let (ret, p) = hcge_hw_reset k ctx p
          in if ret \<noteq> 0 then (ret, p)
             else
               let v = contexts p c;
                   v = v\<lparr>nd_ctx := map_option (\<lambda>w. replicate 170 0 @ drop 170 w) (nd_ctx v)\<rparr>;
                   v = v\<lparr>blit_direct := False, clip_en := False, msk_en := False, matrix_en := False\<rparr>
               in (0, set_ctx c v p))"

definition hcge_set_clock :: "'d ge_kernel \<Rightarrow> nat option \<Rightarrow> u32 \<Rightarrow> 'd ge_proc \<Rightarrow> int \<times> 'd ge_proc" where
  "hcge_set_clock k ctx selector p =
     (if hcge_context_fd ctx p < 0 \<or> selector > 3 then (- EINVAL, p)
      else ioctl_ret k (hcge_context_fd ctx p) (HCGE_SET_CLOCK selector) p)"

section \<open>Submission and batches\<close>

definition node_hash :: "u32 list \<Rightarrow> u32" where
  "node_hash ws = fold (\<lambda>w h. (h XOR w) * 16777619) ws 2166136261"

definition hcge_capture_last_node :: "u32 list \<Rightarrow> u32 \<Rightarrow> 'd ge_proc \<Rightarrow> 'd ge_proc" where
  "hcge_capture_last_node node words p =
     (let words = (if words > of_nat HCGE_NODE_MAX_WORDS then of_nat HCGE_NODE_MAX_WORDS else words);
          n = unat words
      in p\<lparr>hcge_last_node := take n node @ drop n (hcge_last_node p),
           hcge_last_node_words := words,
           hcge_last_node_hash := node_hash (take n node)\<rparr>)"

text \<open>The result is the return value and, on success, the node, its length and its hash.\<close>

definition hcge_linux_last_node :: "bool \<Rightarrow> bool \<Rightarrow> 'd ge_proc \<Rightarrow> int \<times> (u32 list \<times> u32 \<times> u32) option" where
  "hcge_linux_last_node node_ptr words_ptr p =
     (if \<not> node_ptr \<or> \<not> words_ptr then (- EINVAL, None)
      else if hcge_last_node_words p = 0 then (- ENODATA, None)
      else (0, Some (hcge_last_node p, hcge_last_node_words p, hcge_last_node_hash p)))"

text \<open>The part of \<open>hcge_linux_submit\<close> that talks to the kernel.\<close>

definition submit_direct :: "'d ge_kernel \<Rightarrow> nat option \<Rightarrow> u32 list \<Rightarrow> u32 \<Rightarrow> 'd ge_proc \<Rightarrow> int \<times> 'd ge_proc" where
  "submit_direct k ctx node words p =
     (let fd = hcge_context_fd ctx p;
          req = HCGE_SUBMIT (take (unat words) node)
      in case ioctl k fd req p of
           (Some _, p) \<Rightarrow> (0, hcge_capture_last_node node words p)
         | (None, p) \<Rightarrow>
             let err = ge_errno p
             in if err \<noteq> EBUSY then (- err, p)
                else (case hcge_engine_sync k ctx p of
                   (s, p) \<Rightarrow>
                     if s < 0 then (- EIO, p)
                     else (case ioctl k fd req p of
                        (Some _, p) \<Rightarrow> (0, hcge_capture_last_node node words p)
                      | (None, p) \<Rightarrow> (- ge_errno p, p))))"

definition hcge_linux_submit :: "'d ge_kernel \<Rightarrow> nat option \<Rightarrow> u32 list option \<Rightarrow> u32 \<Rightarrow> 'd ge_proc \<Rightarrow>
    int \<times> 'd ge_proc" where
  "hcge_linux_submit k ctx node words p =
     (case (ctx, node) of
        (Some c, Some node) \<Rightarrow>
          if hcge_context_fd ctx p < 0 \<or> words = 0 \<or> words > cmdq_buf_size (contexts p c) div 4
          then (- EINVAL, p)
          else (case ctx_batch (contexts p c) of
             Some b \<Rightarrow>
               let bt = batches p b
               in if bt_context bt \<noteq> ctx \<or> bt_error bt \<noteq> 0
                  then (if bt_error bt \<noteq> 0 then bt_error bt else - EINVAL, p)
                  else if words > bt_capacity bt - bt_words bt
                  then (- ENOSPC, set_batch b (bt\<lparr>bt_error := - ENOSPC\<rparr>) p)
                  else
                    let o1 = unat (bt_words bt); n = unat words;
                        buf = take o1 (bt_buffer bt) @ take n node @ drop (o1 + n) (bt_buffer bt)
                    in (0, set_batch b (bt\<lparr>bt_buffer := buf, bt_words := bt_words bt + words\<rparr>) p)
           | None \<Rightarrow> submit_direct k ctx node words p)
      | _ \<Rightarrow> (- EINVAL, p))"

definition hcge_batch_begin :: "nat option \<Rightarrow> nat option \<Rightarrow> u32 list option \<Rightarrow> u32 \<Rightarrow> 'd ge_proc \<Rightarrow>
    int \<times> 'd ge_proc" where
  "hcge_batch_begin ctx batch buffer capacity_words p =
     (case (ctx, batch, buffer) of
        (Some c, Some b, Some buf) \<Rightarrow>
          if hcge_context_fd ctx p < 0 \<or> capacity_words = 0 \<or> ctx_batch (contexts p c) \<noteq> None
          then (- EINVAL, p)
          else
            let p = set_batch b \<lparr>bt_context = ctx, bt_buffer = buf, bt_capacity = capacity_words,
                  bt_words = 0, bt_error = 0\<rparr> p
            in (0, set_ctx c (contexts p c\<lparr>ctx_batch := batch\<rparr>) p)
      | _ \<Rightarrow> (- EINVAL, p))"

definition hcge_batch_end :: "'d ge_kernel \<Rightarrow> nat option \<Rightarrow> bool \<Rightarrow> 'd ge_proc \<Rightarrow> int \<times> 'd ge_proc" where
  "hcge_batch_end k batch wait p =
     (case batch of None \<Rightarrow> (- EINVAL, p)
      | Some b \<Rightarrow>
          (case bt_context (batches p b) of None \<Rightarrow> (- EINVAL, p)
           | Some c \<Rightarrow>
               if ctx_batch (contexts p c) \<noteq> batch then (- EINVAL, p)
               else
                 let p = set_ctx c (contexts p c\<lparr>ctx_batch := None\<rparr>) p;
                     bt = batches p b;
                     (ret, p) = (if bt_error bt = 0 \<and> bt_words bt \<noteq> 0
                                 then hcge_linux_submit k (Some c) (Some (bt_buffer bt)) (bt_words bt) p
                                 else (bt_error bt, p));
                     (ret, p) = (if ret = 0 \<and> wait then hcge_engine_sync k (Some c) p else (ret, p))
                 in (ret, set_batch b ((batches p b)\<lparr>bt_context := None\<rparr>) p)))"

section \<open>Cached memory\<close>

definition hcge_linux_cached_phys :: "u32 \<Rightarrow> u32" where
  "hcge_linux_cached_phys val =
     (if val < 0x80000000 \<or> val \<ge> 0xa0000000 then 0 else val AND 0x1fffffff)"

text \<open>The result is the returned address, and what is stored through \<open>physical\<close> and \<open>handle\<close>.\<close>

definition hcge_linux_alloc_buffer :: "'d ge_kernel \<Rightarrow> nat option \<Rightarrow> u32 \<Rightarrow> bool \<Rightarrow> bool \<Rightarrow> 'd ge_proc \<Rightarrow>
    (u32 \<times> u32 \<times> u32) option \<times> 'd ge_proc" where
  "hcge_linux_alloc_buffer k ctx bytes physical handle p =
     (if hcge_context_fd ctx p < 0 \<or> bytes = 0 \<or> \<not> physical \<or> \<not> handle then (None, p)
      else (case ioctl k (hcge_context_fd ctx p) (HCGE_ALLOC_BUFFER bytes) p of
              (None, p) \<Rightarrow> (None, p)
            | (Some (Buffer address ph h), p) \<Rightarrow> (Some (address, ph, h), p)
            | (Some _, p) \<Rightarrow> (Some (0, 0, 0), p)))"

definition hcge_linux_free_buffer :: "'d ge_kernel \<Rightarrow> nat option \<Rightarrow> u32 \<Rightarrow> 'd ge_proc \<Rightarrow> int \<times> 'd ge_proc" where
  "hcge_linux_free_buffer k ctx handle p =
     (if hcge_context_fd ctx p < 0 \<or> handle = 0 then (- EINVAL, p)
      else ioctl_ret k (hcge_context_fd ctx p) (HCGE_FREE_BUFFER handle) p)"

definition hcge_linux_cache_clean :: "'d ge_kernel \<Rightarrow> nat option \<Rightarrow> u32 \<Rightarrow> u32 \<Rightarrow> 'd ge_proc \<Rightarrow>
    int \<times> 'd ge_proc" where
  "hcge_linux_cache_clean k ctx address bytes p =
     (if hcge_context_fd ctx p < 0 \<or> address = 0 \<or> bytes = 0 then (- EINVAL, p)
      else
        let range = \<lparr>cr_address = hcge_linux_cached_phys address, cr_length = bytes\<rparr>
        in if cr_address range = 0 then (- EINVAL, p)
           else ioctl_ret k (hcge_context_fd ctx p) (HCGE_CACHE_CLEAN range) p)"

text \<open>The surface is an in/out argument.\<close>

definition hcge_linux_prepare_cached :: "'d ge_kernel \<Rightarrow> nat option \<Rightarrow> HCGE_CoreSurfaceBuffer option \<Rightarrow> u32 \<Rightarrow>
    u32 \<Rightarrow> u32 \<Rightarrow> 'd ge_proc \<Rightarrow> int \<times> HCGE_CoreSurfaceBuffer option \<times> 'd ge_proc" where
  "hcge_linux_prepare_cached k ctx surface address ptch height p =
     (case surface of None \<Rightarrow> (- EINVAL, surface, p)
      | Some sf \<Rightarrow>
          if ptch = 0 \<or> height = 0 \<or> height > 0xffffffff div ptch then (- EINVAL, surface, p)
          else
            let physical = hcge_linux_cached_phys address
            in if physical = 0 then (- EINVAL, surface, p)
               else
                 let (r, p) = hcge_linux_cache_clean k ctx address (ptch * height) p
                 in if r < 0 then (- EIO, surface, p)
                    else (0, Some (sf\<lparr>phys := physical, pitch := ptch\<rparr>), p))"

text \<open>
  The byte span of a rectangle in a buffer, computed alike by the next two functions: \<open>None\<close> is
  their \<open>-EINVAL\<close>, otherwise the offset of the first byte and the number of bytes, in 64 bits.
\<close>

definition rect_span :: "u32 \<Rightarrow> u32 \<Rightarrow> HCGERectangle \<Rightarrow> (u64 \<times> u64) option" where
  "rect_span ptch bytes_per_pixel r =
     (if rx r < 0 \<or> ry r < 0 \<or> rw r \<le> 0 \<or> rh r \<le> 0 \<or>
         ((ucast (word_of_int (rx r) :: u32) :: u64) + ucast (word_of_int (rw r) :: u32)) *
           ucast bytes_per_pixel > ucast ptch
      then None
      else
        let offset = (word_of_int (ry r) :: u64) * ucast ptch + word_of_int (rx r) * ucast bytes_per_pixel;
            bytes = (word_of_int (rh r - 1) :: u64) * ucast ptch + word_of_int (rw r) * ucast bytes_per_pixel
        in if offset > 0xffffffff \<or> bytes > 0xffffffff then None else Some (offset, bytes))"

definition hcge_linux_cache_clean_rect :: "'d ge_kernel \<Rightarrow> nat option \<Rightarrow> u32 \<Rightarrow> u32 \<Rightarrow> u32 \<Rightarrow>
    HCGERectangle option \<Rightarrow> 'd ge_proc \<Rightarrow> int \<times> 'd ge_proc" where
  "hcge_linux_cache_clean_rect k ctx address ptch bytes_per_pixel rectangle p =
     (case rectangle of None \<Rightarrow> (- EINVAL, p)
      | Some r \<Rightarrow>
          if address = 0 \<or> ptch = 0 \<or> bytes_per_pixel = 0 then (- EINVAL, p)
          else (case rect_span ptch bytes_per_pixel r of
                  None \<Rightarrow> (- EINVAL, p)
                | Some (offset, bytes) \<Rightarrow>
                    hcge_linux_cache_clean k ctx (address + ucast offset) (ucast bytes) p))"

text \<open>The loop that fills the batch of ranges.\<close>

fun clean_ranges :: "u32 \<Rightarrow> u32 \<Rightarrow> u32 \<Rightarrow> HCGERectangle list \<Rightarrow> hcge_linux_cache_range list option" where
  "clean_ranges address ptch bytes_per_pixel [] = Some []"
| "clean_ranges address ptch bytes_per_pixel (r # rs) =
     (case rect_span ptch bytes_per_pixel r of
        None \<Rightarrow> None
      | Some (offset, bytes) \<Rightarrow>
          let physical = hcge_linux_cached_phys (address + ucast offset)
          in if physical = 0 then None
             else map_option (\<lambda>xs. \<lparr>cr_address = physical, cr_length = ucast bytes\<rparr> # xs)
                    (clean_ranges address ptch bytes_per_pixel rs))"

definition hcge_linux_cache_clean_rects :: "'d ge_kernel \<Rightarrow> nat option \<Rightarrow> u32 \<Rightarrow> u32 \<Rightarrow> u32 \<Rightarrow>
    HCGERectangle list option \<Rightarrow> u32 \<Rightarrow> 'd ge_proc \<Rightarrow> int \<times> 'd ge_proc" where
  "hcge_linux_cache_clean_rects k ctx address ptch bytes_per_pixel rectangles cnt p =
     (case rectangles of None \<Rightarrow> (- EINVAL, p)
      | Some rs \<Rightarrow>
          if hcge_context_fd ctx p < 0 \<or> address = 0 \<or> cnt = 0 \<or> cnt > 8 \<or> ptch = 0 \<or>
             bytes_per_pixel = 0 then (- EINVAL, p)
          else (case clean_ranges address ptch bytes_per_pixel (take (unat cnt) rs) of
                  None \<Rightarrow> (- EINVAL, p)
                | Some ranges \<Rightarrow> ioctl_ret k (hcge_context_fd ctx p) (HCGE_CACHE_CLEAN_BATCH ranges) p))"

section \<open>The vendor queue entry points\<close>

definition hcge_cmdq_vaddr :: "hcge_context option \<Rightarrow> u32 \<Rightarrow> u32" where
  "hcge_cmdq_vaddr ctx physical_address =
     (case ctx of None \<Rightarrow> 0
      | Some c \<Rightarrow> if physical_address < cmdq_buf_phyaddr c then 0
                 else cmdq_buf_vaddr c + physical_address - cmdq_buf_phyaddr c)"

definition hcge_cmdq_paddr :: "hcge_context option \<Rightarrow> u32 \<Rightarrow> u32" where
  "hcge_cmdq_paddr ctx virtual_address =
     (case ctx of None \<Rightarrow> 0
      | Some c \<Rightarrow> cmdq_buf_phyaddr c + virtual_address - cmdq_buf_vaddr c)"

text \<open>\<open>*buffer\<close> is a buffer and a cursor; \<open>None\<close> is an access out of bounds.\<close>

definition hcge_construct_nodes :: "hcge_context option \<Rightarrow> (u32 list \<times> nat) option \<Rightarrow>
    (u32 list \<times> nat) option option" where
  "hcge_construct_nodes ctx buffer =
     (case (ctx, buffer) of
        (Some c, Some (mem, cursor)) \<Rightarrow>
          (case nd_ctx c of None \<Rightarrow> Some buffer
           | Some nctx \<Rightarrow>
               (case hcge_node_build (Some nctx) (Some (drop cursor mem)) HCGE_NODE_MAX_WORDS True of
                  None \<Rightarrow> None
                | Some (ret, out, words) \<Rightarrow>
                    let mem = take cursor mem @ (case out of None \<Rightarrow> [] | Some o1 \<Rightarrow> o1)
                    in Some (Some (mem, if ret = 0 then cursor + (case words of None \<Rightarrow> 0 | Some n \<Rightarrow> n) else cursor))))
      | _ \<Rightarrow> Some buffer)"

definition hcge_feed_nodes :: "'d ge_kernel \<Rightarrow> nat option \<Rightarrow> u32 list option \<Rightarrow> int \<Rightarrow> 'd ge_proc \<Rightarrow> 'd ge_proc" where
  "hcge_feed_nodes k ctx buffer_start words p =
     (if ctx = None \<or> buffer_start = None \<or> words \<le> 0 then p
      else snd (hcge_linux_submit k ctx buffer_start (word_of_int words) p))"

section \<open>Submission, abstractly\<close>

text \<open>
  What a submission does to the device: at most two attempts, the second only after a successful
  wait that follows a busy answer.
\<close>

definition device_submit :: "'d ge_kernel \<Rightarrow> int \<Rightarrow> u32 list \<Rightarrow> 'd \<Rightarrow> int \<times> 'd" where
  "device_submit k fd ws d =
     (case k_ioctl k d fd (HCGE_SUBMIT ws) of
        (Inr _, d) \<Rightarrow> (0, d)
      | (Inl e, d) \<Rightarrow>
          if e \<noteq> EBUSY then (- e, d)
          else (case k_ioctl k d fd (HCGE_SYNC_TIMEOUT 1000) of
                  (Inl _, d) \<Rightarrow> (- EIO, d)
                | (Inr _, d) \<Rightarrow>
                    (case k_ioctl k d fd (HCGE_SUBMIT ws) of
                       (Inr _, d) \<Rightarrow> (0, d) | (Inl e, d) \<Rightarrow> (- e, d))))"

definition device_sync :: "'d ge_kernel \<Rightarrow> int \<Rightarrow> 'd \<Rightarrow> int \<times> 'd" where
  "device_sync k fd d =
     (case k_ioctl k d fd (HCGE_SYNC_TIMEOUT 1000) of (Inl e, d) \<Rightarrow> (- e, d) | (Inr _, d) \<Rightarrow> (0, d))"

lemma store_simps [simp]:
  "contexts (set_ctx c v p) = (contexts p)(c := v)" "batches (set_ctx c v p) = batches p"
  "dev (set_ctx c v p) = dev p" "ge_errno (set_ctx c v p) = ge_errno p"
  "contexts (set_batch b w p) = contexts p" "batches (set_batch b w p) = (batches p)(b := w)"
  "dev (set_batch b w p) = dev p" "ge_errno (set_batch b w p) = ge_errno p"
  by (simp_all add: set_ctx_def set_batch_def)

lemma ioctl_cases:
  "ioctl k fd req p =
     (case k_ioctl k (dev p) fd req of
        (Inl e, d) \<Rightarrow> (None, p\<lparr>dev := d, ge_errno := e\<rparr>) | (Inr r, d) \<Rightarrow> (Some r, p\<lparr>dev := d\<rparr>))"
  by (auto simp: ioctl_def split: prod.splits sum.splits)

lemma capture_dev [simp]:
  "dev (hcge_capture_last_node node w p) = dev p" "contexts (hcge_capture_last_node node w p) = contexts p"
  "batches (hcge_capture_last_node node w p) = batches p"
  by (simp_all add: hcge_capture_last_node_def Let_def)

lemma ioctl_stores [simp]:
  "contexts (snd (ioctl k fd req p)) = contexts p" "batches (snd (ioctl k fd req p)) = batches p"
  by (simp_all add: ioctl_cases split: prod.split sum.split)

lemma hcge_context_fd_dev [simp]:
  "hcge_context_fd c (p\<lparr>dev := d\<rparr>) = hcge_context_fd c p"
  "hcge_context_fd c (p\<lparr>ge_errno := e\<rparr>) = hcge_context_fd c p"
  by (simp_all add: hcge_context_fd_def split: option.split)

text \<open>Submission and waiting leave both stores alone.\<close>

lemma engine_sync_stores [simp]:
  "contexts (snd (hcge_engine_sync k ctx p)) = contexts p"
  "batches (snd (hcge_engine_sync k ctx p)) = batches p"
  by (simp_all add: hcge_engine_sync_def ioctl_ret_def split_def Let_def)

lemma submit_direct_stores [simp]:
  "contexts (snd (submit_direct k ctx node w p)) = contexts p"
  "batches (snd (submit_direct k ctx node w p)) = batches p"
  by (auto simp: submit_direct_def ioctl_cases hcge_engine_sync_def ioctl_ret_def Let_def
      split: prod.splits sum.splits)

context ge_syscalls
begin

lemma engine_sync_refines:
  assumes "0 \<le> hcge_context_fd ctx p" and "hcge_engine_sync k ctx p = (ret, p')"
  shows "(ret, dev p') = device_sync k (hcge_context_fd ctx p) (dev p)"
  using assms
  by (auto simp: hcge_engine_sync_def ioctl_ret_def ioctl_cases device_sync_def split: prod.splits sum.splits)

text \<open>The code refines the abstract submission: same return value, same effect on the device.\<close>

lemma submit_direct_refines:
  assumes fd: "0 \<le> hcge_context_fd ctx p" and s: "submit_direct k ctx node w p = (ret, p')"
  shows "(ret, dev p') = device_submit k (hcge_context_fd ctx p) (take (unat w) node) (dev p)"
proof -
  let ?fd = "hcge_context_fd ctx p" and ?req = "HCGE_SUBMIT (take (unat w) node)"
  obtain r1 d1 where 1: "k_ioctl k (dev p) ?fd ?req = (r1, d1)" by fastforce
  show ?thesis
  proof (cases r1)
    case (Inr _)
    then show ?thesis using s 1 by (auto simp: submit_direct_def device_submit_def ioctl_cases Let_def)
  next
    case (Inl e)
    show ?thesis
    proof (cases "e = EBUSY")
      case False
      then show ?thesis
        using s 1 Inl by (auto simp: submit_direct_def device_submit_def ioctl_cases Let_def)
    next
      case True
      obtain r2 d2 where 2: "k_ioctl k d1 ?fd (HCGE_SYNC_TIMEOUT 1000) = (r2, d2)" by fastforce
      obtain r3 d3 where 3: "k_ioctl k d2 ?fd ?req = (r3, d3)" by fastforce
      let ?p1 = "p\<lparr>dev := d1, ge_errno := EBUSY\<rparr>"
      have sync: "hcge_engine_sync k ctx ?p1 = (case r2 of Inl e2 \<Rightarrow> (- e2, ?p1\<lparr>dev := d2, ge_errno := e2\<rparr>)
          | Inr _ \<Rightarrow> (0, ?p1\<lparr>dev := d2\<rparr>))"
        using fd 2 by (simp add: hcge_engine_sync_def ioctl_ret_def ioctl_cases Let_def split: sum.split)
      have sd: "submit_direct k ctx node w p = (case hcge_engine_sync k ctx ?p1 of (sr, p2) \<Rightarrow>
          if sr < 0 then (- EIO, p2)
          else (case ioctl k ?fd ?req p2 of (Some _, p) \<Rightarrow> (0, hcge_capture_last_node node w p)
                | (None, p) \<Rightarrow> (- ge_errno p, p)))"
        using 1 Inl True by (simp add: submit_direct_def ioctl_cases [of k ?fd ?req p] Let_def)
      show ?thesis
      proof (cases r2)
        case (Inl e2)
        have "0 < e2" using ioctl_errno 2 Inl by blast
        then show ?thesis
          using s 1 \<open>r1 = Inl e\<close> True 2 Inl unfolding sd sync by (auto simp: device_submit_def)
      next
        case (Inr _)
        then show ?thesis
          using s 1 \<open>r1 = Inl e\<close> True 2 3 unfolding sd sync
          by (cases r3) (simp_all add: device_submit_def ioctl_cases, auto)
      qed
    qed
  qed
qed

lemma device_submit_nonpos: "fst (device_submit k fd ws d) \<le> 0"
  by (auto simp: device_submit_def split: prod.split sum.split dest: ioctl_errno)

lemma device_sync_nonpos: "fst (device_sync k fd d) \<le> 0"
  by (auto simp: device_sync_def split: prod.split sum.split dest: ioctl_errno)

end

section \<open>The recording kernel\<close>

text \<open>
  A kernel that answers from an arbitrary list (an error number minus one, or a reply; success once
  the list is used up) and records every call and whether it was accepted.
\<close>

datatype ge_event = GeOpen "int option" | GeClose int | GeIoctl int ge_request bool

record ge_trace =
  ge_answers :: "(nat + ge_reply) list"
  ge_new_fd :: nat
  ge_log :: "ge_event list"

definition ge_answer :: "ge_trace \<Rightarrow> nat + ge_reply" where
  "ge_answer d = (case ge_answers d of [] \<Rightarrow> Inr Done | a # _ \<Rightarrow> a)"

definition trace_open :: "ge_trace \<Rightarrow> (int + int) \<times> ge_trace" where
  "trace_open d =
     (case ge_answer d of
        Inl e \<Rightarrow> (Inl (1 + int e), d\<lparr>ge_answers := tl (ge_answers d), ge_log := ge_log d @ [GeOpen None]\<rparr>)
      | Inr _ \<Rightarrow> (Inr (int (ge_new_fd d)),
          d\<lparr>ge_answers := tl (ge_answers d), ge_log := ge_log d @ [GeOpen (Some (int (ge_new_fd d)))]\<rparr>))"

definition trace_ioctl :: "ge_trace \<Rightarrow> int \<Rightarrow> ge_request \<Rightarrow> (int + ge_reply) \<times> ge_trace" where
  "trace_ioctl d fd req =
     (case ge_answer d of
        Inl e \<Rightarrow> (Inl (1 + int e),
          d\<lparr>ge_answers := tl (ge_answers d), ge_log := ge_log d @ [GeIoctl fd req False]\<rparr>)
      | Inr r \<Rightarrow> (Inr r, d\<lparr>ge_answers := tl (ge_answers d), ge_log := ge_log d @ [GeIoctl fd req True]\<rparr>))"

definition trace_kernel :: "ge_trace ge_kernel" where
  "trace_kernel = \<lparr>k_open = trace_open, k_close = (\<lambda>d fd. d\<lparr>ge_log := ge_log d @ [GeClose fd]\<rparr>),
     k_ioctl = trace_ioctl\<rparr>"

interpretation recording: ge_syscalls trace_kernel
  by unfold_locales
    (auto simp: trace_kernel_def trace_open_def trace_ioctl_def split: sum.splits)

lemma trace_ioctl_log:
  assumes "k_ioctl trace_kernel d fd req = (r, d')"
  shows "ge_log d' = ge_log d @ [GeIoctl fd req (\<exists>x. r = Inr x)]"
  using assms by (auto simp: trace_kernel_def trace_ioctl_def split: sum.splits)

text \<open>The calls of a submission, and what its return value says about them.\<close>

definition submitted :: "int \<Rightarrow> u32 list \<Rightarrow> ge_event list \<Rightarrow> nat" where
  "submitted fd ws es = length (filter (\<lambda>e. e = GeIoctl fd (HCGE_SUBMIT ws) True) es)"

lemma device_submit_log:
  assumes "device_submit trace_kernel fd ws d = (ret, d')"
  shows "\<exists>es. ge_log d' = ge_log d @ es \<and> length es \<le> 3 \<and> submitted fd ws es = (if ret = 0 then 1 else 0)"
proof -
  let ?S = "HCGE_SUBMIT ws" and ?Y = "HCGE_SYNC_TIMEOUT 1000"
  obtain r1 d1 where 1: "k_ioctl trace_kernel d fd ?S = (r1, d1)" by fastforce
  obtain r2 d2 where 2: "k_ioctl trace_kernel d1 fd ?Y = (r2, d2)" by fastforce
  obtain r3 d3 where 3: "k_ioctl trace_kernel d2 fd ?S = (r3, d3)" by fastforce
  note l = trace_ioctl_log [OF 1] trace_ioctl_log [OF 2] trace_ioctl_log [OF 3]
  note e = recording.ioctl_errno
  show ?thesis
  proof (cases r1)
    case (Inr x)
    then show ?thesis using assms 1 l(1) by (auto simp: device_submit_def submitted_def)
  next
    case (Inl e1)
    have e1: "0 < e1" using e 1 Inl by blast
    show ?thesis
    proof (cases "e1 = EBUSY")
      case False
      then show ?thesis using assms 1 l(1) Inl e1 by (auto simp: device_submit_def submitted_def)
    next
      case True
      show ?thesis
      proof (cases r2)
        case (Inl x)
        then show ?thesis
          using assms 1 2 l(1,2) \<open>r1 = Inl e1\<close> True by (auto simp: device_submit_def submitted_def)
      next
        case (Inr x)
        then show ?thesis
          using assms 1 2 3 l \<open>r1 = Inl e1\<close> True e [of d2 fd ?S]
          by (cases r3) (auto simp: device_submit_def submitted_def)
      qed
    qed
  qed
qed

lemma submit_direct_captured:
  assumes "ge_syscalls k" and "submit_direct k ctx node w p = (0, p')"
  shows "\<exists>q. p' = hcge_capture_last_node node w q"
proof -
  have "k_ioctl k d fd req \<noteq> (Inl 0, d')" for d fd req d'
    using ge_syscalls.ioctl_errno [OF assms(1)] by fastforce
  then show ?thesis
    using assms(2)
    by (auto simp: submit_direct_def ioctl_cases Let_def split: prod.splits sum.splits if_splits)
qed

lemma submit_unbatched:
  assumes "0 \<le> ge_fd (contexts p c)" "ctx_batch (contexts p c) = None" "w \<noteq> 0"
    "w \<le> cmdq_buf_size (contexts p c) div 4"
  shows "hcge_linux_submit k (Some c) (Some node) w p = submit_direct k (Some c) node w p"
proof -
  have "\<not> cmdq_buf_size (contexts p c) div 4 < w" using assms(4) by (simp add: not_less)
  then show ?thesis using assms(1-3) by (simp add: hcge_linux_submit_def hcge_context_fd_def)
qed

section \<open>Batches\<close>

text \<open>\<open>collecting p c b ws\<close>: context \<open>c\<close> collects into batch \<open>b\<close>, which holds the words \<open>ws\<close> so far.\<close>

definition collecting :: "'d ge_proc \<Rightarrow> nat \<Rightarrow> nat \<Rightarrow> u32 list \<Rightarrow> bool" where
  "collecting p c b ws \<longleftrightarrow>
     0 \<le> ge_fd (contexts p c) \<and> ctx_batch (contexts p c) = Some b \<and>
     bt_context (batches p b) = Some c \<and> bt_error (batches p b) = 0 \<and>
     unat (bt_words (batches p b)) = length ws \<and> length ws \<le> unat (bt_capacity (batches p b)) \<and>
     unat (bt_capacity (batches p b)) \<le> length (bt_buffer (batches p b)) \<and>
     take (length ws) (bt_buffer (batches p b)) = ws"

text \<open>\<open>overflowed p c b\<close>: a node did not fit; the error sticks.\<close>

definition overflowed :: "'d ge_proc \<Rightarrow> nat \<Rightarrow> nat \<Rightarrow> bool" where
  "overflowed p c b \<longleftrightarrow> 0 \<le> ge_fd (contexts p c) \<and> ctx_batch (contexts p c) = Some b \<and>
     bt_context (batches p b) = Some c \<and> bt_error (batches p b) = - ENOSPC"

definition submit_node :: "'d ge_kernel \<Rightarrow> nat \<Rightarrow> u32 list \<Rightarrow> 'd ge_proc \<Rightarrow> 'd ge_proc" where
  "submit_node k c node p = snd (hcge_linux_submit k (Some c) (Some node) (of_nat (length node)) p)"

text \<open>A node the context accepts: not empty and not longer than the queue.\<close>

definition queueable :: "hcge_context \<Rightarrow> u32 list \<Rightarrow> bool" where
  "queueable ctx node \<longleftrightarrow> node \<noteq> [] \<and> length node \<le> unat (cmdq_buf_size ctx div 4)"

lemma queueable_word:
  assumes "queueable ctx node"
  shows "unat (of_nat (length node) :: u32) = length node" "(of_nat (length node) :: u32) \<noteq> 0"
    "(of_nat (length node) :: u32) \<le> cmdq_buf_size ctx div 4"
proof -
  have "length node < 2 ^ 32"
    using assms unsigned_less [of "cmdq_buf_size ctx div 4", where 'a = nat] by (simp add: queueable_def)
  then show u: "unat (of_nat (length node) :: u32) = length node" by (simp add: unsigned_of_nat take_bit_nat_eq_self_iff)
  show "(of_nat (length node) :: u32) \<noteq> 0" using assms u by (auto simp: queueable_def)
  show "(of_nat (length node) :: u32) \<le> cmdq_buf_size ctx div 4"
    using assms u by (simp add: queueable_def word_le_nat_alt)
qed

lemma collect_step:
  assumes c: "collecting p c b ws" and q: "queueable (contexts p c) node"
  shows "dev (submit_node k c node p) = dev p \<and> contexts (submit_node k c node p) = contexts p \<and>
    bt_capacity (batches (submit_node k c node p) b) = bt_capacity (batches p b) \<and>
    (if length (ws @ node) \<le> unat (bt_capacity (batches p b))
     then collecting (submit_node k c node p) c b (ws @ node)
     else overflowed (submit_node k c node p) c b)"
proof -
  note w = queueable_word [OF q]
  let ?bt = "batches p b"
  have le: "bt_words ?bt \<le> bt_capacity ?bt" using c by (simp add: collecting_def word_le_nat_alt)
  have room: "(of_nat (length node) :: u32) > bt_capacity ?bt - bt_words ?bt \<longleftrightarrow>
      \<not> length (ws @ node) \<le> unat (bt_capacity ?bt)"
  proof -
    have "unat (bt_capacity ?bt - bt_words ?bt) = unat (bt_capacity ?bt) - length ws"
      using c unat_sub [OF le] by (simp add: collecting_def)
    then show ?thesis using w c by (auto simp: word_less_nat_alt collecting_def)
  qed
  show ?thesis
  proof (cases "length (ws @ node) \<le> unat (bt_capacity ?bt)")
    case True
    let ?buf = "take (length ws) (bt_buffer ?bt) @ node @ drop (length ws + length node) (bt_buffer ?bt)"
    have s: "submit_node k c node p =
        set_batch b (?bt\<lparr>bt_buffer := ?buf, bt_words := bt_words ?bt + of_nat (length node)\<rparr>) p"
      using c w room True
      by (simp add: submit_node_def hcge_linux_submit_def collecting_def hcge_context_fd_def Let_def not_less)
    have "unat (bt_words ?bt + of_nat (length node)) = length (ws @ node)"
    proof -
      have "unat (bt_words ?bt) + unat (of_nat (length node) :: u32) < 2 ^ LENGTH(32)"
        using c w(1) True unsigned_less [of "bt_capacity ?bt", where 'a = nat] by (simp add: collecting_def)
      then show ?thesis using c w(1) by (simp add: unat_add_lem [THEN iffD1] collecting_def)
    qed
    then show ?thesis using True c unfolding s by (auto simp: collecting_def)
  next
    case False
    then have "submit_node k c node p = set_batch b (?bt\<lparr>bt_error := - ENOSPC\<rparr>) p"
      using c w room
      by (simp add: submit_node_def hcge_linux_submit_def collecting_def hcge_context_fd_def Let_def not_less)
    then show ?thesis using False c by (simp add: overflowed_def collecting_def)
  qed
qed

lemma overflow_step:
  assumes "overflowed p c b" and "queueable (contexts p c) node"
  shows "submit_node k c node p = p"
  using assms queueable_word [OF assms(2)]
  by (simp add: submit_node_def hcge_linux_submit_def overflowed_def hcge_context_fd_def Let_def not_less)

lemma overflow_fold:
  assumes "overflowed p c b" and "\<And>n. n \<in> set nodes \<Longrightarrow> queueable (contexts p c) n"
  shows "fold (submit_node k c) nodes p = p"
  using assms by (induction nodes arbitrary: p) (simp_all add: overflow_step)

lemma collect_fold:
  assumes "collecting p c b ws" and "\<And>n. n \<in> set nodes \<Longrightarrow> queueable (contexts p c) n"
    and "p' = fold (submit_node k c) nodes p"
  shows "dev p' = dev p \<and> contexts p' = contexts p \<and>
    (if length (ws @ concat nodes) \<le> unat (bt_capacity (batches p b))
     then collecting p' c b (ws @ concat nodes) else overflowed p' c b)"
  using assms
proof (induction nodes arbitrary: p ws)
  case Nil
  then show ?case by (auto simp: collecting_def)
next
  case (Cons n nodes)
  let ?q = "submit_node k c n p"
  note st = collect_step [OF Cons.prems(1) Cons.prems(2) [of n], of k, simplified]
  show ?case
  proof (cases "length (ws @ n) \<le> unat (bt_capacity (batches p b))")
    case True
    then have "collecting ?q c b (ws @ n)" using st by simp
    moreover have "\<And>m. m \<in> set nodes \<Longrightarrow> queueable (contexts ?q c) m" using Cons.prems(2) st by simp
    moreover have "p' = fold (submit_node k c) nodes ?q" using Cons.prems(3) by simp
    ultimately have "dev p' = dev ?q \<and> contexts p' = contexts ?q \<and>
        (if length ((ws @ n) @ concat nodes) \<le> unat (bt_capacity (batches ?q b))
         then collecting p' c b ((ws @ n) @ concat nodes) else overflowed p' c b)"
      by (rule Cons.IH)
    then show ?thesis using st by (simp only: concat.simps append_assoc) simp
  next
    case False
    then have ov: "overflowed ?q c b" using st by simp
    have "fold (submit_node k c) nodes ?q = ?q"
      by (rule overflow_fold [OF ov]) (use Cons.prems(2) st in simp)
    then show ?thesis using False ov st Cons.prems(3) by auto
  qed
qed

section \<open>Spans\<close>

text \<open>A rectangle of C ints.\<close>

definition int_rect :: "HCGERectangle \<Rightarrow> bool" where
  "int_rect r \<longleftrightarrow> rx r < 2 ^ 31 \<and> ry r < 2 ^ 31 \<and> rw r < 2 ^ 31 \<and> rh r < 2 ^ 31"

lemma uint_mult_add_64:
  fixes a b :: int and v w :: u32
  assumes "0 \<le> a" "a < 2 ^ 31" "0 \<le> b" "b < 2 ^ 31"
  shows "uint ((word_of_int a :: u64) * ucast v + word_of_int b * ucast w) = a * uint v + b * uint w"
proof -
  have v: "uint v < 2 ^ 32" "uint w < 2 ^ 32" using uint_lt2p [of v] uint_lt2p [of w] by simp_all
  have c: "a \<le> 2 ^ 31 - 1" "b \<le> 2 ^ 31 - 1" "uint v \<le> 2 ^ 32 - 1" "uint w \<le> 2 ^ 32 - 1"
    using assms v by linarith+
  have "a * uint v \<le> (2 ^ 31 - 1) * (2 ^ 32 - 1)"
    by (rule mult_mono [OF c(1,3)]) simp_all
  moreover have "b * uint w \<le> (2 ^ 31 - 1) * (2 ^ 32 - 1)"
    by (rule mult_mono [OF c(2,4)]) simp_all
  ultimately have b: "0 \<le> a * uint v + b * uint w" "a * uint v + b * uint w < 2 ^ LENGTH(64)"
    using assms(1,3) by simp_all
  have u: "(ucast v :: u64) = word_of_int (uint v)" "(ucast w :: u64) = word_of_int (uint w)"
    by (rule ucast_eq)+
  have "(word_of_int a :: u64) * ucast v + word_of_int b * ucast w =
      word_of_int (a * uint v + b * uint w)" unfolding u by (simp only: wi_hom_mult wi_hom_add)
  then show ?thesis using uint_word_of_int_id [OF b] by simp
qed

lemma uint_ucast_64: "uint (ucast (w :: u32) :: u64) = uint w"
proof -
  have "uint w < 2 ^ LENGTH(64)" using uint_lt2p [of w] by simp
  then show ?thesis unfolding ucast_eq by (intro uint_word_of_int_id) simp_all
qed

lemma rect_span_exact:
  assumes "rect_span ptch bpp' r = Some (off, n)" and "int_rect r"
  shows "uint off = ry r * uint ptch + rx r * uint bpp'" "uint n = (rh r - 1) * uint ptch + rw r * uint bpp'"
    "(rx r + rw r) * uint bpp' \<le> uint ptch" "0 \<le> rx r" "0 \<le> ry r" "0 < rw r" "0 < rh r"
    "uint off < 2 ^ 32" "uint n < 2 ^ 32"
proof -
  have g: "0 \<le> rx r" "0 \<le> ry r" "0 < rw r" "0 < rh r"
    and c: "((ucast (word_of_int (rx r) :: u32) :: u64) + ucast (word_of_int (rw r) :: u32)) * ucast bpp' \<le> ucast ptch"
    and off: "off = word_of_int (ry r) * ucast ptch + word_of_int (rx r) * ucast bpp'"
    and n: "n = word_of_int (rh r - 1) * ucast ptch + word_of_int (rw r) * ucast bpp'"
    and le: "off \<le> 0xffffffff" "n \<le> 0xffffffff"
    using assms(1) by (auto simp: rect_span_def Let_def not_le not_less split: if_splits)
  show "0 \<le> rx r" "0 \<le> ry r" "0 < rw r" "0 < rh r" by (fact g)+
  note i = assms(2) [unfolded int_rect_def]
  show "uint off = ry r * uint ptch + rx r * uint bpp'"
    unfolding off using uint_mult_add_64 [of "ry r" "rx r" ptch bpp'] g i by simp
  show "uint n = (rh r - 1) * uint ptch + rw r * uint bpp'"
    unfolding n using uint_mult_add_64 [of "rh r - 1" "rw r" ptch bpp'] g i by simp
  show "uint off < 2 ^ 32" "uint n < 2 ^ 32" using le by (simp_all add: word_le_def)
  have x: "uint (word_of_int (rx r) :: u32) = rx r" "uint (word_of_int (rw r) :: u32) = rw r"
    using g i by (simp_all add: uint_word_of_int_id)
  have s: "(ucast (word_of_int (rx r) :: u32) :: u64) = word_of_int (rx r)"
    "(ucast (word_of_int (rw r) :: u32) :: u64) = word_of_int (rw r)"
    unfolding ucast_eq x by (rule refl)+
  have "((word_of_int (rx r) :: u64) + word_of_int (rw r)) * ucast bpp' =
      word_of_int (rx r) * ucast bpp' + word_of_int (rw r) * ucast bpp'" by (simp add: distrib_right)
  then have "uint (((word_of_int (rx r) :: u64) + word_of_int (rw r)) * ucast bpp') = rx r * uint bpp' + rw r * uint bpp'"
    using uint_mult_add_64 [of "rx r" "rw r" bpp' bpp'] g i by simp
  then show "(rx r + rw r) * uint bpp' \<le> uint ptch"
    using c unfolding s word_le_def uint_ucast_64 by (simp only: distrib_right)
qed

text \<open>The span holds every byte of every pixel of the rectangle.\<close>

lemma rect_span_covers:
  assumes "rect_span ptch bpp' r = Some (off, n)" and "int_rect r"
    and "(px, py) \<in> pixels r" and "0 \<le> i" "i < uint bpp'"
  shows "uint off \<le> py * uint ptch + px * uint bpp' + i" "py * uint ptch + px * uint bpp' + i < uint off + uint n"
proof -
  note e = rect_span_exact [OF assms(1,2)]
  let ?P = "uint ptch" and ?B = "uint bpp'"
  have q: "rx r \<le> px" "px + 1 \<le> rx r + rw r" "ry r \<le> py" "py \<le> ry r + (rh r - 1)"
    using assms(3) by (auto simp: pixels_def)
  have 1: "ry r * ?P \<le> py * ?P" "rx r * ?B \<le> px * ?B" "(px + 1) * ?B \<le> (rx r + rw r) * ?B"
    "py * ?P \<le> (ry r + (rh r - 1)) * ?P"
    using q by (auto intro: mult_right_mono)
  show "uint off \<le> py * ?P + px * ?B + i" using 1 assms(4) e(1) by linarith
  have "py * ?P + px * ?B + i < py * ?P + (px + 1) * ?B" using assms(5) by (simp add: distrib_right)
  also have "\<dots> \<le> (ry r + (rh r - 1)) * ?P + (rx r + rw r) * ?B" using 1 by linarith
  also have "\<dots> = uint off + uint n" unfolding e(1,2) by (simp add: algebra_simps)
  finally show "py * ?P + px * ?B + i < uint off + uint n" .
qed

section \<open>Properties\<close>

text \<open>
  C2. \<open>hcge_linux_submit\<close> outside a batch, whatever the kernel answers: at most three calls are
  made, and the node is accepted by the kernel exactly once if the result is 0 and not at all
  otherwise, also when a busy queue forced a wait and a retry. On success the capture buffer holds
  the node (its first 172 words) and its length.
\<close>

theorem submit_exactly_once:
  assumes "hcge_linux_submit trace_kernel (Some c) (Some node) w p = (ret, p')"
    and "0 \<le> ge_fd (contexts p c)" "ctx_batch (contexts p c) = None" "w \<noteq> 0"
    and "w \<le> cmdq_buf_size (contexts p c) div 4"
  shows "\<exists>es. ge_log (dev p') = ge_log (dev p) @ es \<and> length es \<le> 3 \<and>
    submitted (ge_fd (contexts p c)) (take (unat w) node) es = (if ret = 0 then 1 else 0) \<and>
    (ret = 0 \<longrightarrow> hcge_last_node_words p' = min w 172 \<and>
       take (unat (min w 172)) node = take (length (take (unat (min w 172)) node)) (hcge_last_node p'))"
proof -
  have d: "submit_direct trace_kernel (Some c) node w p = (ret, p')"
    using assms(1) submit_unbatched [OF assms(2-5)] by simp
  have fd: "hcge_context_fd (Some c) p = ge_fd (contexts p c)" by (simp add: hcge_context_fd_def)
  have "device_submit trace_kernel (ge_fd (contexts p c)) (take (unat w) node) (dev p) = (ret, dev p')"
    using recording.submit_direct_refines [OF _ d] assms(2) fd by simp
  note l = device_submit_log [OF this]
  have "hcge_last_node_words p' = min w 172 \<and>
       take (unat (min w 172)) node = take (length (take (unat (min w 172)) node)) (hcge_last_node p')"
    if z: "ret = 0"
  proof -
    obtain q where "p' = hcge_capture_last_node node w q"
      using submit_direct_captured [OF recording.ge_syscalls_axioms d [unfolded z]] by blast
    moreover have "min w 172 = (if w > 172 then 172 else w)" 
      by (auto simp: min_def dest: leD)
    moreover have "take (min (length node) n) node = take n node" for n by (simp add: min_def)
    ultimately show ?thesis by (simp add: hcge_capture_last_node_def Let_def)
  qed
  with l show ?thesis by blast
qed

text \<open>A process with one open context, and a device that is busy once.\<close>

definition proc_example :: "ge_trace ge_proc" where
  "proc_example = \<lparr>dev = \<lparr>ge_answers = [Inl 15], ge_new_fd = 3, ge_log = []\<rparr>, ge_errno = 0,
     contexts = (\<lambda>_. hcge_context_zero\<lparr>ge_fd := 3, cmdq_buf_size := 0x3bbe0\<rparr>),
     batches = (\<lambda>_. \<lparr>bt_context = None, bt_buffer = [], bt_capacity = 0, bt_words = 0, bt_error = 0\<rparr>),
     hcge_last_node = replicate 172 0, hcge_last_node_words = 0, hcge_last_node_hash = 0\<rparr>"

lemma submit_exactly_once_witness:
  "\<exists>ret p'. hcge_linux_submit trace_kernel (Some 0) (Some [1, 2, 3]) 3 proc_example = (ret, p') \<and>
     (\<exists>es. ge_log (dev p') = es \<and> submitted 3 [1, 2, 3] es = (if ret = 0 then 1 else 0))"
proof -
  obtain ret p' where r: "hcge_linux_submit trace_kernel (Some 0) (Some [1, 2, 3]) 3 proc_example = (ret, p')"
    by fastforce
  from submit_exactly_once [OF r] r show ?thesis by (simp add: proc_example_def hcge_context_zero_def)
qed

text \<open>
  C1. A batch reaches the kernel as one submission or not at all. After \<open>hcge_batch_begin\<close> and any
  number of submissions of acceptable nodes, the kernel has not been called. \<open>hcge_batch_end\<close> then
  returns what a single submission of all the nodes in order returns, with the same effect on the
  device, if they fit in the caller's buffer; if they do not, it returns \<open>-ENOSPC\<close> and the device is
  untouched. Either way the batch is detached from its context.
\<close>

theorem batch_is_one_submission:
  assumes "ge_syscalls k"
    and "0 \<le> ge_fd (contexts p c)" "ctx_batch (contexts p c) = None" "cap \<noteq> 0" "unat cap \<le> length buf"
    and "\<And>n. n \<in> set nodes \<Longrightarrow> queueable (contexts p c) n"
    and "nodes \<noteq> []" and "length (concat nodes) \<le> unat (cmdq_buf_size (contexts p c) div 4)"
    and "p1 = snd (hcge_batch_begin (Some c) (Some b) (Some buf) cap p)"
    and "p2 = fold (submit_node k c) nodes p1"
    and "hcge_batch_end k (Some b) False p2 = (ret, p3)"
  shows "dev p2 = dev p \<and> ctx_batch (contexts p3 c) = None \<and>
    (ret, dev p3) = (if length (concat nodes) \<le> unat cap
       then device_submit k (ge_fd (contexts p c)) (concat nodes) (dev p) else (- ENOSPC, dev p))"
proof -
  have p1: "collecting p1 c b []" "dev p1 = dev p" "bt_capacity (batches p1 b) = cap"
    "contexts p1 = (contexts p)(c := contexts p c\<lparr>ctx_batch := Some b\<rparr>)"
    using assms(2-5,9) by (simp_all add: hcge_batch_begin_def collecting_def hcge_context_fd_def Let_def)
  have "\<And>n. n \<in> set nodes \<Longrightarrow> queueable (contexts p1 c) n"
    using assms(6) by (simp add: p1(4) queueable_def)
  note cf = collect_fold [OF p1(1) this assms(10), unfolded append_Nil p1(2,3)]
  have p2: "dev p2 = dev p" "contexts p2 = contexts p1"
    "if length (concat nodes) \<le> unat cap then collecting p2 c b (concat nodes) else overflowed p2 c b"
    using cf by blast+
  show ?thesis
  proof (cases "length (concat nodes) \<le> unat cap")
    case True
    let ?q = "set_ctx c (contexts p2 c\<lparr>ctx_batch := None\<rparr>) p2"
    have cl: "collecting p2 c b (concat nodes)" using p2(3) True by simp
    have w: "unat (bt_words (batches p2 b)) = length (concat nodes)" using cl by (simp add: collecting_def)
    have ne: "concat nodes \<noteq> []" using assms(6) assms(7) by (cases nodes) (auto simp: queueable_def)
    have nz: "bt_words (batches p2 b) \<noteq> 0" using w ne by (metis length_0_conv unat_0)
    have le: "bt_words (batches p2 b) \<le> cmdq_buf_size (contexts ?q c) div 4"
      using assms(8) w by (simp add: p1(4) p2(2) word_le_nat_alt)
    obtain r q' where sd: "submit_direct k (Some c) (bt_buffer (batches p2 b)) (bt_words (batches p2 b)) ?q = (r, q')"
      by fastforce
    have sub: "hcge_linux_submit k (Some c) (Some (bt_buffer (batches p2 b))) (bt_words (batches p2 b)) ?q = (r, q')"
      using submit_unbatched [OF _ _ nz le] sd assms(2) by (simp add: p1(4) p2(2))
    have "(r, dev q') = device_submit k (hcge_context_fd (Some c) ?q)
        (take (unat (bt_words (batches p2 b))) (bt_buffer (batches p2 b))) (dev ?q)"
      by (rule ge_syscalls.submit_direct_refines [OF assms(1) _ sd])
        (use assms(2) in \<open>simp add: hcge_context_fd_def p1(4) p2(2)\<close>)
    then have dv: "(r, dev q') = device_submit k (ge_fd (contexts p c)) (concat nodes) (dev p)"
      using cl w by (simp add: collecting_def hcge_context_fd_def p1(4) p2(1,2))
    have "contexts q' = contexts ?q" using submit_direct_stores(1) sd by (metis snd_conv)
    moreover have "(ret, p3) = (r, set_batch b ((batches q' b)\<lparr>bt_context := None\<rparr>) q')"
      using assms(11) cl nz sub by (simp add: hcge_batch_end_def collecting_def Let_def)
    ultimately show ?thesis using dv True p2(1) by simp
  next
    case False
    then have "overflowed p2 c b" using p2(3) by simp
    then have "ret = - ENOSPC" "dev p3 = dev p2" "ctx_batch (contexts p3 c) = None"
      using assms(11) by (auto simp: hcge_batch_end_def overflowed_def Let_def)
    then show ?thesis using False p2(1) by simp
  qed
qed

lemma batch_is_one_submission_witness:
  "\<exists>ret p3. hcge_batch_end trace_kernel (Some 7) False
      (fold (submit_node trace_kernel 0) [[1, 2, 3], [4, 5, 6, 7]]
        (snd (hcge_batch_begin (Some 0) (Some 7) (Some (replicate 16 0)) 16 proc_example))) = (ret, p3) \<and>
    (ret, dev p3) = device_submit trace_kernel 3 [1, 2, 3, 4, 5, 6, 7] (dev proc_example)"
proof -
  let ?p1 = "snd (hcge_batch_begin (Some 0) (Some 7) (Some (replicate 16 0)) 16 proc_example)"
  let ?ns = "[[1, 2, 3], [4, 5, 6, 7]] :: u32 list list"
  obtain ret p3 where e: "hcge_batch_end trace_kernel (Some 7) False (fold (submit_node trace_kernel 0) ?ns ?p1) = (ret, p3)"
    by fastforce
  have q: "n \<in> set ?ns \<Longrightarrow> queueable (contexts proc_example 0) n" for n
    by (auto simp: queueable_def proc_example_def)
  have c: "0 \<le> ge_fd (contexts proc_example 0)" "ctx_batch (contexts proc_example 0) = None"
    "ge_fd (contexts proc_example 0) = 3" "unat (cmdq_buf_size (contexts proc_example 0) div 4) = 0xeef8"
    by (simp_all add: proc_example_def hcge_context_zero_def)
  have "(ret, dev p3) = device_submit trace_kernel 3 [1, 2, 3, 4, 5, 6, 7] (dev proc_example)"
    using batch_is_one_submission [OF recording.ge_syscalls_axioms c(1,2) _ _ q _ _ refl refl e] c(3,4)
    by simp
  then show ?thesis using e by blast
qed

text \<open>
  When \<open>hcge_linux_cache_clean_rect\<close> reports success, the kernel was asked, once, to clean a
  range that starts at the rectangle's first byte and contains every byte of every pixel of the
  rectangle; offsets and lengths are exact, nothing is lost in the 64-to-32-bit conversions.
\<close>

theorem cache_clean_rect_covers:
  assumes "hcge_linux_cache_clean_rect trace_kernel (Some c) address ptch bpp' (Some r) p = (0, p')"
    and "int_rect r"
  shows "\<exists>off n. ge_log (dev p') = ge_log (dev p) @ [GeIoctl (ge_fd (contexts p c))
        (HCGE_CACHE_CLEAN \<lparr>cr_address = hcge_linux_cached_phys (address + off), cr_length = n\<rparr>) True] \<and>
      hcge_linux_cached_phys (address + off) \<noteq> 0 \<and>
      uint off = ry r * uint ptch + rx r * uint bpp' \<and>
      (\<forall>px py i. (px, py) \<in> pixels r \<and> 0 \<le> i \<and> i < uint bpp' \<longrightarrow>
         uint off \<le> py * uint ptch + px * uint bpp' + i \<and>
         py * uint ptch + px * uint bpp' + i < uint off + uint n)"
proof -
  obtain off n where sp: "rect_span ptch bpp' r = Some (off, n)"
    using assms(1) by (cases "rect_span ptch bpp' r")
      (auto simp: hcge_linux_cache_clean_rect_def split: if_splits)
  note e = rect_span_exact [OF sp assms(2)]
  have u: "uint (ucast off :: u32) = uint off" "uint (ucast n :: u32) = uint n"
    using e(8,9) by (simp_all add: unsigned_ucast_eq take_bit_int_eq_self)
  let ?range = "\<lparr>cr_address = hcge_linux_cached_phys (address + ucast off), cr_length = ucast n\<rparr>"
  have cc: "hcge_linux_cache_clean trace_kernel (Some c) (address + ucast off) (ucast n) p = (0, p')"
    using assms(1) sp by (auto simp: hcge_linux_cache_clean_rect_def split: if_splits)
  then have nz: "hcge_linux_cached_phys (address + ucast off) \<noteq> 0"
    and io: "ioctl_ret trace_kernel (ge_fd (contexts p c)) (HCGE_CACHE_CLEAN ?range) p = (0, p')"
    by (auto simp: hcge_linux_cache_clean_def hcge_context_fd_def Let_def split: if_splits)
  obtain rr d where k: "k_ioctl trace_kernel (dev p) (ge_fd (contexts p c)) (HCGE_CACHE_CLEAN ?range) = (rr, d)"
    by fastforce
  have "\<exists>x. rr = Inr x" and "dev p' = d"
    using io k recording.ioctl_errno [of "dev p" "ge_fd (contexts p c)" "HCGE_CACHE_CLEAN ?range"]
    by (cases rr; auto simp: ioctl_ret_def ioctl_cases)+
  then have "ge_log (dev p') = ge_log (dev p) @
      [GeIoctl (ge_fd (contexts p c)) (HCGE_CACHE_CLEAN ?range) True]"
    using trace_ioctl_log [OF k] by simp
  then show ?thesis
    using nz rect_span_covers [OF sp assms(2)] e(1) u
    by (intro exI [of _ "ucast off"] exI [of _ "ucast n"]) (simp add: u)
qed

lemma cache_clean_rect_covers_witness:
  "\<exists>off. uint off = 2 * 640 + 10 * (2::int) \<and> hcge_linux_cached_phys (0x80100000 + off) \<noteq> 0"
proof -
  let ?p = "proc_example\<lparr>dev := \<lparr>ge_answers = [], ge_new_fd = 3, ge_log = []\<rparr>\<rparr>"
  let ?r = "\<lparr>rx = 10, ry = 2, rw = 16, rh = 8\<rparr>"
  have sp: "rect_span 640 2 ?r = Some (1300, 4512)" by (simp add: rect_span_def Let_def)
  obtain p' where r: "hcge_linux_cache_clean_rect trace_kernel (Some 0) 0x80100000 640 2 (Some ?r) ?p = (0, p')"
    by (simp add: hcge_linux_cache_clean_rect_def sp hcge_linux_cache_clean_def hcge_linux_cached_phys_def
        hcge_context_fd_def proc_example_def ioctl_ret_def ioctl_cases trace_kernel_def trace_ioctl_def
        ge_answer_def Let_def)
  have i: "int_rect ?r" by (simp add: int_rect_def)
  from cache_clean_rect_covers [OF r i] show ?thesis by auto
qed

end
