(* ===== verification/GeBlit.thy ===== *)
theory GeBlit
  imports GeQueue
begin

text \<open>
  The drawing operations of \<^verbatim>\<open>src/ge/hcge_linux.c\<close>: state selection, rectangle fill, blit,
  stretched blit and rectangle outline. Each validates the context's state, writes a command node
  into an array on the stack and submits it. The stores go through \<open>emit\<close>, so a store outside the
  array, like a key operator outside its table, makes the result \<open>None\<close>.
\<close>

section \<open>Selecting the state\<close>

text \<open>\<open>state\<close> is either the context's own state (\<open>None\<close>) or the caller's copy.\<close>

definition hcge_set_state :: "nat option \<Rightarrow> hcge_state option \<Rightarrow> u32 \<Rightarrow> 'd ge_proc \<Rightarrow> 'd ge_proc" where
  "hcge_set_state ctx state acc p =
     (case ctx of None \<Rightarrow> p
      | Some c \<Rightarrow>
          let st = (case state of None \<Rightarrow> ctx_state (contexts p c) | Some s \<Rightarrow> s)
          in set_ctx c (contexts p c\<lparr>ctx_state := st\<lparr>accel := acc\<rparr>\<rparr>) p)"

section \<open>Rectangle fill\<close>

definition fill_color :: "hcge_state \<Rightarrow> HCGEColor" where
  "fill_color state =
     (if drawingflags state AND HCGE_DSDRAW_SRC_PREMULTIPLY \<noteq> 0
      then hcge_premultiply_color (st_color state) else st_color state)"

definition fill_rop :: "hcge_state \<Rightarrow> u32" where
  "fill_rop state =
     (let flags = drawingflags state;
          blend = flags AND HCGE_DSDRAW_BLEND \<noteq> 0;
          rop = (if blend then 0x00008000 OR push_bit 4 (src_blend state AND 0xf) OR (dst_blend state AND 0xf)
                 else 0x00030000);
          rop = or_if (flags AND HCGE_DSDRAW_DST_COLORKEY \<noteq> 0) 0x0e100000 rop;
          rop = or_if (flags AND HCGE_DSDRAW_DST_PREMULTIPLY \<noteq> 0) 0x00002000 rop;
          rop = or_if (flags AND HCGE_DSDRAW_DEMULTIPLY \<noteq> 0) 0x00040000 rop
      in or_if (flags AND HCGE_DSDRAW_XOR \<noteq> 0) 0x00080000 rop)"

text \<open>The words in the order they are stored; \<open>code\<close> is the format code of the destination.\<close>

definition fill_node :: "hcge_state \<Rightarrow> u8 \<Rightarrow> HCGERectangle \<Rightarrow> u32 list" where
  "fill_node state code r =
     (let flags = drawingflags state;
          blend = flags AND HCGE_DSDRAW_BLEND \<noteq> 0;
          keyed = flags AND HCGE_DSDRAW_DST_COLORKEY \<noteq> 0;
          ph = phys (dst state);
          buf = hcge_surface_buffer (sf_format (destination state)) (pitch (dst state))
      in [0x02008367 OR (if keyed then 0x80 else 0),
          if blend then 0x00a00301 else 0x00a00003,
          ph, buf, ph, buf,
          hcge_surface_color (if blend then HCGE_DSPF_ARGB else sf_format (destination state)) (fill_color state),
          0, 0,
          if blend then 1 else ucast code] @
         (if keyed then [dst_colorkey state, 0] else []) @
         [hcge_xy (rx r) (ry r), hcge_wh (rw r) (rh r), hcge_xy (rx r) (ry r), fill_rop state])"

text \<open>Write the words into a stack array of \<open>n\<close> words and submit them.\<close>

definition submit_words :: "'d ge_kernel \<Rightarrow> nat \<Rightarrow> nat \<Rightarrow> u32 list \<Rightarrow> 'd ge_proc \<Rightarrow> (bool \<times> 'd ge_proc) option" where
  "submit_words k n c ws p = do {
     st \<leftarrow> for_each emit ws (replicate n 0, 0);
     let (ret, p) = hcge_linux_submit k (Some c) (Some (fst st)) (of_nat (snd st)) p;
     Some (ret = 0, p)
   }"

definition fill_guard :: "hcge_state \<Rightarrow> HCGERectangle option \<Rightarrow> bool" where
  "fill_guard state rectangle \<longleftrightarrow>
     accel state = HCGE_DFXL_FILLRECTANGLE \<and> hcge_drawing_effects_supported (drawingflags state) \<and>
     hcge_blend_functions_valid state (drawingflags state AND HCGE_DSDRAW_BLEND \<noteq> 0) \<and>
     hcge_rectangle_in_surface rectangle (destination state) \<and>
     hcge_surface_valid (destination state) (dst state)"

definition hcge_fill_rect :: "'d ge_kernel \<Rightarrow> nat option \<Rightarrow> HCGERectangle option \<Rightarrow> 'd ge_proc \<Rightarrow>
    (bool \<times> 'd ge_proc) option" where
  "hcge_fill_rect k ctx rectangle p =
     (case ctx of None \<Rightarrow> Some (False, p)
      | Some c \<Rightarrow>
          let state = ctx_state (contexts p c)
          in if \<not> fill_guard state rectangle then Some (False, p)
             else do {
               r \<leftarrow> rectangle;
               f \<leftarrow> hcge_get_format (sf_format (destination state));
               submit_words k 16 c (fill_node state (fm_code f) r) p
             })"

section \<open>Blits\<close>

text \<open>The guards on the state that \<open>hcge_blit\<close>, \<open>hcge_stretch_blit\<close> and \<open>hcge_check_state\<close> share.\<close>

definition blit_effects_ok :: "hcge_state \<Rightarrow> bool" where
  "blit_effects_ok state \<longleftrightarrow>
     hcge_blit_effects_supported (blittingflags state) \<and> hcge_blit_state_valid state \<and>
     hcge_blend_functions_valid state (blittingflags state AND
       (HCGE_DSBLIT_BLEND_ALPHACHANNEL OR HCGE_DSBLIT_BLEND_COLORALPHA) \<noteq> 0)"

definition mask_origin :: "hcge_state \<Rightarrow> HCGERectangle \<Rightarrow> int \<times> int" where
  "mask_origin state r =
     (if src_mask_flags state AND HCGE_DSMF_STENCIL \<noteq> 0 then src_mask_offset_x state else rx r,
      if src_mask_flags state AND HCGE_DSMF_STENCIL \<noteq> 0 then src_mask_offset_y state else ry r)"

definition mask_inside :: "hcge_state \<Rightarrow> HCGERectangle \<Rightarrow> bool" where
  "mask_inside state r =
     (let (mask_x, mask_y) = mask_origin state r
      in \<not> (mask_x < 0 \<or> mask_y < 0 \<or> mask_x + rw r > sf_w (source_mask state) \<or>
            mask_y + rh r > sf_h (source_mask state)))"

definition masked_blit :: "hcge_state \<Rightarrow> bool" where
  "masked_blit state \<longleftrightarrow> blittingflags state AND HCGE_DSBLIT_SRC_MASK_ALPHA \<noteq> 0"

definition keyed_blit :: "hcge_state \<Rightarrow> bool" where
  "keyed_blit state \<longleftrightarrow> blittingflags state AND (HCGE_DSBLIT_SRC_COLORKEY OR HCGE_DSBLIT_DST_COLORKEY OR
     HCGE_CUST_SRC_COLORKEY OR HCGE_CUST_DST_COLORKEY) \<noteq> 0"

text \<open>The two key words of a keyed blit.\<close>

definition key_words :: "hcge_state \<Rightarrow> u32 list" where
  "key_words state =
     [if blittingflags state AND (HCGE_DSBLIT_DST_COLORKEY OR HCGE_CUST_DST_COLORKEY) \<noteq> 0
      then hcge_color_key_argb (sf_format (destination state)) (dst_colorkey state) else 0,
      if blittingflags state AND (HCGE_DSBLIT_SRC_COLORKEY OR HCGE_CUST_SRC_COLORKEY) \<noteq> 0
      then hcge_color_key_argb (sf_format (source state)) (src_colorkey state) else 0]"

definition rotation_matrix :: "u32 \<Rightarrow> u32 list option" where
  "rotation_matrix flags =
     (if flags AND HCGE_DSBLIT_ROTATE90 \<noteq> 0 then Some [0, 0, 0x8000ffff, 0, 0x0000ffff, 0, 0]
      else if flags AND HCGE_DSBLIT_ROTATE180 \<noteq> 0 then Some [0, 0x8000ffff, 0x80000000, 0, 0, 0x8000ffff, 0]
      else if flags AND HCGE_DSBLIT_ROTATE270 \<noteq> 0
        then Some [0, 0x80000000, 0x0000ffff, 0, 0x8000ffff, 0x80000000, 0]
      else None)"

definition flip_bits :: "u32 \<Rightarrow> u32 \<Rightarrow> u32" where
  "flip_bits flags source_context =
     or_if (flags AND HCGE_DSBLIT_FLIP_VERTICAL \<noteq> 0) 0x00200000
       (or_if (flags AND HCGE_DSBLIT_FLIP_HORIZONTAL \<noteq> 0) 0x00100000 source_context)"

text \<open>The words of the mask position: its origin and the margins right of and below it.\<close>

definition mask_words :: "hcge_state \<Rightarrow> HCGERectangle \<Rightarrow> u32 list" where
  "mask_words state r =
     (let (mask_x, mask_y) = mask_origin state r;
          stencil = src_mask_flags state AND HCGE_DSMF_STENCIL \<noteq> 0;
          margin_x = sf_w (source_mask state) - (if stencil then mask_x else rw r);
          margin_y = sf_h (source_mask state) - (if stencil then mask_y else rh r)
      in [hcge_xy mask_x mask_y, hcge_wh margin_x margin_y])"

definition output_size :: "hcge_state \<Rightarrow> HCGERectangle \<Rightarrow> int \<times> int" where
  "output_size state r =
     (if blittingflags state AND (HCGE_DSBLIT_ROTATE90 OR HCGE_DSBLIT_ROTATE270) \<noteq> 0
      then (rh r, rw r) else (rw r, rh r))"

text \<open>The direct copy: no effects and equal formats.\<close>

definition copy_node :: "hcge_state \<Rightarrow> HCGERectangle \<Rightarrow> int \<Rightarrow> int \<Rightarrow> u32 list" where
  "copy_node state r dx dy =
     [0x02000307, 0x00000002, phys (dst state),
      hcge_surface_buffer (sf_format (destination state)) (pitch (dst state)),
      phys (src state), hcge_surface_buffer (sf_format (source state)) (pitch (src state)),
      hcge_xy dx dy, hcge_wh (rw r) (rh r), hcge_xy (rx r) (ry r)]"

text \<open>The compositor path, in the order of the stores; \<open>rop\<close> is the raster operation.\<close>

definition blit_node :: "hcge_state \<Rightarrow> HCGERectangle \<Rightarrow> u32 \<Rightarrow> u32 \<Rightarrow> u32 \<Rightarrow> u32 list" where
  "blit_node state r destination_address source_address rop =
     (let flags = blittingflags state;
          source_context = flip_bits flags
            (hcge_surface_buffer (sf_format (source state)) (pitch (src state)));
          matrix = rotation_matrix flags;
          buf = hcge_surface_buffer (sf_format (destination state)) (pitch (dst state));
          (output_width, output_height) = output_size state r
      in [(if matrix \<noteq> None then 0x0206870f else 0x0202870f) OR
            (if masked_blit state then 0x00000810 else 0) OR (if keyed_blit state then 0x80 else 0),
          (if matrix \<noteq> None then 0x00a03009 else 0x00a00009) OR (if masked_blit state then 0x40 else 0),
          destination_address, buf, destination_address, buf, source_address,
          (if matrix \<noteq> None then 0x40000000 else 0) OR source_context] @
         (if masked_blit state then [phys (src_mask state), hcge_mask_buffer state] else []) @
         (if keyed_blit state then key_words state else []) @
         [0, hcge_wh output_width output_height, 0, 0, hcge_wh (rw r) (rh r)] @
         (if masked_blit state then mask_words state r else []) @
         [rop, hcge_surface_color HCGE_DSPF_ARGB (st_color state)] @
         (case matrix of None \<Rightarrow> [] | Some m \<Rightarrow> m))"

definition blit_guard :: "hcge_state \<Rightarrow> HCGERectangle option \<Rightarrow> bool" where
  "blit_guard state rectangle \<longleftrightarrow>
     accel state = HCGE_DFXL_BLIT \<and> blit_effects_ok state \<and>
     hcge_rectangle_in_surface rectangle (source state) \<and>
     hcge_surface_valid (destination state) (dst state) \<and> hcge_surface_valid (source state) (src state)"

definition hcge_blit :: "'d ge_kernel \<Rightarrow> nat option \<Rightarrow> HCGERectangle option \<Rightarrow> int \<Rightarrow> int \<Rightarrow> 'd ge_proc \<Rightarrow>
    (bool \<times> 'd ge_proc) option" where
  "hcge_blit k ctx rectangle dx dy p =
     (case ctx of None \<Rightarrow> Some (False, p)
      | Some c \<Rightarrow>
          if dx < 0 \<or> dy < 0 \<or> dx > 0xfff \<or> dy > 0xfff then Some (False, p)
          else
            let state = ctx_state (contexts p c); flags = blittingflags state
            in if \<not> blit_guard state rectangle then Some (False, p)
               else do {
                 r \<leftarrow> rectangle;
                 if masked_blit state \<and> \<not> mask_inside state r then Some (False, p)
                 else
                   let (output_width, output_height) = output_size state r
                   in if (word_of_int dx :: u32) + word_of_int output_width > word_of_int (sf_w (destination state)) \<or>
                         (word_of_int dy :: u32) + word_of_int output_height > word_of_int (sf_h (destination state))
                      then Some (False, p)
                      else if flags = HCGE_DSBLIT_NOFX \<and>
                         sf_format (destination state) = sf_format (source state)
                      then submit_words k 28 c (copy_node state r dx dy) p
                      else do {
                        destination_address \<leftarrow> hcge_surface_offset (destination state) (dst state) dx dy;
                        source_address \<leftarrow> hcge_surface_offset (source state) (src state) (rx r) (ry r);
                        rop \<leftarrow> hcge_blit_rop state;
                        submit_words k 28 c (blit_node state r destination_address source_address rop) p
                      }
               })"

section \<open>Stretched blit\<close>

definition stretch_guard :: "hcge_state \<Rightarrow> HCGERectangle option \<Rightarrow> HCGERectangle option \<Rightarrow> bool" where
  "stretch_guard state sr dr \<longleftrightarrow>
     accel state = HCGE_DFXL_STRETCHBLIT \<and> blit_effects_ok state \<and>
     blittingflags state AND (HCGE_DSBLIT_ROTATE90 OR HCGE_DSBLIT_ROTATE180 OR HCGE_DSBLIT_ROTATE270) = 0 \<and>
     hcge_rectangle_in_surface sr (source state) \<and> hcge_rectangle_in_surface dr (destination state) \<and>
     hcge_surface_valid (destination state) (dst state) \<and> hcge_surface_valid (source state) (src state)"

definition stretch_node :: "hcge_state \<Rightarrow> HCGERectangle \<Rightarrow> HCGERectangle \<Rightarrow> u32 \<Rightarrow> u32 \<Rightarrow> u32 \<Rightarrow> u32 list" where
  "stretch_node state s d destination_address source_address rop =
     (let flags = blittingflags state;
          buf = hcge_surface_buffer (sf_format (destination state)) (pitch (dst state))
      in [0x0206870f OR (if masked_blit state then 0x10 else 0) OR (if keyed_blit state then 0x80 else 0),
          0x00a03009 OR (if masked_blit state then 0x40 else 0),
          destination_address, buf, destination_address, buf, source_address,
          flip_bits flags (0x40000000 OR hcge_surface_buffer (sf_format (source state)) (pitch (src state)))] @
         (if masked_blit state then [phys (src_mask state), hcge_mask_buffer state] else []) @
         (if keyed_blit state then key_words state else []) @
         [0, hcge_wh (rw d) (rh d), 0, 0, hcge_wh (rw s) (rh s), rop,
          hcge_surface_color HCGE_DSPF_ARGB (st_color state), 0x00000080,
          push_bit 16 (word_of_int (rw s)) div word_of_int (rw d), 0, push_bit 15 (word_of_int (rw s)), 0,
          push_bit 16 (word_of_int (rh s)) div word_of_int (rh d), push_bit 15 (word_of_int (rh s))])"

definition hcge_stretch_blit :: "'d ge_kernel \<Rightarrow> nat option \<Rightarrow> HCGERectangle option \<Rightarrow> HCGERectangle option \<Rightarrow>
    'd ge_proc \<Rightarrow> (bool \<times> 'd ge_proc) option" where
  "hcge_stretch_blit k ctx source_rectangle destination_rectangle p =
     (case ctx of None \<Rightarrow> Some (False, p)
      | Some c \<Rightarrow>
          let state = ctx_state (contexts p c)
          in if \<not> stretch_guard state source_rectangle destination_rectangle then Some (False, p)
             else do {
               s \<leftarrow> source_rectangle;
               d \<leftarrow> destination_rectangle;
               source_address \<leftarrow> hcge_surface_offset (source state) (src state) (rx s) (ry s);
               destination_address \<leftarrow> hcge_surface_offset (destination state) (dst state) (rx d) (ry d);
               if masked_blit state \<and> \<not> mask_inside state s then Some (False, p)
               else do {
                 rop \<leftarrow> hcge_blit_rop state;
                 submit_words k 26 c (stretch_node state s d destination_address source_address rop) p
               }
             })"

section \<open>Outlines\<close>

text \<open>The rectangles \<open>hcge_draw_rect\<close> fills, in order.\<close>

definition draw_edges :: "HCGERectangle \<Rightarrow> HCGERectangle list" where
  "draw_edges r =
     [r\<lparr>rh := 1\<rparr>] @
     (if rh r > 1 then [r\<lparr>ry := ry r + rh r - 1, rh := 1\<rparr>] else []) @
     (if rh r > 2 then
        [\<lparr>rx = rx r, ry = ry r + 1, rw = 1, rh = rh r - 2\<rparr>] @
        (if rw r > 1 then [\<lparr>rx = rx r + rw r - 1, ry = ry r + 1, rw = 1, rh = rh r - 2\<rparr>] else [])
      else [])"

fun fill_all :: "'d ge_kernel \<Rightarrow> nat \<Rightarrow> HCGERectangle list \<Rightarrow> bool \<Rightarrow> 'd ge_proc \<Rightarrow> (bool \<times> 'd ge_proc) option" where
  "fill_all k c [] ok p = Some (ok, p)"
| "fill_all k c (e # es) ok p = do {
     (r, p) \<leftarrow> hcge_fill_rect k (Some c) (Some e) p;
     fill_all k c es (r \<and> ok) p
   }"

definition hcge_draw_rect :: "'d ge_kernel \<Rightarrow> nat option \<Rightarrow> HCGERectangle option \<Rightarrow> 'd ge_proc \<Rightarrow>
    (bool \<times> 'd ge_proc) option" where
  "hcge_draw_rect k ctx rectangle p =
     (case (ctx, rectangle) of
        (Some c, Some r) \<Rightarrow>
          if \<not> hcge_rectangle_valid rectangle then Some (False, p)
          else
            let saved = accel (ctx_state (contexts p c));
                p = hcge_set_state ctx None HCGE_DFXL_FILLRECTANGLE p
            in do {
              (ok, p) \<leftarrow> fill_all k c (draw_edges r) True p;
              Some (ok, hcge_set_state ctx None saved p)
            }
      | _ \<Rightarrow> Some (False, p))"

definition hcge_fill_rect_ext :: "'d ge_kernel \<Rightarrow> nat option \<Rightarrow> HCGE_CoreSurfaceBuffer option \<Rightarrow>
    HCGE_CoreSurface option \<Rightarrow> HCGERectangle option \<Rightarrow> HCGEColor option \<Rightarrow> 'd ge_proc \<Rightarrow> 'd ge_proc option" where
  "hcge_fill_rect_ext k ctx db surface rectangle color p =
     (case (ctx, db, surface, rectangle, color) of
        (Some c, Some b, Some s, Some r, Some col) \<Rightarrow>
          let st = hcge_state_zero\<lparr>destination := s, dst := b, st_color := col, drawingflags := 0,
                accel := HCGE_DFXL_FILLRECTANGLE\<rparr>;
              p = set_ctx c (contexts p c\<lparr>ctx_state := st\<rparr>) p
          in map_option snd (hcge_fill_rect k ctx rectangle p)
      | _ \<Rightarrow> Some p)"

definition hcge_engine_reset :: "'d ge_kernel \<Rightarrow> nat option \<Rightarrow> 'd ge_proc \<Rightarrow> 'd ge_proc" where
  "hcge_engine_reset k drv p = snd (hcge_hw_reset k drv p)"

section \<open>Nodes and their headers\<close>

text \<open>The lengths the headers of the drawing operations announce.\<close>

lemma fill_headers: "hcge_node_words 0x02008367 = 14" "hcge_node_words 0x020083e7 = 16"
  by code_simp+

lemma blit_headers:
  "hcge_node_words 0x02000307 = 9"
  "hcge_node_words 0x0202870f = 15" "hcge_node_words 0x0202878f = 17"
  "hcge_node_words 0x02028f1f = 19" "hcge_node_words 0x02028f9f = 21"
  "hcge_node_words 0x0206870f = 22" "hcge_node_words 0x0206878f = 24"
  "hcge_node_words 0x02068f1f = 26" "hcge_node_words 0x02068f9f = 28"
  "hcge_node_words 0x0206871f = 24" "hcge_node_words 0x0206879f = 26"
  by code_simp+

lemma rotation_matrix_length: "rotation_matrix flags = Some m \<Longrightarrow> length m = 7"
  by (auto simp: rotation_matrix_def split: if_splits)

lemma fill_node_length:
  "length (fill_node st code r) = hcge_node_words (hd (fill_node st code r))"
  "length (fill_node st code r) \<le> 16"
  by (simp_all add: fill_node_def Let_def fill_headers)

lemma copy_node_length:
  "length (copy_node st r dx dy) = hcge_node_words (hd (copy_node st r dx dy))"
  "length (copy_node st r dx dy) \<le> 28"
  by (simp_all add: copy_node_def blit_headers)

lemma blit_node_length:
  "length (blit_node st r da sa rop) = hcge_node_words (hd (blit_node st r da sa rop))"
  "length (blit_node st r da sa rop) \<le> 28"
  by (cases "rotation_matrix (blittingflags st)";
      simp add: blit_node_def Let_def split_def key_words_def mask_words_def blit_headers
        rotation_matrix_length)+

lemma stretch_node_length:
  "length (stretch_node st s d da sa rop) = hcge_node_words (hd (stretch_node st s d da sa rop))"
  "length (stretch_node st s d da sa rop) \<le> 26"
  by (simp_all add: stretch_node_def Let_def key_words_def blit_headers)

section \<open>Regions\<close>

text \<open>A rectangle on a valid surface: the bytes from its first to its last pixel are in the buffer.\<close>

lemma rect_region_inside:
  assumes v: "hcge_surface_valid s b" and fit: "uint (phys b) + uint (pitch b) * sf_h s \<le> 2 ^ 32"
    and r: "0 \<le> x" "0 \<le> y" "0 < w" "0 < h" "x + w \<le> sf_w s" "y + h \<le> sf_h s"
  shows "\<exists>a. hcge_surface_offset s b x y = Some a \<and> uint (phys b) \<le> uint a \<and>
    uint a + (h - 1) * uint (pitch b) + w * bpp s \<le> uint (phys b) + uint (pitch b) * sf_h s"
proof -
  note g = surface_valid_geometry [OF v]
  obtain a where a: "hcge_surface_offset s b x y = Some a"
    "uint a = uint (phys b) + y * uint (pitch b) + x * bpp s"
    using surface_offset_exact [OF v _ _ _ _ fit, of x y] r by auto
  have "(x + w) * bpp s \<le> sf_w s * bpp s" using r g(2) by (intro mult_right_mono) auto
  then have 1: "x * bpp s + w * bpp s \<le> uint (pitch b)" using g(8) by (simp add: distrib_right)
  have "(y + h) * uint (pitch b) \<le> sf_h s * uint (pitch b)" using r by (intro mult_right_mono) auto
  then have 2: "y * uint (pitch b) + h * uint (pitch b) \<le> uint (pitch b) * sf_h s"
    by (simp add: distrib_right mult.commute)
  have "uint a + (h - 1) * uint (pitch b) + w * bpp s \<le> uint (phys b) + uint (pitch b) * sf_h s"
    using a(2) 1 2 by (simp add: left_diff_distrib)
  moreover have "uint (phys b) \<le> uint a" using a(2) r g(2) by auto
  ultimately show ?thesis using a(1) by blast
qed

lemma in_surfaceD:
  assumes "hcge_rectangle_in_surface (Some r) s"
  shows "0 \<le> rx r" "0 \<le> ry r" "0 < rw r" "0 < rh r" "rx r + rw r \<le> sf_w s" "ry r + rh r \<le> sf_h s"
    "rx r \<le> 0xfff" "ry r \<le> 0xfff" "rw r \<le> 0xfff" "rh r \<le> 0xfff"
  using assms by (auto simp: hcge_rectangle_in_surface_def hcge_rectangle_valid_def)

lemma surface_offset_defined:
  "hcge_surface_valid s b \<Longrightarrow> \<exists>a. hcge_surface_offset s b x y = Some a"
  using surface_valid_geometry(1) [of s b] by (auto simp: hcge_surface_offset_def)

lemma submit_words_defined:
  "length ws \<le> n \<Longrightarrow> \<exists>ok p'. submit_words k n c ws p = Some (ok, p')"
proof -
  assume "length ws \<le> n"
  then have "for_each emit ws (replicate n 0, 0) = Some (placed (concat (map (\<lambda>w. [w]) ws)) (replicate n 0, 0))"
    by (intro for_each_placed) (auto simp: emit_placed concat_map_singleton room_def)
  then show ?thesis by (auto simp: submit_words_def split_def Let_def)
qed

text \<open>The size tests of \<open>hcge_blit\<close> are done on unsigned values; nothing wraps.\<close>

lemma blit_fits:
  assumes "0 \<le> dx" "dx \<le> 0xfff" "0 \<le> w" "w \<le> 0xfff" "0 \<le> sw" "sw \<le> 0xfff"
  shows "(word_of_int dx :: u32) + word_of_int w > word_of_int sw \<longleftrightarrow> dx + w > sw"
proof -
  have "uint ((word_of_int dx :: u32) + word_of_int w) = dx + w"
    using assms uint_word_of_int_id [of "dx + w", where 'a = 32] by simp
  moreover have "uint (word_of_int sw :: u32) = sw" using assms by (simp add: uint_word_of_int_small)
  ultimately show ?thesis by (simp add: word_less_def)
qed

section \<open>Properties\<close>

text \<open>
  C12. Every command node the drawing operations build is well formed: it has exactly the number of
  words its own header announces (\<open>hcge_node_words\<close> of its first word), for every state and
  rectangle, with or without key, mask and rotation; and it never exceeds the array on the stack
  it is written to (16 words for a fill, 28 for a blit, 26 for a stretched blit).
\<close>

theorem draw_nodes_match_header:
  "length (fill_node st code r) = hcge_node_words (hd (fill_node st code r)) \<and>
   length (fill_node st code r) \<le> 16 \<and>
   length (copy_node st r dx dy) = hcge_node_words (hd (copy_node st r dx dy)) \<and>
   length (blit_node st r da sa rop) = hcge_node_words (hd (blit_node st r da sa rop)) \<and>
   length (blit_node st r da sa rop) \<le> 28 \<and>
   length (stretch_node st r d da sa rop) = hcge_node_words (hd (stretch_node st r d da sa rop)) \<and>
   length (stretch_node st r d da sa rop) \<le> 26"
  by (intro conjI fill_node_length copy_node_length blit_node_length stretch_node_length)

text \<open>
  C13. The drawing operations are safe on every input, valid or not: \<open>hcge_fill_rect\<close>, \<open>hcge_blit\<close> and
  \<open>hcge_stretch_blit\<close> always return, without storing outside their node, reading a key operator
  outside its table, or dereferencing the format of an unsupported surface.
\<close>

theorem drawing_total:
  "(\<exists>ok p'. hcge_fill_rect k ctx rectangle p = Some (ok, p')) \<and>
   (\<exists>ok p'. hcge_blit k ctx rectangle dx dy p = Some (ok, p')) \<and>
   (\<exists>ok p'. hcge_stretch_blit k ctx rectangle drectangle p = Some (ok, p'))"
proof (intro conjI)
  note sw = submit_words_defined [OF fill_node_length(2)] submit_words_defined [OF copy_node_length(2)]
    submit_words_defined [OF blit_node_length(2)] submit_words_defined [OF stretch_node_length(2)]
  have f: "\<exists>ok. \<not> ok" by blast
  show "\<exists>ok p'. hcge_fill_rect k ctx rectangle p = Some (ok, p')"
  proof (cases "ctx = None \<or> \<not> fill_guard (ctx_state (contexts p (the ctx))) rectangle")
    case False
    then obtain c r where c: "ctx = Some c" "rectangle = Some r"
      by (cases rectangle) (auto simp: fill_guard_def hcge_rectangle_in_surface_def hcge_rectangle_valid_def)
    let ?st = "ctx_state (contexts p c)"
    have "hcge_surface_valid (destination ?st) (dst ?st)" using False c by (simp add: fill_guard_def)
    then obtain f where "hcge_get_format (sf_format (destination ?st)) = Some f"
      using surface_valid_geometry(1) by blast
    then show ?thesis using False c by (simp add: hcge_fill_rect_def Let_def sw(1))
  qed (auto simp: hcge_fill_rect_def Let_def split: option.split)
  show "\<exists>ok p'. hcge_blit k ctx rectangle dx dy p = Some (ok, p')"
  proof (cases "ctx = None \<or> \<not> blit_guard (ctx_state (contexts p (the ctx))) rectangle")
    case False
    then obtain c r where c: "ctx = Some c" "rectangle = Some r"
      by (cases rectangle) (auto simp: blit_guard_def hcge_rectangle_in_surface_def hcge_rectangle_valid_def)
    let ?st = "ctx_state (contexts p c)"
    have g: "hcge_surface_valid (destination ?st) (dst ?st)" "hcge_surface_valid (source ?st) (src ?st)"
      "hcge_blit_state_valid ?st"
      using False c by (simp_all add: blit_guard_def blit_effects_ok_def)
    obtain da sa rop where "hcge_surface_offset (destination ?st) (dst ?st) dx dy = Some da"
      "hcge_surface_offset (source ?st) (src ?st) (rx r) (ry r) = Some sa" "hcge_blit_rop ?st = Some rop"
      using surface_offset_defined [OF g(1)] surface_offset_defined [OF g(2)] hcge_blit_rop_defined [OF g(3)]
      by metis
    then show ?thesis using False c by (simp add: hcge_blit_def Let_def split_def sw(2,3) f)
  qed (auto simp: hcge_blit_def Let_def split: option.split)
  show "\<exists>ok p'. hcge_stretch_blit k ctx rectangle drectangle p = Some (ok, p')"
  proof (cases "ctx = None \<or> \<not> stretch_guard (ctx_state (contexts p (the ctx))) rectangle drectangle")
    case False
    then obtain c r d where c: "ctx = Some c" "rectangle = Some r" "drectangle = Some d"
      by (cases rectangle; cases drectangle)
        (auto simp: stretch_guard_def hcge_rectangle_in_surface_def hcge_rectangle_valid_def)
    let ?st = "ctx_state (contexts p c)"
    have g: "hcge_surface_valid (destination ?st) (dst ?st)" "hcge_surface_valid (source ?st) (src ?st)"
      "hcge_blit_state_valid ?st"
      using False c by (simp_all add: stretch_guard_def blit_effects_ok_def)
    obtain da sa rop where "hcge_surface_offset (destination ?st) (dst ?st) (rx d) (ry d) = Some da"
      "hcge_surface_offset (source ?st) (src ?st) (rx r) (ry r) = Some sa" "hcge_blit_rop ?st = Some rop"
      using surface_offset_defined [OF g(1)] surface_offset_defined [OF g(2)] hcge_blit_rop_defined [OF g(3)]
      by metis
    then show ?thesis using False c by (simp add: hcge_stretch_blit_def Let_def sw(4) f)
  qed (auto simp: hcge_stretch_blit_def Let_def split: option.split)
qed

text \<open>
  C14. A blit that \<open>hcge_blit\<close> lets through stays inside its two buffers: from the address
  programmed for the first pixel to the end of the last row, both the source rectangle and the
  destination rectangle (with its sides exchanged by a quarter turn) lie within \<open>pitch * height\<close>
  bytes of the surface, if the buffers themselves fit in the address space.
\<close>

theorem blit_regions_inside:
  assumes "hcge_blit k (Some c) (Some r) dx dy p = Some (True, p')"
    and "st = ctx_state (contexts p c)" and "(ow, oh) = output_size st r"
    and "uint (phys (dst st)) + uint (pitch (dst st)) * sf_h (destination st) \<le> 2 ^ 32"
    and "uint (phys (src st)) + uint (pitch (src st)) * sf_h (source st) \<le> 2 ^ 32"
  shows "\<exists>da sa. hcge_surface_offset (destination st) (dst st) dx dy = Some da \<and>
      hcge_surface_offset (source st) (src st) (rx r) (ry r) = Some sa \<and>
      uint (phys (dst st)) \<le> uint da \<and>
      uint da + (oh - 1) * uint (pitch (dst st)) + ow * bpp (destination st) \<le>
        uint (phys (dst st)) + uint (pitch (dst st)) * sf_h (destination st) \<and>
      uint (phys (src st)) \<le> uint sa \<and>
      uint sa + (rh r - 1) * uint (pitch (src st)) + rw r * bpp (source st) \<le>
        uint (phys (src st)) + uint (pitch (src st)) * sf_h (source st)"
proof -
  have g: "blit_guard st (Some r)" and d: "0 \<le> dx" "dx \<le> 0xfff" "0 \<le> dy" "dy \<le> 0xfff"
    and fit: "\<not> (word_of_int dx :: u32) + word_of_int ow > word_of_int (sf_w (destination st))"
      "\<not> (word_of_int dy :: u32) + word_of_int oh > word_of_int (sf_h (destination st))"
    using assms(1) assms(2) assms(3) [symmetric]
    by (auto simp: hcge_blit_def Let_def split: if_splits)
  have v: "hcge_surface_valid (destination st) (dst st)" "hcge_surface_valid (source st) (src st)"
    "hcge_rectangle_in_surface (Some r) (source st)"
    using g by (simp_all add: blit_guard_def)
  note rr = in_surfaceD [OF v(3)] and gd = surface_valid_geometry [OF v(1)]
  have o: "0 < ow" "ow \<le> 0xfff" "0 < oh" "oh \<le> 0xfff"
    using assms(3) rr by (auto simp: output_size_def split: if_splits)
  have "dx + ow \<le> sf_w (destination st)" "dy + oh \<le> sf_h (destination st)"
    using fit blit_fits [of dx ow "sf_w (destination st)"] blit_fits [of dy oh "sf_h (destination st)"] d o gd
    by auto
  with rect_region_inside [OF v(1) assms(4), of dx dy ow oh]
    rect_region_inside [OF v(2) assms(5), of "rx r" "ry r" "rw r" "rh r"] rr d o
  show ?thesis by auto
qed

text \<open>A context set up for a plain copy between two parts of the LCD buffer.\<close>

definition blit_example :: "ge_trace ge_proc" where
  "blit_example = hcge_set_state (Some 0) (Some clip_example) HCGE_DFXL_BLIT
     (proc_example\<lparr>dev := \<lparr>ge_answers = [], ge_new_fd = 3, ge_log = []\<rparr>\<rparr>)"

lemma blit_regions_inside_witness:
  "\<exists>p'. hcge_blit trace_kernel (Some 0) (Some \<lparr>rx = 0, ry = 0, rw = 160, rh = 240\<rparr>) 160 0 blit_example = Some (True, p') \<and>
     (\<exists>da. hcge_surface_offset lcd_surface lcd_buffer 160 0 = Some da \<and> uint da + 239 * 640 + 320 \<le> 0x06000000 + 640 * 240)"
proof -
  let ?r = "\<lparr>rx = 0, ry = 0, rw = 160, rh = 240\<rparr>"
  let ?st = "ctx_state (contexts blit_example 0)"
  have st: "?st = clip_example\<lparr>accel := HCGE_DFXL_BLIT\<rparr>" by (simp add: blit_example_def hcge_set_state_def Let_def)
  have ex: "blittingflags ?st = 0" "destination ?st = lcd_surface" "source ?st = lcd_surface"
    "dst ?st = lcd_buffer" "src ?st = lcd_buffer" "accel ?st = HCGE_DFXL_BLIT"
    by (simp_all add: st clip_example_def)
  have in1: "hcge_rectangle_in_surface (Some ?r) lcd_surface"
    by (simp add: hcge_rectangle_in_surface_def hcge_rectangle_valid_def lcd_surface_def)
  have g: "blit_guard ?st (Some ?r)"
    by (simp add: blit_guard_def blit_effects_ok_def ex lcd_valid in1 hcge_blit_effects_supported_def
        hcge_blit_state_valid_def hcge_blend_functions_valid_def)
  have os: "output_size ?st ?r = (160, 240)" by (simp add: output_size_def ex)
  have ctx: "ge_fd (contexts blit_example 0) = 3" "ctx_batch (contexts blit_example 0) = None"
    "cmdq_buf_size (contexts blit_example 0) = 0x3bbe0" "dev blit_example = \<lparr>ge_answers = [], ge_new_fd = 3, ge_log = []\<rparr>"
    by (simp_all add: blit_example_def hcge_set_state_def proc_example_def hcge_context_zero_def Let_def)
  obtain p' where b: "hcge_blit trace_kernel (Some 0) (Some ?r) 160 0 blit_example = Some (True, p')"
    using g by (simp add: hcge_blit_def Let_def os masked_blit_def ex lcd_surface_def copy_node_def
        submit_words_def emit_def hcge_linux_submit_def hcge_context_fd_def ctx submit_direct_def ioctl_cases
        trace_kernel_def trace_ioctl_def ge_answer_def)
  have bp: "bpp lcd_surface = 2" by (simp add: bpp_def lcd_surface_def hcge_get_format_def hcge_formats_def)
  from blit_regions_inside [OF b refl os [symmetric]] b bp show ?thesis
    by (auto simp: ex) (auto simp: lcd_buffer_def lcd_surface_def)
qed

text \<open>
  \<open>hcge_draw_rect\<close> fills each pixel of the outline exactly once: the rectangles it fills are
  pairwise disjoint and together they are the pixels on the border of the rectangle, for every
  width and height from 1 up (an outline drawn with blending or XOR has no doubled corners).
\<close>

theorem draw_edges_outline:
  assumes "0 < rw r" "0 < rh r"
  shows "(\<Union>e \<in> set (draw_edges r). pixels e) =
      {(px, py) \<in> pixels r. px = rx r \<or> px = rx r + rw r - 1 \<or> py = ry r \<or> py = ry r + rh r - 1} \<and>
    (\<forall>i j. i < j \<longrightarrow> j < length (draw_edges r) \<longrightarrow> pixels (draw_edges r ! i) \<inter> pixels (draw_edges r ! j) = {})"
proof
  show "(\<Union>e \<in> set (draw_edges r). pixels e) =
      {(px, py) \<in> pixels r. px = rx r \<or> px = rx r + rw r - 1 \<or> py = ry r \<or> py = ry r + rh r - 1}"
    using assms by (auto simp: draw_edges_def pixels_def)
  show "\<forall>i j. i < j \<longrightarrow> j < length (draw_edges r) \<longrightarrow> pixels (draw_edges r ! i) \<inter> pixels (draw_edges r ! j) = {}"
    using assms by (auto simp: draw_edges_def pixels_def nth_Cons less_Suc_eq split: nat.splits if_splits)
qed

lemma draw_edges_outline_witness:
  "(\<Union>e \<in> set (draw_edges \<lparr>rx = 2, ry = 3, rw = 4, rh = 5\<rparr>). pixels e) =
      {(px, py) \<in> pixels \<lparr>rx = 2, ry = 3, rw = 4, rh = 5\<rparr>. px = 2 \<or> px = 5 \<or> py = 3 \<or> py = 7}"
  using draw_edges_outline [of "\<lparr>rx = 2, ry = 3, rw = 4, rh = 5\<rparr>"] by simp

text \<open>The guards do not look at the acceleration mask.\<close>

lemma guards_accel [simp]:
  "hcge_blit_state_valid (st\<lparr>accel := a\<rparr>) = hcge_blit_state_valid st"
  "hcge_blend_functions_valid (st\<lparr>accel := a\<rparr>) e = hcge_blend_functions_valid st e"
  "blit_effects_ok (st\<lparr>accel := a\<rparr>) = blit_effects_ok st"
  by (simp_all add: blit_effects_ok_def hcge_blit_state_valid_def hcge_mask_surface_valid_def
      hcge_blend_functions_valid_def)

text \<open>
  \<open>hcge_check_state\<close> announces only what the drawing operations will accept. Started with an
  empty acceleration mask, it changes nothing but the mask, sets only requested bits, and a bit is
  set only if every guard on flags, blend functions, key operators, masks and formats that the
  corresponding operation checks holds (for a stretched blit also that no rotation is asked for).
\<close>

theorem check_state_sound:
  assumes "hcge_check_state (Some st) acc = Some st'" and "accel st = 0"
  shows "st' = st\<lparr>accel := accel st'\<rparr> \<and> accel st' AND NOT (acc AND 0x00030001) = 0 \<and>
    (accel st' AND HCGE_DFXL_FILLRECTANGLE \<noteq> 0 \<longrightarrow> hcge_drawing_effects_supported (drawingflags st) \<and>
       hcge_blend_functions_valid st (drawingflags st AND HCGE_DSDRAW_BLEND \<noteq> 0) \<and>
       hcge_get_format (sf_format (destination st)) \<noteq> None) \<and>
    (accel st' AND HCGE_DFXL_BLIT \<noteq> 0 \<longrightarrow> blit_effects_ok st \<and>
       hcge_get_format (sf_format (destination st)) \<noteq> None \<and> hcge_get_format (sf_format (source st)) \<noteq> None) \<and>
    (accel st' AND HCGE_DFXL_STRETCHBLIT \<noteq> 0 \<longrightarrow> blit_effects_ok st \<and>
       hcge_get_format (sf_format (destination st)) \<noteq> None \<and> hcge_get_format (sf_format (source st)) \<noteq> None \<and>
       blittingflags st AND (HCGE_DSBLIT_ROTATE90 OR HCGE_DSBLIT_ROTATE180 OR HCGE_DSBLIT_ROTATE270) = 0)"
proof -
  let ?fill = "acc AND 0x0000ffff \<noteq> 0 \<and> acc AND HCGE_DFXL_FILLRECTANGLE \<noteq> 0"
  let ?dok = "hcge_drawing_effects_supported (drawingflags st) \<and>
      hcge_blend_functions_valid st (drawingflags st AND HCGE_DSDRAW_BLEND \<noteq> 0)"
  let ?blit = "hcge_get_format (sf_format (source st)) \<noteq> None \<and> blit_effects_ok st"
  let ?rot = "blittingflags st AND (HCGE_DSBLIT_ROTATE90 OR HCGE_DSBLIT_ROTATE180 OR HCGE_DSBLIT_ROTATE270) \<noteq> 0"
  have "\<exists>f b s. st' = st\<lparr>accel := (if f then acc AND 1 else 0) OR (if b then acc AND 0x10000 else 0) OR
        (if s then acc AND 0x20000 else 0)\<rparr> \<and>
      (f \<or> b \<or> s \<longrightarrow> hcge_get_format (sf_format (destination st)) \<noteq> None) \<and>
      (f \<longrightarrow> ?dok) \<and> (b \<longrightarrow> ?blit) \<and> (s \<longrightarrow> ?blit \<and> \<not> ?rot)" (is "\<exists>f b s. ?shape f b s")
  proof (cases "acc AND 0x00030001 = 0 \<or> hcge_get_format (sf_format (destination st)) = None \<or>
      acc AND 0x0000ffff \<noteq> 0 \<and> (render_options st \<noteq> 0 \<or> \<not> ?dok)")
    case True
    then have "st' = st" using assms(1) by (auto simp: hcge_check_state_def split: if_splits)
    moreover have "st = st\<lparr>accel := 0\<rparr>" using assms(2) by (cases st) simp
    ultimately have "?shape False False False" by simp
    then show ?thesis by blast
  next
    case False
    let ?b = "acc AND 0xffff0000 \<noteq> 0 \<and> ?blit \<and> render_options st = 0"
    have n1: "\<not> acc AND (HCGE_DFXL_FILLRECTANGLE OR HCGE_DFXL_BLIT OR HCGE_DFXL_STRETCHBLIT) = 0"
      using False by simp
    have n2: "\<not> hcge_get_format (sf_format (destination st)) = None" using False by simp
    have n3: "\<not> (acc AND 0x0000ffff \<noteq> 0 \<and> (render_options st \<noteq> HCGE_DSRO_NONE \<or>
        \<not> hcge_drawing_effects_supported (drawingflags st) \<or>
        \<not> hcge_blend_functions_valid st (drawingflags st AND HCGE_DSDRAW_BLEND \<noteq> 0)))"
      using False by auto
    note st' = assms(1) [unfolded hcge_check_state_def option.case if_not_P [OF n1] if_not_P [OF n2]
        if_not_P [OF n3] Let_def option.inject, symmetric]
    have dok: "?fill \<longrightarrow> ?dok" using n3 by auto
    have "?shape ?fill ?b (?b \<and> \<not> ?rot)"
    proof (intro conjI)
      show "st' = st\<lparr>accel := (if ?fill then acc AND 1 else 0) OR (if ?b then acc AND 0x10000 else 0) OR
          (if ?b \<and> \<not> ?rot then acc AND 0x20000 else 0)\<rparr>"
        unfolding st' using assms(2)
        by (cases ?fill; cases ?b; cases ?rot) (simp_all add: blit_effects_ok_def or.assoc, auto)
    qed (use n2 dok in auto)
    then show ?thesis by blast
  qed
  then obtain f b s where
    st': "st' = st\<lparr>accel := (if f then acc AND 1 else 0) OR (if b then acc AND 0x10000 else 0) OR
        (if s then acc AND 0x20000 else 0)\<rparr>"
    and ok: "f \<or> b \<or> s \<longrightarrow> hcge_get_format (sf_format (destination st)) \<noteq> None"
      "f \<longrightarrow> ?dok" "b \<longrightarrow> ?blit" "s \<longrightarrow> ?blit \<and> \<not> ?rot" by blast
  let ?a = "(if f then acc AND 1 else 0) OR (if b then acc AND 0x10000 else 0) OR (if s then acc AND 0x20000 else 0)"
  have "?a AND NOT (acc AND 0x00030001) = 0"
    by (rule word32_eqI, elim insertE) (simp_all add: bit_simps)
  moreover have "?a AND 1 \<noteq> 0 \<Longrightarrow> f" "?a AND 0x10000 \<noteq> 0 \<Longrightarrow> b" "?a AND 0x20000 \<noteq> 0 \<Longrightarrow> s"
    by (cases f; cases b; cases s; simp add: bit.conj_disj_distrib2 and.assoc)+
  ultimately show ?thesis using st' ok by auto
qed

lemma check_state_sound_witness:
  "\<exists>st'. hcge_check_state (Some clip_example) HCGE_DFXL_BLIT = Some st' \<and> st' = clip_example\<lparr>accel := accel st'\<rparr>"
proof -
  obtain st' where "hcge_check_state (Some clip_example) HCGE_DFXL_BLIT = Some st'"
    unfolding hcge_check_state_def option.case by blast
  with check_state_sound [OF this] show ?thesis by (simp add: clip_example_def)
qed

end
