(* ===== verification/GeUtils.thy ===== *)
theory GeUtils
  imports GeSurface
begin

text \<open>
  The names and flag lists of \<^verbatim>\<open>src/ge/hcge_utils.c\<close>. A flag list is printed into a static
  buffer with \<open>snprintf\<close>, which writes at most the space left minus one character and returns the
  length of the whole text; the loop stops at the first text that does not fit. A buffer is the
  string before its terminating NUL.
\<close>

section \<open>Tables\<close>

type_synonym 'v hcge_name = "'v \<times> string"

definition pixel_formats :: "HCGESurfacePixelFormat hcge_name list" where
  "pixel_formats =
    [(HCGE_DSPF_UNKNOWN, ''UNKNOWN''), (HCGE_DSPF_ARGB1555, ''ARGB1555''), (HCGE_DSPF_RGB16, ''RGB16''),
     (HCGE_DSPF_RGB24, ''RGB24''), (HCGE_DSPF_RGB32, ''RGB32''), (HCGE_DSPF_ARGB, ''ARGB''),
     (HCGE_DSPF_A8, ''A8''), (HCGE_DSPF_LUT8, ''LUT8''), (HCGE_DSPF_ARGB4444, ''ARGB4444''),
     (HCGE_DSPF_RGB444, ''RGB444''), (HCGE_DSPF_RGB555, ''RGB555''), (HCGE_DSPF_BGR555, ''BGR555'')]"

definition blends :: "u32 hcge_name list" where
  "blends =
    [(0, ''UNKNOWN''), (1, ''ZERO''), (2, ''ONE''), (3, ''SRCCOLOR''), (4, ''INVSRCCOLOR''),
     (5, ''SRCALPHA''), (6, ''INVSRCALPHA''), (7, ''DESTALPHA''), (8, ''INVDESTALPHA''),
     (9, ''DESTCOLOR''), (10, ''INVDESTCOLOR''), (11, ''SRCALPHASAT'')]"

definition drawing_flags :: "u32 hcge_name list" where
  "drawing_flags =
    [(HCGE_DSDRAW_BLEND, ''BLEND''), (HCGE_DSDRAW_DST_COLORKEY, ''DST_COLORKEY''),
     (HCGE_DSDRAW_SRC_PREMULTIPLY, ''SRC_PREMULTIPLY''), (HCGE_DSDRAW_DST_PREMULTIPLY, ''DST_PREMULTIPLY''),
     (HCGE_DSDRAW_DEMULTIPLY, ''DEMULTIPLY''), (HCGE_DSDRAW_XOR, ''XOR'')]"

definition blitting_flags :: "u32 hcge_name list" where
  "blitting_flags =
    [(HCGE_DSBLIT_BLEND_ALPHACHANNEL, ''BLEND_ALPHACHANNEL''),
     (HCGE_DSBLIT_BLEND_COLORALPHA, ''BLEND_COLORALPHA''),
     (HCGE_DSBLIT_COLORIZE, ''COLORIZE''),
     (HCGE_DSBLIT_SRC_COLORKEY, ''SRC_COLORKEY''),
     (HCGE_DSBLIT_DST_COLORKEY, ''DST_COLORKEY''),
     (HCGE_DSBLIT_SRC_PREMULTIPLY, ''SRC_PREMULTIPLY''),
     (HCGE_DSBLIT_DST_PREMULTIPLY, ''DST_PREMULTIPLY''),
     (HCGE_DSBLIT_DEMULTIPLY, ''DEMULTIPLY''),
     (0x00000100, ''DEINTERLACE''),
     (HCGE_DSBLIT_SRC_PREMULTCOLOR, ''SRC_PREMULTCOLOR''),
     (HCGE_DSBLIT_XOR, ''XOR''),
     (0x00000800, ''INDEX_TRANSLATION''),
     (HCGE_DSBLIT_ROTATE180, ''ROTATE180''),
     (HCGE_DSBLIT_ROTATE90, ''ROTATE90''),
     (HCGE_DSBLIT_ROTATE270, ''ROTATE270''),
     (HCGE_DSBLIT_COLORKEY_PROTECT, ''COLORKEY_PROTECT''),
     (0x00020000, ''SRC_COLORKEY_EXTENDED''),
     (0x00040000, ''DST_COLORKEY_EXTENDED''),
     (HCGE_DSBLIT_SRC_MASK_ALPHA, ''SRC_MASK_ALPHA''),
     (0x00200000, ''SRC_MASK_COLOR''),
     (HCGE_DSBLIT_FLIP_HORIZONTAL, ''FLIP_HORIZONTAL''),
     (HCGE_DSBLIT_FLIP_VERTICAL, ''FLIP_VERTICAL''),
     (0x04000000, ''ROP''),
     (0x08000000, ''SRC_COLORMATRIX''),
     (0x10000000, ''SRC_CONVOLUTION''),
     (HCGE_CUST_DST_COLORKEY, ''CUST_DST_COLORKEY''),
     (HCGE_CUST_SRC_COLORKEY, ''CUST_SRC_COLORKEY'')]"

section \<open>Printing\<close>

definition find_name :: "'v hcge_name list \<Rightarrow> 'v \<Rightarrow> string \<Rightarrow> string" where
  "find_name tbl val unknown = (case find (\<lambda>e. fst e = val) tbl of Some (_, n) \<Rightarrow> n | None \<Rightarrow> unknown)"

text \<open>
  The loop: \<open>buf\<close> is the buffer's text. When a text does not fit, \<open>snprintf\<close> has stored what fits
  before the loop breaks.
\<close>

fun flags_loop :: "u32 hcge_name list \<Rightarrow> u32 \<Rightarrow> nat \<Rightarrow> string \<Rightarrow> string" where
  "flags_loop [] flags sz buf = buf"
| "flags_loop ((v, n) # tbl) flags sz buf =
     (if flags AND v = 0 then flags_loop tbl flags sz buf
      else
        let txt = (if length buf \<noteq> 0 then '' | '' else '''') @ n;
            left = sz - length buf;
            buf' = buf @ take (left - 1) txt
        in if length txt \<ge> left then buf' else flags_loop tbl flags sz buf')"

definition flags_to_string :: "u32 hcge_name list \<Rightarrow> u32 \<Rightarrow> string \<Rightarrow> nat \<Rightarrow> string" where
  "flags_to_string tbl flags none sz = (if flags = 0 then none else flags_loop tbl flags sz '''')"

definition hcge_pixelformat_name :: "HCGESurfacePixelFormat \<Rightarrow> string" where
  "hcge_pixelformat_name f = find_name pixel_formats f ''unknown pixelformat''"

definition hcge_blend_to_string :: "u32 \<Rightarrow> string" where
  "hcge_blend_to_string function = find_name blends function ''UNKNOWN''"

definition hcge_drawingflags_to_string :: "u32 \<Rightarrow> string" where
  "hcge_drawingflags_to_string flags = flags_to_string drawing_flags flags ''NOFX'' 512"

definition hcge_blittingflags_to_string :: "u32 \<Rightarrow> string" where
  "hcge_blittingflags_to_string flags = flags_to_string blitting_flags flags ''NOFX'' 2048"

definition hcge_state_modify_flags :: "u32 \<Rightarrow> string" where
  "hcge_state_modify_flags flags = flags_to_string [(4, ''COLORIZE'')] flags ''NONE'' 128"

section \<open>What is printed\<close>

text \<open>The names of the set flags, separated by a bar.\<close>

fun joined :: "string list \<Rightarrow> string" where
  "joined [] = ''''"
| "joined (n # ns) = '' | '' @ n @ joined ns"

definition join :: "string list \<Rightarrow> string" where
  "join ns = drop 3 (joined ns)"

definition set_names :: "u32 hcge_name list \<Rightarrow> u32 \<Rightarrow> string list" where
  "set_names tbl flags = map snd (filter (\<lambda>(v, n). flags AND v \<noteq> 0) tbl)"

definition table_size :: "u32 hcge_name list \<Rightarrow> nat" where
  "table_size tbl = sum_list (map (\<lambda>(v, n). length n + 3) tbl)"

lemma flags_loop_never_overflows:
  assumes "length buf < sz"
  shows "length (flags_loop tbl flags sz buf) < sz"
  using assms by (induction tbl flags sz buf rule: flags_loop.induct) (auto simp: Let_def)

text \<open>With enough room, the loop appends the remaining names.\<close>

lemma flags_loop_joined:
  assumes "length buf + table_size tbl < sz" and "buf \<noteq> ''''" and "\<forall>(v, n) \<in> set tbl. n \<noteq> ''''"
  shows "flags_loop tbl flags sz buf = buf @ joined (set_names tbl flags)"
  using assms
  by (induction tbl flags sz buf rule: flags_loop.induct)
    (auto simp: Let_def table_size_def set_names_def)

lemma flags_loop_start:
  assumes "table_size tbl < sz" and "\<forall>(v, n) \<in> set tbl. n \<noteq> ''''"
  shows "flags_loop tbl flags sz '''' = join (set_names tbl flags)"
  using assms
proof (induction tbl)
  case (Cons e tbl)
  obtain v n where e: "e = (v, n)" by (cases e)
  show ?case
  proof (cases "flags AND v = 0")
    case True
    then show ?thesis using Cons by (simp add: e table_size_def set_names_def)
  next
    case False
    have "flags_loop tbl flags sz n = n @ joined (set_names tbl flags)"
      using Cons.prems by (intro flags_loop_joined) (auto simp: e table_size_def)
    then show ?thesis
      using Cons.prems False by (auto simp: e table_size_def set_names_def join_def Let_def)
  qed
qed (simp add: set_names_def join_def)

text \<open>
  The flag printers never truncate: for every 32-bit flag word, \<open>hcge_blittingflags_to_string\<close> and
  \<open>hcge_drawingflags_to_string\<close> give the names of exactly the flags that are set, in table order,
  separated by bars (or \<open>NOFX\<close> for no flags); their buffers are large enough for every combination.
\<close>

theorem flags_to_string_complete:
  "hcge_blittingflags_to_string flags =
     (if flags = 0 then ''NOFX'' else join (set_names blitting_flags flags)) \<and>
   hcge_drawingflags_to_string flags =
     (if flags = 0 then ''NOFX'' else join (set_names drawing_flags flags))"
proof -
  have "table_size blitting_flags < 2048" "table_size drawing_flags < 512"
    by (simp_all add: table_size_def blitting_flags_def drawing_flags_def)
  moreover have "\<forall>(v, n) \<in> set blitting_flags. n \<noteq> ''''" "\<forall>(v, n) \<in> set drawing_flags. n \<noteq> ''''"
    by (simp_all add: blitting_flags_def drawing_flags_def)
  ultimately show ?thesis
    by (simp add: hcge_blittingflags_to_string_def hcge_drawingflags_to_string_def flags_to_string_def
        flags_loop_start)
qed

end
