(* ===== verification/LoaderMem.thy ===== *)
theory LoaderMem
  imports Prelude
begin

text \<open>
  Memory accesses and cache maintenance of the Linux loader, \<^verbatim>\<open>src/boot/linux-loader.c\<close>. The loader
  runs on the bare machine: it sees RAM through the cached window KSEG0 and the uncached window
  KSEG1, and orders the two with MIPS \<open>cache\<close> instructions. The instructions it uses are the record
  \<open>cpu\<close>; what it relies on is the locale \<open>cached_ram\<close>, and the two-way write-back cache that the
  comments of the loader describe is its instance in \<^verbatim>\<open>LoaderCache.thy\<close>. The lemmas here say what
  copying, clearing and flushing do to the memory, for arbitrary (also stale) cache contents.
\<close>

section \<open>The machine instructions\<close>

text \<open>
  Byte accesses and aligned word accesses to RAM, and \<open>cache op, 0(a)\<close>. Device registers and coprocessor 0 are in \<^verbatim>\<open>BootLog.thy\<close>.
\<close>

record 'm cpu =
  ld8 :: "u32 \<Rightarrow> 'm \<Rightarrow> u8 \<times> 'm"
  st8 :: "u32 \<Rightarrow> u8 \<Rightarrow> 'm \<Rightarrow> 'm"
  ld32 :: "u32 \<Rightarrow> 'm \<Rightarrow> u32 \<times> 'm"
  st32 :: "u32 \<Rightarrow> u32 \<Rightarrow> 'm \<Rightarrow> 'm"
  cacheop :: "nat \<Rightarrow> u32 \<Rightarrow> 'm \<Rightarrow> 'm"

abbreviation (input) KSEG0_BASE where "KSEG0_BASE \<equiv> (0x80000000 :: u32)"
abbreviation (input) KSEG1_BASE where "KSEG1_BASE \<equiv> (0xa0000000 :: u32)"
abbreviation (input) RAM_TOP where "RAM_TOP \<equiv> (0x88000000 :: u32)"
abbreviation (input) CACHE_LINE where "CACHE_LINE \<equiv> (32 :: u32)"
abbreviation (input) CACHE_INDEX_SPAN where "CACHE_INDEX_SPAN \<equiv> (0x4000 :: u32)"
abbreviation (input) CACHE_TOTAL_SPAN where "CACHE_TOTAL_SPAN \<equiv> (0x8000 :: u32)"

section \<open>Addresses\<close>

definition align_up :: "u32 \<Rightarrow> u32 \<Rightarrow> u32" where
  "align_up val align = (val + align - 1) AND NOT (align - 1)"

definition to_kseg0 :: "u32 \<Rightarrow> u32" where
  "to_kseg0 a =
     (if a AND 0xe0000000 = KSEG0_BASE then a
      else if a AND 0xe0000000 = KSEG1_BASE then (a AND 0x1fffffff) OR KSEG0_BASE
      else a OR KSEG0_BASE)"

definition to_kseg1 :: "u32 \<Rightarrow> u32" where
  "to_kseg1 a =
     (if a AND 0xe0000000 = KSEG1_BASE then a
      else if a AND 0xe0000000 = KSEG0_BASE then (a AND 0x1fffffff) OR KSEG1_BASE
      else a OR KSEG1_BASE)"

text \<open>Byte \<open>x\<close> of the 128 MiB of RAM, through the two windows.\<close>

abbreviation (input) RAM_SIZE where "RAM_SIZE \<equiv> (0x8000000 :: nat)"

definition k0 :: "nat \<Rightarrow> u32" where
  "k0 x = of_nat (0x80000000 + x)"

definition k1 :: "nat \<Rightarrow> u32" where
  "k1 x = of_nat (0xa0000000 + x)"

lemma unat_k0: "x \<le> RAM_SIZE \<Longrightarrow> unat (k0 x) = 0x80000000 + x"
  unfolding k0_def by (simp only: unsigned_of_nat) (simp add: take_bit_nat_eq_self_iff)

lemma unat_k1: "x \<le> RAM_SIZE \<Longrightarrow> unat (k1 x) = 0xa0000000 + x"
  unfolding k1_def by (simp only: unsigned_of_nat) (simp add: take_bit_nat_eq_self_iff)

lemma k0_add: "k0 x + of_nat n = k0 (x + n)" "k0 x + 1 = k0 (Suc x)"
  by (simp_all add: k0_def)

lemma k1_add: "k1 x + of_nat n = k1 (x + n)" "k1 x + 1 = k1 (Suc x)" "k1 x + numeral k = k1 (x + numeral k)"
  by (simp_all add: k1_def)

section \<open>Copying\<close>

fun copy_forward :: "'m cpu \<Rightarrow> u32 \<Rightarrow> u32 \<Rightarrow> nat \<Rightarrow> 'm \<Rightarrow> 'm" where
  "copy_forward c dst src 0 m = m"
| "copy_forward c dst src (Suc n) m =
     (let (v, m) = ld8 c src m in copy_forward c (dst + 1) (src + 1) n (st8 c dst v m))"

text \<open>The downward loop; the pointers start one past the end.\<close>

fun copy_backward :: "'m cpu \<Rightarrow> u32 \<Rightarrow> u32 \<Rightarrow> nat \<Rightarrow> 'm \<Rightarrow> 'm" where
  "copy_backward c dst src 0 m = m"
| "copy_backward c dst src (Suc n) m =
     (let (v, m) = ld8 c (src - 1) m in copy_backward c (dst - 1) (src - 1) n (st8 c (dst - 1) v m))"

definition copy_overlap :: "'m cpu \<Rightarrow> u32 \<Rightarrow> u32 \<Rightarrow> u32 \<Rightarrow> 'm \<Rightarrow> 'm" where
  "copy_overlap c dst src len m =
     (if dst \<le> src \<or> dst \<ge> src + len then copy_forward c dst src (unat len) m
      else copy_backward c (dst + len) (src + len) (unat len) m)"

fun zero_bytes :: "'m cpu \<Rightarrow> u32 \<Rightarrow> nat \<Rightarrow> 'm \<Rightarrow> 'm" where
  "zero_bytes c dst 0 m = m"
| "zero_bytes c dst (Suc n) m = zero_bytes c (dst + 1) n (st8 c dst 0 m)"

section \<open>Cache maintenance\<close>

text \<open>
  The loop \<open>for (; p < end; p += CACHE_LINE)\<close>. Its bounds are multiples of the line size, so it
  runs \<open>(end - p) div 32\<close> times if \<open>p < end\<close>, reaching \<open>end\<close> exactly, and not at all otherwise.
\<close>

fun line_loop :: "(u32 \<Rightarrow> 'm \<Rightarrow> 'm) \<Rightarrow> u32 \<Rightarrow> nat \<Rightarrow> 'm \<Rightarrow> 'm" where
  "line_loop f p 0 m = m"
| "line_loop f p (Suc n) m = line_loop f (p + CACHE_LINE) n (f p m)"

definition lines_between :: "u32 \<Rightarrow> u32 \<Rightarrow> nat" where
  "lines_between p end' = (unat end' - unat p) div 32"

definition cache_flush_line :: "'m cpu \<Rightarrow> u32 \<Rightarrow> 'm \<Rightarrow> 'm" where
  "cache_flush_line c a m = cacheop c 0x10 a (cacheop c 0x15 a m)"

definition range_loop :: "(u32 \<Rightarrow> 'm \<Rightarrow> 'm) \<Rightarrow> u32 \<Rightarrow> u32 \<Rightarrow> 'm \<Rightarrow> 'm" where
  "range_loop f a len m =
     (if len = 0 then m
      else let p = a AND NOT (CACHE_LINE - 1); end' = align_up (a + len) CACHE_LINE
           in line_loop f p (lines_between p end') m)"

definition cache_flush_range :: "'m cpu \<Rightarrow> u32 \<Rightarrow> u32 \<Rightarrow> 'm \<Rightarrow> 'm" where
  "cache_flush_range c = range_loop (cache_flush_line c)"

definition cache_invalidate_dcache_range :: "'m cpu \<Rightarrow> u32 \<Rightarrow> u32 \<Rightarrow> 'm \<Rightarrow> 'm" where
  "cache_invalidate_dcache_range c = range_loop (cacheop c 0x11)"

definition cache_invalidate_icache_range :: "'m cpu \<Rightarrow> u32 \<Rightarrow> u32 \<Rightarrow> 'm \<Rightarrow> 'm" where
  "cache_invalidate_icache_range c = range_loop (cacheop c 0x10)"

definition cache_writeback_dcache_indices :: "'m cpu \<Rightarrow> 'm \<Rightarrow> 'm" where
  "cache_writeback_dcache_indices c =
     line_loop (\<lambda>p m. cacheop c 0x01 p (cacheop c 0x01 p m)) KSEG0_BASE
       (lines_between KSEG0_BASE (KSEG0_BASE + CACHE_INDEX_SPAN))"

definition cache_invalidate_icache_indices :: "'m cpu \<Rightarrow> 'm \<Rightarrow> 'm" where
  "cache_invalidate_icache_indices c =
     line_loop (\<lambda>p m. cacheop c 0x00 p (cacheop c 0x00 p m)) KSEG0_BASE
       (lines_between KSEG0_BASE (KSEG0_BASE + CACHE_TOTAL_SPAN))"

section \<open>What the loader relies on\<close>

text \<open>
  Observations of the machine, per byte of RAM: \<open>view\<close> is what a cached load returns, \<open>ram\<close> what is
  in the memory itself, \<open>resident\<close> and \<open>iresident\<close> whether the data and the instruction cache hold
  the line. A byte is \<open>solid\<close> if writing its line back makes memory agree with the view; a byte that
  is not solid is a stale alias: resident, clean and different from memory, as a warm boot leaves
  them. An access may evict any other line, so it keeps the view of solid bytes only.
\<close>

abbreviation (input) same_line where "same_line x y \<equiv> x div 32 = y div (32 :: nat)"

locale cached_ram =
  fixes c :: "'m cpu"
    and inv :: "'m \<Rightarrow> bool"
    and view :: "'m \<Rightarrow> nat \<Rightarrow> u8"
    and ram :: "'m \<Rightarrow> nat \<Rightarrow> u8"
    and solid :: "'m \<Rightarrow> nat \<Rightarrow> bool"
    and resident :: "'m \<Rightarrow> nat \<Rightarrow> bool"
    and iresident :: "'m \<Rightarrow> nat \<Rightarrow> bool"
  assumes not_resident: "inv m \<Longrightarrow> \<not> resident m p \<Longrightarrow> view m p = ram m p \<and> solid m p"
    and ld8_k0: "inv m \<Longrightarrow> x < RAM_SIZE \<Longrightarrow> ld8 c (k0 x) m = (v, m') \<Longrightarrow>
      v = view m x \<and> inv m' \<and> iresident m' = iresident m \<and>
      (\<forall>p. (solid m p \<longrightarrow> solid m' p \<and> view m' p = view m p) \<and>
           (solid m p \<and> ram m p = view m p \<longrightarrow> ram m' p = ram m p) \<and>
           (resident m' p \<longrightarrow> resident m p \<or> same_line p x))"
    and st8_k0: "inv m \<Longrightarrow> x < RAM_SIZE \<Longrightarrow> m' = st8 c (k0 x) v m \<Longrightarrow>
      inv m' \<and> iresident m' = iresident m \<and> solid m' x \<and> view m' x = v \<and>
      (\<forall>p. p \<noteq> x \<longrightarrow> (solid m p \<longrightarrow> solid m' p \<and> view m' p = view m p) \<and>
           (solid m p \<and> ram m p = view m p \<longrightarrow> ram m' p = ram m p))"
    and ld8_k1: "inv m \<Longrightarrow> x < RAM_SIZE \<Longrightarrow> ld8 c (k1 x) m = (ram m x, m)"
    and ld32_k1: "inv m \<Longrightarrow> x + 3 < RAM_SIZE \<Longrightarrow> x mod 4 = 0 \<Longrightarrow>
      ld32 c (k1 x) m = (le32_of (ram m x) (ram m (x + 1)) (ram m (x + 2)) (ram m (x + 3)), m)"
    and st8_k1: "inv m \<Longrightarrow> x < RAM_SIZE \<Longrightarrow> m' = st8 c (k1 x) v m \<Longrightarrow>
      inv m' \<and> iresident m' = iresident m \<and> resident m' = resident m \<and> ram m' = (ram m)(x := v) \<and>
      (\<forall>p. p \<noteq> x \<longrightarrow> view m' p = view m p \<and> solid m' p = solid m p)"
    and st32_k1: "inv m \<Longrightarrow> x + 3 < RAM_SIZE \<Longrightarrow> x mod 4 = 0 \<Longrightarrow>
      st32 c (k1 x) w m = st8 c (k1 (x + 3)) (byte_of 3 w) (st8 c (k1 (x + 2)) (byte_of 2 w)
        (st8 c (k1 (x + 1)) (byte_of 1 w) (st8 c (k1 x) (byte_of 0 w) m)))"
    and hit_writeback_inv: "inv m \<Longrightarrow> x < RAM_SIZE \<Longrightarrow> m' = cacheop c 0x15 (k0 x) m \<Longrightarrow>
      inv m' \<and> iresident m' = iresident m \<and>
      (\<forall>p. if same_line p x then \<not> resident m' p \<and> (solid m p \<longrightarrow> ram m' p = view m p)
           else ram m' p = ram m p \<and> view m' p = view m p \<and> solid m' p = solid m p \<and>
                resident m' p = resident m p)"
    and hit_invalidate: "inv m \<Longrightarrow> x < RAM_SIZE \<Longrightarrow> m' = cacheop c 0x11 (k0 x) m \<Longrightarrow>
      inv m' \<and> iresident m' = iresident m \<and> ram m' = ram m \<and>
      (\<forall>p. if same_line p x then \<not> resident m' p
           else view m' p = view m p \<and> solid m' p = solid m p \<and> resident m' p = resident m p)"
    and hit_invalidate_i: "inv m \<Longrightarrow> x < RAM_SIZE \<Longrightarrow> m' = cacheop c 0x10 (k0 x) m \<Longrightarrow>
      inv m' \<and> ram m' = ram m \<and> view m' = view m \<and> solid m' = solid m \<and> resident m' = resident m \<and>
      (\<forall>p. iresident m' p \<longleftrightarrow> iresident m p \<and> \<not> same_line p x)"
    and index_writeback_inv: "inv m \<Longrightarrow> x < RAM_SIZE \<Longrightarrow> m' = cacheop c 0x01 (k0 x) m \<Longrightarrow>
      inv m' \<and> iresident m' = iresident m \<and>
      (\<forall>p. (solid m p \<longrightarrow> solid m' p \<and> view m' p = view m p) \<and>
           (solid m p \<and> ram m p = view m p \<longrightarrow> ram m' p = ram m p) \<and>
           (resident m' p \<longrightarrow> resident m p))"
    and index_invalidate_i: "inv m \<Longrightarrow> x < RAM_SIZE \<Longrightarrow> m' = cacheop c 0x00 (k0 x) m \<Longrightarrow>
      inv m' \<and> ram m' = ram m \<and> view m' = view m \<and> solid m' = solid m \<and> resident m' = resident m \<and>
      (\<forall>p. iresident m' p \<longrightarrow> iresident m p)"
begin

subsection \<open>Cached stores\<close>

text \<open>
  From \<open>m\<close> to \<open>m'\<close> the cached bytes of \<open>X\<close> have been written with \<open>f\<close> and nothing else: the solid
  bytes outside keep their view, and memory outside that agreed with the view is unchanged.
\<close>

definition written :: "'m \<Rightarrow> 'm \<Rightarrow> nat set \<Rightarrow> (nat \<Rightarrow> u8) \<Rightarrow> bool" where
  "written m m' X f \<longleftrightarrow> inv m' \<and> iresident m' = iresident m \<and>
     (\<forall>p \<in> X. solid m' p \<and> view m' p = f p) \<and>
     (\<forall>p. p \<notin> X \<longrightarrow> (solid m p \<longrightarrow> solid m' p \<and> view m' p = view m p) \<and>
        (solid m p \<and> ram m p = view m p \<longrightarrow> ram m' p = ram m p))"

lemma written_refl: "inv m \<Longrightarrow> written m m {} f"
  by (simp add: written_def)

lemma written_trans:
  assumes "written m m1 X f" "written m1 m2 Y g" "\<And>p. p \<in> Y \<Longrightarrow> h p = g p" "\<And>p. p \<in> X - Y \<Longrightarrow> h p = f p"
    "Z = X \<union> Y"
  shows "written m m2 Z h"
  using assms unfolding written_def by (simp add: Ball_def) metis

lemma written_ld8: "inv m \<Longrightarrow> x < RAM_SIZE \<Longrightarrow> ld8 c (k0 x) m = (v, m') \<Longrightarrow> v = view m x \<and> written m m' {} f"
  using ld8_k0 unfolding written_def by simp

lemma written_st8: "inv m \<Longrightarrow> x < RAM_SIZE \<Longrightarrow> f x = v \<Longrightarrow> written m (st8 c (k0 x) v m) {x} f"
  using st8_k0 unfolding written_def by blast

lemma written_move:
  assumes "inv m" "x < RAM_SIZE" "y < RAM_SIZE" "ld8 c (k0 y) m = (v, m1)" "solid m y"
  shows "written m (st8 c (k0 x) v m1) {x} (\<lambda>_. view m y)"
proof -
  have l: "v = view m y" "written m m1 {} (\<lambda>_. view m y)" using written_ld8 [OF assms(1,3,4)] by auto
  then have "inv m1" by (simp add: written_def)
  from written_trans [OF l(2) written_st8 [OF this assms(2), where f = "\<lambda>_. view m y" and v = v]] l(1)
  show ?thesis by simp
qed

lemma copy_forward_written:
  assumes "inv m" "s + n \<le> RAM_SIZE" "d + n \<le> RAM_SIZE" "d \<le> s \<or> s + n \<le> d"
    "\<forall>p \<in> {s..<s + n}. solid m p"
  shows "written m (copy_forward c (k0 d) (k0 s) n m) {d..<d + n} (\<lambda>p. view m (s + (p - d)))"
  using assms
proof (induction n arbitrary: d s m)
  case 0
  then show ?case by (simp add: written_refl)
next
  case (Suc n)
  obtain v m1 where l: "ld8 c (k0 s) m = (v, m1)" by (cases "ld8 c (k0 s) m")
  define m2 where "m2 = st8 c (k0 d) v m1"
  have w: "written m m2 {d} (\<lambda>_. view m s)"
    unfolding m2_def by (rule written_move [OF _ _ _ l]) (use Suc.prems in auto)
  have keep: "solid m2 p \<and> view m2 p = view m p" if "p \<in> {Suc s..<Suc s + n}" for p
    using w that Suc.prems unfolding written_def by auto
  have moved: "view m2 (s + (p - d)) = view m (s + (p - d))" if "Suc d \<le> p" "p < Suc (d + n)" for p
  proof -
    from that obtain q where "p = Suc d + q" "q < n" by (auto simp: le_iff_add)
    then show ?thesis using keep [of "Suc s + q"] by simp
  qed
  have "written m2 (copy_forward c (k0 (Suc d)) (k0 (Suc s)) n m2) {Suc d..<Suc d + n}
      (\<lambda>p. view m2 (Suc s + (p - Suc d)))"
    by (rule Suc.IH) (use Suc.prems keep w in \<open>auto simp: written_def\<close>)
  then have "written m (copy_forward c (k0 (Suc d)) (k0 (Suc s)) n m2) {d..<d + Suc n} (\<lambda>p. view m (s + (p - d)))"
    by (rule written_trans [OF w]) (use moved in \<open>auto simp: Suc_diff_Suc\<close>)
  then show ?case by (simp add: l m2_def k0_add)
qed

lemma copy_backward_written:
  assumes "inv m" "s + n \<le> RAM_SIZE" "d + n \<le> RAM_SIZE" "s \<le> d" "\<forall>p \<in> {s..<s + n}. solid m p"
  shows "written m (copy_backward c (k0 (d + n)) (k0 (s + n)) n m) {d..<d + n} (\<lambda>p. view m (s + (p - d)))"
  using assms
proof (induction n arbitrary: m)
  case 0
  then show ?case by (simp add: written_refl)
next
  case (Suc n)
  have k: "k0 (x + Suc n) - 1 = k0 (x + n)" for x by (simp add: k0_def)
  obtain v m1 where l: "ld8 c (k0 (s + n)) m = (v, m1)" by (cases "ld8 c (k0 (s + n)) m")
  define m2 where "m2 = st8 c (k0 (d + n)) v m1"
  have w: "written m m2 {d + n} (\<lambda>_. view m (s + n))"
    unfolding m2_def by (rule written_move [OF _ _ _ l]) (use Suc.prems in auto)
  have keep: "solid m2 p \<and> view m2 p = view m p" if "p \<in> {s..<s + n}" for p
    using w that Suc.prems unfolding written_def by auto
  have moved: "view m2 (s + (p - d)) = view m (s + (p - d))" if "d \<le> p" "p < d + n" for p
  proof -
    from that obtain q where "p = d + q" "q < n" by (auto simp: le_iff_add)
    then show ?thesis using keep [of "s + q"] by simp
  qed
  have "written m2 (copy_backward c (k0 (d + n)) (k0 (s + n)) n m2) {d..<d + n} (\<lambda>p. view m2 (s + (p - d)))"
    by (rule Suc.IH) (use Suc.prems keep w in \<open>auto simp: written_def\<close>)
  then have "written m (copy_backward c (k0 (d + n)) (k0 (s + n)) n m2) {d..<d + Suc n} (\<lambda>p. view m (s + (p - d)))"
    by (rule written_trans [OF w]) (use moved in auto)
  then show ?case by (simp add: l m2_def k del: add_Suc_right)
qed

lemma k0_le: "x \<le> RAM_SIZE \<Longrightarrow> y \<le> RAM_SIZE \<Longrightarrow> k0 x \<le> k0 y \<longleftrightarrow> x \<le> y"
  by (simp add: word_le_nat_alt unat_k0)

text \<open>\<open>copy_overlap\<close> is a correct move, whatever the overlap of source and destination.\<close>

lemma copy_overlap_written:
  assumes "inv m" "s + n \<le> RAM_SIZE" "d + n \<le> RAM_SIZE" "\<forall>p \<in> {s..<s + n}. solid m p"
  shows "written m (copy_overlap c (k0 d) (k0 s) (of_nat n) m) {d..<d + n} (\<lambda>p. view m (s + (p - d)))"
proof -
  have n: "unat (of_nat n :: u32) = n"
    using assms(2) by (simp only: unsigned_of_nat) (simp add: take_bit_nat_eq_self_iff)
  have le: "k0 d \<le> k0 s \<longleftrightarrow> d \<le> s" "k0 d \<ge> k0 s + of_nat n \<longleftrightarrow> s + n \<le> d"
    using assms(2,3) by (simp_all add: k0_add k0_le)
  show ?thesis
  proof (cases "d \<le> s \<or> s + n \<le> d")
    case True
    then show ?thesis
      using copy_forward_written [OF assms(1-3) _ assms(4)] by (auto simp: copy_overlap_def le n)
  next
    case False
    then show ?thesis
      using copy_backward_written [OF assms(1-3) _ assms(4)]
      by (simp add: copy_overlap_def le [unfolded k0_add] n k0_add)
  qed
qed

lemma zero_bytes_written:
  assumes "inv m" "d + n \<le> RAM_SIZE"
  shows "written m (zero_bytes c (k0 d) n m) {d..<d + n} (\<lambda>_. 0)"
  using assms
proof (induction n arbitrary: d m)
  case 0
  then show ?case by (simp add: written_refl)
next
  case (Suc n)
  define m1 where "m1 = st8 c (k0 d) 0 m"
  have w: "written m m1 {d} (\<lambda>_. 0)" unfolding m1_def by (rule written_st8) (use Suc.prems in auto)
  have "written m1 (zero_bytes c (k0 (Suc d)) n m1) {Suc d..<Suc d + n} (\<lambda>_. 0)"
    by (rule Suc.IH) (use Suc.prems w in \<open>auto simp: written_def\<close>)
  then have "written m (zero_bytes c (k0 (Suc d)) n m1) {d..<d + Suc n} (\<lambda>_. 0)"
    by (rule written_trans [OF w]) auto
  then show ?case by (simp add: m1_def k0_add)
qed

end

section \<open>Flushing\<close>

lemma and_neg_32: "(w :: u32) AND - 32 = of_nat (32 * (unat w div 32))"
proof -
  have m: "(- 32 :: u32) = NOT (mask 5)" by (simp add: mask_eq_exp_minus_1)
  have "w AND - 32 = push_bit 5 (drop_bit 5 w)"
    unfolding m
    by (rule bit_word_eqI)
      (auto simp: bit_and_iff bit_not_iff bit_mask_iff bit_push_bit_iff bit_drop_bit_eq simp del: mask_numeral)
  also have "\<dots> = 32 * (w div 32)" by (simp add: push_bit_eq_mult drop_bit_eq_div)
  also have "\<dots> = of_nat (32 * (unat w div 32))" by (simp add: word_arith_nat_div [of w])
  finally show ?thesis .
qed

lemma k0_line: "unat (k0 a) = 0x80000000 + a \<Longrightarrow> k0 a AND - 32 = k0 (32 * (a div 32))"
proof -
  assume a: "unat (k0 a) = 0x80000000 + a"
  have "(0x80000000 + a) div 32 = 0x4000000 + a div (32 :: nat)" by (simp add: div_add1_eq)
  then show ?thesis unfolding and_neg_32 a by (simp add: k0_def)
qed

lemma line_base: "a \<le> RAM_SIZE \<Longrightarrow> k0 a AND - 32 = k0 (32 * (a div 32))"
  by (rule k0_line) (rule unat_k0)

lemma align_up_line: "b \<le> RAM_SIZE \<Longrightarrow> align_up (k0 b) 32 = k0 (32 * ((b + 31) div 32))"
proof -
  assume b: "b \<le> RAM_SIZE"
  have u: "unat (k0 (b + 31)) = 0x80000000 + (b + 31)"
    unfolding k0_def using b by (simp only: unsigned_of_nat) (simp add: take_bit_nat_eq_self_iff)
  have "align_up (k0 b) 32 = k0 (b + 31) AND - 32" by (simp add: align_up_def k0_def algebra_simps)
  then show ?thesis using k0_line [OF u] by simp
qed

text \<open>The lines a range loop visits.\<close>

definition line_range :: "nat \<Rightarrow> nat \<Rightarrow> nat set" where
  "line_range a n = (if n = 0 then {} else {a div 32..<(a + n + 31) div 32})"

lemma line_range_covers: "p \<in> {a..<a + n} \<Longrightarrow> p div 32 \<in> line_range a n"
  by (auto simp: line_range_def div_le_mono)

lemma line_range_bound: "i \<in> line_range a n \<Longrightarrow> a + n \<le> RAM_SIZE \<Longrightarrow> 32 * i < RAM_SIZE"
  by (auto simp: line_range_def split: if_splits)

lemma range_loop_lines:
  assumes "a + n \<le> RAM_SIZE"
  shows "range_loop f (k0 a) (of_nat n) m =
    line_loop f (k0 (32 * (a div 32))) (if n = 0 then 0 else (a + n + 31) div 32 - a div 32) m"
proof (cases "n = 0")
  case False
  have n: "(of_nat n :: u32) \<noteq> 0"
  proof -
    have "unat (of_nat n :: u32) = n"
      using assms by (simp only: unsigned_of_nat) (simp add: take_bit_nat_eq_self_iff)
    then show ?thesis using False by force
  qed
  have b: "32 * ((a + n + 31) div 32) \<le> RAM_SIZE" "32 * (a div 32) \<le> RAM_SIZE" using assms by auto
  have "lines_between (k0 (32 * (a div 32))) (k0 (32 * ((a + n + 31) div 32))) = (a + n + 31) div 32 - a div 32"
    unfolding lines_between_def unat_k0 [OF b(1)] unat_k0 [OF b(2)] by (simp add: diff_mult_distrib2 [symmetric])
  then show ?thesis
    using False n assms line_base [of a] align_up_line [of "a + n"]
    by (simp add: range_loop_def k0_add)
qed (simp add: range_loop_def)

context cached_ram begin

text \<open>
  From \<open>m\<close> to \<open>m'\<close> nothing has been written: solid bytes keep their view, memory that agreed with
  the view is unchanged, nothing has become resident, and the lines \<open>X\<close> (\<open>Y\<close>) are no longer in the
  data (instruction) cache.
\<close>

definition settled :: "'m \<Rightarrow> 'm \<Rightarrow> nat set \<Rightarrow> nat set \<Rightarrow> bool" where
  "settled m m' X Y \<longleftrightarrow> inv m' \<and>
     (\<forall>p. (solid m p \<longrightarrow> solid m' p \<and> view m' p = view m p) \<and>
          (solid m p \<and> ram m p = view m p \<longrightarrow> ram m' p = ram m p) \<and>
          (resident m' p \<longrightarrow> resident m p) \<and> (iresident m' p \<longrightarrow> iresident m p) \<and>
          (p div 32 \<in> X \<longrightarrow> \<not> resident m' p) \<and> (p div 32 \<in> Y \<longrightarrow> \<not> iresident m' p))"

lemma settled_refl: "inv m \<Longrightarrow> settled m m {} {}"
  by (simp add: settled_def)

lemma settled_trans:
  "settled m m1 X Y \<Longrightarrow> settled m1 m2 X' Y' \<Longrightarrow> X'' = X \<union> X' \<Longrightarrow> Y'' = Y \<union> Y' \<Longrightarrow> settled m m2 X'' Y''"
  unfolding settled_def by auto

lemma settled_flush_line:
  assumes "inv m" "32 * i < RAM_SIZE"
  shows "settled m (cache_flush_line c (k0 (32 * i)) m) {i} {i}"
proof -
  define m1 where "m1 = cacheop c 0x15 (k0 (32 * i)) m"
  have w: "inv m1 \<and> iresident m1 = iresident m \<and>
      (\<forall>p. if same_line p (32 * i) then \<not> resident m1 p \<and> (solid m p \<longrightarrow> ram m1 p = view m p)
           else ram m1 p = ram m p \<and> view m1 p = view m p \<and> solid m1 p = solid m p \<and>
                resident m1 p = resident m p)"
    by (rule hit_writeback_inv [OF assms m1_def])
  then have nr: "\<not> resident m1 p \<Longrightarrow> view m1 p = ram m1 p \<and> solid m1 p" for p using not_resident by blast
  have "inv (cacheop c 0x10 (k0 (32 * i)) m1) \<and> ram (cacheop c 0x10 (k0 (32 * i)) m1) = ram m1 \<and>
      view (cacheop c 0x10 (k0 (32 * i)) m1) = view m1 \<and> solid (cacheop c 0x10 (k0 (32 * i)) m1) = solid m1 \<and>
      resident (cacheop c 0x10 (k0 (32 * i)) m1) = resident m1 \<and>
      (\<forall>p. iresident (cacheop c 0x10 (k0 (32 * i)) m1) p \<longleftrightarrow> iresident m1 p \<and> \<not> same_line p (32 * i))"
    by (rule hit_invalidate_i) (use w assms in auto)
  then show ?thesis
    unfolding settled_def cache_flush_line_def m1_def [symmetric]
    using w nr by (auto split: if_splits)
qed

lemma settled_drop_d:
  assumes "inv m" "32 * i < RAM_SIZE" "\<And>p. p div 32 = i \<Longrightarrow> \<not> resident m p"
  shows "settled m (cacheop c 0x11 (k0 (32 * i)) m) {i} {}"
proof -
  define m1 where "m1 = cacheop c 0x11 (k0 (32 * i)) m"
  have w: "inv m1 \<and> iresident m1 = iresident m \<and> ram m1 = ram m \<and>
      (\<forall>p. if same_line p (32 * i) then \<not> resident m1 p
           else view m1 p = view m p \<and> solid m1 p = solid m p \<and> resident m1 p = resident m p)"
    by (rule hit_invalidate [OF assms(1,2) m1_def])
  then have nr: "\<not> resident m1 p \<Longrightarrow> view m1 p = ram m1 p \<and> solid m1 p" for p using not_resident by blast
  have "solid m p \<longrightarrow> solid m1 p \<and> view m1 p = view m p" for p
    using w nr [of p] not_resident [OF assms(1), of p] assms(3) [of p] by (cases "p div 32 = i") auto
  then show ?thesis unfolding settled_def m1_def [symmetric] using w by (auto split: if_splits)
qed

lemma settled_drop_i:
  assumes "inv m" "32 * i < RAM_SIZE"
  shows "settled m (cacheop c 0x10 (k0 (32 * i)) m) {} {i}"
  using hit_invalidate_i [OF assms refl] by (auto simp: settled_def)

lemma settled_index_d:
  assumes "inv m" "32 * i < RAM_SIZE"
  shows "settled m (cacheop c 0x01 (k0 (32 * i)) m) {} {}"
  using index_writeback_inv [OF assms refl] by (auto simp: settled_def)

lemma settled_index_i:
  assumes "inv m" "32 * i < RAM_SIZE"
  shows "settled m (cacheop c 0x00 (k0 (32 * i)) m) {} {}"
  using index_invalidate_i [OF assms refl] by (auto simp: settled_def)

lemma line_loop_settled:
  assumes "inv m" "\<And>p. p div 32 \<in> R \<Longrightarrow> \<not> resident m p"
    and "\<And>m j. inv m \<Longrightarrow> (\<And>p. p div 32 \<in> R \<Longrightarrow> \<not> resident m p) \<Longrightarrow> j \<in> {i..<i + n} \<Longrightarrow>
      settled m (f (k0 (32 * j)) m) (if D then {j} else {}) (if I then {j} else {})"
  shows "settled m (line_loop f (k0 (32 * i)) n m) (if D then {i..<i + n} else {}) (if I then {i..<i + n} else {})"
  using assms
proof (induction n arbitrary: i m)
  case 0
  then show ?case by (simp add: settled_refl)
next
  case (Suc n)
  define m1 where "m1 = f (k0 (32 * i)) m"
  have s: "settled m m1 (if D then {i} else {}) (if I then {i} else {})"
    unfolding m1_def by (rule Suc.prems(3)) (use Suc.prems in auto)
  have "settled m1 (line_loop f (k0 (32 * Suc i)) n m1) (if D then {Suc i..<Suc i + n} else {})
      (if I then {Suc i..<Suc i + n} else {})"
  proof (rule Suc.IH)
    show "inv m1" using s by (simp add: settled_def)
    show "\<not> resident m1 p" if "p div 32 \<in> R" for p
      using s Suc.prems(2) [OF that] by (auto simp: settled_def)
    show "settled m (f (k0 (32 * j)) m) (if D then {j} else {}) (if I then {j} else {})"
      if "inv m" "\<And>p. p div 32 \<in> R \<Longrightarrow> \<not> resident m p" "j \<in> {Suc i..<Suc i + n}" for m j
      by (rule Suc.prems(3)) (use that in auto)
  qed
  then have "settled m (line_loop f (k0 (32 * Suc i)) n m1) (if D then {i..<i + Suc n} else {})
      (if I then {i..<i + Suc n} else {})"
    by (rule settled_trans [OF s]) auto
  then show ?case by (simp add: m1_def k0_def algebra_simps)
qed

lemma range_loop_settled:
  assumes "inv m" "a + n \<le> RAM_SIZE" "\<And>p. p div 32 \<in> R \<Longrightarrow> \<not> resident m p"
    and "\<And>m j. inv m \<Longrightarrow> (\<And>p. p div 32 \<in> R \<Longrightarrow> \<not> resident m p) \<Longrightarrow> j \<in> line_range a n \<Longrightarrow> 32 * j < RAM_SIZE \<Longrightarrow>
      settled m (f (k0 (32 * j)) m) (if D then {j} else {}) (if I then {j} else {})"
  shows "settled m (range_loop f (k0 a) (of_nat n) m) (if D then line_range a n else {})
    (if I then line_range a n else {})"
proof (cases "n = 0")
  case True
  then show ?thesis using assms(1) by (simp add: range_loop_def line_range_def settled_refl)
next
  case False
  have le: "a div 32 \<le> (a + n + 31) div 32" by (simp add: div_le_mono)
  have "settled m (line_loop f (k0 (32 * (a div 32))) ((a + n + 31) div 32 - a div 32) m)
     (if D then {a div 32..<a div 32 + ((a + n + 31) div 32 - a div 32)} else {})
     (if I then {a div 32..<a div 32 + ((a + n + 31) div 32 - a div 32)} else {})"
    by (rule line_loop_settled [where R = R], rule assms(1), erule assms(3), rule assms(4))
      (use False le line_range_bound [OF _ assms(2)] in \<open>auto simp: line_range_def\<close>)
  then show ?thesis
    using False unfolding range_loop_lines [OF assms(2)] line_range_def le_add_diff_inverse [OF le]
    by (simp only: if_False)
qed

lemma cache_flush_range_settled:
  assumes "inv m" "a + n \<le> RAM_SIZE"
  shows "settled m (cache_flush_range c (k0 a) (of_nat n) m) (line_range a n) (line_range a n)"
  using range_loop_settled [OF assms, where R = "{}" and D = True and I = True and f = "cache_flush_line c"]
    settled_flush_line
  by (simp add: cache_flush_range_def)

lemma cache_invalidate_icache_range_settled:
  assumes "inv m" "a + n \<le> RAM_SIZE"
  shows "settled m (cache_invalidate_icache_range c (k0 a) (of_nat n) m) {} (line_range a n)"
  using range_loop_settled [OF assms, where R = "{}" and D = False and I = True and f = "cacheop c 0x10"]
    settled_drop_i
  by (simp add: cache_invalidate_icache_range_def)

lemma cache_invalidate_dcache_range_settled:
  assumes "inv m" "a + n \<le> RAM_SIZE" "\<And>p. p div 32 \<in> line_range a n \<Longrightarrow> \<not> resident m p"
  shows "settled m (cache_invalidate_dcache_range c (k0 a) (of_nat n) m) (line_range a n) {}"
  using range_loop_settled [OF assms, where D = True and I = False and f = "cacheop c 0x11"]
    settled_drop_d
  by (simp add: cache_invalidate_dcache_range_def)

lemma index_loop_settled:
  assumes "inv m" "32 * n \<le> RAM_SIZE"
    "\<And>m j. inv m \<Longrightarrow> 32 * j < RAM_SIZE \<Longrightarrow> settled m (f (k0 (32 * j)) m) {} {}"
  shows "settled m (line_loop (\<lambda>p m. f p (f p m)) KSEG0_BASE n m) {} {}"
proof -
  have "settled m (f (k0 (32 * j)) (f (k0 (32 * j)) m)) {} {}" if "inv m" "32 * j < RAM_SIZE" for m j
    using settled_trans [OF assms(3) [OF that] assms(3) [OF _ that(2)]] assms(3) [OF that]
    by (simp add: settled_def)
  then have "settled m (line_loop (\<lambda>p m. f p (f p m)) (k0 (32 * 0)) n m) {} {}"
    using line_loop_settled [OF assms(1), where R = "{}" and D = False and I = False and i = 0 and n = n
        and f = "\<lambda>p m. f p (f p m)"] assms(2) by simp
  then show ?thesis by (simp add: k0_def)
qed

lemma cache_writeback_dcache_indices_settled:
  "inv m \<Longrightarrow> settled m (cache_writeback_dcache_indices c m) {} {}"
  unfolding cache_writeback_dcache_indices_def
  by (rule index_loop_settled, assumption) (simp_all add: lines_between_def settled_index_d [simplified])

lemma cache_invalidate_icache_indices_settled:
  "inv m \<Longrightarrow> settled m (cache_invalidate_icache_indices c m) {} {}"
  unfolding cache_invalidate_icache_indices_def
  by (rule index_loop_settled, assumption) (simp_all add: lines_between_def settled_index_i [simplified])

end

end
