(* ===== verification/BootLog.thy ===== *)
theory BootLog
  imports LoaderMem
begin

text \<open>
  The boot log of the Linux loader, \<^verbatim>\<open>src/boot/linux-loader.c\<close>: the UART, the text log that is written
  sector by sector into the clusters of \<^verbatim>\<open>log.txt\<close> on the SD card through the boot ROM, and the
  progress ring in retained memory. The state is the record \<open>loader\<close>: the static variables of the
  file, the memory \<open>mach\<close> (accessed through \<open>cpu\<close>) and the devices \<open>dev\<close>, which are reached through
  the record \<open>board\<close> of register accesses and boot ROM routines.
\<close>

section \<open>State\<close>

abbreviation (input) LOG_SECTOR_SIZE where "LOG_SECTOR_SIZE \<equiv> (512 :: u32)"
abbreviation (input) LOG_LIMIT where "LOG_LIMIT \<equiv> (262144 :: u32)"
abbreviation (input) NO_SECTOR where "NO_SECTOR \<equiv> (0xffffffff :: u32)"
abbreviation (input) PROGRESS_MAGIC where "PROGRESS_MAGIC \<equiv> (0x52504653 :: u32)"
abbreviation (input) PROGRESS_VERSION where "PROGRESS_VERSION \<equiv> (1 :: u32)"
abbreviation (input) PROGRESS_ENTRIES where "PROGRESS_ENTRIES \<equiv> (1024 :: u32)"
abbreviation (input) PROGRESS_NAME_LEN where "PROGRESS_NAME_LEN \<equiv> (32 :: nat)"
abbreviation (input) PROGRESS_ADDR where "PROGRESS_ADDR \<equiv> (0xa7a00000 :: u32)"
abbreviation (input) RAW_DIAG_ADDR where "RAW_DIAG_ADDR \<equiv> (0xa7a10000 :: u32)"
abbreviation (input) LIVE_HANDOFF_ADDR where "LIVE_HANDOFF_ADDR \<equiv> (0xa7a2f000 :: u32)"
abbreviation (input) PROGRESS_LIVE_MAGIC where "PROGRESS_LIVE_MAGIC \<equiv> (0x4c495645 :: u32)"
abbreviation (input) UART_BASE where "UART_BASE \<equiv> (0xb8818600 :: u32)"
abbreviation (input) UART_LSR where "UART_LSR \<equiv> (5 :: u32)"
abbreviation (input) UART_LSR_THRE where "UART_LSR_THRE \<equiv> (0x20 :: u8)"
abbreviation (input) ROM_F_MOUNT_ADDR where "ROM_F_MOUNT_ADDR \<equiv> (0x8101f044 :: u32)"
abbreviation (input) ROM_F_OPEN_ADDR where "ROM_F_OPEN_ADDR \<equiv> (0x8101f0d4 :: u32)"
abbreviation (input) ROM_DISK_WRITE_ADDR where "ROM_DISK_WRITE_ADDR \<equiv> (0x81020020 :: u32)"
abbreviation (input) BOOTROM_BASE where "BOOTROM_BASE \<equiv> (0xbfc00000 :: u32)"
abbreviation (input) WDT0_COUNT where "WDT0_COUNT \<equiv> (0xb8818500 :: u32)"
abbreviation (input) WDT0_CONF where "WDT0_CONF \<equiv> (0xb8818504 :: u32)"
abbreviation (input) WDT_BOOT_USEC where "WDT_BOOT_USEC \<equiv> (20000000 :: u32)"
abbreviation (input) WDT_BOOT_CONF where "WDT_BOOT_CONF \<equiv> (0x26 :: u8)"

text \<open>The fields of the ROM's FatFs structures that the loader reads.\<close>

record fatfs =
  fs_type :: u8
  pdrv :: u8
  csize :: u16
  n_fatent :: u32
  fatbase :: u32
  database :: u32

record fil =
  obj_fs_null :: bool
  sclust :: u32
  objsize :: u64

record progress_entry =
  pe_seq :: u32
  pe_kind :: u32
  pe_value :: u32
  pe_name_ptr :: u32
  pe_name :: "u8 list"

record progress_log =
  pl_magic :: u32
  pl_version :: u32
  pl_seq :: u32
  pl_write_index :: u32
  pl_wrapped :: u32
  pl_reserved :: "u32 list"
  pl_entries :: "progress_entry list"

text \<open>
  Device registers, coprocessor 0 and the boot ROM. The ROM fills the mount and file structures;
  a disk read returns its result code and the new contents of the buffer. \<open>str_addr\<close> is the address
  the linker gave a string literal.
\<close>

record 'd board =
  io_rd8 :: "u32 \<Rightarrow> 'd \<Rightarrow> u8 \<times> 'd"
  io_wr8 :: "u32 \<Rightarrow> u8 \<Rightarrow> 'd \<Rightarrow> 'd"
  mmio_read32 :: "u32 \<Rightarrow> 'd \<Rightarrow> u32 \<times> 'd"
  mmio_write32 :: "u32 \<Rightarrow> u32 \<Rightarrow> 'd \<Rightarrow> 'd"
  mfc0 :: "nat \<Rightarrow> nat \<Rightarrow> 'd \<Rightarrow> u32 \<times> 'd"
  mtc0 :: "nat \<Rightarrow> nat \<Rightarrow> u32 \<Rightarrow> 'd \<Rightarrow> 'd"
  rom_f_mount :: "fatfs \<Rightarrow> 'd \<Rightarrow> int \<times> fatfs \<times> 'd"
  rom_f_open :: "fil \<Rightarrow> string \<Rightarrow> 'd \<Rightarrow> int \<times> fil \<times> 'd"
  rom_disk_read :: "u8 \<Rightarrow> u8 list \<Rightarrow> u32 \<Rightarrow> 'd \<Rightarrow> int \<times> u8 list \<times> 'd"
  rom_disk_write :: "u8 \<Rightarrow> u8 list \<Rightarrow> u32 \<Rightarrow> 'd \<Rightarrow> int \<times> 'd"
  rom_cache_flush :: "u8 list \<Rightarrow> 'd \<Rightarrow> 'd"
  str_addr :: "string \<Rightarrow> u32"

record ('m, 'd) loader =
  mach :: 'm
  dev :: 'd
  log_fs :: fatfs
  log_file :: fil
  log_sector :: "u8 list"
  log_fat_sector :: "u8 list"
  log_live_sector :: "u8 list"
  log_fat_lba :: u32
  log_sector_index :: u32
  log_pos :: u32
  log_limit :: u32
  log_ready :: bool
  log_tried :: bool
  plog :: progress_log
  health_blink_done :: bool

text \<open>Statements in sequence, and a register access inside the loader state.\<close>

fun thens :: "('s \<Rightarrow> 's) list \<Rightarrow> 's \<Rightarrow> 's" where
  "thens [] s = s"
| "thens (f # fs) s = thens fs (f s)"

definition on_dev :: "('d \<Rightarrow> 'd) \<Rightarrow> ('m, 'd) loader \<Rightarrow> ('m, 'd) loader" where
  "on_dev f s = s\<lparr>dev := f (dev s)\<rparr>"

definition with_reg :: "'d board \<Rightarrow> u32 \<Rightarrow> (u32 \<Rightarrow> ('m, 'd) loader \<Rightarrow> ('m, 'd) loader) \<Rightarrow> ('m, 'd) loader \<Rightarrow>
    ('m, 'd) loader" where
  "with_reg b a f s = (let (v, d) = mmio_read32 b a (dev s) in f v (s\<lparr>dev := d\<rparr>))"

section \<open>UART\<close>

fun uart_wait :: "'d board \<Rightarrow> nat \<Rightarrow> 'd \<Rightarrow> 'd" where
  "uart_wait b 0 d = d"
| "uart_wait b (Suc timeout) d =
     (let (v, d) = io_rd8 b (UART_BASE + UART_LSR) d
      in if v AND UART_LSR_THRE = 0 then uart_wait b timeout d else d)"

definition uart_send :: "'d board \<Rightarrow> u8 \<Rightarrow> 'd \<Rightarrow> 'd" where
  "uart_send b ch d = io_wr8 b UART_BASE ch (uart_wait b 100000 d)"

definition uart_putc :: "'d board \<Rightarrow> char \<Rightarrow> 'd \<Rightarrow> 'd" where
  "uart_putc b ch d =
     uart_send b (of_char ch) (if ch = CHR ''\<newline>'' then uart_send b 13 d else d)"

definition uart_puts :: "'d board \<Rightarrow> string \<Rightarrow> ('m, 'd) loader \<Rightarrow> ('m, 'd) loader" where
  "uart_puts b str = on_dev (fold (uart_putc b) str)"

definition hex_digits :: "u32 \<Rightarrow> string" where
  "hex_digits val =
     map (\<lambda>sh. ''0123456789abcdef'' ! unat (drop_bit sh val AND 0xf)) [28, 24, 20, 16, 12, 8, 4, 0]"

definition uart_hex :: "'d board \<Rightarrow> u32 \<Rightarrow> ('m, 'd) loader \<Rightarrow> ('m, 'd) loader" where
  "uart_hex b val = uart_puts b (''0x'' @ hex_digits val)"

section \<open>Walking the FAT\<close>

definition le16 :: "u8 list \<Rightarrow> nat \<Rightarrow> u32" where
  "le16 p off = le16_of (p ! off) (p ! (off + 1))"

definition le32 :: "u8 list \<Rightarrow> nat \<Rightarrow> u32" where
  "le32 p off = le32_of (p ! off) (p ! (off + 1)) (p ! (off + 2)) (p ! (off + 3))"

definition zero_sector :: "u8 list \<Rightarrow> u8 list" where
  "zero_sector sector = replicate (unat LOG_SECTOR_SIZE) 0"

definition rom_word_present :: "u32 \<Rightarrow> bool" where
  "rom_word_present val \<longleftrightarrow> val \<noteq> 0 \<and> val \<noteq> 0xffffffff"

definition rom_call_present :: "'d board \<Rightarrow> u32 \<Rightarrow> 'd \<Rightarrow> bool \<times> 'd" where
  "rom_call_present b a d = (let (insn, d) = mmio_read32 b a d in (rom_word_present insn, d))"

definition rom_handoff_present :: "'d board \<Rightarrow> 'd \<Rightarrow> bool \<times> 'd" where
  "rom_handoff_present b d =
     (let (p1, d) = rom_call_present b ROM_F_MOUNT_ADDR d
      in if p1 then (True, d)
         else let (p2, d) = rom_call_present b ROM_DISK_WRITE_ADDR d
              in if p2 then (True, d) else rom_call_present b BOOTROM_BASE d)"

text \<open>The cached FAT sector: a failed read leaves the buffer as the ROM left it.\<close>

definition fat_load :: "'d board \<Rightarrow> u32 \<Rightarrow> ('m, 'd) loader \<Rightarrow> bool \<times> ('m, 'd) loader" where
  "fat_load b fat_lba s =
     (if fat_lba = log_fat_lba s then (True, s)
      else let (rc, buf, d) = rom_disk_read b (pdrv (log_fs s)) (log_fat_sector s) fat_lba (dev s);
               s = s\<lparr>log_fat_sector := buf, dev := d\<rparr>
           in if rc \<noteq> 0 then (False, s) else (True, s\<lparr>log_fat_lba := fat_lba\<rparr>))"

definition log_fat_next :: "'d board \<Rightarrow> u32 \<Rightarrow> ('m, 'd) loader \<Rightarrow> int \<times> u32 \<times> ('m, 'd) loader" where
  "log_fat_next b cluster s =
     (let fs = log_fs s
      in if cluster < 2 \<or> cluster \<ge> n_fatent fs then (- 1, 0, s)
         else if fs_type fs = 3 then
           let fat_offset = cluster * 4; fat_lba = fatbase fs + fat_offset div LOG_SECTOR_SIZE;
               (ok, s) = fat_load b fat_lba s
           in if \<not> ok then (- 1, 0, s)
              else let val = le32 (log_fat_sector s) (unat (fat_offset mod LOG_SECTOR_SIZE)) AND 0x0fffffff
                   in if val \<ge> 0x0ffffff8 then (1, 0, s) else (0, val, s)
         else if fs_type fs = 2 then
           let fat_offset = cluster * 2; fat_lba = fatbase fs + fat_offset div LOG_SECTOR_SIZE;
               (ok, s) = fat_load b fat_lba s
           in if \<not> ok then (- 1, 0, s)
              else let val = le16 (log_fat_sector s) (unat (fat_offset mod LOG_SECTOR_SIZE))
                   in if val \<ge> 0xfff8 then (1, 0, s) else (0, val, s)
         else (- 1, 0, s))"

fun cluster_walk :: "'d board \<Rightarrow> nat \<Rightarrow> u32 \<Rightarrow> ('m, 'd) loader \<Rightarrow> u32 option \<times> ('m, 'd) loader" where
  "cluster_walk b 0 cluster s = (Some cluster, s)"
| "cluster_walk b (Suc n) cluster s =
     (let (ret, next', s) = log_fat_next b cluster s
      in if ret \<noteq> 0 then (None, s) else cluster_walk b n next' s)"

definition log_file_lba :: "'d board \<Rightarrow> u32 \<Rightarrow> ('m, 'd) loader \<Rightarrow> u32 option \<times> ('m, 'd) loader" where
  "log_file_lba b file_sector s =
     (let cs = ucast (csize (log_fs s)) :: u32; cluster = sclust (log_file s)
      in if cs = 0 \<or> cluster < 2 then (None, s)
         else let (r, s) = cluster_walk b (unat (file_sector div cs)) cluster s
              in case r of None \<Rightarrow> (None, s)
                 | Some cluster \<Rightarrow>
                     if cluster < 2 \<or> cluster \<ge> n_fatent (log_fs s) then (None, s)
                     else (Some (database (log_fs s) + (cluster - 2) * cs + file_sector mod cs), s))"

section \<open>The text log\<close>

definition bootlog_flush_current :: "'d board \<Rightarrow> ('m, 'd) loader \<Rightarrow> ('m, 'd) loader" where
  "bootlog_flush_current b s =
     (if \<not> log_ready s \<or> log_sector_index s = NO_SECTOR then s
      else let (r, s) = log_file_lba b (log_sector_index s) s
           in case r of None \<Rightarrow> s
              | Some lba \<Rightarrow>
                  on_dev (\<lambda>d. snd (rom_disk_write b (pdrv (log_fs s)) (log_sector s) lba
                     (rom_cache_flush b (log_sector s) d))) s)"

definition bootlog_open_sector :: "'d board \<Rightarrow> u32 \<Rightarrow> ('m, 'd) loader \<Rightarrow> ('m, 'd) loader" where
  "bootlog_open_sector b sector_index s =
     (if sector_index = log_sector_index s then s
      else let s = bootlog_flush_current b s
           in s\<lparr>log_sector := zero_sector (log_sector s), log_sector_index := sector_index\<rparr>)"

definition bootlog_putc :: "'d board \<Rightarrow> u8 \<Rightarrow> ('m, 'd) loader \<Rightarrow> ('m, 'd) loader" where
  "bootlog_putc b ch s =
     (if \<not> log_ready s \<or> log_pos s \<ge> log_limit s then s
      else
        let s = bootlog_open_sector b (log_pos s div LOG_SECTOR_SIZE) s;
            off = log_pos s mod LOG_SECTOR_SIZE;
            s = s\<lparr>log_sector := (log_sector s)[unat off := ch], log_pos := log_pos s + 1\<rparr>
        in if log_pos s mod LOG_SECTOR_SIZE = 0
           then (bootlog_flush_current b s)\<lparr>log_sector_index := NO_SECTOR\<rparr>
           else if off + 1 < LOG_SECTOR_SIZE
           then s\<lparr>log_sector := (log_sector s)[unat (off + 1) := 0]\<rparr>
           else s)"

definition bootlog_flush :: "'d board \<Rightarrow> ('m, 'd) loader \<Rightarrow> ('m, 'd) loader" where
  "bootlog_flush b s =
     (if \<not> log_ready s \<or> log_sector_index s = NO_SECTOR then s
      else let off = log_pos s mod LOG_SECTOR_SIZE;
               s = (if off < LOG_SECTOR_SIZE then s\<lparr>log_sector := (log_sector s)[unat off := 0]\<rparr> else s)
           in bootlog_flush_current b s)"

definition bootlog_bytes :: "'d board \<Rightarrow> u8 list \<Rightarrow> ('m, 'd) loader \<Rightarrow> ('m, 'd) loader" where
  "bootlog_bytes b = fold (bootlog_putc b)"

definition bootlog_puts :: "'d board \<Rightarrow> string \<Rightarrow> ('m, 'd) loader \<Rightarrow> ('m, 'd) loader" where
  "bootlog_puts b str = bootlog_bytes b (map of_char str)"

definition bootlog_hex :: "'d board \<Rightarrow> u32 \<Rightarrow> ('m, 'd) loader \<Rightarrow> ('m, 'd) loader" where
  "bootlog_hex b val = bootlog_puts b (''0x'' @ hex_digits val)"

section \<open>The progress ring\<close>

text \<open>\<open>src\<close> is a C string without its NUL; the bytes behind the new NUL keep their old contents.\<close>

definition progress_copy_name :: "u8 list \<Rightarrow> string \<Rightarrow> u8 list" where
  "progress_copy_name dst src =
     (let n = min (PROGRESS_NAME_LEN - 1) (length src)
      in map of_char (take n src) @ [0] @ drop (n + 1) dst)"

definition progress_reset :: "('m, 'd) loader \<Rightarrow> ('m, 'd) loader" where
  "progress_reset s =
     s\<lparr>plog := (plog s)\<lparr>pl_magic := PROGRESS_MAGIC, pl_version := PROGRESS_VERSION, pl_seq := 0,
        pl_write_index := 0, pl_wrapped := 0,
        pl_entries := map (\<lambda>e. e\<lparr>pe_seq := 0, pe_kind := 0, pe_value := 0, pe_name_ptr := 0,
          pe_name := (pe_name e)[0 := 0]\<rparr>) (pl_entries (plog s))\<rparr>\<rparr>"

definition progress_mark :: "'d board \<Rightarrow> string \<Rightarrow> u32 \<Rightarrow> u32 \<Rightarrow> ('m, 'd) loader \<Rightarrow> ('m, 'd) loader" where
  "progress_mark b name kind val s =
     (let p = plog s
      in if pl_magic p \<noteq> PROGRESS_MAGIC \<or> pl_version p \<noteq> PROGRESS_VERSION then s
         else
           let index = (if pl_write_index p \<ge> PROGRESS_ENTRIES then 0 else pl_write_index p);
               seq = pl_seq p + 1;
               e = pl_entries p ! unat index;
               e = e\<lparr>pe_seq := seq, pe_kind := kind, pe_value := val, pe_name_ptr := str_addr b name,
                     pe_name := progress_copy_name (pe_name e) name\<rparr>;
               p = p\<lparr>pl_entries := (pl_entries p)[unat index := e]\<rparr>;
               index = index + 1;
               (index, p) = (if index \<ge> PROGRESS_ENTRIES then (0, p\<lparr>pl_wrapped := 1\<rparr>) else (index, p))
           in s\<lparr>plog := p\<lparr>pl_write_index := index, pl_seq := seq\<rparr>\<rparr>)"

text \<open>The sector at the end of the file, which the kernel uses as a live log.\<close>

definition live_sector_index :: "('m, 'd) loader \<Rightarrow> u32 option" where
  "live_sector_index s =
     (if \<not> log_ready s \<or> log_limit s < LOG_SECTOR_SIZE * 2 then None
      else let sector_index = log_limit s div LOG_SECTOR_SIZE
           in if sector_index = 0 then None else Some (sector_index - 1))"

definition progress_set_live_log_sector :: "'m cpu \<Rightarrow> 'd board \<Rightarrow> ('m, 'd) loader \<Rightarrow> ('m, 'd) loader" where
  "progress_set_live_log_sector c b s =
     (case live_sector_index s of None \<Rightarrow> s
      | Some sector_index \<Rightarrow>
          let (r, s) = log_file_lba b sector_index s
          in case r of None \<Rightarrow> s
             | Some lba \<Rightarrow>
                 let drive = ucast (pdrv (log_fs s)) :: u32;
                     s = s\<lparr>mach := st32 c (LIVE_HANDOFF_ADDR + 8) lba (st32 c (LIVE_HANDOFF_ADDR + 4) drive
                       (st32 c LIVE_HANDOFF_ADDR PROGRESS_LIVE_MAGIC (mach s)))\<rparr>
                 in thens [bootlog_puts b ''live progress sector index='', bootlog_hex b sector_index,
                      bootlog_puts b '' pdrv='', bootlog_hex b drive, bootlog_puts b '' lba='', bootlog_hex b lba,
                      bootlog_puts b '' handoff='', bootlog_hex b LIVE_HANDOFF_ADDR,
                      bootlog_puts b ''\<newline>'', bootlog_flush b] s)"

definition ascii_bytes :: "u32 \<Rightarrow> u8 list" where
  "ascii_bytes val =
     concat (map (\<lambda>i. let ch = byte_of i val
        in if 32 \<le> ch \<and> ch < 127 then [ch] else if ch = 10 then [of_char CHR ''|'']
           else if ch \<noteq> 0 then [of_char CHR ''.''] else []) [0..<4])"

definition bootlog_progress_entry :: "'d board \<Rightarrow> progress_entry \<Rightarrow> ('m, 'd) loader \<Rightarrow> ('m, 'd) loader" where
  "bootlog_progress_entry b e s =
     (if pe_seq e = 0 then s
      else thens ([bootlog_puts b ''progress seq='', bootlog_hex b (pe_seq e), bootlog_puts b '' kind='',
             bootlog_hex b (pe_kind e), bootlog_puts b '' value='', bootlog_hex b (pe_value e)] @
           (if pe_kind e = 0x20
            then [bootlog_bytes b (map of_char ('' ascii='' @ [CHR 0x27]) @ ascii_bytes (pe_value e) @ [0x27])]
            else []) @
           [bootlog_puts b '' name='', bootlog_bytes b (takeWhile (\<lambda>ch. ch \<noteq> 0) (take PROGRESS_NAME_LEN (pe_name e))),
            bootlog_puts b '' ptr='', bootlog_hex b (pe_name_ptr e), bootlog_puts b ''\<newline>'']) s)"

definition diag_word :: "'m cpu \<Rightarrow> 'd board \<Rightarrow> nat \<Rightarrow> ('m, 'd) loader \<Rightarrow> ('m, 'd) loader" where
  "diag_word c b i s =
     (let s = thens [bootlog_puts b '' w'', bootlog_hex b (of_nat i), bootlog_puts b ''=''] s;
          (v, m) = ld32 c (RAW_DIAG_ADDR + of_nat (4 * i)) (mach s)
      in bootlog_hex b v (s\<lparr>mach := m\<rparr>))"

definition bootlog_dump_raw_diag :: "'m cpu \<Rightarrow> 'd board \<Rightarrow> ('m, 'd) loader \<Rightarrow> ('m, 'd) loader" where
  "bootlog_dump_raw_diag c b =
     thens ([bootlog_puts b ''raw diag addr='', bootlog_hex b RAW_DIAG_ADDR] @
       map (diag_word c b) [0..<96] @ [bootlog_puts b ''\<newline>''])"

definition header_usable :: "progress_log \<Rightarrow> bool" where
  "header_usable p \<longleftrightarrow> pl_version p = PROGRESS_VERSION \<and> pl_seq p \<noteq> 0 \<and>
     pl_write_index p \<le> PROGRESS_ENTRIES \<and> pl_wrapped p \<le> 1 \<and>
     (pl_magic p = PROGRESS_MAGIC \<or> pl_magic p = 0)"

definition log_header_fields :: "'d board \<Rightarrow> progress_log \<Rightarrow> (('m, 'd) loader \<Rightarrow> ('m, 'd) loader) list" where
  "log_header_fields b p =
     [bootlog_puts b '' seq='', bootlog_hex b (pl_seq p), bootlog_puts b '' write='',
      bootlog_hex b (pl_write_index p), bootlog_puts b '' wrapped='', bootlog_hex b (pl_wrapped p),
      bootlog_puts b '' reserved0='', bootlog_hex b (pl_reserved p ! 0),
      bootlog_puts b '' reserved1='', bootlog_hex b (pl_reserved p ! 1),
      bootlog_puts b '' reserved2='', bootlog_hex b (pl_reserved p ! 2), bootlog_puts b ''\<newline>'']"

text \<open>The entries to dump, oldest first; the ring has as many entries as are dumped, so none is skipped.\<close>

definition dump_range :: "progress_log \<Rightarrow> u32 \<times> u32" where
  "dump_range p =
     (let cnt = (if pl_wrapped p \<noteq> 0 then PROGRESS_ENTRIES else pl_write_index p);
          cnt = (if cnt > PROGRESS_ENTRIES then PROGRESS_ENTRIES else cnt);
          start = (if pl_wrapped p \<noteq> 0 then pl_write_index p else 0);
          start = (if start \<ge> PROGRESS_ENTRIES then 0 else start)
      in (start, cnt))"

definition dumped_entries :: "progress_log \<Rightarrow> progress_entry list" where
  "dumped_entries p =
     (let (start, cnt) = dump_range p
      in map (\<lambda>i. pl_entries p ! unat ((start + of_nat i) mod PROGRESS_ENTRIES)) [0..<unat cnt])"

definition bootlog_dump_previous_progress :: "'m cpu \<Rightarrow> 'd board \<Rightarrow> ('m, 'd) loader \<Rightarrow> ('m, 'd) loader" where
  "bootlog_dump_previous_progress c b s =
     (let p = plog s;
          s = thens ([bootlog_puts b ''progress raw addr='', bootlog_hex b PROGRESS_ADDR,
                bootlog_puts b '' magic='', bootlog_hex b (pl_magic p),
                bootlog_puts b '' version='', bootlog_hex b (pl_version p)] @ log_header_fields b p @
                [bootlog_dump_raw_diag c b]) s
      in if \<not> header_usable p then s
         else
           let s = thens ([bootlog_puts b (if pl_magic p = PROGRESS_MAGIC then ''previous progress addr=''
                     else ''previous progress damaged addr=''), bootlog_hex b PROGRESS_ADDR] @
                     log_header_fields b p) s
           in fold (bootlog_progress_entry b) (dumped_entries p) s)"

definition live_text :: "u8 list \<Rightarrow> u8 list" where
  "live_text sector =
     map (\<lambda>ch. if ch \<in> {10, 13, 9} \<or> 32 \<le> ch \<and> ch \<le> 126 then ch else of_char CHR ''.'')
       (takeWhile (\<lambda>ch. ch \<noteq> 0) sector)"

definition bootlog_dump_previous_live_sector :: "'d board \<Rightarrow> ('m, 'd) loader \<Rightarrow> ('m, 'd) loader" where
  "bootlog_dump_previous_live_sector b s =
     (case live_sector_index s of None \<Rightarrow> s
      | Some sector_index \<Rightarrow>
          let (r, s) = log_file_lba b sector_index s
          in case r of None \<Rightarrow> s
             | Some lba \<Rightarrow>
                 let (rc, buf, d) = rom_disk_read b (pdrv (log_fs s)) (log_live_sector s) lba (dev s);
                     s = s\<lparr>log_live_sector := buf, dev := d\<rparr>
                 in if rc \<noteq> 0 then s
                    else
                      let s = thens [bootlog_puts b ''previous live sector index='', bootlog_hex b sector_index,
                            bootlog_puts b '' lba='', bootlog_hex b lba, bootlog_puts b '' first='',
                            bootlog_hex b (le32 buf 0), bootlog_puts b ''\<newline>''] s
                      in if buf ! 0 = 0 then s
                         else thens [bootlog_puts b ''previous live text begin\<newline>'',
                            bootlog_bytes b (live_text buf),
                            bootlog_puts b ''\<newline>previous live text end\<newline>''] s)"

section \<open>Opening the log and the messages of the boot stages\<close>

definition bootlog_init :: "'m cpu \<Rightarrow> 'd board \<Rightarrow> ('m, 'd) loader \<Rightarrow> ('m, 'd) loader" where
  "bootlog_init c b s =
     (if log_tried s then s
      else
        let s = s\<lparr>log_tried := True\<rparr>;
            (p1, d) = rom_call_present b ROM_F_MOUNT_ADDR (dev s);
            (p2, d) = (if p1 then rom_call_present b ROM_F_OPEN_ADDR d else (False, d));
            (p3, d) = (if p2 then rom_call_present b ROM_DISK_WRITE_ADDR d else (False, d));
            s = s\<lparr>dev := d\<rparr>
        in if \<not> p3 then s
           else
             let (rc, fs, d) = rom_f_mount b (log_fs s) (dev s);
                 s = s\<lparr>log_fs := fs, dev := d\<rparr>
             in if rc \<noteq> 0 then s
                else
                  let (rc, f, d) = rom_f_open b (log_file s) ''log.txt'' (dev s);
                      s = s\<lparr>log_file := f, dev := d\<rparr>
                  in if rc \<noteq> 0 \<or> obj_fs_null f \<or> sclust f < 2 \<or> objsize f < 512 then s
                     else
                       let s = s\<lparr>log_limit := (if objsize f < 262144 then ucast (objsize f) else LOG_LIMIT),
                             log_ready := True, log_pos := 0, log_fat_lba := NO_SECTOR,
                             log_sector_index := NO_SECTOR\<rparr>
                       in thens [bootlog_puts b ''sf2000-linux loader bootlog\<newline>'',
                            bootlog_puts b ''loader build='',
                            bootlog_puts b ''2026-08-07 cached-copy-hit-wb-flush'', bootlog_puts b ''\<newline>'',
                            bootlog_dump_previous_live_sector b, bootlog_dump_previous_progress c b,
                            bootlog_flush b] s)"

text \<open>The messages, written if the log is open.\<close>

definition bootlog_line :: "'m cpu \<Rightarrow> 'd board \<Rightarrow> (('m, 'd) loader \<Rightarrow> ('m, 'd) loader) list \<Rightarrow>
    ('m, 'd) loader \<Rightarrow> ('m, 'd) loader" where
  "bootlog_line c b fs s =
     (let s = bootlog_init c b s
      in if \<not> log_ready s then s else thens (fs @ [bootlog_puts b ''\<newline>'', bootlog_flush b]) s)"

definition bootlog_stage :: "'m cpu \<Rightarrow> 'd board \<Rightarrow> string \<Rightarrow> u32 \<Rightarrow> ('m, 'd) loader \<Rightarrow> ('m, 'd) loader" where
  "bootlog_stage c b name pulses s =
     bootlog_line c b [bootlog_puts b ''stage '', bootlog_hex b pulses, bootlog_puts b '': '', bootlog_puts b name]
       (progress_mark b name 1 pulses s)"

definition bootlog_loader_info :: "'m cpu \<Rightarrow> 'd board \<Rightarrow> u32 \<Rightarrow> u32 \<Rightarrow> u32 \<Rightarrow> u32 \<Rightarrow> ('m, 'd) loader \<Rightarrow>
    ('m, 'd) loader" where
  "bootlog_loader_info c b kernel_size dtb_size entry dtb =
     bootlog_line c b [bootlog_puts b ''kernel='', bootlog_hex b kernel_size, bootlog_puts b '' dtb_size='',
       bootlog_hex b dtb_size, bootlog_puts b '' entry='', bootlog_hex b entry, bootlog_puts b '' dtb='',
       bootlog_hex b dtb]"

definition bootlog_wdt_state :: "'m cpu \<Rightarrow> 'd board \<Rightarrow> ('m, 'd) loader \<Rightarrow> ('m, 'd) loader" where
  "bootlog_wdt_state c b =
     bootlog_line c b [bootlog_puts b ''wdt count='', with_reg b WDT0_COUNT (bootlog_hex b),
       bootlog_puts b '' conf='', with_reg b WDT0_CONF (\<lambda>v. bootlog_hex b (v AND 0xff))]"

definition WDT_BOOT_COUNT :: u32 where
  "WDT_BOOT_COUNT = 0 - WDT_BOOT_USEC * 27 div 128"

definition bootlog_wdt_arm :: "'m cpu \<Rightarrow> 'd board \<Rightarrow> string \<Rightarrow> ('m, 'd) loader \<Rightarrow> ('m, 'd) loader" where
  "bootlog_wdt_arm c b name s =
     thens
       [bootlog_line c b [bootlog_puts b ''wdt arm before count='', with_reg b WDT0_COUNT (bootlog_hex b),
          bootlog_puts b '' conf='', with_reg b WDT0_CONF (\<lambda>v. bootlog_hex b (v AND 0xff))],
        on_dev (io_wr8 b WDT0_CONF 0), on_dev (mmio_write32 b WDT0_COUNT WDT_BOOT_COUNT),
        on_dev (io_wr8 b WDT0_CONF WDT_BOOT_CONF), progress_mark b name 3 WDT_BOOT_COUNT,
        uart_puts b ''linux-loader: watchdog armed timeout_us='', uart_hex b WDT_BOOT_USEC,
        uart_puts b '' name='', uart_puts b name, uart_puts b ''\<newline>'',
        bootlog_line c b [bootlog_puts b ''wdt armed count='', with_reg b WDT0_COUNT (bootlog_hex b),
          bootlog_puts b '' conf='', with_reg b WDT0_CONF (\<lambda>v. bootlog_hex b (v AND 0xff)),
          bootlog_puts b '' timeout_us='', bootlog_hex b WDT_BOOT_USEC, bootlog_puts b '' name='',
          bootlog_puts b name]] s"

definition bootlog_ebase :: "'m cpu \<Rightarrow> 'd board \<Rightarrow> u32 \<Rightarrow> u32 \<Rightarrow> ('m, 'd) loader \<Rightarrow> ('m, 'd) loader" where
  "bootlog_ebase c b before after =
     bootlog_line c b [bootlog_puts b ''ebase='', bootlog_hex b before, bootlog_puts b '' -> '', bootlog_hex b after]"

definition bootlog_handoff_state :: "'m cpu \<Rightarrow> 'd board \<Rightarrow> u32 \<Rightarrow> u32 \<Rightarrow> u32 \<Rightarrow> ('m, 'd) loader \<Rightarrow> ('m, 'd) loader" where
  "bootlog_handoff_state c b bootrom mount write =
     bootlog_line c b [bootlog_puts b ''handoff bootrom='', bootlog_hex b bootrom, bootlog_puts b '' rom_f_mount='',
       bootlog_hex b mount, bootlog_puts b '' rom_disk_write='', bootlog_hex b write]"

definition bootlog_mapping :: "'m cpu \<Rightarrow> 'd board \<Rightarrow> u32 \<Rightarrow> u32 \<Rightarrow> ('m, 'd) loader \<Rightarrow> ('m, 'd) loader" where
  "bootlog_mapping c b before after =
     bootlog_line c b [bootlog_puts b ''mapping='', bootlog_hex b before, bootlog_puts b '' -> '', bootlog_hex b after]"

section \<open>The progress ring keeps the last 1024 marks\<close>

type_synonym mark = "string \<times> u32 \<times> u32"

definition progress_marks :: "'d board \<Rightarrow> mark list \<Rightarrow> ('m, 'd) loader \<Rightarrow> ('m, 'd) loader" where
  "progress_marks b = fold (\<lambda>(name, kind, val). progress_mark b name kind val)"

text \<open>What an entry shows: its sequence number, kind, value and name, cut at 31 characters.\<close>

definition entry_shows :: "progress_entry \<Rightarrow> u32 \<Rightarrow> mark \<Rightarrow> bool" where
  "entry_shows e n mk \<longleftrightarrow> (case mk of (name, kind, val) \<Rightarrow>
     pe_seq e = n \<and> pe_kind e = kind \<and> pe_value e = val \<and>
     take (min 31 (length name) + 1) (pe_name e) = map of_char (take 31 name) @ [0])"

definition ring_shows :: "mark list \<Rightarrow> progress_log \<Rightarrow> bool" where
  "ring_shows ms p \<longleftrightarrow> pl_magic p = PROGRESS_MAGIC \<and> pl_version p = PROGRESS_VERSION \<and>
     length (pl_entries p) = 1024 \<and> pl_seq p = of_nat (length ms) \<and>
     pl_write_index p = of_nat (length ms mod 1024) \<and> pl_wrapped p = (if length ms < 1024 then 0 else 1) \<and>
     (\<forall>j < length ms. length ms \<le> j + 1024 \<longrightarrow> entry_shows (pl_entries p ! (j mod 1024)) (of_nat (j + 1)) (ms ! j))"

lemma ring_shows_reset:
  "length (pl_entries (plog s)) = 1024 \<Longrightarrow> ring_shows [] (plog (progress_reset s))"
  by (simp add: ring_shows_def progress_reset_def)

lemma ring_shows_mark:
  assumes "ring_shows ms (plog s)"
  shows "ring_shows (ms @ [(name, kind, val)]) (plog (progress_mark b name kind val s))"
proof -
  define p n i where "p = plog s" and "n = length ms" and "i = length ms mod 1024"
  have i: "i < 1024" by (simp add: i_def)
  have r: "pl_magic p = PROGRESS_MAGIC" "pl_version p = PROGRESS_VERSION" "length (pl_entries p) = 1024"
    "pl_seq p = of_nat n" "pl_write_index p = of_nat i" "pl_wrapped p = (if n < 1024 then 0 else 1)"
    using assms by (auto simp: ring_shows_def p_def n_def i_def)
  have ui: "unat (of_nat i :: u32) = i" by (rule unat_of_nat_32) (use i in simp)
  have ge: "\<not> (of_nat i :: u32) \<ge> PROGRESS_ENTRIES" using i by (simp add: word_le_nat_alt ui)
  have ui1: "unat (of_nat i + 1 :: u32) = i + 1"
    using ui i unat_add_32 [of "of_nat i" 1] by simp
  have wrap: "(of_nat i + 1 :: u32) \<ge> PROGRESS_ENTRIES \<longleftrightarrow> i = 1023"
    using i by (auto simp: word_le_nat_alt ui1)
  define e where "e = (pl_entries p ! i)\<lparr>pe_seq := of_nat n + 1, pe_kind := kind, pe_value := val,
     pe_name_ptr := str_addr b name, pe_name := progress_copy_name (pe_name (pl_entries p ! i)) name\<rparr>"
  define p' where "p' = plog (progress_mark b name kind val s)"
  have p': "pl_magic p' = PROGRESS_MAGIC" "pl_version p' = PROGRESS_VERSION"
    "pl_entries p' = (pl_entries p)[i := e]" "pl_seq p' = of_nat n + 1"
    "pl_write_index p' = (if i = 1023 then 0 else of_nat i + 1)" "pl_wrapped p' = (if i = 1023 then 1 else pl_wrapped p)"
    using r ge wrap ui by (auto simp: p'_def progress_mark_def p_def [symmetric] e_def Let_def)
  have e: "entry_shows e (of_nat (n + 1)) (name, kind, val)"
    by (auto simp: entry_shows_def e_def progress_copy_name_def Let_def min_def add.commute)
  have idx: "(n + 1) mod 1024 = (if i = 1023 then 0 else i + 1)"
    using i unfolding i_def n_def by (auto simp: mod_Suc)
  have full: "(if i = 1023 then 1 else pl_wrapped p) = (if n + 1 < 1024 then 0 else (1 :: u32))"
    unfolding r(6) using i_def n_def by (auto simp: mod_less)
  have keep: "entry_shows ((pl_entries p)[i := e] ! (j mod 1024)) (of_nat (j + 1)) ((ms @ [(name, kind, val)]) ! j)"
    if "j < n + 1" "n + 1 \<le> j + 1024" for j
  proof (cases "j = n")
    case True
    then show ?thesis using e i r(3) by (simp add: i_def n_def)
  next
    case False
    then have jn: "j < n" using that by simp
    have "j mod 1024 \<noteq> i"
    proof
      assume "j mod 1024 = i"
      then have "1024 dvd n - j" using jn unfolding i_def n_def
        by (metis less_imp_le mod_eq_dvd_iff_nat)
      then show False using jn that by (auto dest: dvd_imp_le)
    qed
    moreover have "entry_shows (pl_entries p ! (j mod 1024)) (of_nat (j + 1)) (ms ! j)"
      using assms jn that by (auto simp: ring_shows_def p_def n_def)
    ultimately show ?thesis using jn by (simp add: n_def nth_append)
  qed
  show ?thesis
    unfolding ring_shows_def p'_def [symmetric]
    using p' r(3) idx full keep by (auto simp: n_def)
qed

lemma ring_shows_marks:
  "ring_shows ms (plog s) \<Longrightarrow> ring_shows (ms @ ns) (plog (progress_marks b ns s))"
proof (induction ns arbitrary: ms s)
  case (Cons n ns)
  obtain name kind val where n: "n = (name, kind, val)" by (cases n)
  show ?case
    using Cons.IH [OF ring_shows_mark [OF Cons.prems, of name kind val b]] by (simp add: progress_marks_def n)
qed (simp add: progress_marks_def)

lemma dumped_shows:
  assumes "ring_shows ms p"
  defines "n \<equiv> length ms" and "k \<equiv> min 1024 (length ms)"
  shows "length (dumped_entries p) = k"
    and "i < k \<Longrightarrow> entry_shows (dumped_entries p ! i) (of_nat (n - k + i + 1)) (ms ! (n - k + i))"
proof -
  have w: "unat (of_nat (n mod 1024) :: u32) = n mod 1024"
    by (rule unat_of_nat_32) (rule less_trans [of _ 1024], simp_all)
  have lt: "n mod 1024 < 1024" by simp
  have wi: "pl_write_index p = of_nat (n mod 1024)" "pl_wrapped p = (if n < 1024 then 0 else 1)"
    using assms(1) by (simp_all add: ring_shows_def n_def)
  have nge: "\<not> (of_nat (n mod 1024) :: u32) \<ge> 1024" "\<not> (of_nat (n mod 1024) :: u32) > 1024"
    using lt by (simp_all add: word_le_nat_alt word_less_nat_alt w)
  have range: "dump_range p = (if n < 1024 then 0 else of_nat (n mod 1024), if n < 1024 then of_nat n else 1024)"
    using nge wi by (auto simp: dump_range_def Let_def)
  have cnt: "unat (if n < 1024 then of_nat n else 1024 :: u32) = k"
    using unat_of_nat_32 [of n] by (auto simp: k_def n_def)
  have k: "k \<le> 1024" by (simp add: k_def)
  show "length (dumped_entries p) = k" by (simp add: dumped_entries_def range cnt)
  assume i: "i < k"
  have ix: "unat (((if n < 1024 then 0 else of_nat (n mod 1024)) + of_nat i :: u32) mod 1024) = (n - k + i) mod 1024"
  proof -
    have ui: "unat (of_nat i :: u32) = i" by (rule unat_of_nat_32) (use i k in simp)
    show ?thesis
    proof (cases "n < 1024")
      case True
      then show ?thesis using ui i by (simp add: unat_mod k_def n_def)
    next
      case False
      then have kk: "k = 1024" by (simp add: k_def n_def)
      have "unat (of_nat (n mod 1024) + of_nat i :: u32) = n mod 1024 + i"
        using w ui i k lt unat_add_32 [of "of_nat (n mod 1024)" "of_nat i"] by simp
      then have "unat ((of_nat (n mod 1024) + of_nat i :: u32) mod 1024) = (n mod 1024 + i) mod 1024"
        by (simp add: unat_mod)
      moreover have "(n - 1024) mod 1024 = n mod 1024" using False le_mod_geq [of 1024 n] by simp
      moreover have "(n mod 1024 + i) mod 1024 = (n - 1024 + i) mod 1024"
        using calculation(2) by (metis mod_add_left_eq)
      ultimately show ?thesis using False kk by (simp only: if_False)
    qed
  qed
  have "dumped_entries p ! i = pl_entries p ! ((n - k + i) mod 1024)"
    using i ix by (simp add: dumped_entries_def range cnt)
  moreover have "n - k + i < n" "n \<le> n - k + i + 1024" using i by (auto simp: k_def n_def)
  ultimately show "entry_shows (dumped_entries p ! i) (of_nat (n - k + i + 1)) (ms ! (n - k + i))"
    using assms(1) by (auto simp: ring_shows_def n_def)
qed

text \<open>
  The next boot reads the history back: after a reset of the ring and any marks, the dump lists the
  last 1024 of them (or all), oldest first, each with its sequence number, kind, value and name.
\<close>

theorem progress_dump_history:
  assumes "length (pl_entries (plog s)) = 1024"
  shows "let p = plog (progress_marks b ms (progress_reset s)); k = min 1024 (length ms)
     in length (dumped_entries p) = k \<and>
        (\<forall>i < k. entry_shows (dumped_entries p ! i) (of_nat (length ms - k + i + 1)) (ms ! (length ms - k + i)))"
  using dumped_shows [OF ring_shows_marks [OF ring_shows_reset [OF assms], of ms b, unfolded append_Nil]]
  unfolding Let_def by blast

definition ring_example :: "(unit, unit) loader \<Rightarrow> (unit, unit) loader" where
  "ring_example s = s\<lparr>plog := \<lparr>pl_magic = 0, pl_version = 0, pl_seq = 7, pl_write_index = 9, pl_wrapped = 0,
     pl_reserved = [0, 0, 0],
     pl_entries = replicate 1024 \<lparr>pe_seq = 5, pe_kind = 0, pe_value = 0, pe_name_ptr = 0, pe_name = replicate 32 0\<rparr>\<rparr>\<rparr>"

theorem progress_dump_history_witness:
  "\<forall>b s. entry_shows (dumped_entries (plog (progress_marks b
     (replicate 1500 (''a'', 1, 2) @ [(''loader-entry'', 1, 3)]) (progress_reset (ring_example s)))) ! 1023)
     1501 (''loader-entry'', 1, 3)"
proof (intro allI)
  fix b :: "unit board" and s :: "(unit, unit) loader"
  have "length (pl_entries (plog (ring_example s))) = 1024" by (simp add: ring_example_def)
  from progress_dump_history [OF this, of b "replicate 1500 (''a'', 1, 2) @ [(''loader-entry'', 1, 3)]"]
  have "\<forall>i < 1024. entry_shows (dumped_entries (plog (progress_marks b
     (replicate 1500 (''a'', 1, 2) @ [(''loader-entry'', 1, 3)]) (progress_reset (ring_example s)))) ! i)
     (of_nat (1501 - 1024 + i + 1)) ((replicate 1500 (''a'', 1, 2) @ [(''loader-entry'', 1, 3)]) ! (1501 - 1024 + i))"
    by (simp add: Let_def)
  from this [rule_format, of 1023]
  show "entry_shows (dumped_entries (plog (progress_marks b
     (replicate 1500 (''a'', 1, 2) @ [(''loader-entry'', 1, 3)]) (progress_reset (ring_example s)))) ! 1023)
     1501 (''loader-entry'', 1, 3)" by (simp add: nth_append)
qed

end
