(* ===== verification/LoaderElf.thy ===== *)
theory LoaderElf
  imports BootLog
begin

text \<open>
  Loading the embedded kernel, \<^verbatim>\<open>src/boot/linux-loader.c\<close>: the ELF header checks, the scan for the
  load window, the copy of the segments and the verification through the uncached window. The
  functions read the headers from memory each time, as the code does, because the copy can overwrite
  the embedded image.
\<close>

section \<open>Headers\<close>

record elf32_ehdr =
  e_ident :: "u8 list"
  e_type :: u32
  e_machine :: u32
  e_entry :: u32
  e_phoff :: u32
  e_phentsize :: u32
  e_phnum :: u32

record elf32_phdr =
  p_type :: u32
  p_offset :: u32
  p_vaddr :: u32
  p_paddr :: u32
  p_filesz :: u32
  p_memsz :: u32

abbreviation (input) ehdr_size where "ehdr_size \<equiv> (52 :: nat)"
abbreviation (input) phdr_size where "phdr_size \<equiv> (32 :: nat)"
abbreviation (input) PT_LOAD where "PT_LOAD \<equiv> (1 :: u32)"

definition ehdr_of :: "u8 list \<Rightarrow> elf32_ehdr" where
  "ehdr_of bs =
     \<lparr>e_ident = take 16 bs, e_type = le16 bs 16, e_machine = le16 bs 18, e_entry = le32 bs 24,
      e_phoff = le32 bs 28, e_phentsize = le16 bs 42, e_phnum = le16 bs 44\<rparr>"

definition phdr_of :: "u8 list \<Rightarrow> elf32_phdr" where
  "phdr_of bs =
     \<lparr>p_type = le32 bs 0, p_offset = le32 bs 4, p_vaddr = le32 bs 8, p_paddr = le32 bs 12,
      p_filesz = le32 bs 16, p_memsz = le32 bs 20\<rparr>"

fun ld_bytes :: "'m cpu \<Rightarrow> u32 \<Rightarrow> nat \<Rightarrow> 'm \<Rightarrow> u8 list \<times> 'm" where
  "ld_bytes c a 0 m = ([], m)"
| "ld_bytes c a (Suc n) m =
     (let (v, m) = ld8 c a m; (vs, m) = ld_bytes c (a + 1) n m in (v # vs, m))"

definition read_ehdr :: "'m cpu \<Rightarrow> u32 \<Rightarrow> 'm \<Rightarrow> elf32_ehdr \<times> 'm" where
  "read_ehdr c blob m = (let (bs, m) = ld_bytes c blob ehdr_size m in (ehdr_of bs, m))"

definition read_phdr :: "'m cpu \<Rightarrow> u32 \<Rightarrow> nat \<Rightarrow> 'm \<Rightarrow> elf32_phdr \<times> 'm" where
  "read_phdr c ph i m = (let (bs, m) = ld_bytes c (ph + of_nat (phdr_size * i)) phdr_size m in (phdr_of bs, m))"

section \<open>Checking\<close>

definition blob_range_valid :: "u32 \<Rightarrow> u32 \<Rightarrow> u32 \<Rightarrow> bool" where
  "blob_range_valid blob_size off len \<longleftrightarrow> off \<le> blob_size \<and> len \<le> blob_size - off"

definition ehdr_valid :: "elf32_ehdr \<Rightarrow> u32 \<Rightarrow> bool" where
  "ehdr_valid eh blob_size \<longleftrightarrow>
     take 4 (e_ident eh) = [0x7f, 0x45, 0x4c, 0x46] \<and> e_ident eh ! 4 = 1 \<and> e_ident eh ! 5 = 1 \<and>
     e_type eh = 2 \<and> e_machine eh = 8 \<and> e_phentsize eh = of_nat phdr_size \<and> e_phnum eh \<noteq> 0 \<and>
     blob_range_valid blob_size (e_phoff eh) (e_phnum eh * of_nat phdr_size)"

definition valid_elf :: "'m cpu \<Rightarrow> u32 \<Rightarrow> u32 \<Rightarrow> 'm \<Rightarrow> bool \<times> 'm" where
  "valid_elf c blob blob_size m =
     (if blob_size < of_nat ehdr_size then (False, m)
      else let (eh, m) = read_ehdr c blob m in (ehdr_valid eh blob_size, m))"

text \<open>The load address of a segment: its physical address, or the virtual one if that is zero.\<close>

definition load_addr :: "elf32_phdr \<Rightarrow> u32" where
  "load_addr ph = to_kseg0 (if p_paddr ph \<noteq> 0 then p_paddr ph else p_vaddr ph)"

datatype scan_error = InvalidElf | BadLoadRange | LoadOutsideRam | NoLoads

definition scan_segment :: "u32 \<Rightarrow> elf32_phdr \<Rightarrow> u32 \<times> u32 \<times> nat \<Rightarrow> scan_error + (u32 \<times> u32 \<times> nat)" where
  "scan_segment blob_size ph st =
     (let (load_min, load_max, loads) = st
      in if p_type ph \<noteq> PT_LOAD then Inr st
         else if p_filesz ph > p_memsz ph \<or> \<not> blob_range_valid blob_size (p_offset ph) (p_filesz ph)
         then Inl BadLoadRange
         else
           let dst = load_addr ph; end' = dst + p_memsz ph
           in if end' < dst \<or> end' > RAM_TOP then Inl LoadOutsideRam
              else Inr (if dst < load_min then dst else load_min,
                        if end' > load_max then end' else load_max, loads + 1))"

fun scan_loop :: "'m cpu \<Rightarrow> u32 \<Rightarrow> u32 \<Rightarrow> nat list \<Rightarrow> u32 \<times> u32 \<times> nat \<Rightarrow> 'm \<Rightarrow>
    (scan_error + (u32 \<times> u32 \<times> nat)) \<times> 'm" where
  "scan_loop c blob_size ph [] st m = (Inr st, m)"
| "scan_loop c blob_size ph (i # is) st m =
     (let (h, m) = read_phdr c ph i m
      in case scan_segment blob_size h st of Inl e \<Rightarrow> (Inl e, m)
         | Inr st \<Rightarrow> scan_loop c blob_size ph is st m)"

definition scan_linux_elf :: "'m cpu \<Rightarrow> u32 \<Rightarrow> u32 \<Rightarrow> 'm \<Rightarrow> (scan_error + (u32 \<times> u32)) \<times> 'm" where
  "scan_linux_elf c blob blob_size m =
     (let (ok, m) = valid_elf c blob blob_size m
      in if \<not> ok then (Inl InvalidElf, m)
         else
           let (eh, m) = read_ehdr c blob m;
               (r, m) = scan_loop c blob_size (blob + e_phoff eh) [0..<unat (e_phnum eh)] (0xffffffff, 0, 0) m
           in case r of Inl e \<Rightarrow> (Inl e, m)
              | Inr (load_min, load_max, loads) \<Rightarrow>
                  (if loads = 0 then Inl NoLoads else Inr (load_min, load_max), m))"

section \<open>Copying\<close>

definition copy_segment :: "'m cpu \<Rightarrow> u32 \<Rightarrow> elf32_phdr \<Rightarrow> 'm \<Rightarrow> 'm" where
  "copy_segment c blob ph m =
     (if p_type ph \<noteq> PT_LOAD then m
      else
        let dst = load_addr ph; src = to_kseg0 (blob + p_offset ph);
            m = copy_overlap c dst src (p_filesz ph) m
        in zero_bytes c (dst + p_filesz ph) (unat (p_memsz ph - p_filesz ph)) m)"

fun copy_loop :: "'m cpu \<Rightarrow> u32 \<Rightarrow> u32 \<Rightarrow> nat list \<Rightarrow> 'm \<Rightarrow> 'm" where
  "copy_loop c blob ph [] m = m"
| "copy_loop c blob ph (i # is) m =
     (let (h, m) = read_phdr c ph i m in copy_loop c blob ph is (copy_segment c blob h m))"

definition copy_linux_elf :: "'m cpu \<Rightarrow> u32 \<Rightarrow> 'm \<Rightarrow> 'm" where
  "copy_linux_elf c blob m =
     (let (eh, m) = read_ehdr c blob m
      in copy_loop c blob (blob + e_phoff eh) (rev [0..<unat (e_phnum eh)]) m)"

section \<open>Verifying\<close>

text \<open>A word access to a misaligned address is an address error.\<close>

definition load_word :: "'m cpu \<Rightarrow> u32 \<Rightarrow> 'm \<Rightarrow> (u32 \<times> 'm) option" where
  "load_word c a m = (if a AND 3 \<noteq> 0 then None else Some (ld32 c a m))"

definition store_word :: "'m cpu \<Rightarrow> u32 \<Rightarrow> u32 \<Rightarrow> 'm \<Rightarrow> 'm option" where
  "store_word c a v m = (if a AND 3 \<noteq> 0 then None else Some (st32 c a v m))"

type_synonym 'm repair = "'m \<times> u32 \<times> u32"

definition repaired :: "u32 \<Rightarrow> 'm \<Rightarrow> 'm repair \<Rightarrow> 'm repair" where
  "repaired a m st = (let (_, repairs, first) = st in (m, repairs + 1, if repairs = 0 then a else first))"

definition verify_word :: "'m cpu \<Rightarrow> u32 \<Rightarrow> u32 \<Rightarrow> 'm repair \<Rightarrow> 'm repair option" where
  "verify_word c dst src st =
     (let (m, repairs, first) = st; (want, m) = ld_bytes c src 4 m
      in case load_word c dst m of None \<Rightarrow> None
         | Some (got, m) \<Rightarrow>
             if got \<noteq> le32 want 0
             then map_option (\<lambda>m. repaired dst m (m, repairs, first)) (store_word c dst (le32 want 0) m)
             else Some (m, repairs, first))"

definition verify_byte :: "'m cpu \<Rightarrow> u32 \<Rightarrow> u32 \<Rightarrow> 'm repair \<Rightarrow> 'm repair" where
  "verify_byte c dst src st =
     (let (m, repairs, first) = st; (want, m) = ld8 c src m; (got, m) = ld8 c dst m
      in if got \<noteq> want then repaired dst (st8 c dst want m) (m, repairs, first) else (m, repairs, first))"

fun verify_words :: "'m cpu \<Rightarrow> u32 \<Rightarrow> u32 \<Rightarrow> nat \<Rightarrow> 'm repair \<Rightarrow> 'm repair option" where
  "verify_words c dst src 0 st = Some st"
| "verify_words c dst src (Suc n) st =
     (case verify_word c dst src st of None \<Rightarrow> None | Some st \<Rightarrow> verify_words c (dst + 4) (src + 4) n st)"

fun verify_tail :: "'m cpu \<Rightarrow> u32 \<Rightarrow> u32 \<Rightarrow> nat \<Rightarrow> 'm repair \<Rightarrow> 'm repair" where
  "verify_tail c dst src 0 st = st"
| "verify_tail c dst src (Suc n) st = verify_tail c (dst + 1) (src + 1) n (verify_byte c dst src st)"

text \<open>
  The two loops of \<open>verify_repair_range\<close>: whole words while \<open>off + 4 <= len\<close>, then the bytes left (for a
  length below \<open>2 ^ 32 - 4\<close>, where \<open>off + 4\<close> does not wrap).
\<close>

definition verify_loops :: "'m cpu \<Rightarrow> u32 \<Rightarrow> u32 \<Rightarrow> nat \<Rightarrow> 'm \<Rightarrow> 'm repair option" where
  "verify_loops c dst src len m =
     map_option (verify_tail c (dst + of_nat (4 * (len div 4))) (src + of_nat (4 * (len div 4))) (len mod 4))
       (verify_words c dst src (len div 4) (m, 0, 0xffffffff))"

definition verify_repair_range :: "'m cpu \<Rightarrow> 'd board \<Rightarrow> u32 \<Rightarrow> u32 \<Rightarrow> u32 \<Rightarrow> ('m, 'd) loader \<Rightarrow>
    ('m, 'd) loader option" where
  "verify_repair_range c b dst_kseg1 src len s =
     (case verify_loops c dst_kseg1 (to_kseg1 src) (unat len) (mach s) of None \<Rightarrow> None
      | Some (m, repairs, first) \<Rightarrow>
          let s = s\<lparr>mach := m\<rparr>
          in Some (if repairs \<noteq> 0
                   then thens [progress_mark b ''loader-verify-repairs'' 0x4d repairs,
                          uart_puts b ''linux-loader: VERIFY REPAIRED '', uart_hex b repairs,
                          uart_puts b '' words first='', uart_hex b first, uart_puts b ''\<newline>''] s
                   else s))"

definition zero_word :: "'m cpu \<Rightarrow> u32 \<Rightarrow> 'm \<Rightarrow> 'm option" where
  "zero_word c a m =
     (case load_word c a m of None \<Rightarrow> None
      | Some (v, m) \<Rightarrow> if v \<noteq> 0 then store_word c a 0 m else Some m)"

definition zero_byte :: "'m cpu \<Rightarrow> u32 \<Rightarrow> 'm \<Rightarrow> 'm" where
  "zero_byte c a m = (let (v, m) = ld8 c a m in if v \<noteq> 0 then st8 c a 0 m else m)"

fun zero_words :: "'m cpu \<Rightarrow> u32 \<Rightarrow> nat \<Rightarrow> 'm \<Rightarrow> 'm option" where
  "zero_words c a 0 m = Some m"
| "zero_words c a (Suc n) m = (case zero_word c a m of None \<Rightarrow> None | Some m \<Rightarrow> zero_words c (a + 4) n m)"

fun zero_tail :: "'m cpu \<Rightarrow> u32 \<Rightarrow> nat \<Rightarrow> 'm \<Rightarrow> 'm" where
  "zero_tail c a 0 m = m"
| "zero_tail c a (Suc n) m = zero_tail c (a + 1) n (zero_byte c a m)"

definition zero_verify :: "'m cpu \<Rightarrow> u32 \<Rightarrow> nat \<Rightarrow> 'm \<Rightarrow> 'm option" where
  "zero_verify c a n m =
     map_option (zero_tail c (a + of_nat (4 * (n div 4))) (n mod 4)) (zero_words c a (n div 4) m)"

definition verify_segment :: "'m cpu \<Rightarrow> 'd board \<Rightarrow> u32 \<Rightarrow> elf32_phdr \<Rightarrow> ('m, 'd) loader \<Rightarrow>
    ('m, 'd) loader option" where
  "verify_segment c b blob ph s =
     (if p_type ph \<noteq> PT_LOAD then Some s
      else
        let dst = to_kseg1 (if p_paddr ph \<noteq> 0 then p_paddr ph else p_vaddr ph)
        in case verify_repair_range c b dst (blob + p_offset ph) (p_filesz ph) s of None \<Rightarrow> None
           | Some s \<Rightarrow>
               map_option (\<lambda>m. s\<lparr>mach := m\<rparr>)
                 (zero_verify c (dst + p_filesz ph) (unat (p_memsz ph - p_filesz ph)) (mach s)))"

fun verify_loop :: "'m cpu \<Rightarrow> 'd board \<Rightarrow> u32 \<Rightarrow> u32 \<Rightarrow> nat list \<Rightarrow> ('m, 'd) loader \<Rightarrow> ('m, 'd) loader option" where
  "verify_loop c b blob ph [] s = Some s"
| "verify_loop c b blob ph (i # is) s =
     (let (h, m) = read_phdr c ph i (mach s)
      in case verify_segment c b blob h (s\<lparr>mach := m\<rparr>) of None \<Rightarrow> None
         | Some s \<Rightarrow> verify_loop c b blob ph is s)"

definition verify_repair_linux_elf :: "'m cpu \<Rightarrow> 'd board \<Rightarrow> u32 \<Rightarrow> ('m, 'd) loader \<Rightarrow> ('m, 'd) loader option" where
  "verify_repair_linux_elf c b blob s =
     (let (eh, m) = read_ehdr c blob (mach s)
      in verify_loop c b blob (blob + e_phoff eh) [0..<unat (e_phnum eh)] (s\<lparr>mach := m\<rparr>))"

end
