(* ===== verification/LoaderCache.thy ===== *)
theory LoaderCache
  imports LoaderMem
begin

text \<open>
  The primary caches of the HC15xx as the comments of \<^verbatim>\<open>src/boot/linux-loader.c\<close> describe them: an
  instance of the locale \<open>cached_ram\<close> for every replacement policy. Its states include all stale and
  dirty aliases that a warm boot can leave.
\<close>

section \<open>The two-way cache of the HC15xx\<close>

text \<open>
  The geometry the comments of the loader give: 32-byte lines, 512 sets, two ways, write-back. The
  line of byte \<open>p\<close> is \<open>p div 32\<close>; bit 14 of an index operation selects the way. The replacement
  policy \<open>pick\<close> is a parameter. The contents of a line are kept as a function on byte addresses, of
  which only the 32 of the line matter.
\<close>

record dline =
  ln_tag :: nat
  ln_dirty :: bool
  ln_data :: "nat \<Rightarrow> u8"

record two_way =
  dram :: "nat \<Rightarrow> u8"
  dways :: "nat \<times> bool \<Rightarrow> dline option"
  iways :: "nat \<times> bool \<Rightarrow> nat option"

definition set_of :: "nat \<Rightarrow> nat" where
  "set_of p = p div 32 mod 512"

definition holds :: "two_way \<Rightarrow> nat \<times> bool \<Rightarrow> nat \<Rightarrow> bool" where
  "holds m k p = (case dways m k of None \<Rightarrow> False | Some l \<Rightarrow> ln_tag l = p div 32)"

definition way_of :: "two_way \<Rightarrow> nat \<Rightarrow> nat \<times> bool" where
  "way_of m p = (set_of p, \<not> holds m (set_of p, False) p)"

definition d_resident :: "two_way \<Rightarrow> nat \<Rightarrow> bool" where
  "d_resident m p = holds m (way_of m p) p"

definition line_at :: "two_way \<Rightarrow> nat \<Rightarrow> dline" where
  "line_at m p = the (dways m (way_of m p))"

definition d_view :: "two_way \<Rightarrow> nat \<Rightarrow> u8" where
  "d_view m p = (if d_resident m p then ln_data (line_at m p) p else dram m p)"

definition d_solid :: "two_way \<Rightarrow> nat \<Rightarrow> bool" where
  "d_solid m p = (\<not> d_resident m p \<or> ln_dirty (line_at m p) \<or> ln_data (line_at m p) p = dram m p)"

definition i_resident :: "two_way \<Rightarrow> nat \<Rightarrow> bool" where
  "i_resident m p = (iways m (set_of p, False) = Some (p div 32) \<or> iways m (set_of p, True) = Some (p div 32))"

definition tw_inv :: "two_way \<Rightarrow> bool" where
  "tw_inv m \<longleftrightarrow> (\<forall>k l. dways m k = Some l \<longrightarrow> ln_tag l mod 512 = fst k) \<and>
     (\<forall>s l l'. dways m (s, False) = Some l \<and> dways m (s, True) = Some l' \<longrightarrow> ln_tag l \<noteq> ln_tag l')"

definition evict :: "bool \<Rightarrow> nat \<times> bool \<Rightarrow> two_way \<Rightarrow> two_way" where
  "evict wb k m =
     (case dways m k of None \<Rightarrow> m
      | Some l \<Rightarrow>
          m\<lparr>dram := (if wb \<and> ln_dirty l then (\<lambda>p. if p div 32 = ln_tag l then ln_data l p else dram m p)
                    else dram m),
            dways := (dways m)(k := None)\<rparr>)"

definition fill :: "(two_way \<Rightarrow> nat \<Rightarrow> bool) \<Rightarrow> nat \<Rightarrow> two_way \<Rightarrow> two_way" where
  "fill pick p m =
     (if d_resident m p then m
      else let k = (set_of p, pick m p); m = evict True k m
           in m\<lparr>dways := (dways m)(k \<mapsto> \<lparr>ln_tag = p div 32, ln_dirty = False, ln_data = dram m\<rparr>)\<rparr>)"

definition poke :: "nat \<Rightarrow> u8 \<Rightarrow> two_way \<Rightarrow> two_way" where
  "poke p v m =
     (let l = line_at m p
      in m\<lparr>dways := (dways m)(way_of m p \<mapsto> l\<lparr>ln_dirty := True, ln_data := (ln_data l)(p := v)\<rparr>)\<rparr>)"

definition phys_of :: "u32 \<Rightarrow> nat" where
  "phys_of a = unat (a AND 0x1fffffff)"

definition is_cached :: "u32 \<Rightarrow> bool" where
  "is_cached a \<longleftrightarrow> a AND 0xe0000000 = KSEG0_BASE"

definition tw_ld8 :: "(two_way \<Rightarrow> nat \<Rightarrow> bool) \<Rightarrow> u32 \<Rightarrow> two_way \<Rightarrow> u8 \<times> two_way" where
  "tw_ld8 pick a m =
     (if is_cached a then let m = fill pick (phys_of a) m in (d_view m (phys_of a), m)
      else (dram m (phys_of a), m))"

definition tw_st8 :: "(two_way \<Rightarrow> nat \<Rightarrow> bool) \<Rightarrow> u32 \<Rightarrow> u8 \<Rightarrow> two_way \<Rightarrow> two_way" where
  "tw_st8 pick a v m =
     (if is_cached a then poke (phys_of a) v (fill pick (phys_of a) m)
      else m\<lparr>dram := (dram m)(phys_of a := v)\<rparr>)"

definition tw_ld32 :: "(two_way \<Rightarrow> nat \<Rightarrow> bool) \<Rightarrow> u32 \<Rightarrow> two_way \<Rightarrow> u32 \<times> two_way" where
  "tw_ld32 pick a m =
     (let (b0, m) = tw_ld8 pick a m; (b1, m) = tw_ld8 pick (a + 1) m;
          (b2, m) = tw_ld8 pick (a + 2) m; (b3, m) = tw_ld8 pick (a + 3) m
      in (le32_of b0 b1 b2 b3, m))"

definition tw_st32 :: "(two_way \<Rightarrow> nat \<Rightarrow> bool) \<Rightarrow> u32 \<Rightarrow> u32 \<Rightarrow> two_way \<Rightarrow> two_way" where
  "tw_st32 pick a w m =
     tw_st8 pick (a + 3) (byte_of 3 w) (tw_st8 pick (a + 2) (byte_of 2 w)
       (tw_st8 pick (a + 1) (byte_of 1 w) (tw_st8 pick a (byte_of 0 w) m)))"

text \<open>The five cache operations; a hit operation acts only on a resident line.\<close>

definition tw_cacheop :: "nat \<Rightarrow> u32 \<Rightarrow> two_way \<Rightarrow> two_way" where
  "tw_cacheop op a m =
     (let p = phys_of a; k = (set_of p, odd (p div 0x4000))
      in if op = 0x15 then (if d_resident m p then evict True (way_of m p) m else m)
         else if op = 0x11 then (if d_resident m p then evict False (way_of m p) m else m)
         else if op = 0x01 then evict True k m
         else if op = 0x10 then
           m\<lparr>iways := (\<lambda>k. if fst k = set_of p \<and> iways m k = Some (p div 32) then None else iways m k)\<rparr>
         else if op = 0x00 then m\<lparr>iways := (iways m)(k := None)\<rparr>
         else m)"

definition two_way_cpu :: "(two_way \<Rightarrow> nat \<Rightarrow> bool) \<Rightarrow> two_way cpu" where
  "two_way_cpu pick =
     \<lparr>ld8 = tw_ld8 pick, st8 = tw_st8 pick, ld32 = tw_ld32 pick, st32 = tw_st32 pick,
      cacheop = tw_cacheop\<rparr>"

section \<open>Lookups\<close>

definition look :: "two_way \<Rightarrow> nat \<Rightarrow> dline option" where
  "look m p = (if d_resident m p then Some (line_at m p) else None)"

lemma tw_inv_tag: "tw_inv m \<Longrightarrow> dways m (s, w) = Some l \<Longrightarrow> ln_tag l mod 512 = s"
  by (auto simp: tw_inv_def)

lemma tw_inv_distinct:
  "tw_inv m \<Longrightarrow> dways m (s, w) = Some l \<Longrightarrow> dways m (s, w') = Some l' \<Longrightarrow> ln_tag l = ln_tag l' \<Longrightarrow> w = w'"
  unfolding tw_inv_def by (cases w; cases w') fastforce+

lemma look_some:
  assumes "tw_inv m"
  shows "look m p = Some l \<longleftrightarrow> (\<exists>w. dways m (set_of p, w) = Some l \<and> ln_tag l = p div 32)"
proof
  assume "look m p = Some l"
  then show "\<exists>w. dways m (set_of p, w) = Some l \<and> ln_tag l = p div 32"
    by (auto simp: look_def d_resident_def line_at_def holds_def way_of_def split: if_splits option.splits)
next
  assume "\<exists>w. dways m (set_of p, w) = Some l \<and> ln_tag l = p div 32"
  then obtain w where w: "dways m (set_of p, w) = Some l" "ln_tag l = p div 32" by auto
  show "look m p = Some l"
  proof (cases w)
    case True
    then have "\<not> holds m (set_of p, False) p"
      using tw_inv_distinct [OF assms, of "set_of p" True l False] w by (auto simp: holds_def split: option.splits)
    then show ?thesis using w True by (simp add: look_def d_resident_def line_at_def way_of_def holds_def)
  next
    case False
    then show ?thesis using w by (simp add: look_def d_resident_def line_at_def way_of_def holds_def)
  qed
qed

lemma look_none:
  "tw_inv m \<Longrightarrow> look m p = None \<longleftrightarrow> (\<forall>w l. dways m (set_of p, w) = Some l \<longrightarrow> ln_tag l \<noteq> p div 32)"
  using look_some by (metis not_None_eq)

lemma d_resident_look: "d_resident m p \<longleftrightarrow> look m p \<noteq> None"
  by (simp add: look_def)

lemma d_view_look: "d_view m p = (case look m p of None \<Rightarrow> dram m p | Some l \<Rightarrow> ln_data l p)"
  by (simp add: look_def d_view_def)

lemma d_solid_look: "d_solid m p = (case look m p of None \<Rightarrow> True | Some l \<Rightarrow> ln_dirty l \<or> ln_data l p = dram m p)"
  by (simp add: look_def d_solid_def)

lemmas d_look = d_resident_look d_view_look d_solid_look

lemma look_way:
  assumes "tw_inv m" "look m p = Some l"
  shows "dways m (way_of m p) = Some l" "ln_tag l = p div 32"
  using assms by (auto simp: look_def line_at_def d_resident_def holds_def split: if_splits option.splits)

lemma tw_inv_evict: "tw_inv m \<Longrightarrow> tw_inv (evict wb k m)"
  by (auto simp: tw_inv_def evict_def split: option.splits if_splits)

text \<open>An eviction drops one line and, if that is dirty and written back, moves its bytes to memory.\<close>

lemma look_evict:
  assumes "tw_inv m"
  shows "look (evict wb k m) p = (case look m p of None \<Rightarrow> None
           | Some l \<Rightarrow> if way_of m p = k then None else Some l)"
proof (rule option.exhaust [of "look m p"])
  assume n: "look m p = None"
  then have "look (evict wb k m) p = None"
    using assms tw_inv_evict [OF assms]
    by (auto simp: look_none evict_def split: option.splits if_splits)
  then show ?thesis by (simp add: n)
next
  fix l assume l: "look m p = Some l"
  then have w: "dways m (way_of m p) = Some l" "ln_tag l = p div 32" "fst (way_of m p) = set_of p"
    using look_way [OF assms l] by (auto simp: way_of_def)
  obtain v where v: "way_of m p = (set_of p, v)" by (simp add: way_of_def)
  show ?thesis
  proof (cases "way_of m p = k")
    case True
    have "w' = v" if "dways m (set_of p, w') = Some l'" "ln_tag l' = p div 32" for w' l'
      using tw_inv_distinct [OF assms that(1), of v l] w v that by simp
    then have "look (evict wb k m) p = None"
      using w(1) v True unfolding look_none [OF tw_inv_evict [OF assms]] by (simp add: evict_def) blast
    then show ?thesis by (simp add: l True)
  next
    case False
    then have "look (evict wb k m) p = Some l"
      using w(1,2) v unfolding look_some [OF tw_inv_evict [OF assms]]
      by (intro exI [of _ v]) (auto simp: evict_def split: option.splits)
    then show ?thesis by (simp add: l False)
  qed
qed

lemma dram_evict:
  assumes "tw_inv m"
  shows "dram (evict wb k m) p = (case look m p of None \<Rightarrow> dram m p
           | Some l \<Rightarrow> if way_of m p = k \<and> wb \<and> ln_dirty l then ln_data l p else dram m p)"
proof (cases "dways m k")
  case None
  then show ?thesis
    using look_way [OF assms] by (auto simp: evict_def split: option.splits)
next
  case (Some l')
  obtain s v where k: "k = (s, v)" by (cases k)
  have eq: "ln_tag l' = p div 32 \<Longrightarrow> look m p = Some l' \<and> way_of m p = k"
  proof -
    assume t: "ln_tag l' = p div 32"
    then have s: "s = set_of p" using tw_inv_tag [OF assms, of s v l'] Some k by (simp add: set_of_def)
    then have lk: "look m p = Some l'" using look_some [OF assms] Some k t by blast
    then have "dways m (way_of m p) = Some l'" by (rule look_way [OF assms])
    then have "way_of m p = k"
      using tw_inv_distinct [OF assms, of s v l' _ l'] Some k s by (cases "way_of m p") (auto simp: way_of_def)
    with lk show ?thesis by simp
  qed
  show ?thesis
  proof (cases "look m p")
    case None
    then show ?thesis using eq Some by (auto simp: evict_def)
  next
    case l: (Some l)
    then have "dways m (way_of m p) = Some l" "ln_tag l = p div 32" using look_way [OF assms] by auto
    then show ?thesis using eq Some l by (auto simp: evict_def)
  qed
qed


text \<open>Installing a line in a way that is free or already holds it.\<close>

lemma install:
  fixes w :: bool
  assumes m: "tw_inv m" and l: "ln_tag l = x div 32"
    and own: "\<And>l'. dways m (set_of x, w) = Some l' \<Longrightarrow> ln_tag l' = x div 32"
    and other: "\<And>l'. dways m (set_of x, \<not> w) = Some l' \<Longrightarrow> ln_tag l' \<noteq> x div 32"
    and m': "m' = m\<lparr>dways := (dways m)((set_of x, w) \<mapsto> l)\<rparr>"
  shows "tw_inv m'" "look m' p = (if p div 32 = x div 32 then Some l else look m p)"
proof -
  have d: "dways m' (s, v) = (if s = set_of x \<and> v = w then Some l else dways m (s, v))" for s v
    by (simp add: m')
  show i: "tw_inv m'"
    unfolding tw_inv_def
  proof (intro conjI allI impI)
    fix k l' assume a: "dways m' k = Some l'"
    obtain s v where k: "k = (s, v)" by (cases k)
    show "ln_tag l' mod 512 = fst k"
      using a tw_inv_tag [OF m, of s v l'] l by (auto simp: d k set_of_def split: if_splits)
  next
    fix s l1 l2 assume a: "dways m' (s, False) = Some l1 \<and> dways m' (s, True) = Some l2"
    then show "ln_tag l1 \<noteq> ln_tag l2"
      using other l tw_inv_distinct [OF m, of s False l1 True l2] by (cases w) (auto simp: d split: if_splits)
  qed
  have sp: "p div 32 = x div 32 \<Longrightarrow> set_of p = set_of x" by (simp add: set_of_def)
  show "look m' p = (if p div 32 = x div 32 then Some l else look m p)"
  proof (cases "p div 32 = x div 32")
    case True
    then have "look m' p = Some l" unfolding look_some [OF i] using l by (auto simp: d sp)
    then show ?thesis by (simp add: True)
  next
    case False
    have "dways m' (set_of p, v) = Some l' \<and> ln_tag l' = p div 32 \<longleftrightarrow>
        dways m (set_of p, v) = Some l' \<and> ln_tag l' = p div 32" for v l'
    proof (cases "set_of p = set_of x \<and> v = w")
      case True
      then show ?thesis using own [of l'] l False by (auto simp: d)
    qed (auto simp: d)
    then have "look m' p = Some l' \<longleftrightarrow> look m p = Some l'" for l'
      unfolding look_some [OF i] look_some [OF m] by simp
    then have "look m' p = look m p" by (metis option.exhaust)
    then show ?thesis by (simp add: False)
  qed
qed

lemma fill:
  assumes "tw_inv m"
    and m'_def: "m' = fill pick x m"
  shows "tw_inv m' \<and> d_resident m' x \<and>
    look m' p = (if p div 32 = x div 32 \<and> look m x = None
           then Some \<lparr>ln_tag = x div 32, ln_dirty = False, ln_data = dram m'\<rparr>
           else if look m x = None \<and> way_of m p = (set_of x, pick m x) then None else look m p) \<and>
    dram m' p = (case look m p of Some l \<Rightarrow>
           if look m x = None \<and> way_of m p = (set_of x, pick m x) \<and> ln_dirty l then ln_data l p else dram m p
         | None \<Rightarrow> dram m p) \<and> iways m' = iways m"
proof (cases "look m x")
  case (Some l)
  then have "m' = m" by (simp add: m'_def fill_def d_resident_look)
  then show ?thesis using assms(1) Some by (simp add: d_resident_look split: option.split)
next
  case None
  define k where "k = (set_of x, pick m x)"
  define e where "e = evict True k m"
  define l where "l = \<lparr>ln_tag = x div 32, ln_dirty = False, ln_data = dram e\<rparr>"
  have m': "m' = e\<lparr>dways := (dways e)((set_of x, pick m x) \<mapsto> l)\<rparr>"
    using None by (simp add: m'_def fill_def d_resident_look e_def k_def l_def Let_def)
  have e: "tw_inv e" by (simp add: e_def tw_inv_evict assms)
  have free: "dways e (set_of x, pick m x) = None"
    by (auto simp: e_def k_def evict_def split: option.splits)
  have gone: "look e x = None" by (simp add: e_def look_evict assms None)
  have lt: "ln_tag l = x div 32" by (simp add: l_def)
  have other: "dways e (set_of x, \<not> pick m x) = Some l' \<Longrightarrow> ln_tag l' \<noteq> x div 32" for l'
    using gone unfolding look_none [OF e] by blast
  note inst = install [OF e lt _ other m']
  have i1: "tw_inv m'" by (rule inst(1)) (simp_all add: free)
  have i2: "look m' p = (if p div 32 = x div 32 then Some l else look e p)" for p
    by (rule inst(2)) (simp_all add: free)
  have d: "dram m' = dram e" "iways m' = iways m" by (auto simp: m' e_def evict_def split: option.splits)
  have "p div 32 = x div 32 \<Longrightarrow> look m p = None"
    using None unfolding look_none [OF assms(1)] by (simp add: set_of_def)
  then show ?thesis
    using i1 i2 [of x] i2 [of p] None
    by (auto simp: d_resident_look d l_def e_def look_evict dram_evict assms(1) k_def split: option.splits)
qed

lemma poke:
  assumes "tw_inv m" "look m x = Some l"
  shows "tw_inv (poke x v m)"
    and "look (poke x v m) p = (if p div 32 = x div 32
           then Some (l\<lparr>ln_dirty := True, ln_data := (ln_data l)(x := v)\<rparr>) else look m p)"
    and "dram (poke x v m) = dram m" "iways (poke x v m) = iways m"
proof -
  obtain w where w: "way_of m x = (set_of x, w)" by (simp add: way_of_def)
  have lw: "dways m (set_of x, w) = Some l" "ln_tag l = x div 32" using look_way [OF assms] w by auto
  define l' where "l' = l\<lparr>ln_dirty := True, ln_data := (ln_data l)(x := v)\<rparr>"
  have m': "poke x v m = m\<lparr>dways := (dways m)((set_of x, w) \<mapsto> l')\<rparr>"
    using assms(2) by (simp add: poke_def w line_at_def lw l'_def Let_def)
  have other: "dways m (set_of x, \<not> w) = Some l2 \<Longrightarrow> ln_tag l2 \<noteq> x div 32" for l2
    using tw_inv_distinct [OF assms(1) lw(1), of "\<not> w" l2] lw(2) by auto
  have l': "ln_tag l' = x div 32" by (simp add: l'_def lw)
  note inst = install [OF assms(1) l' _ other m']
  show "tw_inv (poke x v m)" by (rule inst(1)) (auto simp: lw)
  show "look (poke x v m) p = (if p div 32 = x div 32
      then Some (l\<lparr>ln_dirty := True, ln_data := (ln_data l)(x := v)\<rparr>) else look m p)"
    unfolding l'_def [symmetric] by (rule inst(2)) (auto simp: lw)
  show "dram (poke x v m) = dram m" "iways (poke x v m) = iways m" by (simp_all add: m')
qed

section \<open>Address decoding\<close>

lemma top3: "(a :: u32) AND 0xe0000000 = push_bit 29 (drop_bit 29 a)"
  by (rule word32_eqI, elim insertE) (simp_all add: bit_simps)

lemma and_top3_iff: "(a :: u32) AND 0xe0000000 = push_bit 29 t \<longleftrightarrow> drop_bit 29 a = take_bit 3 t"
proof -
  have "push_bit 29 (drop_bit 29 a) = push_bit 29 t \<longleftrightarrow> drop_bit 29 a = take_bit 3 t"
  proof
    assume h: "push_bit 29 (drop_bit 29 a) = push_bit 29 t"
    show "drop_bit 29 a = take_bit 3 t"
    proof (rule bit_word_eqI)
      fix n assume "n < LENGTH(32)"
      have "bit (push_bit 29 (drop_bit 29 a)) (29 + n) = bit (push_bit 29 t) (29 + n)" by (simp only: h)
      then show "bit (drop_bit 29 a) n = bit (take_bit 3 t) n"
        by (cases "n < 3") (auto simp: bit_simps dest: bit_imp_le_length)
    qed
  next
    assume h: "drop_bit 29 a = take_bit 3 t"
    show "push_bit 29 (drop_bit 29 a) = push_bit 29 t"
      unfolding h by (rule bit_word_eqI) (auto simp: bit_simps)
  qed
  then show ?thesis by (simp add: top3)
qed

lemma phys_mod: "phys_of a = unat a mod 2 ^ 29"
proof -
  have "(0x1fffffff :: u32) = mask 29" by (simp add: mask_eq_exp_minus_1)
  then have "phys_of a = unat (take_bit 29 a)" by (simp add: phys_of_def take_bit_eq_mask)
  then show ?thesis by (simp add: take_bit_eq_mod unat_mod)
qed

lemma is_cached_iff: "is_cached a \<longleftrightarrow> unat a div 2 ^ 29 = 4"
proof -
  have "KSEG0_BASE = push_bit 29 4" by (simp add: push_bit_eq_mult)
  then have "is_cached a \<longleftrightarrow> drop_bit 29 a = (take_bit 3 4 :: u32)"
    unfolding is_cached_def by (simp only: and_top3_iff)
  also have "\<dots> \<longleftrightarrow> unat (drop_bit 29 a) = 4"
    by (simp add: word_unat_eq_iff)
  also have "\<dots> \<longleftrightarrow> unat a div 2 ^ 29 = 4"
    by (simp add: drop_bit_eq_div unat_div)
  finally show ?thesis .
qed

lemma segment_facts:
  fixes x k :: nat
  assumes "x < RAM_SIZE"
  shows "(k * 2 ^ 29 + x) mod 2 ^ 29 = x" "(k * 2 ^ 29 + x) div 2 ^ 29 = k"
  using assms by simp_all

lemma k0_facts:
  assumes "x < RAM_SIZE"
  shows "phys_of (k0 x) = x" "is_cached (k0 x)"
  using segment_facts [OF assms, of 4] by (simp_all only: phys_mod is_cached_iff unat_k0 [OF less_imp_le, OF assms]) simp_all

lemma k1_facts:
  assumes "x < RAM_SIZE"
  shows "phys_of (k1 x) = x" "\<not> is_cached (k1 x)"
  using segment_facts [OF assms, of 5] by (simp_all only: phys_mod is_cached_iff unat_k1 [OF less_imp_le, OF assms]) simp_all

section \<open>The laws hold\<close>

lemma way_of_eq_line:
  assumes m: "tw_inv m" and l: "look m x = Some l" "look m p = Some l'"
  shows "way_of m p = way_of m x \<longleftrightarrow> p div 32 = x div 32"
proof
  assume "way_of m p = way_of m x"
  then show "p div 32 = x div 32" using look_way [OF m] l by (metis option.inject)
next
  assume "p div 32 = x div 32"
  then show "way_of m p = way_of m x" by (simp add: way_of_def set_of_def holds_def split: option.split)
qed

lemma look_same_line: "p div 32 = x div 32 \<Longrightarrow> look m p = look m x"
  by (simp add: look_def d_resident_def line_at_def way_of_def set_of_def holds_def cong: option.case_cong)

lemma look_cong:
  assumes "dways m' = dways m"
  shows "look m' = look m" "tw_inv m' = tw_inv m"
  using assms
  by (simp_all add: fun_eq_iff look_def d_resident_def line_at_def way_of_def holds_def tw_inv_def)

lemma tw_ld8_k0:
  assumes m: "tw_inv m" and x: "x < RAM_SIZE" and h: "tw_ld8 pick (k0 x) m = (v, m')"
  shows "v = d_view m x \<and> tw_inv m' \<and> i_resident m' = i_resident m \<and>
      (\<forall>p. (d_solid m p \<longrightarrow> d_solid m' p \<and> d_view m' p = d_view m p) \<and>
           (d_solid m p \<and> dram m p = d_view m p \<longrightarrow> dram m' p = dram m p) \<and>
           (d_resident m' p \<longrightarrow> d_resident m p \<or> same_line p x))"
proof -
  have m': "m' = fill pick x m" "v = d_view m' x"
    using h x by (auto simp: tw_ld8_def k0_facts Let_def)
  note f = fill [OF m m'(1)]
  have "(d_solid m p \<longrightarrow> d_solid m' p \<and> d_view m' p = d_view m p) \<and>
           (d_solid m p \<and> dram m p = d_view m p \<longrightarrow> dram m' p = dram m p) \<and>
           (d_resident m' p \<longrightarrow> d_resident m p \<or> same_line p x)" for p
  proof (cases "look m x")
    case (Some l)
    then show ?thesis using f [of p] by (auto simp: d_look split: option.splits)
  next
    case None
    show ?thesis
    proof (cases "p div 32 = x div 32")
      case True
      then show ?thesis using f [of p] None look_same_line [OF True, of m] by (simp add: d_look)
    next
      case False
      then show ?thesis using f [of p] None by (cases "look m p") (auto simp: d_look split: if_splits)
    qed
  qed
  moreover have "v = d_view m x"
    using f [of x] m'(2) by (cases "look m x") (simp_all add: d_look)
  moreover have "i_resident m' = i_resident m" using f [of x] by (simp add: i_resident_def fun_eq_iff)
  ultimately show ?thesis using f [of x] by blast
qed

lemma tw_st8_k0:
  assumes m: "tw_inv m" and x: "x < RAM_SIZE" and h: "m' = tw_st8 pick (k0 x) v m"
  shows "tw_inv m' \<and> i_resident m' = i_resident m \<and> d_solid m' x \<and> d_view m' x = v \<and>
      (\<forall>p. p \<noteq> x \<longrightarrow> (d_solid m p \<longrightarrow> d_solid m' p \<and> d_view m' p = d_view m p) \<and>
           (d_solid m p \<and> dram m p = d_view m p \<longrightarrow> dram m' p = dram m p))"
proof -
  define f where "f = fill pick x m"
  have m': "m' = poke x v f" using h x by (simp add: tw_st8_def k0_facts f_def)
  have ff: "tw_inv f" "d_resident f x" using fill [OF m f_def] by blast+
  obtain l where l: "look f x = Some l" using ff(2) by (auto simp: d_resident_look)
  note pk = poke [OF ff(1) l, of v, folded m']
  have ld: "tw_ld8 pick (k0 x) m = (d_view f x, f)" by (simp add: tw_ld8_def k0_facts x f_def Let_def)
  note fv = tw_ld8_k0 [OF m x ld]
  have "(d_solid m p \<longrightarrow> d_solid m' p \<and> d_view m' p = d_view m p) \<and>
           (d_solid m p \<and> dram m p = d_view m p \<longrightarrow> dram m' p = dram m p)" if "p \<noteq> x" for p
  proof (cases "p div 32 = x div 32")
    case True
    have "d_view m' p = d_view f p" "d_solid m' p" "dram m' p = dram f p"
      using pk(2) [of p] pk(3) l that True look_same_line [OF True, of f] by (simp_all add: d_look)
    then show ?thesis using fv by metis
  next
    case False
    then have "d_view m' p = d_view f p" "d_solid m' p = d_solid f p" "dram m' p = dram f p"
      using pk(2) [of p] pk(3) by (simp_all add: d_look split: option.split)
    then show ?thesis using fv by metis
  qed
  moreover have "d_solid m' x" "d_view m' x = v"
    using pk(2) [of x] by (simp_all add: d_view_look d_solid_look)
  moreover have "i_resident m' = i_resident m" using fv pk(4) by (auto simp: i_resident_def fun_eq_iff)
  ultimately show ?thesis using pk(1) by blast
qed

lemma tw_st8_k1:
  assumes m: "tw_inv m" and x: "x < RAM_SIZE" and h: "m' = tw_st8 pick (k1 x) v m"
  shows "tw_inv m' \<and> i_resident m' = i_resident m \<and> d_resident m' = d_resident m \<and>
      dram m' = (dram m)(x := v) \<and>
      (\<forall>p. p \<noteq> x \<longrightarrow> d_view m' p = d_view m p \<and> d_solid m' p = d_solid m p)"
proof -
  have m': "m' = m\<lparr>dram := (dram m)(x := v)\<rparr>" using h x by (simp add: tw_st8_def k1_facts)
  then have d: "dways m' = dways m" by simp
  note look_cong [OF d]
  then show ?thesis
    using m m' by (simp add: d_look fun_eq_iff i_resident_def split: option.split)
qed

lemma tw_hit_ops:
  assumes m: "tw_inv m" and x: "x < RAM_SIZE" and h: "m' = (if d_resident m x then evict wb (way_of m x) m else m)"
  shows "tw_inv m' \<and> i_resident m' = i_resident m \<and> (\<not> wb \<longrightarrow> dram m' = dram m) \<and>
      (\<forall>p. if same_line p x then \<not> d_resident m' p \<and> (wb \<longrightarrow> d_solid m p \<longrightarrow> dram m' p = d_view m p)
           else dram m' p = dram m p \<and> d_view m' p = d_view m p \<and> d_solid m' p = d_solid m p \<and>
                d_resident m' p = d_resident m p)"
proof (cases "look m x")
  case None
  then have "m' = m" by (simp add: h d_resident_look)
  moreover have "same_line p x \<Longrightarrow> look m p = None" for p
    using None look_same_line [of p x m] by simp
  ultimately show ?thesis using m by (simp add: d_look)
next
  case (Some l)
  then have m': "m' = evict wb (way_of m x) m" by (simp add: h d_resident_look)
  have "if same_line p x then \<not> d_resident m' p \<and> (wb \<longrightarrow> d_solid m p \<longrightarrow> dram m' p = d_view m p)
           else dram m' p = dram m p \<and> d_view m' p = d_view m p \<and> d_solid m' p = d_solid m p \<and>
                d_resident m' p = d_resident m p" for p
    using look_evict [OF m, of wb "way_of m x" p] dram_evict [OF m, of wb "way_of m x" p]
      way_of_eq_line [OF m Some, of p] look_same_line [of p x m] Some
    by (cases "look m p"; cases "same_line p x"; cases wb) (auto simp: d_look m')
  moreover have "\<not> wb \<longrightarrow> dram m' = dram m" "i_resident m' = i_resident m"
    by (auto simp: m' evict_def i_resident_def fun_eq_iff split: option.splits)
  ultimately show ?thesis using tw_inv_evict [OF m] m' by blast
qed

lemma tw_index_wb:
  assumes m: "tw_inv m" and h: "m' = evict True k m"
  shows "tw_inv m' \<and> i_resident m' = i_resident m \<and>
      (\<forall>p. (d_solid m p \<longrightarrow> d_solid m' p \<and> d_view m' p = d_view m p) \<and>
           (d_solid m p \<and> dram m p = d_view m p \<longrightarrow> dram m' p = dram m p) \<and>
           (d_resident m' p \<longrightarrow> d_resident m p))"
proof -
  have "(d_solid m p \<longrightarrow> d_solid m' p \<and> d_view m' p = d_view m p) \<and>
           (d_solid m p \<and> dram m p = d_view m p \<longrightarrow> dram m' p = dram m p) \<and>
           (d_resident m' p \<longrightarrow> d_resident m p)" for p
    using look_evict [OF m, of True k p] dram_evict [OF m, of True k p]
    by (cases "look m p") (auto simp: d_look h)
  moreover have "i_resident m' = i_resident m"
    by (auto simp: h evict_def i_resident_def fun_eq_iff split: option.splits)
  ultimately show ?thesis using tw_inv_evict [OF m] h by blast
qed

lemma iways_update:
  fixes m :: two_way
  assumes m'_def: "m' = m\<lparr>iways := f\<rparr>"
  shows "dram m' = dram m \<and> d_view m' = d_view m \<and> d_solid m' = d_solid m \<and> d_resident m' = d_resident m \<and>
    tw_inv m' = tw_inv m"
proof -
  have d: "dways m' = dways m" by (simp add: m'_def)
  note look_cong [OF d]
  moreover have "dram m' = dram m" by (simp add: m'_def)
  ultimately show ?thesis by (simp add: d_look fun_eq_iff split: option.split)
qed

interpretation two_way: cached_ram "two_way_cpu pick" tw_inv d_view dram d_solid d_resident i_resident for pick
proof (unfold_locales, goal_cases)
  case (1 m p) then show ?case by (simp add: d_view_def d_solid_def)
next
  case (2 m x v m') then show ?case using tw_ld8_k0 by (simp add: two_way_cpu_def)
next
  case (3 m x m' v)
  then show ?case using tw_st8_k0 [of m x m' pick v] by (simp add: two_way_cpu_def)
next
  case (4 m x) then show ?case by (simp add: two_way_cpu_def tw_ld8_def k1_facts)
next
  case (5 m x)
  then show ?case by (simp add: two_way_cpu_def tw_ld32_def tw_ld8_def k1_facts k1_add)
next
  case (6 m x m' v) then show ?case using tw_st8_k1 [of m x m' pick v] by (simp add: two_way_cpu_def)
next
  case (7 m x w) then show ?case by (simp add: two_way_cpu_def tw_st32_def k1_add)
next
  case (8 m x m')
  then have h: "m' = (if d_resident m x then evict True (way_of m x) m else m)"
    by (simp add: two_way_cpu_def tw_cacheop_def k0_facts)
  show ?case using tw_hit_ops [OF 8(1,2) h] by presburger
next
  case (9 m x m')
  then have h: "m' = (if d_resident m x then evict False (way_of m x) m else m)"
    by (simp add: two_way_cpu_def tw_cacheop_def k0_facts)
  show ?case using tw_hit_ops [OF 9(1,2) h] by presburger
next
  case (10 m x m')
  then have m': "m' = m\<lparr>iways := (\<lambda>k. if fst k = set_of x \<and> iways m k = Some (x div 32) then None else iways m k)\<rparr>"
    by (simp add: two_way_cpu_def tw_cacheop_def k0_facts)
  show ?case using iways_update [OF m'] 10(1) by (auto simp: m' i_resident_def set_of_def)
next
  case (11 m x m')
  then show ?case using tw_index_wb by (simp add: two_way_cpu_def tw_cacheop_def k0_facts)
next
  case (12 m x m')
  then have m': "m' = m\<lparr>iways := (iways m)((set_of x, odd (x div 0x4000)) := None)\<rparr>"
    by (simp add: two_way_cpu_def tw_cacheop_def k0_facts)
  show ?case using iways_update [OF m'] 12(1) by (auto simp: m' i_resident_def split: if_splits)
qed

end
