(* ===== verification/LoaderImage.thy ===== *)
theory LoaderImage
  imports LoaderElf LoaderCache
begin

text \<open>
  Correctness of loading the kernel, \<^verbatim>\<open>src/boot/linux-loader.c\<close>: what the scan accepts, that the copy puts
  every segment in place although source and destination may overlap, that the flush makes memory
  agree whatever the caches held, and what the verification does. The lemmas are proved in the locale
  \<open>cached_ram\<close>; the properties are stated for its instance, the two-way cache of \<^verbatim>\<open>LoaderCache.thy\<close>.
\<close>

section \<open>Addresses of segments\<close>

lemma bit31_ge: "bit (w :: u32) 31 \<Longrightarrow> 0x80000000 \<le> unat w"
proof -
  assume "bit w 31"
  then have "bit (unat w) 31" by (simp add: bit_unsigned_iff)
  then have "odd (unat w div 2 ^ 31)" by (rule bit_iff_odd [THEN iffD1])
  then show ?thesis by (cases "unat w < 2 ^ 31") auto
qed

lemma bit_kseg0: "bit (to_kseg0 a) 31"
proof -
  have "bit (a AND 0xe0000000) 31 = bit a 31" by (simp add: bit_simps)
  then have "a AND 0xe0000000 = KSEG0_BASE \<Longrightarrow> bit a 31" by simp
  then show ?thesis by (simp add: to_kseg0_def bit_simps)
qed

lemma kseg0_window:
  assumes "unat (to_kseg0 a) + n \<le> 0x88000000"
  obtains x where "to_kseg0 a = k0 x" "x + n \<le> RAM_SIZE" "x = unat (to_kseg0 a) - 0x80000000"
proof -
  define x where "x = unat (to_kseg0 a) - 0x80000000"
  have ge: "0x80000000 \<le> unat (to_kseg0 a)" by (rule bit31_ge [OF bit_kseg0])
  have "to_kseg0 a = of_nat (unat (to_kseg0 a))" by simp
  also have "unat (to_kseg0 a) = 0x80000000 + x" using ge by (simp add: x_def)
  finally have "to_kseg0 a = k0 x" by (simp add: k0_def)
  moreover have "x + n \<le> RAM_SIZE" using assms ge by (simp add: x_def)
  ultimately show ?thesis using that x_def by blast
qed

lemma low_or:
  assumes "x < 2 ^ 29"
  shows "of_nat (0x20000000 * k + x) = (of_nat x :: u32) OR push_bit 29 (of_nat k)"
proof -
  have low: "n < 29" if "bit (of_nat x :: u32) n" for n
  proof (rule ccontr)
    assume "\<not> n < 29"
    note b = that this
    have "unat (of_nat x :: u32) = x" by (rule unat_of_nat_32) (use assms in simp)
    moreover have "bit (unat (of_nat x :: u32)) n" using b(1) by (simp only: bit_unsigned_iff) simp
    ultimately have "bit x n" by simp
    then have "odd (x div 2 ^ n)" by (rule bit_iff_odd [THEN iffD1])
    moreover have "x < 2 ^ n" using assms b(2) power_increasing [of 29 n "2 :: nat"] by simp
    ultimately show False by simp
  qed
  have "(of_nat x :: u32) + push_bit 29 (of_nat k) = of_nat x OR push_bit 29 (of_nat k)"
    by (intro disjunctive_add) (metis bit_push_bit_iff low not_less)
  then show ?thesis by (simp add: push_bit_eq_mult algebra_simps)
qed

lemma and_1fffffff: "(w :: u32) AND 0x1fffffff = take_bit 29 w"
proof -
  have "(0x1fffffff :: u32) = mask 29" by (simp add: mask_eq_exp_minus_1)
  then show ?thesis by (simp only: take_bit_eq_mask)
qed

lemma drop29: "unat (drop_bit 29 (a :: u32)) = unat a div 2 ^ 29" "unat a div 2 ^ 29 < 8"
proof -
  have "unat a < 8 * 2 ^ 29" using unsigned_less [of a, where 'a = nat] by simp
  then show "unat a div 2 ^ 29 < 8" by (rule less_mult_imp_div_less)
qed (simp add: drop_bit_eq_div unat_div)

lemma top3_eq: "k < 8 \<Longrightarrow> (a :: u32) AND 0xe0000000 = push_bit 29 (of_nat k) \<longleftrightarrow> unat a div 2 ^ 29 = k"
proof -
  assume k: "k < 8"
  have inj: "push_bit 29 v = push_bit 29 w \<longleftrightarrow> v = w" if "unat v < 8" "unat w < 8" for v w :: u32
  proof
    assume e: "push_bit 29 v = push_bit 29 w"
    have "unat (push_bit 29 u) = 2 ^ 29 * unat u" if "unat u < 8" for u :: u32
      using that unat_mult_32 [of "2 ^ 29" u] by (simp add: push_bit_eq_mult mult.commute)
    from this [OF that(1)] this [OF that(2)] e have "unat v = unat w" by simp
    then show "v = w" by (simp add: word_unat_eq_iff)
  qed simp
  have u: "unat (of_nat k :: u32) = k" by (rule unat_of_nat_32) (use k in simp)
  have "a AND 0xe0000000 = push_bit 29 (of_nat k) \<longleftrightarrow> drop_bit 29 a = of_nat k"
    unfolding top3 by (rule inj) (use drop29 [of a] u k in simp_all)
  then show ?thesis using drop29 [of a] u by (simp add: word_unat_eq_iff)
qed

lemma kseg_consts: "KSEG0_BASE = push_bit 29 (of_nat 4)" "KSEG1_BASE = push_bit 29 (of_nat 5)"
  by (simp_all add: push_bit_eq_mult)

lemma low_mod: "(a :: u32) AND 0x1fffffff = of_nat (unat a mod 2 ^ 29)"
proof -
  have "unat (take_bit 29 a) = unat a mod 2 ^ 29" by (simp add: take_bit_eq_mod unat_mod)
  then show ?thesis unfolding and_1fffffff by (metis of_nat_unat ucast_id)
qed

text \<open>The uncached alias of a segment in RAM.\<close>

lemma kseg1_of_kseg0:
  assumes "to_kseg0 a = k0 x" "x < RAM_SIZE"
  shows "to_kseg1 a = k1 x"
proof -
  define t l where "t = unat a div 2 ^ 29" and "l = unat a mod 2 ^ 29"
  have t8: "t < 8" and a: "unat a = 2 ^ 29 * t + l" and l: "l < 2 ^ 29"
    using drop29 [of a] by (simp_all add: t_def l_def)
  have seg: "(of_nat l :: u32) OR push_bit 29 (of_nat k) = of_nat (0x20000000 * k + l)" for k
    using low_or [OF l, of k] by simp
  have ad: "a = of_nat (0x20000000 * t + l)" using arg_cong [OF a, of "of_nat :: nat \<Rightarrow> u32"] by simp
  have iff: "a AND 0xe0000000 = KSEG0_BASE \<longleftrightarrow> t = 4" "a AND 0xe0000000 = KSEG1_BASE \<longleftrightarrow> t = 5"
    unfolding kseg_consts t_def by (rule top3_eq, simp)+
  note s4 = seg [of 4, folded kseg_consts] and s5 = seg [of 5, folded kseg_consts]
  have low: "a AND 0x1fffffff = of_nat l" unfolding l_def by (rule low_mod)
  have k1: "k1 x = of_nat (0x20000000 * 5 + x)" and k0: "k0 x = of_nat (0x20000000 * 4 + x)"
    by (simp_all add: k1_def k0_def)
  have uk0: "unat (k0 x) = 0x20000000 * 4 + x" using unat_k0 [of x] assms(2) by simp
  consider "t = 4" | "t = 5" | "t = 0" | "t \<noteq> 4" "t \<noteq> 5" "t \<noteq> 0" by blast
  then show ?thesis
  proof cases
    case 1
    then have "k0 x = a" using assms(1) iff by (simp add: to_kseg0_def)
    then have "l = x" using uk0 a 1 by simp
    then show ?thesis using 1 iff k1 s5 by (simp add: to_kseg1_def low)
  next
    case 2
    then have "k0 x = of_nat (0x20000000 * 4 + l)"
      using assms(1) iff by (simp add: to_kseg0_def low s4)
    then have "l = x" using uk0 l unat_of_nat_32 [of "0x20000000 * 4 + l"] by simp
    then show ?thesis using 2 iff ad k1 by (simp add: to_kseg1_def)
  next
    case 3
    then have al: "a = of_nat l" using ad by simp
    have "k0 x = of_nat (0x20000000 * 4 + l)"
      using assms(1) iff 3 s4 by (simp add: to_kseg0_def al)
    then have "l = x" using uk0 l unat_of_nat_32 [of "0x20000000 * 4 + l"] by simp
    then show ?thesis using 3 iff s5 k1 by (simp add: to_kseg1_def al)
  next
    case 4
    then have "k0 x = a OR KSEG0_BASE" using assms(1) iff by (simp add: to_kseg0_def)
    then have "drop_bit 29 (k0 x) = drop_bit 29 a OR drop_bit 29 KSEG0_BASE" by (simp only: drop_bit_or)
    moreover have "drop_bit 29 a = of_nat t" 
      using arg_cong [OF drop29(1) [of a], of "of_nat :: nat \<Rightarrow> u32"] by (simp add: t_def)
    moreover have "unat (drop_bit 29 (k0 x)) = 4" using drop29(1) [of "k0 x"] uk0 assms(2) by simp
    ultimately have "unat (of_nat t OR (4 :: u32)) = 4" by simp
    moreover have "t \<in> {1, 2, 3, 6, 7}" using 4 t8 by auto
    ultimately show ?thesis by auto
  qed
qed

section \<open>What the scan accepts\<close>

text \<open>The place of a segment in RAM, and the checks a loadable segment has passed.\<close>

definition seg_at :: "elf32_phdr \<Rightarrow> nat" where
  "seg_at h = unat (load_addr h) - 0x80000000"

abbreviation (input) fsz where "fsz h \<equiv> unat (p_filesz h)"
abbreviation (input) msz where "msz h \<equiv> unat (p_memsz h)"
abbreviation (input) foff where "foff h \<equiv> unat (p_offset h)"

definition loadable :: "nat \<Rightarrow> elf32_phdr \<Rightarrow> bool" where
  "loadable sz h \<longleftrightarrow> fsz h \<le> msz h \<and> foff h + fsz h \<le> sz \<and> unat (load_addr h) + msz h \<le> 0x88000000"

lemma loadable_at:
  assumes "loadable sz h"
  shows "load_addr h = k0 (seg_at h)" "seg_at h + msz h \<le> RAM_SIZE" "0x80000000 \<le> unat (load_addr h)"
proof -
  obtain x where "load_addr h = k0 x" "x + msz h \<le> RAM_SIZE" "x = unat (load_addr h) - 0x80000000"
    using kseg0_window assms unfolding loadable_def load_addr_def by metis
  then show "load_addr h = k0 (seg_at h)" "seg_at h + msz h \<le> RAM_SIZE" by (simp_all add: seg_at_def)
  show "0x80000000 \<le> unat (load_addr h)" unfolding load_addr_def by (rule bit31_ge [OF bit_kseg0])
qed

lemma range_valid_iff: "blob_range_valid sz off len \<longleftrightarrow> unat off + unat len \<le> unat sz"
  by (auto simp: blob_range_valid_def word_le_nat_alt unat_sub)

lemma add_no_wrap: "\<not> (a + b :: u32) < a \<Longrightarrow> unat (a + b) = unat a + unat b"
proof (rule ccontr)
  assume h: "\<not> a + b < a" "unat (a + b) \<noteq> unat a + unat b"
  then have "2 ^ 32 \<le> unat a + unat b" using unat_add_32 [of a b] by force
  moreover have "unat a < 2 ^ 32" "unat b < 2 ^ 32"
    using unsigned_less [of a, where 'a = nat] unsigned_less [of b, where 'a = nat] by simp_all
  ultimately have "(unat a + unat b) mod 2 ^ 32 = unat a + unat b - 2 ^ 32" by (simp add: le_mod_geq)
  then have "unat (a + b) = unat a + unat b - 2 ^ 32" by (simp add: unat_word_ariths)
  then show False using h(1) \<open>unat b < 2 ^ 32\<close> \<open>2 ^ 32 \<le> unat a + unat b\<close> by (simp add: word_less_nat_alt)
qed

lemma scan_segment_load:
  assumes "scan_segment sz h (mn, mx, n) = Inr (mn', mx', n')" "p_type h = PT_LOAD"
  shows "loadable (unat sz) h" "mn' = min mn (load_addr h)" "mx' = max mx (load_addr h + p_memsz h)"
    "unat (load_addr h + p_memsz h) = unat (load_addr h) + msz h" "load_addr h + p_memsz h \<le> RAM_TOP" "n' = Suc n"
proof -
  have g: "\<not> p_filesz h > p_memsz h" "blob_range_valid sz (p_offset h) (p_filesz h)"
    "\<not> load_addr h + p_memsz h < load_addr h" "\<not> load_addr h + p_memsz h > RAM_TOP"
    "mn' = (if load_addr h < mn then load_addr h else mn)"
    "mx' = (if load_addr h + p_memsz h > mx then load_addr h + p_memsz h else mx)" "n' = Suc n"
    using assms by (auto simp: scan_segment_def Let_def split: if_splits)
  show e: "unat (load_addr h + p_memsz h) = unat (load_addr h) + msz h" by (rule add_no_wrap [OF g(3)])
  show "loadable (unat sz) h"
    using g(1,2,4) e by (simp add: loadable_def range_valid_iff word_less_nat_alt not_less)
  show "mn' = min mn (load_addr h)" "mx' = max mx (load_addr h + p_memsz h)" "n' = Suc n"
    "load_addr h + p_memsz h \<le> RAM_TOP"
    using g by (auto simp: min_def max_def)
qed

lemma scan_segment_skip: "p_type h \<noteq> PT_LOAD \<Longrightarrow> scan_segment sz h st = Inr st"
  by (simp add: scan_segment_def split_def)

fun scan_all :: "u32 \<Rightarrow> elf32_phdr list \<Rightarrow> u32 \<times> u32 \<times> nat \<Rightarrow> scan_error + (u32 \<times> u32 \<times> nat)" where
  "scan_all sz [] st = Inr st"
| "scan_all sz (h # hs) st =
     (case scan_segment sz h st of Inl e \<Rightarrow> Inl e | Inr st \<Rightarrow> scan_all sz hs st)"

lemma scan_all_window:
  assumes "scan_all sz hs (mn, mx, n) = Inr (mn', mx', n')"
  shows "mn' \<le> mn \<and> mx \<le> mx' \<and> n \<le> n' \<and> (mx \<le> RAM_TOP \<longrightarrow> mx' \<le> RAM_TOP) \<and>
    (\<forall>h \<in> set hs. p_type h = PT_LOAD \<longrightarrow> loadable (unat sz) h \<and> mn' \<le> load_addr h \<and>
       unat (load_addr h) + msz h \<le> unat mx') \<and>
    (mn' = mn \<or> (\<exists>h \<in> set hs. p_type h = PT_LOAD \<and> mn' = load_addr h)) \<and>
    (n' \<noteq> n \<longrightarrow> (\<exists>h \<in> set hs. p_type h = PT_LOAD))"
  using assms
proof (induction hs arbitrary: mn mx n)
  case (Cons h hs)
  show ?case
  proof (cases "p_type h = PT_LOAD")
    case False
    then show ?thesis using Cons.IH [of mn mx n] Cons.prems by (simp add: scan_segment_skip)
  next
    case True
    obtain mn1 mx1 n1 where st: "scan_segment sz h (mn, mx, n) = Inr (mn1, mx1, n1)"
      using Cons.prems by (cases "scan_segment sz h (mn, mx, n)") auto
    note l = scan_segment_load [OF st True]
    have rest: "scan_all sz hs (mn1, mx1, n1) = Inr (mn', mx', n')" using Cons.prems by (simp add: st)
    note ih = Cons.IH [OF rest]
    have "mn' \<le> load_addr h" using ih l(2) by (auto simp: min_def split: if_splits)
    moreover have "unat (load_addr h) + msz h \<le> unat mx'"
      using ih l(3,4) by (metis max.bounded_iff word_le_nat_alt)
    moreover have "mx \<le> RAM_TOP \<longrightarrow> mx' \<le> RAM_TOP" using ih l(3,5) by (auto simp: max_def)
    moreover have "mn' \<le> mn" "mx \<le> mx'" "n \<le> n'" using ih l(2,3,6) by auto
    moreover have "mn' = mn \<or> (\<exists>h \<in> set (h # hs). p_type h = PT_LOAD \<and> mn' = load_addr h)"
      using ih l(2) True by (auto simp: min_def split: if_splits)
    ultimately show ?thesis using ih l(1) True by (simp only: set_simps ball_simps bex_simps) blast
  qed
qed simp

definition hdr_at :: "(nat \<Rightarrow> u8) \<Rightarrow> nat \<Rightarrow> nat \<Rightarrow> elf32_phdr" where
  "hdr_at v tb i = phdr_of (map v [tb + 32 * i..<tb + 32 * i + 32])"

definition table :: "nat \<Rightarrow> nat \<Rightarrow> nat set" where
  "table tb i = {tb + 32 * i..<tb + 32 * i + 32}"

text \<open>Where a segment comes from in the image at \<open>bp\<close>, where it goes, and what belongs there.\<close>

definition source :: "nat \<Rightarrow> elf32_phdr \<Rightarrow> nat set" where
  "source bp h = (if p_type h = PT_LOAD then {bp + foff h..<bp + foff h + fsz h} else {})"

definition window :: "elf32_phdr \<Rightarrow> nat set" where
  "window h = (if p_type h = PT_LOAD then {seg_at h..<seg_at h + msz h} else {})"

definition content :: "(nat \<Rightarrow> u8) \<Rightarrow> nat \<Rightarrow> elf32_phdr \<Rightarrow> nat \<Rightarrow> u8" where
  "content v bp h p = (if p < seg_at h + fsz h then v (bp + foff h + (p - seg_at h)) else 0)"

lemma to_kseg0_k0: "x \<le> RAM_SIZE \<Longrightarrow> to_kseg0 (k0 x) = k0 x"
proof -
  assume "x \<le> RAM_SIZE"
  then have "unat (k0 x) div 2 ^ 29 = 4" by (simp add: unat_k0)
  then have "k0 x AND 0xe0000000 = KSEG0_BASE" unfolding kseg_consts by (intro top3_eq [THEN iffD2]) simp_all
  then show ?thesis by (simp add: to_kseg0_def)
qed

context cached_ram begin

text \<open>Only loads, of bytes of \<open>Q\<close>, have happened.\<close>

definition quiet :: "'m \<Rightarrow> 'm \<Rightarrow> nat set \<Rightarrow> bool" where
  "quiet m m' Q \<longleftrightarrow> written m m' {} (\<lambda>_. 0) \<and>
     (\<forall>p. resident m' p \<longrightarrow> resident m p \<or> (\<exists>q \<in> Q. same_line p q))"

lemma quiet_refl: "inv m \<Longrightarrow> quiet m m Q"
  by (simp add: quiet_def written_refl)

lemma quiet_trans: "quiet m m1 Q \<Longrightarrow> quiet m1 m2 Q' \<Longrightarrow> Q \<union> Q' \<subseteq> Q'' \<Longrightarrow> quiet m m2 Q''"
  unfolding quiet_def using written_trans [of m m1 "{}" "\<lambda>_. 0" m2 "{}" "\<lambda>_. 0"] by fast

lemma quiet_view: "quiet m m' Q \<Longrightarrow> solid m p \<Longrightarrow> solid m' p \<and> view m' p = view m p"
  by (auto simp: quiet_def written_def)

lemma quiet_inv: "quiet m m' Q \<Longrightarrow> inv m'"
  by (auto simp: quiet_def written_def)

lemma ld_bytes_quiet:
  assumes "inv m" "a + n \<le> RAM_SIZE" "\<forall>p \<in> {a..<a + n}. solid m p"
  shows "\<exists>m'. ld_bytes c (k0 a) n m = (map (view m) [a..<a + n], m') \<and> quiet m m' {a..<a + n}"
  using assms
proof (induction n arbitrary: a m)
  case 0
  then show ?case by (simp add: quiet_refl)
next
  case (Suc n)
  obtain v m1 where l: "ld8 c (k0 a) m = (v, m1)" by (cases "ld8 c (k0 a) m")
  have q: "v = view m a" "quiet m m1 {a}"
    using ld8_k0 [OF _ _ l] written_ld8 [OF _ _ l] Suc.prems by (auto simp: quiet_def)
  have k: "solid m1 p \<and> view m1 p = view m p" if "p \<in> {Suc a..<Suc a + n}" for p
    using quiet_view [OF q(2), of p] that Suc.prems by auto
  obtain m2 where m2: "ld_bytes c (k0 (Suc a)) n m1 = (map (view m1) [Suc a..<Suc a + n], m2)"
    "quiet m1 m2 {Suc a..<Suc a + n}"
    using Suc.IH [of m1 "Suc a"] Suc.prems k quiet_inv [OF q(2)] by auto
  have "map (view m1) [Suc a..<Suc a + n] = map (view m) [Suc a..<Suc a + n]" using k by (intro map_cong) auto
  moreover have "[a..<a + Suc n] = a # [Suc a..<Suc a + n]" by (simp add: upt_rec)
  ultimately show ?case
    using l q m2 quiet_trans [OF q(2) m2(2), of "{a..<a + Suc n}"]
    by (auto simp: k0_add)
qed

lemma read_phdr_quiet:
  assumes "inv m" "tb + 32 * i + 32 \<le> RAM_SIZE" "\<forall>p \<in> table tb i. solid m p"
  shows "\<exists>m'. read_phdr c (k0 tb) i m = (hdr_at (view m) tb i, m') \<and> quiet m m' (table tb i)"
  using ld_bytes_quiet [of m "tb + 32 * i" 32] assms
  by (auto simp: read_phdr_def hdr_at_def table_def k0_add simp flip: of_nat_mult)

lemma hdr_at_cong: "(\<And>p. p \<in> table tb i \<Longrightarrow> v p = w p) \<Longrightarrow> hdr_at v tb i = hdr_at w tb i"
  unfolding hdr_at_def table_def by (intro arg_cong [of _ _ phdr_of] map_cong) auto

lemma scan_loop_quiet:
  assumes "inv m" "\<forall>i \<in> set is. tb + 32 * i + 32 \<le> RAM_SIZE \<and> (\<forall>p \<in> table tb i. solid m p)"
  shows "\<exists>m'. scan_loop c sz (k0 tb) is st m = (scan_all sz (map (hdr_at (view m) tb) is) st, m') \<and>
    quiet m m' (\<Union>i \<in> set is. table tb i)"
  using assms
proof (induction "is" arbitrary: st m)
  case Nil
  then show ?case by (simp add: quiet_refl)
next
  case (Cons i "is")
  obtain m1 where m1: "read_phdr c (k0 tb) i m = (hdr_at (view m) tb i, m1)" "quiet m m1 (table tb i)"
    using read_phdr_quiet [OF Cons.prems(1), of tb i] Cons.prems(2) by auto
  show ?case
  proof (cases "scan_segment sz (hdr_at (view m) tb i) st")
    case (Inl e)
    then show ?thesis using m1 quiet_trans [OF m1(2) quiet_refl [OF quiet_inv [OF m1(2)], of "{}"]]
      by (simp add: m1)
  next
    case (Inr st')
    have v: "solid m1 p \<and> view m1 p = view m p" if "j \<in> set is" "p \<in> table tb j" for j p
      using quiet_view [OF m1(2)] that Cons.prems(2) by auto
    obtain m2 where m2: "scan_loop c sz (k0 tb) is st' m1 = (scan_all sz (map (hdr_at (view m1) tb) is) st', m2)"
      "quiet m1 m2 (\<Union>i \<in> set is. table tb i)"
      using Cons.IH [OF quiet_inv [OF m1(2)], of st'] Cons.prems(2) v by auto
    have e: "map (hdr_at (view m1) tb) is = map (hdr_at (view m) tb) is"
      using v by (auto intro: hdr_at_cong)
    show ?thesis using m1 m2(1) [unfolded e] Inr quiet_trans [OF m1(2) m2(2)] by auto
  qed
qed

lemma copy_segment_written:
  assumes m: "inv m" and l: "p_type h = PT_LOAD \<Longrightarrow> loadable sz h" and bp: "bp + sz \<le> RAM_SIZE"
    and src: "\<forall>p \<in> source bp h. solid m p \<and> view m p = v p"
  shows "written m (copy_segment c (k0 bp) h m) (window h) (content v bp h)"
proof (cases "p_type h = PT_LOAD")
  case False
  then show ?thesis using m by (simp add: copy_segment_def window_def written_refl)
next
  case True
  note at = loadable_at [OF l [OF True]]
  have fm: "fsz h \<le> msz h" "foff h + fsz h \<le> sz" using l [OF True] by (auto simp: loadable_def)
  have s: "bp + foff h + fsz h \<le> RAM_SIZE" "seg_at h + fsz h \<le> RAM_SIZE" using fm bp at(2) by auto
  have sa: "to_kseg0 (k0 bp + p_offset h) = k0 (bp + foff h)"
    using k0_add(1) [of bp "foff h"] to_kseg0_k0 [of "bp + foff h"] s by simp
  define m1 where "m1 = copy_overlap c (k0 (seg_at h)) (k0 (bp + foff h)) (p_filesz h) m"
  have w1: "written m m1 {seg_at h..<seg_at h + fsz h} (\<lambda>p. view m (bp + foff h + (p - seg_at h)))"
    using copy_overlap_written [OF m s] src True by (simp add: m1_def source_def)
  have z: "unat (p_memsz h - p_filesz h) = msz h - fsz h" using fm by (simp add: unat_sub word_le_nat_alt)
  have za: "k0 (seg_at h) + p_filesz h = k0 (seg_at h + fsz h)" using k0_add(1) [of "seg_at h" "fsz h"] by simp
  have w2: "written m1 (zero_bytes c (k0 (seg_at h + fsz h)) (msz h - fsz h) m1)
      {seg_at h + fsz h..<seg_at h + fsz h + (msz h - fsz h)} (\<lambda>_. 0)"
    by (rule zero_bytes_written) (use w1 at fm in \<open>auto simp: written_def\<close>)
  have "written m (zero_bytes c (k0 (seg_at h + fsz h)) (msz h - fsz h) m1) (window h) (content v bp h)"
  proof (rule written_trans [OF w1 w2])
    show "window h = {seg_at h..<seg_at h + fsz h} \<union> {seg_at h + fsz h..<seg_at h + fsz h + (msz h - fsz h)}"
      using fm True by (auto simp: window_def)
    fix p assume p: "p \<in> {seg_at h..<seg_at h + fsz h} - {seg_at h + fsz h..<seg_at h + fsz h + (msz h - fsz h)}"
    then have "bp + foff h + (p - seg_at h) \<in> source bp h" using True by (auto simp: source_def)
    then show "content v bp h p = view m (bp + foff h + (p - seg_at h))" using src p by (auto simp: content_def)
  qed (auto simp: content_def)
  then show ?thesis using True by (simp add: copy_segment_def at(1) sa m1_def z za)
qed

lemma copy_loop_written:
  assumes "inv m" "bp + sz \<le> RAM_SIZE"
    and "\<forall>i \<in> set is. tb + 32 * i + 32 \<le> RAM_SIZE \<and> (p_type (H i) = PT_LOAD \<longrightarrow> loadable sz (H i)) \<and>
      hdr_at v tb i = H i \<and> (\<forall>p \<in> table tb i \<union> source bp (H i). solid m p \<and> view m p = v p)"
    and "sorted_wrt (\<lambda>i j. window (H i) \<inter> (table tb j \<union> source bp (H j) \<union> window (H j)) = {}) is"
    and "\<And>i p. i \<in> set is \<Longrightarrow> p \<in> window (H i) \<Longrightarrow> f p = content v bp (H i) p"
  shows "written m (copy_loop c (k0 bp) (k0 tb) is m) (\<Union>i \<in> set is. window (H i)) f"
  using assms
proof (induction "is" arbitrary: m)
  case Nil
  then show ?case by (simp add: written_refl)
next
  case (Cons i "is")
  obtain m1 where m1: "read_phdr c (k0 tb) i m = (hdr_at (view m) tb i, m1)" "quiet m m1 (table tb i)"
    using read_phdr_quiet [OF Cons.prems(1), of tb i] Cons.prems(3) by auto
  have h: "hdr_at (view m) tb i = H i"
    using hdr_at_cong [of tb i "view m" v] Cons.prems(3) by auto
  define m2 where "m2 = copy_segment c (k0 bp) (H i) m1"
  have w2: "written m1 m2 (window (H i)) (content v bp (H i))"
    unfolding m2_def
    by (rule copy_segment_written [OF quiet_inv [OF m1(2)] _ Cons.prems(2)])
      (use Cons.prems(3) quiet_view [OF m1(2)] in auto)
  have w: "written m m2 (window (H i)) (content v bp (H i))"
    by (rule written_trans [OF _ w2, of m "{}" "\<lambda>_. 0"]) (use m1(2) in \<open>auto simp: quiet_def\<close>)
  have "written m2 (copy_loop c (k0 bp) (k0 tb) is m2) (\<Union>i \<in> set is. window (H i)) f"
  proof (rule Cons.IH [OF _ Cons.prems(2)])
    show "inv m2" using w by (simp add: written_def)
    show "\<forall>j \<in> set is. tb + 32 * j + 32 \<le> RAM_SIZE \<and> (p_type (H j) = PT_LOAD \<longrightarrow> loadable sz (H j)) \<and>
      hdr_at v tb j = H j \<and> (\<forall>p \<in> table tb j \<union> source bp (H j). solid m2 p \<and> view m2 p = v p)"
    proof (intro ballI conjI)
      fix j p assume j: "j \<in> set is" "p \<in> table tb j \<union> source bp (H j)"
      then have "p \<notin> window (H i)" using Cons.prems(4) by auto
      then show "solid m2 p" "view m2 p = v p" using w j Cons.prems(3) by (auto simp: written_def)
    qed (use Cons.prems(3) in auto)
  qed (use Cons.prems(4,5) in auto)
  then have "written m (copy_loop c (k0 bp) (k0 tb) is m2) (\<Union>i \<in> set (i # is). window (H i)) f"
  proof (rule written_trans [OF w])
    show "f p = f p" for p by simp
    fix p assume "p \<in> window (H i) - (\<Union>i \<in> set is. window (H i))"
    then show "f p = content v bp (H i) p" using Cons.prems(5) by simp
  qed auto
  then show ?case by (simp add: m1 h m2_def)
qed

end

section \<open>The verification is a forward copy\<close>

text \<open>
  The effect of \<open>verify_repair_range\<close> on the memory: byte by byte upwards, the destination becomes what
  the source holds at that moment.
\<close>

fun fwd :: "nat \<Rightarrow> nat \<Rightarrow> nat \<Rightarrow> (nat \<Rightarrow> u8) \<Rightarrow> nat \<Rightarrow> u8" where
  "fwd d s 0 r = r"
| "fwd d s (Suc n) r = fwd (Suc d) (Suc s) n (r(d := r s))"

lemma fwd_add: "fwd d s (k + n) r = fwd (d + k) (s + k) n (fwd d s k r)"
  by (induction k arbitrary: d s r) auto

lemma fwd_outside: "p \<notin> {d..<d + n} \<Longrightarrow> fwd d s n r p = r p"
  by (induction n arbitrary: d s r) auto

lemma fwd_same: "\<forall>j < n. r (d + j) = r (s + j) \<Longrightarrow> fwd d s n r = r"
proof (induction n arbitrary: d s)
  case (Suc n)
  have "r(d := r s) = r" using Suc.prems [rule_format, of 0] by auto
  moreover have "\<forall>j < n. r (Suc d + j) = r (Suc s + j)" using Suc.prems by auto
  ultimately show ?case using Suc.IH [of "Suc d" "Suc s"] by simp
qed simp

text \<open>With the destination above the source and overlapping it, the first bytes are repeated.\<close>

lemma fwd_overlap:
  assumes "s < d" "j < n"
  shows "fwd d s n r (d + j) = r (s + j mod (d - s))"
  using assms
proof (induction n arbitrary: j)
  case (Suc n)
  have e: "fwd d s (Suc n) r = (fwd d s n r)(d + n := fwd d s n r (s + n))"
    using fwd_add [of d s n 1 r] by simp
  show ?case
  proof (cases "j = n")
    case False
    then show ?thesis using Suc e by simp
  next
    case True
    show ?thesis
    proof (cases "n < d - s")
      case True
      then have "fwd d s n r (s + n) = r (s + n)" by (intro fwd_outside) auto
      then show ?thesis using True \<open>j = n\<close> e by simp
    next
      case False
      then have sn: "s + n = d + (n - (d - s))" and lt: "n - (d - s) < n" using Suc.prems by auto
      have "fwd d s n r (s + n) = r (s + (n - (d - s)) mod (d - s))"
        unfolding sn by (rule Suc.IH [OF Suc.prems(1) lt])
      also have "(n - (d - s)) mod (d - s) = n mod (d - s)" using False by (simp add: le_mod_geq)
      finally show ?thesis using \<open>j = n\<close> e by simp
    qed
  qed
qed simp

lemma k1_aligned:
  assumes "x < RAM_SIZE" "x mod 4 = 0"
  shows "k1 x AND 3 = 0"
proof -
  have "4 dvd (0xa0000000 :: nat)" "4 dvd x" using assms by (simp_all add: mod_eq_0_iff_dvd)
  then have "4 dvd unat (k1 x)" unfolding unat_k1 [OF less_imp_le, OF assms(1)] by (rule dvd_add)
  moreover have "(3 :: u32) = mask 2" by (simp add: mask_eq_exp_minus_1)
  ultimately have "take_bit 2 (k1 x) = 0" by (simp add: word_unat_eq_iff take_bit_eq_mod unat_mod mod_eq_0_iff_dvd)
  then show ?thesis using \<open>3 = mask 2\<close> by (simp add: take_bit_eq_mask)
qed

context cached_ram begin

text \<open>Only uncached stores to \<open>X\<close> have happened.\<close>

definition uwritten :: "'m \<Rightarrow> 'm \<Rightarrow> nat set \<Rightarrow> bool" where
  "uwritten m m' X \<longleftrightarrow> inv m' \<and> iresident m' = iresident m \<and> resident m' = resident m \<and>
     (\<forall>p. p \<notin> X \<longrightarrow> view m' p = view m p \<and> solid m' p = solid m p \<and> ram m' p = ram m p)"

lemma uwritten_refl: "inv m \<Longrightarrow> uwritten m m X"
  by (simp add: uwritten_def)

lemma uwritten_trans:
  assumes "uwritten m m1 X" "uwritten m1 m2 Y" "X \<union> Y \<subseteq> Z"
  shows "uwritten m m2 Z"
proof -
  have "p \<notin> X \<and> p \<notin> Y" if "p \<notin> Z" for p using assms(3) that by blast
  then show ?thesis using assms(1,2) by (simp add: uwritten_def)
qed

lemma uwritten_inv: "uwritten m m' X \<Longrightarrow> inv m'"
  by (simp add: uwritten_def)

lemma uwritten_st8: "inv m \<Longrightarrow> x < RAM_SIZE \<Longrightarrow>
    uwritten m (st8 c (k1 x) v m) {x} \<and> ram (st8 c (k1 x) v m) = (ram m)(x := v)"
  using st8_k1 [OF _ _ refl] by (auto simp: uwritten_def)

lemma ld_bytes_k1: "inv m \<Longrightarrow> a + n \<le> RAM_SIZE \<Longrightarrow> ld_bytes c (k1 a) n m = (map (ram m) [a..<a + n], m)"
proof (induction n arbitrary: a)
  case (Suc n)
  have "[a..<a + Suc n] = a # [Suc a..<Suc a + n]" by (simp add: upt_rec)
  then show ?case using Suc.IH [of "Suc a"] Suc.prems by (simp add: ld8_k1 k1_add)
qed simp

lemma le32_map: "le32 (map f [a..<a + 4]) 0 = le32_of (f a) (f (a + 1)) (f (a + 2)) (f (a + 3))"
  by (simp add: le32_def numeral_3_eq_3)

lemma le32_of_eq_iff: "le32_of a b d e = le32_of a' b' d' e' \<longleftrightarrow> a = a' \<and> b = b' \<and> d = d' \<and> e = e'"
  by (metis byte_of_le32)

lemma verify_word_ok:
  assumes m: "inv m" and d: "d + 3 < RAM_SIZE" "d mod 4 = 0" and s: "s + 4 \<le> RAM_SIZE" "d \<le> s \<or> s + 4 \<le> d"
  shows "\<exists>m' r g. verify_word c (k1 d) (k1 s) (m, rep, fi) = Some (m', r, g) \<and>
    uwritten m m' {d..<d + 4} \<and> ram m' = fwd d s 4 (ram m) \<and>
    ((\<forall>j < 4. ram m (d + j) = ram m (s + j)) \<longrightarrow> m' = m \<and> r = rep \<and> g = fi)"
proof -
  define want where "want = le32_of (ram m s) (ram m (s + 1)) (ram m (s + 2)) (ram m (s + 3))"
  have al: "k1 d AND 3 = 0" using k1_aligned [of d] d by simp
  have ld: "ld_bytes c (k1 s) 4 m = (map (ram m) [s..<s + 4], m)" by (rule ld_bytes_k1 [OF m s(1)])
  have f4: "fwd d s 4 r = r(d := r s, d + 1 := r (s + 1), d + 2 := r (s + 2), d + 3 := r (s + 3))" for r
    using s(2) by (auto simp: numeral_eq_Suc fun_upd_twist)
  have got: "load_word c (k1 d) m = Some (le32_of (ram m d) (ram m (d + 1)) (ram m (d + 2)) (ram m (d + 3)), m)"
    using ld32_k1 [OF m d] al by (simp add: load_word_def)
  have run: "verify_word c (k1 d) (k1 s) (m, rep, fi) =
      (if le32_of (ram m d) (ram m (d + 1)) (ram m (d + 2)) (ram m (d + 3)) \<noteq> want
       then Some (repaired (k1 d) (st32 c (k1 d) want m) (st32 c (k1 d) want m, rep, fi)) else Some (m, rep, fi))"
    using al by (simp add: verify_word_def ld got le32_map want_def store_word_def Let_def)
  show ?thesis
  proof (cases "le32_of (ram m d) (ram m (d + 1)) (ram m (d + 2)) (ram m (d + 3)) = want")
    case True
    then have e: "ram m d = ram m s" "ram m (d + 1) = ram m (s + 1)" "ram m (d + 2) = ram m (s + 2)"
      "ram m (d + 3) = ram m (s + 3)" by (auto simp: want_def le32_of_eq_iff)
    have "fwd d s 4 (ram m) = ram m"
      by (rule fwd_same) (use e in \<open>auto simp: numeral_eq_Suc less_Suc_eq\<close>)
    then show ?thesis using run True m by (auto simp: uwritten_refl)
  next
    case False
    define m1 m2 m3 m4 where "m1 = st8 c (k1 d) (ram m s) m" and "m2 = st8 c (k1 (d + 1)) (ram m (s + 1)) m1"
      and "m3 = st8 c (k1 (d + 2)) (ram m (s + 2)) m2" and "m4 = st8 c (k1 (d + 3)) (ram m (s + 3)) m3"
    have u1: "uwritten m m1 {d}" "ram m1 = (ram m)(d := ram m s)"
      using uwritten_st8 [OF m, of d] d by (auto simp: m1_def)
    have u2: "uwritten m1 m2 {d + 1}" "ram m2 = (ram m1)(d + 1 := ram m (s + 1))"
      using uwritten_st8 [OF uwritten_inv [OF u1(1)], of "d + 1"] d by (auto simp: m2_def)
    have u3: "uwritten m2 m3 {d + 2}" "ram m3 = (ram m2)(d + 2 := ram m (s + 2))"
      using uwritten_st8 [OF uwritten_inv [OF u2(1)], of "d + 2"] d by (auto simp: m3_def)
    have u4: "uwritten m3 m4 {d + 3}" "ram m4 = (ram m3)(d + 3 := ram m (s + 3))"
      using uwritten_st8 [OF uwritten_inv [OF u3(1)], of "d + 3"] d by (auto simp: m4_def)
    have "uwritten m m4 {d..<d + 4}"
      using uwritten_trans [OF uwritten_trans [OF uwritten_trans [OF u1(1) u2(1) order_refl] u3(1) order_refl] u4(1)]
      by auto
    moreover have "ram m4 = fwd d s 4 (ram m)" by (simp add: f4 u1(2) u2(2) u3(2) u4(2))
    moreover have "st32 c (k1 d) want m = m4"
      using st32_k1 [OF m d] by (simp add: want_def m1_def m2_def m3_def m4_def)
    moreover have "\<not> (\<forall>j < 4. ram m (d + j) = ram m (s + j))"
    proof
      assume a: "\<forall>j < 4. ram m (d + j) = ram m (s + j)"
      from a [rule_format, of 0] a [rule_format, of 1] a [rule_format, of 2] a [rule_format, of 3] False
      show False by (simp add: want_def)
    qed
    ultimately show ?thesis using run False by (auto simp: repaired_def)
  qed
qed

end

context cached_ram begin

lemma verify_words_ok:
  assumes "inv m" "d + 4 * n \<le> RAM_SIZE" "d mod 4 = 0" "s + 4 * n \<le> RAM_SIZE" "d \<le> s \<or> s + 4 \<le> d"
  shows "\<exists>m' r g. verify_words c (k1 d) (k1 s) n (m, rep, fi) = Some (m', r, g) \<and>
    uwritten m m' {d..<d + 4 * n} \<and> ram m' = fwd d s (4 * n) (ram m) \<and>
    ((\<forall>j < 4 * n. ram m (d + j) = ram m (s + j)) \<longrightarrow> m' = m \<and> r = rep \<and> g = fi)"
  using assms
proof (induction n arbitrary: d s m rep fi)
  case 0
  then show ?case by (simp add: uwritten_refl)
next
  case (Suc n)
  obtain m1 r1 g1 where w: "verify_word c (k1 d) (k1 s) (m, rep, fi) = Some (m1, r1, g1)"
    "uwritten m m1 {d..<d + 4}" "ram m1 = fwd d s 4 (ram m)"
    "(\<forall>j < 4. ram m (d + j) = ram m (s + j)) \<longrightarrow> m1 = m \<and> r1 = rep \<and> g1 = fi"
    using verify_word_ok [OF Suc.prems(1), of d s rep fi] Suc.prems by auto
  have d4: "(d + 4) mod 4 = 0" using Suc.prems(3) by simp
  have p: "d + 4 + 4 * n \<le> RAM_SIZE" "s + 4 + 4 * n \<le> RAM_SIZE" "d + 4 \<le> s + 4 \<or> s + 4 + 4 \<le> d + 4"
    using Suc.prems by auto
  obtain m2 r2 g2 where t: "verify_words c (k1 (d + 4)) (k1 (s + 4)) n (m1, r1, g1) = Some (m2, r2, g2)"
    "uwritten m1 m2 {d + 4..<d + 4 + 4 * n}" "ram m2 = fwd (d + 4) (s + 4) (4 * n) (ram m1)"
    "(\<forall>j < 4 * n. ram m1 (d + 4 + j) = ram m1 (s + 4 + j)) \<longrightarrow> m2 = m1 \<and> r2 = r1 \<and> g2 = g1"
    using Suc.IH [OF uwritten_inv [OF w(2)] p(1) d4 p(2,3), of r1 g1] by blast
  have same: "m2 = m \<and> r2 = rep \<and> g2 = fi" if a: "\<forall>j < 4 * Suc n. ram m (d + j) = ram m (s + j)"
  proof -
    have "m1 = m \<and> r1 = rep \<and> g1 = fi" using w(4) a by auto
    moreover have "\<forall>j < 4 * n. ram m (d + 4 + j) = ram m (s + 4 + j)"
      using a [rule_format, of "4 + _"] by (simp add: algebra_simps)
    ultimately show ?thesis using t(4) by simp
  qed
  have "verify_words c (k1 d) (k1 s) (Suc n) (m, rep, fi) = Some (m2, r2, g2)" using w(1) t(1) by (simp add: k1_add)
  moreover have "uwritten m m2 {d..<d + 4 * Suc n}" by (rule uwritten_trans [OF w(2) t(2)]) auto
  moreover have "ram m2 = fwd d s (4 * Suc n) (ram m)"
    using fwd_add [of d s 4 "4 * n" "ram m"] by (simp add: t(3) w(3))
  ultimately show ?case using same by blast
qed

lemma verify_byte_ok:
  assumes "inv m" "d < RAM_SIZE" "s < RAM_SIZE"
  shows "\<exists>m' r g. verify_byte c (k1 d) (k1 s) (m, rep, fi) = (m', r, g) \<and> uwritten m m' {d} \<and>
    ram m' = (ram m)(d := ram m s) \<and> (ram m d = ram m s \<longrightarrow> m' = m \<and> r = rep \<and> g = fi)"
  using uwritten_st8 [OF assms(1,2), of "ram m s"] assms
  by (auto simp: verify_byte_def ld8_k1 repaired_def uwritten_refl)

lemma verify_tail_ok:
  assumes "inv m" "d + n \<le> RAM_SIZE" "s + n \<le> RAM_SIZE"
  shows "\<exists>m' r g. verify_tail c (k1 d) (k1 s) n (m, rep, fi) = (m', r, g) \<and>
    uwritten m m' {d..<d + n} \<and> ram m' = fwd d s n (ram m) \<and>
    ((\<forall>j < n. ram m (d + j) = ram m (s + j)) \<longrightarrow> m' = m \<and> r = rep \<and> g = fi)"
  using assms
proof (induction n arbitrary: d s m rep fi)
  case 0
  then show ?case by (simp add: uwritten_refl)
next
  case (Suc n)
  obtain m1 r1 g1 where w: "verify_byte c (k1 d) (k1 s) (m, rep, fi) = (m1, r1, g1)" "uwritten m m1 {d}"
    "ram m1 = (ram m)(d := ram m s)" "ram m d = ram m s \<longrightarrow> m1 = m \<and> r1 = rep \<and> g1 = fi"
    using verify_byte_ok [OF Suc.prems(1), of d s rep fi] Suc.prems by auto
  obtain m2 r2 g2 where t: "verify_tail c (k1 (Suc d)) (k1 (Suc s)) n (m1, r1, g1) = (m2, r2, g2)"
    "uwritten m1 m2 {Suc d..<Suc d + n}" "ram m2 = fwd (Suc d) (Suc s) n (ram m1)"
    "(\<forall>j < n. ram m1 (Suc d + j) = ram m1 (Suc s + j)) \<longrightarrow> m2 = m1 \<and> r2 = r1 \<and> g2 = g1"
    using Suc.IH [OF uwritten_inv [OF w(2)], of "Suc d" "Suc s" r1 g1] Suc.prems by auto
  have same: "m2 = m \<and> r2 = rep \<and> g2 = fi" if a: "\<forall>j < Suc n. ram m (d + j) = ram m (s + j)"
  proof -
    have "m1 = m \<and> r1 = rep \<and> g1 = fi" using w(4) a [rule_format, of 0] by auto
    moreover have "\<forall>j < n. ram m (Suc d + j) = ram m (Suc s + j)"
      using a [rule_format, of "Suc _"] by simp
    ultimately show ?thesis using t(4) by simp
  qed
  have "verify_tail c (k1 d) (k1 s) (Suc n) (m, rep, fi) = (m2, r2, g2)" using w(1) t(1) by (simp add: k1_add)
  moreover have "uwritten m m2 {d..<d + Suc n}" by (rule uwritten_trans [OF w(2) t(2)]) auto
  moreover have "ram m2 = fwd d s (Suc n) (ram m)" by (simp add: t(3) w(3))
  ultimately show ?case using same by blast
qed

lemma verify_loops_ok:
  assumes "inv m" "d + n \<le> RAM_SIZE" "d mod 4 = 0" "s + n \<le> RAM_SIZE" "n < 4 \<or> d \<le> s \<or> s + 4 \<le> d"
  shows "\<exists>m' r g. verify_loops c (k1 d) (k1 s) n m = Some (m', r, g) \<and>
    uwritten m m' {d..<d + n} \<and> ram m' = fwd d s n (ram m) \<and>
    ((\<forall>j < n. ram m (d + j) = ram m (s + j)) \<longrightarrow> m' = m \<and> r = 0)"
proof -
  define q t where "q = n div 4" and "t = n mod 4"
  have n: "n = 4 * q + t" by (simp add: q_def t_def)
  obtain m1 r1 g1 where w: "verify_words c (k1 d) (k1 s) q (m, 0, 0xffffffff) = Some (m1, r1, g1)"
    "uwritten m m1 {d..<d + 4 * q}" "ram m1 = fwd d s (4 * q) (ram m)"
    "(\<forall>j < 4 * q. ram m (d + j) = ram m (s + j)) \<longrightarrow> m1 = m \<and> r1 = 0"
  proof (cases "n < 4")
    case True
    then show ?thesis using that [of m 0 "0xffffffff"] assms(1) by (simp add: q_def uwritten_refl)
  next
    case False
    then show ?thesis
      using verify_words_ok [OF assms(1) _ assms(3), of q s 0 "0xffffffff"] assms n that by auto
  qed
  obtain m2 r2 g2 where b: "verify_tail c (k1 (d + 4 * q)) (k1 (s + 4 * q)) t (m1, r1, g1) = (m2, r2, g2)"
    "uwritten m1 m2 {d + 4 * q..<d + 4 * q + t}" "ram m2 = fwd (d + 4 * q) (s + 4 * q) t (ram m1)"
    "(\<forall>j < t. ram m1 (d + 4 * q + j) = ram m1 (s + 4 * q + j)) \<longrightarrow> m2 = m1 \<and> r2 = r1"
    using verify_tail_ok [OF uwritten_inv [OF w(2)], of "d + 4 * q" t "s + 4 * q" r1 g1] assms n by auto
  have same: "m2 = m \<and> r2 = 0" if a: "\<forall>j < n. ram m (d + j) = ram m (s + j)"
  proof -
    have "m1 = m \<and> r1 = 0" using w(4) a n by auto
    moreover have "\<forall>j < t. ram m (d + 4 * q + j) = ram m (s + 4 * q + j)"
      using a [rule_format, of "4 * q + _"] n by (simp add: add.assoc)
    ultimately show ?thesis using b(4) by simp
  qed
  have "verify_loops c (k1 d) (k1 s) n m = Some (m2, r2, g2)"
    using w(1) b(1) k1_add(1) [of d "4 * q"] k1_add(1) [of s "4 * q"]
    by (simp add: verify_loops_def q_def [symmetric] t_def [symmetric])
  moreover have "uwritten m m2 {d..<d + n}" by (rule uwritten_trans [OF w(2) b(2)]) (use n in auto)
  moreover have "ram m2 = fwd d s n (ram m)" using fwd_add [of d s "4 * q" t "ram m"] n by (simp add: b(3) w(3))
  ultimately show ?thesis using same by blast
qed

text \<open>Nothing happens where the memory is right already.\<close>

lemma zero_verify_same:
  assumes "inv m" "a + n \<le> RAM_SIZE" "n < 4 \<or> a mod 4 = 0" "\<forall>p \<in> {a..<a + n}. ram m p = 0"
  shows "zero_verify c (k1 a) n m = Some m"
proof -
  have words: "zero_words c (k1 a) q m = Some m" if "4 * q \<le> n" "q = 0 \<or> a mod 4 = 0" for q
    using that assms(2,4)
  proof (induction q arbitrary: a n)
    case (Suc q)
    have al: "k1 a AND 3 = 0" using k1_aligned [of a] Suc.prems by auto
    have "ram m a = 0" "ram m (a + 1) = 0" "ram m (a + 2) = 0" "ram m (a + 3) = 0" using Suc.prems by auto
    moreover have "le32_of 0 0 0 0 = 0" by (simp add: le32_of_def)
    ultimately have "zero_word c (k1 a) m = Some m"
      using ld32_k1 [OF assms(1), of a] Suc.prems al by (simp add: zero_word_def load_word_def)
    moreover have "zero_words c (k1 (a + 4)) q m = Some m"
      by (rule Suc.IH [of "n - 4"]) (use Suc.prems in auto)
    ultimately show ?case by (simp add: k1_add)
  qed simp
  have tail: "zero_tail c (k1 x) t m = m" if "\<forall>p \<in> {x..<x + t}. ram m p = 0" "x + t \<le> RAM_SIZE" for x t
    using that
  proof (induction t arbitrary: x)
    case (Suc t)
    have "zero_byte c (k1 x) m = m" using Suc.prems ld8_k1 [OF assms(1), of x] by (simp add: zero_byte_def)
    then show ?case using Suc.IH [of "Suc x"] Suc.prems by (simp add: k1_add)
  qed simp
  have "zero_words c (k1 a) (n div 4) m = Some m"
    by (rule words) (use assms(3) in auto)
  moreover have "zero_tail c (k1 (a + 4 * (n div 4))) (n mod 4) m = m"
    by (rule tail) (use assms(2,4) in auto)
  ultimately show ?thesis using k1_add(1) [of a "4 * (n div 4)"] by (simp add: zero_verify_def)
qed

lemma verify_segment_same:
  fixes s :: "('m, 'd) loader"
  assumes m: "inv (mach s)" and l: "p_type h = PT_LOAD \<Longrightarrow> loadable sz h" and bp: "bp + sz \<le> RAM_SIZE"
    and al: "p_type h = PT_LOAD \<Longrightarrow> seg_at h mod 4 = 0 \<and> (msz h - fsz h < 4 \<or> fsz h mod 4 = 0) \<and>
      (fsz h < 4 \<or> seg_at h \<le> bp + foff h \<or> bp + foff h + 4 \<le> seg_at h)"
    and src: "\<forall>p \<in> source bp h. ram (mach s) p = v p" and win: "\<forall>p \<in> window h. ram (mach s) p = content v bp h p"
  shows "verify_segment c b (k0 bp) h s = Some s"
proof (cases "p_type h = PT_LOAD")
  case True
  note at = loadable_at [OF l [OF True]]
  have fm: "fsz h \<le> msz h" "foff h + fsz h \<le> sz" using l [OF True] by (auto simp: loadable_def)
  have s: "bp + foff h + fsz h \<le> RAM_SIZE" "seg_at h + fsz h \<le> RAM_SIZE" using fm bp at(2) by auto
  show ?thesis
  proof (cases "msz h = 0")
    case False
    have lt: "seg_at h < RAM_SIZE" using at(2) False by simp
    have dst: "to_kseg1 (if p_paddr h \<noteq> 0 then p_paddr h else p_vaddr h) = k1 (seg_at h)"
      by (rule kseg1_of_kseg0 [OF _ lt]) (use at(1) in \<open>simp add: load_addr_def\<close>)
    have sk: "to_kseg1 (k0 bp + p_offset h) = k1 (bp + foff h)" if "fsz h \<noteq> 0"
    proof (rule kseg1_of_kseg0)
      show "bp + foff h < RAM_SIZE" using s that by simp
      show "to_kseg0 (k0 bp + p_offset h) = k0 (bp + foff h)"
        using k0_add(1) [of bp "foff h"] to_kseg0_k0 [of "bp + foff h"] s by simp
    qed
    have "ram (mach s) (seg_at h + j) = ram (mach s) (bp + foff h + j)" if "j < fsz h" for j
      using src win True that fm by (auto simp: source_def window_def content_def)
    then have "\<exists>g. verify_loops c (k1 (seg_at h)) (to_kseg1 (k0 bp + p_offset h)) (fsz h) (mach s) = Some (mach s, 0, g)"
      using verify_loops_ok [OF m s(2) _ s(1)] al [OF True] sk
      by (cases "fsz h = 0") (auto simp: verify_loops_def)
    then have v: "verify_repair_range c b (k1 (seg_at h)) (k0 bp + p_offset h) (p_filesz h) s = Some s"
      by (auto simp: verify_repair_range_def)
    have z: "unat (p_memsz h - p_filesz h) = msz h - fsz h" using fm by (simp add: unat_sub word_le_nat_alt)
    have za: "k1 (seg_at h) + p_filesz h = k1 (seg_at h + fsz h)" using k1_add(1) [of "seg_at h" "fsz h"] by simp
    have "zero_verify c (k1 (seg_at h + fsz h)) (msz h - fsz h) (mach s) = Some (mach s)"
      by (rule zero_verify_same [OF m])
        (use at(2) fm al [OF True] win True in \<open>auto simp: window_def content_def mod_add_eq [symmetric, of "seg_at h"]\<close>)
    then show ?thesis using True v by (simp add: verify_segment_def dst z za)
  next
    case empty: True
    then have "p_filesz h = 0" "p_memsz h = 0" using fm by (auto simp: unat_eq_0)
    then show ?thesis
      by (simp add: verify_segment_def verify_repair_range_def verify_loops_def zero_verify_def)
  qed
qed (simp add: verify_segment_def)

text \<open>Everything the verification reads is in order: the headers, the sources and the windows.\<close>

definition seg_ready :: "'m \<Rightarrow> nat \<Rightarrow> nat \<Rightarrow> (nat \<Rightarrow> u8) \<Rightarrow> nat \<Rightarrow> elf32_phdr \<Rightarrow> bool" where
  "seg_ready m bp tb v i h \<longleftrightarrow> (\<forall>p \<in> table tb i. solid m p \<and> view m p = v p) \<and>
     (\<forall>p \<in> source bp h. solid m p \<and> view m p = v p \<and> ram m p = v p) \<and>
     (\<forall>p \<in> window h. solid m p \<and> view m p = content v bp h p \<and> ram m p = content v bp h p)"

lemma seg_ready_quiet: "seg_ready m bp tb v i h \<Longrightarrow> quiet m m' Q \<Longrightarrow> seg_ready m' bp tb v i h"
  by (auto simp: seg_ready_def quiet_def written_def)

lemma verify_loop_same:
  fixes s :: "('m, 'd) loader"
  assumes "inv (mach s)" "bp + sz \<le> RAM_SIZE"
    and "\<forall>i \<in> set is. tb + 32 * i + 32 \<le> RAM_SIZE \<and> hdr_at v tb i = H i \<and> seg_ready (mach s) bp tb v i (H i) \<and>
      (p_type (H i) = PT_LOAD \<longrightarrow> loadable sz (H i) \<and> seg_at (H i) mod 4 = 0 \<and>
        (msz (H i) - fsz (H i) < 4 \<or> fsz (H i) mod 4 = 0) \<and>
        (fsz (H i) < 4 \<or> seg_at (H i) \<le> bp + foff (H i) \<or> bp + foff (H i) + 4 \<le> seg_at (H i)))"
  shows "\<exists>m'. verify_loop c b (k0 bp) (k0 tb) is s = Some (s\<lparr>mach := m'\<rparr>) \<and>
    quiet (mach s) m' (\<Union>i \<in> set is. table tb i)"
  using assms
proof (induction "is" arbitrary: s)
  case Nil
  then show ?case by (intro exI [of _ "mach s"]) (simp add: quiet_refl)
next
  case (Cons i "is")
  have r: "seg_ready (mach s) bp tb v i (H i)" using Cons.prems(3) by simp
  obtain m1 where m1: "read_phdr c (k0 tb) i (mach s) = (hdr_at (view (mach s)) tb i, m1)" "quiet (mach s) m1 (table tb i)"
    using read_phdr_quiet [OF Cons.prems(1), of tb i] Cons.prems(3) r by (auto simp: seg_ready_def)
  have h: "hdr_at (view (mach s)) tb i = H i"
    using hdr_at_cong [of tb i "view (mach s)" v] Cons.prems(3) r by (auto simp: seg_ready_def)
  define s1 where "s1 = s\<lparr>mach := m1\<rparr>"
  have r1: "seg_ready (mach s1) bp tb v i (H i)" using seg_ready_quiet [OF r m1(2)] by (simp add: s1_def)
  have seg: "verify_segment c b (k0 bp) (H i) s1 = Some s1"
    by (rule verify_segment_same [OF _ _ Cons.prems(2), where v = v])
      (use Cons.prems(3) quiet_inv [OF m1(2)] r1 in \<open>auto simp: s1_def seg_ready_def\<close>)
  have "\<exists>m'. verify_loop c b (k0 bp) (k0 tb) is s1 = Some (s1\<lparr>mach := m'\<rparr>) \<and>
      quiet (mach s1) m' (\<Union>i \<in> set is. table tb i)"
  proof (rule Cons.IH [OF _ Cons.prems(2)], goal_cases)
    case 1
    then show ?case using quiet_inv [OF m1(2)] by (simp add: s1_def)
  next
    case 2
    have "seg_ready (mach s1) bp tb v j (H j)" if "j \<in> set is" for j
      using Cons.prems(3) that seg_ready_quiet [OF _ m1(2)] by (simp add: s1_def)
    then show ?case using Cons.prems(3) by (meson list.set_intros(2))
  qed
  then obtain m2 where "verify_loop c b (k0 bp) (k0 tb) is s1 = Some (s1\<lparr>mach := m2\<rparr>)"
    "quiet m1 m2 (\<Union>i \<in> set is. table tb i)" by (auto simp: s1_def)
  then show ?case
    using m1(1) seg h quiet_trans [OF m1(2), of m2 _ "\<Union>i \<in> set (i # is). table tb i"]
    by (auto simp: s1_def)
qed

end

section \<open>From the scan to the jump\<close>

definition ehdr_at :: "(nat \<Rightarrow> u8) \<Rightarrow> nat \<Rightarrow> elf32_ehdr" where
  "ehdr_at v bp = ehdr_of (map v [bp..<bp + 52])"

definition table_at :: "(nat \<Rightarrow> u8) \<Rightarrow> nat \<Rightarrow> nat" where
  "table_at v bp = bp + unat (e_phoff (ehdr_at v bp))"

definition hdrs :: "(nat \<Rightarrow> u8) \<Rightarrow> nat \<Rightarrow> elf32_phdr list" where
  "hdrs v bp = map (hdr_at v (table_at v bp)) [0..<unat (e_phnum (ehdr_at v bp))]"

lemma unat_le16_of: "unat (le16_of a b) < 65536"
proof -
  have "take_bit 16 (le16_of a b) = le16_of a b"
    by (rule bit_word_eqI) (auto simp: le16_of_def bit_simps dest: bit_imp_le_length)
  then have "unat (le16_of a b) = unat (take_bit 16 (le16_of a b))" by simp
  also have "\<dots> = unat (le16_of a b) mod 65536" by (simp add: take_bit_eq_mod unat_mod del: \<open>take_bit 16 (le16_of a b) = le16_of a b\<close>)
  finally show ?thesis by simp
qed

text \<open>What the scan returns, as a function of the bytes of the image.\<close>

definition scan_spec :: "(nat \<Rightarrow> u8) \<Rightarrow> nat \<Rightarrow> u32 \<Rightarrow> scan_error + (u32 \<times> u32)" where
  "scan_spec v bp sz =
     (if sz < 52 \<or> \<not> ehdr_valid (ehdr_at v bp) sz then Inl InvalidElf
      else case scan_all sz (hdrs v bp) (0xffffffff, 0, 0) of Inl e \<Rightarrow> Inl e
        | Inr (mn, mx, loads) \<Rightarrow> if loads = 0 then Inl NoLoads else Inr (mn, mx))"

lemma table_k0: "k0 bp + e_phoff (ehdr_at v bp) = k0 (table_at v bp)"
  using k0_add(1) [of bp "unat (e_phoff (ehdr_at v bp))"] by (simp add: table_at_def)

lemma ehdr_valid_table:
  assumes "ehdr_valid (ehdr_at v bp) sz"
  shows "table_at v bp + 32 * length (hdrs v bp) \<le> bp + unat sz"
proof -
  define eh where "eh = ehdr_at v bp"
  have ph: "unat (e_phnum eh) < 65536" by (simp add: eh_def ehdr_at_def ehdr_of_def le16_def unat_le16_of)
  then have mul: "unat (e_phnum eh * of_nat 32) = unat (e_phnum eh) * 32"
    using unat_mult_32 [of "e_phnum eh" 32] by simp
  have "unat (e_phoff eh) + unat (e_phnum eh) * 32 \<le> unat sz"
    using assms mul by (simp add: ehdr_valid_def range_valid_iff eh_def)
  then show ?thesis by (simp add: table_at_def hdrs_def eh_def [symmetric])
qed

lemma scan_spec_Inr:
  assumes "scan_spec v bp sz = Inr (mn, mx)"
  shows "52 \<le> unat sz" "table_at v bp + 32 * length (hdrs v bp) \<le> bp + unat sz"
    "\<exists>loads. loads \<noteq> 0 \<and> scan_all sz (hdrs v bp) (0xffffffff, 0, 0) = Inr (mn, mx, loads)"
proof -
  have "\<not> sz < 52" "ehdr_valid (ehdr_at v bp) sz"
    "\<exists>loads. loads \<noteq> 0 \<and> scan_all sz (hdrs v bp) (0xffffffff, 0, 0) = Inr (mn, mx, loads)"
    using assms by (auto simp: scan_spec_def split: if_splits sum.splits)
  then show "52 \<le> unat sz" "table_at v bp + 32 * length (hdrs v bp) \<le> bp + unat sz"
    "\<exists>loads. loads \<noteq> 0 \<and> scan_all sz (hdrs v bp) (0xffffffff, 0, 0) = Inr (mn, mx, loads)"
    using ehdr_valid_table by (auto simp: word_less_nat_alt)
qed

context cached_ram begin

lemma read_ehdr_quiet:
  assumes "inv m" "bp + 52 \<le> RAM_SIZE" "\<forall>p \<in> {bp..<bp + 52}. solid m p"
  shows "\<exists>m'. read_ehdr c (k0 bp) m = (ehdr_at (view m) bp, m') \<and> quiet m m' {bp..<bp + 52}"
  using ld_bytes_quiet [OF assms] by (auto simp: read_ehdr_def ehdr_at_def)

lemma ehdr_at_cong: "(\<And>p. p \<in> {bp..<bp + 52} \<Longrightarrow> v p = w p) \<Longrightarrow> ehdr_at v bp = ehdr_at w bp"
  unfolding ehdr_at_def by (intro arg_cong [of _ _ ehdr_of] map_cong) auto

text \<open>The scan computes \<open>scan_spec\<close> of the bytes of the image, whatever the caches hold.\<close>

lemma scan_linux_elf_spec:
  assumes m: "inv m" and img: "bp + sz \<le> RAM_SIZE" "\<forall>p \<in> {bp..<bp + sz}. solid m p"
  shows "\<exists>m'. scan_linux_elf c (k0 bp) (of_nat sz) m = (scan_spec (view m) bp (of_nat sz), m')"
proof -
  define v eh where "v = view m" and "eh = ehdr_at (view m) bp"
  have usz: "unat (of_nat sz :: u32) = sz" by (rule unat_of_nat_32) (use img in simp)
  show ?thesis
  proof (cases "sz < 52")
    case True
    then show ?thesis
      by (simp add: scan_linux_elf_def valid_elf_def word_less_nat_alt usz scan_spec_def)
  next
    case False
    then have s52: "bp + 52 \<le> RAM_SIZE" "\<forall>p \<in> {bp..<bp + 52}. solid m p" using img by auto
    obtain m1 where m1: "read_ehdr c (k0 bp) m = (eh, m1)" "quiet m m1 {bp..<bp + 52}"
      using read_ehdr_quiet [OF m s52] by (auto simp: eh_def)
    have k1: "solid m1 p \<and> view m1 p = v p" if "p \<in> {bp..<bp + sz}" for p
      using quiet_view [OF m1(2)] img that by (auto simp: v_def)
    obtain m2 where m2: "read_ehdr c (k0 bp) m1 = (eh, m2)" "quiet m1 m2 {bp..<bp + 52}"
      using read_ehdr_quiet [OF quiet_inv [OF m1(2)] s52(1)] k1 False ehdr_at_cong [of bp "view m1" v]
      by (auto simp: eh_def v_def)
    have k2: "solid m2 p \<and> view m2 p = v p" if "p \<in> {bp..<bp + sz}" for p
      using quiet_view [OF m2(2)] k1 that by auto
    have valid: "valid_elf c (k0 bp) (of_nat sz) m = (ehdr_valid eh (of_nat sz), m1)"
      using False by (simp add: valid_elf_def word_less_nat_alt usz m1(1))
    show ?thesis
    proof (cases "ehdr_valid eh (of_nat sz)")
      case ok: True
      define tb n where "tb = table_at v bp" and "n = unat (e_phnum eh)"
      have tbn: "tb + 32 * n \<le> bp + sz" "bp \<le> tb"
        using ehdr_valid_table [of v bp "of_nat sz"] ok usz by (simp_all add: hdrs_def eh_def v_def n_def tb_def table_at_def)
      have sub: "table tb i \<subseteq> {bp..<bp + sz}" "tb + 32 * i + 32 \<le> RAM_SIZE" if "i < n" for i
        using tbn that img(1) by (auto simp: table_def)
      obtain m3 where m3: "scan_loop c (of_nat sz) (k0 tb) [0..<n] (0xffffffff, 0, 0) m2 =
          (scan_all (of_nat sz) (map (hdr_at (view m2) tb) [0..<n]) (0xffffffff, 0, 0), m3)"
        using scan_loop_quiet [OF quiet_inv [OF m2(2)], of "[0..<n]" tb "of_nat sz"] sub k2 by fastforce
      have seen: "view m2 p = v p" if "i < n" "p \<in> table tb i" for i p
        using sub(1) [OF that(1)] that(2) k2 by blast
      have hs: "map (hdr_at (view m2) tb) [0..<n] = hdrs v bp"
        unfolding hdrs_def tb_def n_def eh_def v_def
        by (intro map_cong refl hdr_at_cong) (use seen in \<open>auto simp: tb_def n_def eh_def v_def\<close>)
      have ka: "k0 bp + e_phoff eh = k0 tb" unfolding tb_def eh_def v_def by (rule table_k0)
      have eh: "ehdr_at v bp = eh" by (simp add: eh_def v_def)
      show ?thesis
        using ok False usz m3 [unfolded hs] m2(1) valid ka unfolding v_def [symmetric]
        by (simp add: scan_linux_elf_def scan_spec_def word_less_nat_alt n_def [symmetric] eh split: sum.split)
    qed (use False valid usz in \<open>auto simp: scan_linux_elf_def scan_spec_def word_less_nat_alt eh_def\<close>)
  qed
qed

text \<open>What a successful scan has established.\<close>

lemma scan_accepts:
  assumes m: "inv m" and img: "bp + sz \<le> RAM_SIZE" "\<forall>p \<in> {bp..<bp + sz}. solid m p"
    and scan: "scan_linux_elf c (k0 bp) (of_nat sz) m = (Inr (mn, mx), m')"
  defines "v \<equiv> view m"
  shows "52 \<le> sz" "table_at v bp + 32 * length (hdrs v bp) \<le> bp + sz"
    "k0 bp + e_phoff (ehdr_at v bp) = k0 (table_at v bp)"
    "\<exists>loads. loads \<noteq> 0 \<and> scan_all (of_nat sz) (hdrs v bp) (0xffffffff, 0, 0) = Inr (mn, mx, loads)"
proof -
  have usz: "unat (of_nat sz :: u32) = sz" by (rule unat_of_nat_32) (use img in simp)
  have "scan_spec v bp (of_nat sz) = Inr (mn, mx)"
    using scan_linux_elf_spec [OF m img] scan by (auto simp: v_def)
  note s = scan_spec_Inr [OF this, unfolded usz]
  show "52 \<le> sz" "table_at v bp + 32 * length (hdrs v bp) \<le> bp + sz"
    "\<exists>loads. loads \<noteq> 0 \<and> scan_all (of_nat sz) (hdrs v bp) (0xffffffff, 0, 0) = Inr (mn, mx, loads)"
    by (rule s)+
  show "k0 bp + e_phoff (ehdr_at v bp) = k0 (table_at v bp)" by (rule table_k0)
qed

end

end
