(* ===== verification/Loader.thy ===== *)
theory Loader
  imports LoaderImage "HOL-Library.Monad_Syntax"
begin

text \<open>
  The loader's entry point, \<^verbatim>\<open>src/boot/linux-loader.c\<close>: clocks, lights, watchdog and exception base, and
  \<open>linux_loader_main_impl\<close>, which puts the kernel and the device tree in place and jumps. The value
  \<open>None\<close> means that the loader does not come back: a delay loop whose counter stands still, or an
  address error.
\<close>

section \<open>Clock and lights\<close>

abbreviation (input) GPIO_L_OUT where "GPIO_L_OUT \<equiv> (0xb8800054 :: u32)"
abbreviation (input) GPIO_L_DIR where "GPIO_L_DIR \<equiv> (0xb8800058 :: u32)"
abbreviation (input) GPIO_R_OUT where "GPIO_R_OUT \<equiv> (0xb88000f4 :: u32)"
abbreviation (input) GPIO_R_DIR where "GPIO_R_DIR \<equiv> (0xb88000f8 :: u32)"
abbreviation (input) PINMUX_R05 where "PINMUX_R05 \<equiv> (0xb88004e5 :: u32)"
abbreviation (input) PINMUX_L25 where "PINMUX_L25 \<equiv> (0xb88004b9 :: u32)"
abbreviation (input) MAPPING_REG where "MAPPING_REG \<equiv> (0xb8800220 :: u32)"
abbreviation (input) SYSIO_CHIP_ID where "SYSIO_CHIP_ID \<equiv> (0xb8800000 :: u32)"
abbreviation (input) SYSIO_SCPU_SELECT where "SYSIO_SCPU_SELECT \<equiv> (0xb8800074 :: u32)"
abbreviation (input) SYSIO_SCPU_PLL_ENABLE where "SYSIO_SCPU_PLL_ENABLE \<equiv> (0xb880007c :: u32)"
abbreviation (input) SYSIO_SCPU_PLL_CONTROL where "SYSIO_SCPU_PLL_CONTROL \<equiv> (0xb8800380 :: u32)"
abbreviation (input) BACKLIGHT_OFF_TICKS where "BACKLIGHT_OFF_TICKS \<equiv> (0x2000 :: u32)"
abbreviation (input) DIRECT_HANDOFF_TRACE_ADDR where "DIRECT_HANDOFF_TRACE_ADDR \<equiv> (0xa6820000 :: u32)"

partial_function (option) count_loop :: "'d board \<Rightarrow> u32 \<Rightarrow> u32 \<Rightarrow> 'd \<Rightarrow> 'd option" where
  "count_loop b start ticks d =
     (let (v, d) = mfc0 b 9 0 d in if v - start < ticks then count_loop b start ticks d else Some d)"

definition delay_clock_count_ticks :: "'d board \<Rightarrow> u32 \<Rightarrow> 'd \<Rightarrow> 'd option" where
  "delay_clock_count_ticks b ticks d = (let (start, d) = mfc0 b 9 0 d in count_loop b start ticks d)"

definition delay_count_ticks :: "'d board \<Rightarrow> u32 \<Rightarrow> 'd \<Rightarrow> 'd option" where
  "delay_count_ticks b ticks d =
     (let (start, d) = mfc0 b 9 0 d; (rom, d) = rom_handoff_present b d;
          ticks = (if rom then ticks else drop_bit 12 ticks)
      in if ticks = 0 then Some d else count_loop b start ticks d)"

definition set_scpu_clock_918 :: "'d board \<Rightarrow> ('m, 'd) loader \<Rightarrow> ('m, 'd) loader option" where
  "set_scpu_clock_918 b s =
     (let (chip, d) = mmio_read32 b SYSIO_CHIP_ID (dev s); s = s\<lparr>dev := d\<rparr>
      in if drop_bit 16 chip \<noteq> 0x1512 then Some s
         else do {
           let (reg074, d) = mmio_read32 b SYSIO_SCPU_SELECT (dev s);
           let (reg07c, d) = mmio_read32 b SYSIO_SCPU_PLL_ENABLE d;
           let (reg380, d) = mmio_read32 b SYSIO_SCPU_PLL_CONTROL d;
           let s = thens [progress_mark b ''loader-scpu-before-074'' 0x42 reg074,
             progress_mark b ''loader-scpu-before-07c'' 0x42 reg07c,
             progress_mark b ''loader-scpu-before-380'' 0x42 reg380] (s\<lparr>dev := d\<rparr>);
           let reg380 = (reg380 AND 0x0000ffff) OR push_bit 16 0x8153;
           d \<leftarrow> delay_clock_count_ticks b 500000 (mmio_write32 b SYSIO_SCPU_PLL_CONTROL reg380 (dev s));
           let reg074 = (reg074 AND NOT (push_bit 8 7)) OR push_bit 8 7;
           let d = mmio_write32 b SYSIO_SCPU_SELECT reg074 d;
           let d = mmio_write32 b SYSIO_SCPU_PLL_ENABLE (reg07c OR push_bit 7 1) d;
           let d = mmio_write32 b SYSIO_SCPU_SELECT (reg074 OR push_bit 22 1) d;
           d \<leftarrow> delay_clock_count_ticks b (459 * 5000) d;
           Some (thens [with_reg b SYSIO_SCPU_SELECT (progress_mark b ''loader-scpu-after-074'' 0x42),
             with_reg b SYSIO_SCPU_PLL_ENABLE (progress_mark b ''loader-scpu-after-07c'' 0x42),
             with_reg b SYSIO_SCPU_PLL_CONTROL (progress_mark b ''loader-scpu-after-380'' 0x42),
             uart_puts b ''linux-loader: SCPU 918MHz regs='', with_reg b SYSIO_SCPU_SELECT (uart_hex b),
             uart_puts b ''/'', with_reg b SYSIO_SCPU_PLL_ENABLE (uart_hex b), uart_puts b ''/'',
             with_reg b SYSIO_SCPU_PLL_CONTROL (uart_hex b), uart_puts b ''\<newline>''] (s\<lparr>dev := d\<rparr>))
         })"

definition backlight_set :: "'d board \<Rightarrow> bool \<Rightarrow> 'd \<Rightarrow> 'd" where
  "backlight_set b on d =
     (let (out, d) = mmio_read32 b GPIO_R_OUT d; (dir, d) = mmio_read32 b GPIO_R_DIR d;
          out = (if on then out AND NOT (push_bit 5 1) else out OR push_bit 5 1)
      in mmio_write32 b GPIO_R_OUT out (mmio_write32 b GPIO_R_DIR (dir OR push_bit 5 1) (io_wr8 b PINMUX_R05 0 d)))"

definition status_led_set :: "'d board \<Rightarrow> bool \<Rightarrow> 'd \<Rightarrow> 'd" where
  "status_led_set b on d =
     (let (out, d) = mmio_read32 b GPIO_L_OUT d; (dir, d) = mmio_read32 b GPIO_L_DIR d;
          out = (if on then out OR push_bit 25 1 else out AND NOT (push_bit 25 1))
      in mmio_write32 b GPIO_L_OUT out (mmio_write32 b GPIO_L_DIR (dir OR push_bit 25 1) (io_wr8 b PINMUX_L25 0 d)))"

definition backlight_stage_mark :: "'d board \<Rightarrow> string \<Rightarrow> u32 \<Rightarrow> ('m, 'd) loader \<Rightarrow> ('m, 'd) loader option" where
  "backlight_stage_mark b name pulses s =
     (let s = thens [uart_puts b ''linux-loader: visible stage '', uart_puts b name, uart_puts b '' pulses='',
            uart_hex b pulses, uart_puts b ''\<newline>''] s
      in if health_blink_done s then Some s
         else do {
           let s = s\<lparr>health_blink_done := True\<rparr>;
           d \<leftarrow> delay_count_ticks b BACKLIGHT_OFF_TICKS (status_led_set b True (backlight_set b False (dev s)));
           Some (s\<lparr>dev := backlight_set b False (status_led_set b False (backlight_set b True d))\<rparr>)
         })"

section \<open>Processor state\<close>

text \<open>The static variables in \<open>.bss\<close>; \<open>log_fat_lba\<close> and \<open>log_sector_index\<close> are initialised data.\<close>

definition clear_bss :: "('m, 'd) loader \<Rightarrow> ('m, 'd) loader" where
  "clear_bss s =
     s\<lparr>log_fs := \<lparr>fs_type = 0, pdrv = 0, csize = 0, n_fatent = 0, fatbase = 0, database = 0\<rparr>,
       log_file := \<lparr>obj_fs_null = True, sclust = 0, objsize = 0\<rparr>,
       log_sector := replicate 512 0, log_fat_sector := replicate 512 0, log_live_sector := replicate 512 0,
       log_pos := 0, log_limit := 0, log_ready := False, log_tried := False, health_blink_done := False\<rparr>"

definition disable_interrupts :: "'d board \<Rightarrow> 'd \<Rightarrow> 'd" where
  "disable_interrupts b d = (let (status, d) = mfc0 b 12 0 d in mtc0 b 12 0 (status AND - 2) d)"

definition direct_handoff_trace_invalidate_line :: "'m cpu \<Rightarrow> u32 \<Rightarrow> 'm \<Rightarrow> 'm" where
  "direct_handoff_trace_invalidate_line c offset m =
     cacheop c 0x11 (((DIRECT_HANDOFF_TRACE_ADDR + offset) AND 0x1fffffff) OR KSEG0_BASE) m"

definition direct_handoff_trace_mark :: "'m cpu \<Rightarrow> u32 \<Rightarrow> u32 \<Rightarrow> u32 \<Rightarrow> ('m, 'd) loader \<Rightarrow> ('m, 'd) loader" where
  "direct_handoff_trace_mark c offset marker val s =
     s\<lparr>mach := st32 c (DIRECT_HANDOFF_TRACE_ADDR + 4 * (offset div 4 + 1)) val
        (st32 c (DIRECT_HANDOFF_TRACE_ADDR + 4 * (offset div 4)) marker
          (direct_handoff_trace_invalidate_line c offset (mach s)))\<rparr>"

definition reset_exception_base_for_linux :: "'m cpu \<Rightarrow> 'd board \<Rightarrow> ('m, 'd) loader \<Rightarrow> ('m, 'd) loader" where
  "reset_exception_base_for_linux c b s =
     (let (bootrom, d) = mmio_read32 b BOOTROM_BASE (dev s); (mount, d) = mmio_read32 b ROM_F_MOUNT_ADDR d;
          (write, d) = mmio_read32 b ROM_DISK_WRITE_ADDR d;
          s = bootlog_handoff_state c b bootrom mount write (s\<lparr>dev := d\<rparr>)
      in if \<not> rom_word_present mount \<and> \<not> rom_word_present write \<and> \<not> rom_word_present bootrom then s
         else
           let (before, d) = mfc0 b 15 1 (dev s); (after, d) = mfc0 b 15 1 (mtc0 b 15 1 0 d)
           in thens [uart_puts b ''linux-loader: ebase '', uart_hex b before, uart_puts b '' -> '', uart_hex b after,
                uart_puts b ''\<newline>'', bootlog_ebase c b before after] (s\<lparr>dev := d\<rparr>))"

definition setup_system_mapping_for_linux :: "'m cpu \<Rightarrow> 'd board \<Rightarrow> ('m, 'd) loader \<Rightarrow> ('m, 'd) loader" where
  "setup_system_mapping_for_linux c b s =
     (let (before, d) = mmio_read32 b MAPPING_REG (dev s);
          (after, d) = mmio_read32 b MAPPING_REG (mmio_write32 b MAPPING_REG (before OR push_bit 24 1) d)
      in thens [uart_puts b ''linux-loader: mapping '', uart_hex b before, uart_puts b '' -> '', uart_hex b after,
           uart_puts b ''\<newline>'', bootlog_mapping c b before after] (s\<lparr>dev := d\<rparr>))"

definition log_status_handoff :: "'m cpu \<Rightarrow> 'd board \<Rightarrow> ('m, 'd) loader \<Rightarrow> ('m, 'd) loader" where
  "log_status_handoff c b s =
     (let (status, d) = mfc0 b 12 0 (dev s)
      in bootlog_line c b [bootlog_puts b ''status='', bootlog_hex b status, bootlog_puts b '' -> 0x00000000'']
           (s\<lparr>dev := d\<rparr>))"

section \<open>Placing the kernel\<close>

record payload =
  linux_vmlinux_start :: u32
  linux_vmlinux_end :: u32
  linux_dtb_start :: u32
  linux_dtb_end :: u32

text \<open>
  The middle of the main function: evict dirty aliases, copy the device tree and the kernel through
  the cached window, flush the copied ranges, verify them through the uncached window, and drop all
  lines of the ranges from both caches.
\<close>

definition place_kernel :: "'m cpu \<Rightarrow> 'd board \<Rightarrow> u32 \<Rightarrow> u32 \<Rightarrow> u32 \<Rightarrow> u32 \<Rightarrow> u32 \<Rightarrow> u32 \<Rightarrow> ('m, 'd) loader \<Rightarrow>
    ('m, 'd) loader option" where
  "place_kernel c b vmlinux dtb dtb_size load_min load_max dtb_dest s = do {
     let m = cache_writeback_dcache_indices c (mach s);
     let m = copy_forward c (to_kseg0 dtb_dest) dtb (unat dtb_size) m;
     let m = copy_linux_elf c vmlinux m;
     let m = cache_flush_range c load_min (load_max - load_min) m;
     let m = cache_flush_range c dtb_dest dtb_size m;
     s \<leftarrow> verify_repair_linux_elf c b vmlinux (s\<lparr>mach := m\<rparr>);
     s \<leftarrow> verify_repair_range c b (to_kseg1 dtb_dest) dtb dtb_size s;
     let m = cache_invalidate_dcache_range c load_min (load_max - load_min) (mach s);
     let m = cache_invalidate_dcache_range c dtb_dest dtb_size m;
     let s = uart_puts b ''linux-loader: icache index sweep\<newline>'' (s\<lparr>mach := m\<rparr>);
     let m = cache_invalidate_icache_indices c (mach s);
     let m = cache_invalidate_icache_range c load_min (load_max - load_min) m;
     let m = cache_invalidate_icache_range c dtb_dest dtb_size m;
     Some (s\<lparr>mach := m\<rparr>)
   }"

section \<open>The main function\<close>

text \<open>The loader ends in a panic, blinking for ever, or in a jump to the kernel with the device tree.\<close>

datatype outcome = Panic string | Jump u32 u32

definition loader_panic :: "'d board \<Rightarrow> string \<Rightarrow> ('m, 'd) loader \<Rightarrow> outcome \<times> ('m, 'd) loader" where
  "loader_panic b message s = (Panic message, thens [uart_puts b message, uart_puts b ''\<newline>''] s)"

definition scan_message :: "scan_error \<Rightarrow> string" where
  "scan_message e = (case e of InvalidElf \<Rightarrow> ''linux-loader: invalid ELF\<newline>''
     | BadLoadRange \<Rightarrow> ''linux-loader: bad LOAD range\<newline>''
     | LoadOutsideRam \<Rightarrow> ''linux-loader: LOAD outside RAM\<newline>'' | NoLoads \<Rightarrow> '''')"

definition dtb_place :: "payload \<Rightarrow> u32 \<Rightarrow> u32" where
  "dtb_place pl load_max =
     (let payload_end = align_up (linux_dtb_end pl) 0x10000; dtb_dest = align_up load_max 0x10000
      in if dtb_dest < payload_end then payload_end else dtb_dest)"

definition loader_start :: "'m cpu \<Rightarrow> 'd board \<Rightarrow> ('m, 'd) loader \<Rightarrow> ('m, 'd) loader option" where
  "loader_start c b s = do {
     let s = thens [direct_handoff_trace_mark c 0xf0 0x4c435254 1, clear_bss, on_dev (disable_interrupts b)] s;
     s \<leftarrow> backlight_stage_mark b ''loader-entry'' 1 s;
     let s = bootlog_init c b s;
     Some (thens [direct_handoff_trace_mark c 0xf8 0x4c4c4f47 (if log_ready s then 1 else 0), progress_reset,
       progress_set_live_log_sector c b, bootlog_wdt_state c b, bootlog_stage c b ''loader-entry'' 1] s)
   }"

definition loader_jump :: "'m cpu \<Rightarrow> 'd board \<Rightarrow> u32 \<Rightarrow> u32 \<Rightarrow> ('m, 'd) loader \<Rightarrow> (outcome \<times> ('m, 'd) loader) option" where
  "loader_jump c b entry dtb_dest s = do {
     s \<leftarrow> backlight_stage_mark b ''loader-jump'' 2 (on_dev (disable_interrupts b) s);
     s \<leftarrow> set_scpu_clock_918 b (thens [uart_puts b ''linux-loader: jump entry='', uart_hex b entry,
       uart_puts b '' dtb='', uart_hex b dtb_dest, uart_puts b ''\<newline>'',
       direct_handoff_trace_mark c 0x110 0x4c4a4d50 entry, direct_handoff_trace_mark c 0x118 0x4c445442 dtb_dest,
       bootlog_wdt_arm c b ''loader-watchdog-armed''] s);
     Some (Jump entry dtb_dest, on_dev (mtc0 b 12 0 0) s)
   }"

definition linux_loader_main_impl :: "'m cpu \<Rightarrow> 'd board \<Rightarrow> payload \<Rightarrow> ('m, 'd) loader \<Rightarrow>
    (outcome \<times> ('m, 'd) loader) option" where
  "linux_loader_main_impl c b pl s = do {
     s \<leftarrow> loader_start c b s;
     let vmlinux = linux_vmlinux_start pl;
     let kernel_size = linux_vmlinux_end pl - vmlinux;
     let dtb_size = linux_dtb_end pl - linux_dtb_start pl;
     let s = thens [uart_puts b ''\<newline>linux-loader: start kernel='', uart_hex b kernel_size,
       uart_puts b '' dtb='', uart_hex b dtb_size, uart_puts b ''\<newline>''] s;
     let (ok, m) = valid_elf c vmlinux kernel_size (mach s);
     let s = s\<lparr>mach := m\<rparr>;
     if \<not> ok then Some (loader_panic b ''linux-loader: invalid embedded kernel'' s)
     else do {
       let (r, m) = scan_linux_elf c vmlinux kernel_size (mach s);
       let s = s\<lparr>mach := m\<rparr>;
       case r of
         Inl e \<Rightarrow> Some (loader_panic b ''linux-loader: cannot map embedded kernel'' (uart_puts b (scan_message e) s))
       | Inr (load_min, load_max) \<Rightarrow> do {
           let s = direct_handoff_trace_mark c 0x100 0x4c454c46 load_min s;
           let dtb_dest = dtb_place pl load_max;
           if dtb_dest + dtb_size > RAM_TOP then Some (loader_panic b ''linux-loader: no room for DTB'' s)
           else do {
             let (eh, m) = read_ehdr c vmlinux (mach s);
             let s = thens [bootlog_loader_info c b kernel_size dtb_size (e_entry eh) dtb_dest,
               setup_system_mapping_for_linux c b, reset_exception_base_for_linux c b,
               with_reg b MAPPING_REG (direct_handoff_trace_mark c 0x108 0x4c4d4150),
               log_status_handoff c b, bootlog_stage c b ''loader-jump'' 2] (s\<lparr>mach := m\<rparr>);
             s \<leftarrow> place_kernel c b vmlinux (linux_dtb_start pl) dtb_size load_min load_max dtb_dest s;
             loader_jump c b (e_entry eh) dtb_dest s
           }
         }
     }
   }"

end
