(* ===== verification/LogFile.thy ===== *)
theory LogFile
  imports BootLog
begin

text \<open>
  The boot log as a file, \<^verbatim>\<open>src/boot/linux-loader.c\<close>: the clusters of \<^verbatim>\<open>log.txt\<close> as the FAT on the card
  gives them, what the loader relies on in the ROM's disk routines (locale \<open>rom_storage\<close>), and the
  proof that the sector buffer, the cached FAT sector and the cluster walk put the logged text into
  exactly these clusters.
\<close>

section \<open>The log as a file\<close>

text \<open>
  The abstract view: the card is a function from sector numbers to sectors, and the file is the chain
  of clusters that the FAT gives. \<open>fat_next\<close> and \<open>file_lba\<close> are the chain read from the card directly.
\<close>

definition fat_next :: "(u32 \<Rightarrow> u8 list) \<Rightarrow> fatfs \<Rightarrow> u32 \<Rightarrow> u32 option" where
  "fat_next secs fs cluster =
     (if cluster < 2 \<or> cluster \<ge> n_fatent fs then None
      else if fs_type fs = 3 then
        let v = le32 (secs (fatbase fs + cluster * 4 div 512)) (unat (cluster * 4 mod 512)) AND 0x0fffffff
        in if v \<ge> 0x0ffffff8 then None else Some v
      else if fs_type fs = 2 then
        let v = le16 (secs (fatbase fs + cluster * 2 div 512)) (unat (cluster * 2 mod 512))
        in if v \<ge> 0xfff8 then None else Some v
      else None)"

fun nth_cluster :: "(u32 \<Rightarrow> u8 list) \<Rightarrow> fatfs \<Rightarrow> nat \<Rightarrow> u32 \<Rightarrow> u32 option" where
  "nth_cluster secs fs 0 cluster = Some cluster"
| "nth_cluster secs fs (Suc n) cluster =
     (case fat_next secs fs cluster of None \<Rightarrow> None | Some c \<Rightarrow> nth_cluster secs fs n c)"

definition file_lba :: "(u32 \<Rightarrow> u8 list) \<Rightarrow> fatfs \<Rightarrow> fil \<Rightarrow> u32 \<Rightarrow> u32 option" where
  "file_lba secs fs f k =
     (let cs = ucast (csize fs) :: u32
      in if cs = 0 \<or> sclust f < 2 then None
         else case nth_cluster secs fs (unat (k div cs)) (sclust f) of None \<Rightarrow> None
           | Some cl \<Rightarrow> if cl < 2 \<or> cl \<ge> n_fatent fs then None
                        else Some (database fs + (cl - 2) * cs + k mod cs))"

text \<open>
  The layout of a mounted volume: the FAT lies below the data area and below the last sector number,
  and the data area does not wrap.
\<close>

definition vol_ok :: "fatfs \<Rightarrow> bool" where
  "vol_ok fs \<longleftrightarrow> unat (n_fatent fs) < 2 ^ 28 \<and>
     unat (fatbase fs) + unat (n_fatent fs) * 4 div 512 < unat (database fs) \<and>
     unat (database fs) + unat (n_fatent fs) * unat (csize fs) < 2 ^ 32"

definition in_fat :: "fatfs \<Rightarrow> u32 \<Rightarrow> bool" where
  "in_fat fs lba \<longleftrightarrow> unat lba < unat (database fs)"

lemma fat_sector_in_fat:
  assumes "vol_ok fs" "cluster < n_fatent fs" "k \<in> {2, 4}"
  shows "in_fat fs (fatbase fs + cluster * k div 512)" "fatbase fs + cluster * k div 512 \<noteq> NO_SECTOR"
proof -
  have k: "unat k \<le> 4" "unat k = 2 \<or> unat k = 4" using assms(3) by auto
  have c: "unat cluster < unat (n_fatent fs)" using assms(2) by (simp add: word_less_nat_alt)
  have "unat cluster * unat k < 2 ^ 32" using c k assms(1) unfolding vol_ok_def by auto
  then have m: "unat (cluster * k) = unat cluster * unat k" by (rule unat_mult_32)
  have le: "unat cluster * unat k div 512 \<le> unat (n_fatent fs) * 4 div 512"
    by (rule div_le_mono, rule mult_le_mono) (use c k in auto)
  have d: "unat (cluster * k div 512) = unat cluster * unat k div 512" by (simp add: unat_div m)
  have "unat (fatbase fs) + unat (cluster * k div 512) < unat (database fs)"
    unfolding d using le assms(1) by (auto simp: vol_ok_def)
  moreover have db: "unat (database fs) < 2 ^ 32" using unsigned_less [of "database fs"] by simp
  ultimately have s: "unat (fatbase fs + cluster * k div 512) = unat (fatbase fs) + unat (cluster * k div 512)"
    by (intro unat_add_32) simp
  show "in_fat fs (fatbase fs + cluster * k div 512)"
    unfolding in_fat_def s by fact
  then show "fatbase fs + cluster * k div 512 \<noteq> NO_SECTOR"
    using db by (auto simp: in_fat_def)
qed

lemma fat_next_cong:
  assumes "vol_ok fs" "\<And>lba. in_fat fs lba \<Longrightarrow> secs lba = secs' lba"
  shows "fat_next secs fs cl = fat_next secs' fs cl"
proof (cases "cl < n_fatent fs")
  case True
  have "secs (fatbase fs + cl * k div 512) = secs' (fatbase fs + cl * k div 512)" if "k \<in> {2, 4}" for k
    by (rule assms(2), rule fat_sector_in_fat(1) [OF assms(1) True that])
  then show ?thesis by (simp add: fat_next_def)
qed (simp add: fat_next_def not_less)

lemma nth_cluster_cong:
  assumes "vol_ok fs" "\<And>lba. in_fat fs lba \<Longrightarrow> secs lba = secs' lba"
  shows "nth_cluster secs fs n cl = nth_cluster secs' fs n cl"
  by (induction n arbitrary: cl) (simp_all add: fat_next_cong [OF assms] split: option.split)

lemma file_lba_cong:
  assumes "vol_ok fs" "\<And>lba. in_fat fs lba \<Longrightarrow> secs lba = secs' lba"
  shows "file_lba secs fs f k = file_lba secs' fs f k"
  by (simp add: file_lba_def Let_def nth_cluster_cong [OF assms])

lemma file_lba_data:
  assumes "vol_ok fs" "file_lba secs fs f k = Some lba"
  shows "\<not> in_fat fs lba"
proof -
  define cs where "cs = (ucast (csize fs) :: u32)"
  from assms(2) obtain cl where cl: "cl \<ge> 2" "cl < n_fatent fs" "cs \<noteq> 0"
    "lba = database fs + (cl - 2) * cs + k mod cs"
    by (simp add: file_lba_def cs_def Let_def split: if_splits option.splits)
      (metis linorder_not_less)
  have u: "unat cs = unat (csize fs)"
    unfolding cs_def by (simp add: unsigned_ucast_eq take_bit_nat_eq_self_iff less_trans [OF unsigned_less])
  have c: "unat cl < unat (n_fatent fs)" "unat (cl - 2) = unat cl - 2" "2 \<le> unat cl"
    using cl(1,2) by (auto simp: word_less_nat_alt word_le_nat_alt unat_sub)
  have km: "unat (k mod cs) < unat cs" using cl(3) by (simp add: unat_mod unat_gt_0)
  have "(unat cl - 2) * unat cs + unat (k mod cs) \<le> Suc (unat cl - 2) * unat cs" using km by simp
  also have "\<dots> \<le> unat (n_fatent fs) * unat cs" by (rule mult_le_mono1) (use c in linarith)
  finally have t: "unat (database fs) + ((unat cl - 2) * unat cs + unat (k mod cs)) < 2 ^ 32"
    using assms(1) by (simp add: vol_ok_def u)
  have m: "unat ((cl - 2) * cs) = (unat cl - 2) * unat cs"
    using t c(2) unat_mult_32 [of "cl - 2" cs] by auto
  have a: "unat (database fs + (cl - 2) * cs) = unat (database fs) + (unat cl - 2) * unat cs"
    using t m unat_add_32 [of "database fs" "(cl - 2) * cs"] by auto
  have "unat lba = unat (database fs) + (unat cl - 2) * unat cs + unat (k mod cs)"
    unfolding cl(4) using t a unat_add_32 [of "database fs + (cl - 2) * cs" "k mod cs"] by auto
  then show ?thesis by (simp add: in_fat_def)
qed

text \<open>Only the cached FAT sector and the devices have changed.\<close>

definition kept :: "('m, 'd) loader \<Rightarrow> ('m, 'd) loader \<Rightarrow> bool" where
  "kept s s' \<longleftrightarrow> mach s' = mach s \<and> log_fs s' = log_fs s \<and> log_file s' = log_file s \<and>
     log_sector s' = log_sector s \<and> log_live_sector s' = log_live_sector s \<and>
     log_sector_index s' = log_sector_index s \<and> log_pos s' = log_pos s \<and> log_limit s' = log_limit s \<and>
     log_ready s' = log_ready s \<and> log_tried s' = log_tried s \<and> plog s' = plog s \<and>
     health_blink_done s' = health_blink_done s"

text \<open>What the loader relies on in the ROM's disk routines and the other devices: a working card.\<close>

locale rom_storage =
  fixes b :: "'d board"
    and secs :: "'d \<Rightarrow> u32 \<Rightarrow> u8 list"
  assumes read_ok: "\<exists>d'. rom_disk_read b drv buf lba d = (0, secs d lba, d') \<and> secs d' = secs d"
    and write_ok: "length buf = 512 \<Longrightarrow>
      \<exists>d'. rom_disk_write b drv buf lba d = (0, d') \<and> secs d' = (secs d)(lba := buf)"
    and flush_ok: "secs (rom_cache_flush b buf d) = secs d"
begin

definition fat_cached :: "('m, 'd) loader \<Rightarrow> bool" where
  "fat_cached s \<longleftrightarrow> log_fat_lba s = NO_SECTOR \<or>
     in_fat (log_fs s) (log_fat_lba s) \<and> log_fat_sector s = secs (dev s) (log_fat_lba s)"

definition fat_step :: "('m, 'd) loader \<Rightarrow> ('m, 'd) loader \<Rightarrow> bool" where
  "fat_step s s' \<longleftrightarrow> fat_cached s' \<and> secs (dev s') = secs (dev s) \<and> kept s s'"

lemma fat_step_refl: "fat_cached s \<Longrightarrow> fat_step s s"
  by (simp add: fat_step_def kept_def)

lemma fat_step_trans: "fat_step s s1 \<Longrightarrow> fat_step s1 s2 \<Longrightarrow> fat_step s s2"
  by (simp add: fat_step_def kept_def)

lemma fat_step_facts:
  assumes "fat_step s s'"
  shows "log_fs s' = log_fs s" "log_file s' = log_file s" "secs (dev s') = secs (dev s)" "fat_cached s'"
    "log_sector s' = log_sector s" "log_pos s' = log_pos s" "log_limit s' = log_limit s"
    "log_ready s' = log_ready s" "log_sector_index s' = log_sector_index s"
  using assms by (simp_all add: fat_step_def kept_def)

lemma fat_load_ok:
  assumes "fat_cached s" "in_fat (log_fs s) lba" "lba \<noteq> NO_SECTOR"
  shows "\<exists>s'. fat_load b lba s = (True, s') \<and> log_fat_sector s' = secs (dev s) lba \<and> fat_step s s'"
proof (cases "lba = log_fat_lba s")
  case True
  then show ?thesis using assms by (auto simp: fat_load_def fat_cached_def intro: fat_step_refl)
next
  case False
  obtain d' where "rom_disk_read b (pdrv (log_fs s)) (log_fat_sector s) lba (dev s) = (0, secs (dev s) lba, d')"
    "secs d' = secs (dev s)" using read_ok by blast
  then show ?thesis using False assms
    by (auto simp: fat_load_def fat_step_def fat_cached_def kept_def Let_def)
qed

lemma log_fat_next_ok:
  assumes v: "vol_ok (log_fs s)" and c: "fat_cached s"
  obtains r nx s' where "log_fat_next b cl s = (r, nx, s')" "fat_step s s'"
    "case fat_next (secs (dev s)) (log_fs s) cl of None \<Rightarrow> r \<noteq> 0 | Some v \<Rightarrow> r = 0 \<and> nx = v"
proof (cases "cl < 2 \<or> cl \<ge> n_fatent (log_fs s)")
  case True
  then show ?thesis
    by (intro that [of "- 1" 0 s]) (auto simp: log_fat_next_def fat_next_def Let_def intro: fat_step_refl [OF c])
next
  case False
  then have cl: "cl < n_fatent (log_fs s)" by auto
  have load: "\<exists>s'. fat_load b (fatbase (log_fs s) + cl * k div 512) s = (True, s') \<and>
      log_fat_sector s' = secs (dev s) (fatbase (log_fs s) + cl * k div 512) \<and> fat_step s s'" if "k \<in> {2, 4}" for k
    by (rule fat_load_ok [OF c]) (rule fat_sector_in_fat [OF v cl that])+
  consider "fs_type (log_fs s) = 3" | "fs_type (log_fs s) = 2" | "fs_type (log_fs s) \<noteq> 2 \<and> fs_type (log_fs s) \<noteq> 3"
    by blast
  then show ?thesis
  proof cases
    case 1
    obtain s' where s': "fat_load b (fatbase (log_fs s) + cl * 4 div 512) s = (True, s')"
      "log_fat_sector s' = secs (dev s) (fatbase (log_fs s) + cl * 4 div 512)" "fat_step s s'" using load [of 4] by auto
    define w where "w = le32 (secs (dev s) (fatbase (log_fs s) + cl * 4 div 512)) (unat (cl * 4 mod 512)) AND 0x0fffffff"
    show ?thesis
      by (rule that [of "if w \<ge> 0x0ffffff8 then 1 else 0" "if w \<ge> 0x0ffffff8 then 0 else w" s'])
        (use False 1 s' in \<open>simp_all add: log_fat_next_def fat_next_def Let_def w_def [symmetric]\<close>)
  next
    case 2
    obtain s' where s': "fat_load b (fatbase (log_fs s) + cl * 2 div 512) s = (True, s')"
      "log_fat_sector s' = secs (dev s) (fatbase (log_fs s) + cl * 2 div 512)" "fat_step s s'" using load [of 2] by auto
    define w where "w = le16 (secs (dev s) (fatbase (log_fs s) + cl * 2 div 512)) (unat (cl * 2 mod 512))"
    show ?thesis
      by (rule that [of "if w \<ge> 0xfff8 then 1 else 0" "if w \<ge> 0xfff8 then 0 else w" s'])
        (use False 2 s' in \<open>simp_all add: log_fat_next_def fat_next_def Let_def w_def [symmetric]\<close>)
  next
    case 3
    then show ?thesis
      by (intro that [of "- 1" 0 s])
        (use False in \<open>auto simp: log_fat_next_def fat_next_def Let_def intro: fat_step_refl [OF c]\<close>)
  qed
qed

lemma cluster_walk_ok:
  assumes "vol_ok (log_fs s)" "fat_cached s"
  shows "\<exists>s'. cluster_walk b n cl s = (nth_cluster (secs (dev s)) (log_fs s) n cl, s') \<and> fat_step s s'"
  using assms
proof (induction n arbitrary: cl s)
  case 0
  then show ?case by (auto intro: fat_step_refl)
next
  case (Suc n)
  obtain r nx s1 where n: "log_fat_next b cl s = (r, nx, s1)" "fat_step s s1"
    "case fat_next (secs (dev s)) (log_fs s) cl of None \<Rightarrow> r \<noteq> 0 | Some v \<Rightarrow> r = 0 \<and> nx = v"
    by (rule log_fat_next_ok [OF Suc.prems])
  note f = fat_step_facts [OF n(2)]
  show ?case
  proof (cases "fat_next (secs (dev s)) (log_fs s) cl")
    case None
    then show ?thesis using n by auto
  next
    case (Some v)
    obtain s2 where "cluster_walk b n v s1 = (nth_cluster (secs (dev s1)) (log_fs s1) n v, s2)" "fat_step s1 s2"
      using Suc.IH [of s1 v] f Suc.prems by auto
    then show ?thesis using n Some f fat_step_trans [OF n(2)] by auto
  qed
qed

text \<open>The loader finds the sector that the FAT gives, and does not change the card.\<close>

lemma log_file_lba_ok:
  assumes "vol_ok (log_fs s)" "fat_cached s"
  shows "\<exists>s'. log_file_lba b k s = (file_lba (secs (dev s)) (log_fs s) (log_file s) k, s') \<and> fat_step s s'"
proof -
  define cs where "cs = (ucast (csize (log_fs s)) :: u32)"
  obtain s' where w: "cluster_walk b (unat (k div cs)) (sclust (log_file s)) s =
      (nth_cluster (secs (dev s)) (log_fs s) (unat (k div cs)) (sclust (log_file s)), s')" "fat_step s s'"
    using cluster_walk_ok [OF assms] by blast
  note f = fat_step_facts [OF w(2)]
  show ?thesis
    using w f fat_step_refl [OF assms(2)]
    by (cases "nth_cluster (secs (dev s)) (log_fs s) (unat (k div cs)) (sclust (log_file s))")
      (auto simp: log_file_lba_def file_lba_def Let_def cs_def [symmetric])
qed

lemma flush_current_ok:
  assumes v: "vol_ok (log_fs s)" and c: "fat_cached s" and r: "log_ready s" "log_sector_index s \<noteq> NO_SECTOR"
    and l: "file_lba (secs (dev s)) (log_fs s) (log_file s) (log_sector_index s) = Some lba"
    and n: "length (log_sector s) = 512"
  shows "fat_cached (bootlog_flush_current b s)"
    and "secs (dev (bootlog_flush_current b s)) = (secs (dev s))(lba := log_sector s)"
    and "kept s (bootlog_flush_current b s)"
proof -
  obtain s1 where s1: "log_file_lba b (log_sector_index s) s = (Some lba, s1)" "fat_step s s1"
    using log_file_lba_ok [OF v c] l by metis
  note f = fat_step_facts [OF s1(2)]
  obtain d' where d': "rom_disk_write b (pdrv (log_fs s1)) (log_sector s1) lba
        (rom_cache_flush b (log_sector s1) (dev s1)) = (0, d')"
    "secs d' = (secs (rom_cache_flush b (log_sector s1) (dev s1)))(lba := log_sector s1)"
    using write_ok n f by metis
  have e: "bootlog_flush_current b s = s1\<lparr>dev := d'\<rparr>"
    using r s1(1) d'(1) by (simp add: bootlog_flush_current_def on_dev_def)
  have nf: "\<not> in_fat (log_fs s) lba" by (rule file_lba_data [OF v l])
  show "secs (dev (bootlog_flush_current b s)) = (secs (dev s))(lba := log_sector s)"
    by (simp add: e d'(2) flush_ok f)
  show "fat_cached (bootlog_flush_current b s)"
    using f(4) nf f(1) by (auto simp: e fat_cached_def d'(2) flush_ok)
  show "kept s (bootlog_flush_current b s)"
    using s1(2) by (simp add: e fat_step_def kept_def)
qed

end

context rom_storage begin

text \<open>
  The log is being written into the sectors \<open>L\<close> of the file, as the FAT gives them; all other sectors
  are those of the card \<open>C\<close>.
\<close>

definition log_chain :: "(u32 \<Rightarrow> u8 list) \<Rightarrow> (nat \<Rightarrow> u32) \<Rightarrow> ('m, 'd) loader \<Rightarrow> bool" where
  "log_chain C L s \<longleftrightarrow> log_ready s \<and> vol_ok (log_fs s) \<and> fat_cached s \<and> length (log_sector s) = 512 \<and>
     unat (log_limit s) \<le> 262144 \<and>
     (\<forall>k. 512 * k < unat (log_limit s) \<longrightarrow>
        file_lba (secs (dev s)) (log_fs s) (log_file s) (of_nat k) = Some (L k)) \<and>
     inj_on L {k. 512 * k < unat (log_limit s)} \<and>
     (\<forall>lba. lba \<notin> L ` {k. 512 * k < unat (log_limit s)} \<longrightarrow> secs (dev s) lba = C lba)"

text \<open>
  The log of \<open>s\<close> is \<open>tx\<close>: the full sectors are on the card, the sector in progress is in the buffer
  (\<open>log_open\<close>).
\<close>

definition log_base :: "(u32 \<Rightarrow> u8 list) \<Rightarrow> (nat \<Rightarrow> u32) \<Rightarrow> u8 list \<Rightarrow> ('m, 'd) loader \<Rightarrow> bool" where
  "log_base C L tx s \<longleftrightarrow> log_chain C L s \<and> unat (log_pos s) = length tx \<and> length tx \<le> unat (log_limit s) \<and>
     (\<forall>k. 512 * k + 512 \<le> length tx \<longrightarrow> secs (dev s) (L k) = take 512 (drop (512 * k) tx))"

definition log_open :: "(u32 \<Rightarrow> u8 list) \<Rightarrow> (nat \<Rightarrow> u32) \<Rightarrow> u8 list \<Rightarrow> ('m, 'd) loader \<Rightarrow> bool" where
  "log_open C L tx s \<longleftrightarrow> log_base C L tx s \<and> log_sector_index s = of_nat (length tx div 512) \<and>
     take (length tx mod 512) (log_sector s) = drop (512 * (length tx div 512)) tx"

definition log_shows :: "(u32 \<Rightarrow> u8 list) \<Rightarrow> (nat \<Rightarrow> u32) \<Rightarrow> u8 list \<Rightarrow> ('m, 'd) loader \<Rightarrow> bool" where
  "log_shows C L tx s \<longleftrightarrow>
     (if length tx mod 512 = 0 then log_base C L tx s \<and> log_sector_index s = NO_SECTOR else log_open C L tx s)"

lemma small_index: "n < 262144 \<Longrightarrow> (of_nat (n div 512) :: u32) \<noteq> NO_SECTOR"
proof
  assume n: "n < 262144" and e: "(of_nat (n div 512) :: u32) = NO_SECTOR"
  have "unat (of_nat (n div 512) :: u32) = n div 512" by (rule unat_of_nat_32) (use n in simp)
  then show False using n unfolding e by simp
qed

lemma flush_chain:
  assumes c: "log_chain C L s" and q: "log_sector_index s = of_nat q" "512 * q < unat (log_limit s)"
  defines "s' \<equiv> bootlog_flush_current b s"
  shows "log_chain C L s' \<and> secs (dev s') = (secs (dev s))(L q := log_sector s) \<and> kept s s'"
proof -
  have lba: "file_lba (secs (dev s)) (log_fs s) (log_file s) (log_sector_index s) = Some (L q)"
    using c q by (simp add: log_chain_def)
  have ix: "log_sector_index s \<noteq> NO_SECTOR"
    using c q small_index [of "512 * q"] by (simp add: log_chain_def)
  have f: "fat_cached s'" "secs (dev s') = (secs (dev s))(L q := log_sector s)" "kept s s'"
    using flush_current_ok [OF _ _ _ ix lba] c by (simp_all add: s'_def log_chain_def)
  have nfat: "\<not> in_fat (log_fs s) (L q)"
    by (rule file_lba_data [OF _ lba]) (use c in \<open>simp add: log_chain_def\<close>)
  have "file_lba (secs (dev s')) (log_fs s) (log_file s) k = file_lba (secs (dev s)) (log_fs s) (log_file s) k" for k
    by (rule file_lba_cong) (use c nfat in \<open>auto simp: log_chain_def f(2)\<close>)
  then show ?thesis using f c q(2) by (auto simp: log_chain_def kept_def)
qed

lemma chain_distinct: "log_chain C L s \<Longrightarrow> 512 * k < unat (log_limit s) \<Longrightarrow> 512 * q < unat (log_limit s) \<Longrightarrow>
    k \<noteq> q \<Longrightarrow> L k \<noteq> L q"
  unfolding log_chain_def inj_on_def by blast

lemma open_sector_ok:
  assumes s: "log_shows C L tx s" and n: "length tx < unat (log_limit s)"
  shows "log_open C L tx (bootlog_open_sector b (log_pos s div 512) s) \<and>
    log_limit (bootlog_open_sector b (log_pos s div 512) s) = log_limit s"
proof -
  have base: "log_base C L tx s" using s by (auto simp: log_shows_def log_open_def split: if_splits)
  then have pos: "unat (log_pos s) = length tx" "length tx < 262144" using n by (auto simp: log_base_def log_chain_def)
  have div: "log_pos s div 512 = of_nat (length tx div 512)"
    using pos by (simp add: word_arith_nat_div)
  show ?thesis
  proof (cases "length tx mod 512 = 0")
    case True
    then have i: "log_sector_index s = NO_SECTOR" using s by (simp add: log_shows_def)
    then have "bootlog_flush_current b s = s" by (simp add: bootlog_flush_current_def)
    then have e: "bootlog_open_sector b (log_pos s div 512) s =
        s\<lparr>log_sector := zero_sector (log_sector s), log_sector_index := of_nat (length tx div 512)\<rparr>"
      unfolding bootlog_open_sector_def div i using small_index [OF pos(2)] by simp
    show ?thesis
      using base True unfolding e
      by (auto simp: log_open_def log_base_def log_chain_def zero_sector_def fat_cached_def mult.commute)
  next
    case False
    then have o: "log_open C L tx s" using s by (simp add: log_shows_def)
    then have "bootlog_open_sector b (log_pos s div 512) s = s"
      unfolding bootlog_open_sector_def div by (simp add: log_open_def)
    then show ?thesis using o by simp
  qed
qed

lemma putc_ok:
  assumes s: "log_shows C L tx s" and n: "length tx < unat (log_limit s)"
  shows "log_shows C L (tx @ [ch]) (bootlog_putc b ch s) \<and> log_limit (bootlog_putc b ch s) = log_limit s"
proof -
  define s1 where "s1 = bootlog_open_sector b (log_pos s div 512) s"
  have o: "log_open C L tx s1" "log_limit s1 = log_limit s"
    using open_sector_ok [OF s n] by (simp_all add: s1_def)
  then have base: "log_base C L tx s1" by (simp add: log_open_def)
  define q r where "q = length tx div 512" and "r = length tx mod 512"
  have qr: "length tx = 512 * q + r" "r < 512" by (auto simp: q_def r_def)
  have lim: "length tx < 262144" using n base by (simp add: o log_base_def log_chain_def)
  have pos: "unat (log_pos s1) = length tx" "length (log_sector s1) = 512" using base by (auto simp: log_base_def log_chain_def)
  have off: "unat (log_pos s1 mod 512) = r" using pos by (simp add: unat_mod r_def)
  have off1: "log_pos s1 mod 512 + 1 < 512 \<longleftrightarrow> r + 1 < 512" "unat (log_pos s1 mod 512 + 1) = r + 1"
    using off qr(2) unat_add_32 [of "log_pos s1 mod 512" 1] by (auto simp: word_less_nat_alt)
  have pos1: "unat (log_pos s1 + 1) = length tx + 1"
    using pos lim unat_add_32 [of "log_pos s1" 1] by simp
  have wrap: "(log_pos s1 + 1) mod 512 = 0 \<longleftrightarrow> r = 511"
    using pos1 qr by (auto simp: word_unat_eq_iff unat_mod) presburger+
  define sec where "sec = (log_sector s1)[r := ch]"
  have sec: "length sec = 512" "take (Suc r) sec = drop (512 * q) (tx @ [ch])"
  proof -
    show "length sec = 512" using pos by (simp add: sec_def)
    have "take r (log_sector s1) = drop (512 * q) tx" using o(1) by (simp add: log_open_def q_def r_def)
    then show "take (Suc r) sec = drop (512 * q) (tx @ [ch])"
      using pos qr by (simp add: sec_def take_Suc_conv_app_nth)
  qed
  define s2 where "s2 = s1\<lparr>log_sector := sec, log_pos := log_pos s1 + 1\<rparr>"
  have go: "bootlog_putc b ch s = (if r = 511 then (bootlog_flush_current b s2)\<lparr>log_sector_index := NO_SECTOR\<rparr>
      else s2\<lparr>log_sector := sec[r + 1 := 0]\<rparr>)"
  proof -
    have "\<not> (\<not> log_ready s \<or> log_pos s \<ge> log_limit s)"
      using s n by (auto simp: log_shows_def log_open_def log_base_def log_chain_def word_le_nat_alt split: if_splits)
    then show ?thesis
      using wrap off off1 qr(2) unfolding bootlog_putc_def s1_def [symmetric] Let_def
      by (auto simp: s2_def sec_def)
  qed
  have keep: "secs (dev s1) (L k) = take 512 (drop (512 * k) (tx @ [ch]))" if "512 * k + 512 \<le> length tx" for k
    using base that by (auto simp: log_base_def)
  have q_lim: "512 * q < unat (log_limit s1)" using n qr o(2) by simp
  have idx: "log_sector_index s1 = of_nat q" using o(1) by (simp add: log_open_def q_def)
  show ?thesis
  proof (cases "r = 511")
    case True
    define s3 where "s3 = bootlog_flush_current b s2"
    have "log_chain C L s2" using base sec(1) by (simp add: log_base_def log_chain_def s2_def fat_cached_def)
    from flush_chain [OF this, of q] have f: "log_chain C L s3" "secs (dev s3) = (secs (dev s1))(L q := sec)" "kept s2 s3"
      using idx q_lim by (simp_all add: s2_def s3_def)
    have full: "sec = drop (512 * q) (tx @ [ch])" using sec True by simp
    have len: "length (tx @ [ch]) = 512 * (q + 1)" using qr True by simp
    have card: "secs (dev s3) (L k) = take 512 (drop (512 * k) (tx @ [ch]))"
      if "512 * k + 512 \<le> length (tx @ [ch])" for k
    proof (cases "k = q")
      case True
      then show ?thesis using full len by (simp add: f(2))
    next
      case False
      then have k: "512 * k + 512 \<le> length tx" using that len qr by auto
      have "512 * k < unat (log_limit s1)" using k n o(2) by simp
      then have "L k \<noteq> L q"
        using base q_lim False chain_distinct [of C L s1 k q] by (simp add: log_base_def)
      then show ?thesis using keep [OF k] by (simp add: f(2))
    qed
    have "log_base C L (tx @ [ch]) (s3\<lparr>log_sector_index := NO_SECTOR\<rparr>)"
      using f card pos1 n o(2) by (simp add: log_base_def log_chain_def kept_def s2_def fat_cached_def)
    moreover have "bootlog_putc b ch s = s3\<lparr>log_sector_index := NO_SECTOR\<rparr>" using go True by (simp add: s3_def)
    moreover have "log_limit s3 = log_limit s" using f(3) o(2) by (simp add: kept_def s2_def)
    ultimately show ?thesis using len by (simp add: log_shows_def)
  next
    case False
    have m: "length (tx @ [ch]) mod 512 = r + 1" "length (tx @ [ch]) div 512 = q" using qr False by auto
    have whole: "512 * k + 512 \<le> length tx" if "512 * k + 512 \<le> length (tx @ [ch])" for k
      using that qr False by (cases "k < q") auto
    have "log_base C L (tx @ [ch]) (s2\<lparr>log_sector := sec[r + 1 := 0]\<rparr>)"
      using base pos1 n o(2) sec(1) keep [OF whole] by (simp add: log_base_def log_chain_def s2_def fat_cached_def)
    then show ?thesis
      using go False m idx sec(2) o(2) by (simp add: log_shows_def log_open_def s2_def)
  qed
qed

lemma bytes_ok:
  assumes "log_shows C L tx s"
  shows "log_shows C L (take (unat (log_limit s)) (tx @ xs)) (bootlog_bytes b xs s) \<and>
    log_limit (bootlog_bytes b xs s) = log_limit s"
  using assms
proof (induction xs arbitrary: tx s)
  case Nil
  then have "length tx \<le> unat (log_limit s)"
    by (auto simp: log_shows_def log_open_def log_base_def split: if_splits)
  then show ?case using Nil by (simp add: bootlog_bytes_def)
next
  case (Cons x xs)
  have le: "length tx \<le> unat (log_limit s)" "unat (log_pos s) = length tx"
    using Cons.prems by (auto simp: log_shows_def log_open_def log_base_def split: if_splits)
  show ?case
  proof (cases "length tx < unat (log_limit s)")
    case True
    then show ?thesis
      using putc_ok [OF Cons.prems True, of x] Cons.IH [of "tx @ [x]" "bootlog_putc b x s"]
      by (simp add: bootlog_bytes_def)
  next
    case False
    then have "bootlog_putc b x s = s" using le by (simp add: bootlog_putc_def word_le_nat_alt)
    moreover have "take (unat (log_limit s)) (tx @ ys) = tx" for ys using False le by simp
    ultimately show ?thesis using Cons.IH [OF Cons.prems] by (simp add: bootlog_bytes_def)
  qed
qed

text \<open>What is on the card after a flush.\<close>

lemma flush_on_card:
  assumes s: "log_shows C L tx s"
  defines "s' \<equiv> bootlog_flush b s"
  shows "log_base C L tx s' \<and> log_limit s' = log_limit s \<and> (\<forall>i < length tx. secs (dev s') (L (i div 512)) ! (i mod 512) = tx ! i) \<and>
    (length tx mod 512 \<noteq> 0 \<longrightarrow> secs (dev s') (L (length tx div 512)) ! (length tx mod 512) = 0)"
proof -
  have full: "secs (dev t) (L (i div 512)) ! (i mod 512) = tx ! i"
    if "log_base C L tx t" "512 * (i div 512) + 512 \<le> length tx" for t i
  proof -
    have "secs (dev t) (L (i div 512)) = take 512 (drop (512 * (i div 512)) tx)"
      using that by (auto simp: log_base_def)
    then show ?thesis using that(2) by (simp add: mult_div_mod_eq)
  qed
  show ?thesis
  proof (cases "length tx mod 512 = 0")
    case True
    then have b: "log_base C L tx s" "s' = s"
      using s by (auto simp: log_shows_def s'_def bootlog_flush_def)
    obtain K where K: "length tx = K * 512" using True by (metis mod_0_imp_dvd dvd_def mult.commute)
    have "512 * (i div 512) + 512 \<le> length tx" if "i < length tx" for i
      using less_mult_imp_div_less [of i K 512] that K by simp
    then show ?thesis using full [OF b(1)] b True by simp
  next
    case False
    define q r where "q = length tx div 512" and "r = length tx mod 512"
    have qr: "length tx = 512 * q + r" "0 < r" "r < 512" using False by (auto simp: q_def r_def)
    have o: "log_open C L tx s" using s False by (simp add: log_shows_def)
    then have base: "log_base C L tx s" and idx: "log_sector_index s = of_nat q"
      and buf: "take r (log_sector s) = drop (512 * q) tx"
      by (simp_all add: log_open_def q_def r_def)
    have lim: "length tx \<le> unat (log_limit s)" "length tx \<le> 262144" "unat (log_pos s) = length tx"
      "length (log_sector s) = 512" using base by (auto simp: log_base_def log_chain_def)
    have ix: "(of_nat q :: u32) \<noteq> NO_SECTOR"
    proof -
      have "length tx \<noteq> 262144" using False by auto
      then have "length tx < 262144" using lim(2) by simp
      then show ?thesis using small_index q_def by blast
    qed
    define s2 where "s2 = s\<lparr>log_sector := (log_sector s)[r := 0]\<rparr>"
    have off: "unat (log_pos s mod 512) = r" using lim by (simp add: unat_mod r_def)
    have s': "s' = bootlog_flush_current b s2"
    proof -
      have "log_pos s mod 512 < 512" by (simp add: word_less_nat_alt off qr)
      then show ?thesis
        using base idx ix off by (simp add: s'_def bootlog_flush_def s2_def log_base_def log_chain_def Let_def)
    qed
    have q_lim: "512 * q < unat (log_limit s)" using lim qr by simp
    have "log_chain C L s2" using base by (simp add: log_base_def log_chain_def s2_def fat_cached_def)
    from flush_chain [OF this, of q]
    have f: "log_chain C L s'" "secs (dev s') = (secs (dev s))(L q := (log_sector s)[r := 0])" "kept s2 s'"
      using idx q_lim by (simp_all add: s2_def s')
    have other: "L k \<noteq> L q" if "512 * k + 512 \<le> length tx" for k
      by (rule chain_distinct) (use base q_lim that qr lim in \<open>auto simp: log_base_def\<close>)
    have b': "log_base C L tx s'"
      using f base other lim by (simp add: log_base_def kept_def s2_def)
    have "secs (dev s') (L (i div 512)) ! (i mod 512) = tx ! i" if i: "i < length tx" for i
    proof (cases "i div 512 < q")
      case True
      then show ?thesis using full [OF b'] qr by simp
    next
      case False
      have "i div 512 \<le> q" using i by (simp add: q_def div_le_mono)
      then have iq: "i div 512 = q" using False by simp
      then have ir: "i mod 512 < r" "512 * q + i mod 512 = i"
        using i qr(1) mult_div_mod_eq [of 512 i] by auto
      then have "log_sector s ! (i mod 512) = drop (512 * q) tx ! (i mod 512)"
        using buf ir(1) by (metis nth_take)
      also have "\<dots> = tx ! i" using ir i by simp
      finally show ?thesis using iq ir(1) by (simp add: f(2))
    qed
    moreover have "secs (dev s') (L q) ! r = 0" using lim(4) qr by (simp add: f(2))
    moreover have "log_limit s' = log_limit s" using f(3) by (simp add: kept_def s2_def)
    ultimately show ?thesis using b' by (simp add: q_def r_def)
  qed
qed

end

section \<open>A card in memory\<close>

record sd_board =
  sd_sectors :: "u32 \<Rightarrow> u8 list"
  sd_regs :: "u32 \<Rightarrow> u32"
  sd_cp0 :: "nat \<times> nat \<Rightarrow> u32"
  sd_fs :: fatfs
  sd_fil :: fil

text \<open>The count register (9, 0) advances on every read.\<close>

definition sd_card :: "sd_board board" where
  "sd_card =
     \<lparr>io_rd8 = (\<lambda>a d. (ucast (sd_regs d a), d)),
      io_wr8 = (\<lambda>a v d. d\<lparr>sd_regs := (sd_regs d)(a := ucast v)\<rparr>),
      mmio_read32 = (\<lambda>a d. (sd_regs d a, d)),
      mmio_write32 = (\<lambda>a v d. d\<lparr>sd_regs := (sd_regs d)(a := v)\<rparr>),
      mfc0 = (\<lambda>r sel d. (sd_cp0 d (r, sel),
         if r = 9 \<and> sel = 0 then d\<lparr>sd_cp0 := (sd_cp0 d)((9, 0) := sd_cp0 d (9, 0) + 0x1000000)\<rparr> else d)),
      mtc0 = (\<lambda>r sel v d. d\<lparr>sd_cp0 := (sd_cp0 d)((r, sel) := v)\<rparr>),
      rom_f_mount = (\<lambda>_ d. (0, sd_fs d, d)),
      rom_f_open = (\<lambda>_ _ d. (0, sd_fil d, d)),
      rom_disk_read = (\<lambda>_ _ lba d. (0, sd_sectors d lba, d)),
      rom_disk_write = (\<lambda>_ buf lba d. (0, d\<lparr>sd_sectors := (sd_sectors d)(lba := buf)\<rparr>)),
      rom_cache_flush = (\<lambda>_ d. d),
      str_addr = (\<lambda>_. 0)\<rparr>"

interpretation sd: rom_storage sd_card sd_sectors
  by unfold_locales (simp_all add: sd_card_def)

text \<open>
  C4. What the loader logs is what is in the file: after a flush the sectors of \<open>log.txt\<close>, in the order of
  its cluster chain, hold the bytes logged (as many as fit) and a NUL after them, and no other sector
  of the card has changed.
\<close>

theorem bootlog_text_on_card:
  fixes s :: "('m, 'd) loader"
  assumes card: "rom_storage b secs"
    and vol: "vol_ok (log_fs s)"
    and start: "log_ready s" "log_pos s = 0" "log_sector_index s = 0xffffffff" "log_fat_lba s = 0xffffffff"
      "length (log_sector s) = 512" "unat (log_limit s) \<le> 262144"
    and chain: "\<And>k. 512 * k < unat (log_limit s) \<Longrightarrow>
      file_lba (secs (dev s)) (log_fs s) (log_file s) (of_nat k) = Some (L k)"
    and distinct: "inj_on L {k. 512 * k < unat (log_limit s)}"
  shows "let s' = bootlog_flush b (bootlog_bytes b xs s); tx = take (unat (log_limit s)) xs
     in (\<forall>i < length tx. secs (dev s') (L (i div 512)) ! (i mod 512) = tx ! i) \<and>
        (length tx mod 512 \<noteq> 0 \<longrightarrow> secs (dev s') (L (length tx div 512)) ! (length tx mod 512) = 0) \<and>
        (\<forall>lba. lba \<notin> L ` {k. 512 * k < unat (log_limit s)} \<longrightarrow> secs (dev s') lba = secs (dev s) lba)"
proof -
  have "rom_storage.log_shows secs (secs (dev s)) L [] s"
    using assms
    by (simp add: rom_storage.log_shows_def [OF card] rom_storage.log_base_def [OF card]
        rom_storage.log_chain_def [OF card] rom_storage.fat_cached_def [OF card])
  from rom_storage.bytes_ok [OF card this, of xs]
  have sh: "rom_storage.log_shows secs (secs (dev s)) L (take (unat (log_limit s)) xs) (bootlog_bytes b xs s)"
    and lim: "log_limit (bootlog_bytes b xs s) = log_limit s" by simp_all
  note f = rom_storage.flush_on_card [OF card sh]
  then show ?thesis
    using lim by (simp add: Let_def rom_storage.log_base_def [OF card] rom_storage.log_chain_def [OF card])
qed

definition bootlog_example :: "(unit, sd_board) loader" where
  "bootlog_example =
     \<lparr>mach = (), dev = \<lparr>sd_sectors = (\<lambda>lba. if lba = 10 then (replicate 512 0)[4 := 3, 6 := 0xff, 7 := 0xff] else replicate 512 0),
        sd_regs = (\<lambda>_. 0x20), sd_cp0 = (\<lambda>_. 0),
        sd_fs = \<lparr>fs_type = 2, pdrv = 0, csize = 1, n_fatent = 8, fatbase = 10, database = 20\<rparr>,
        sd_fil = \<lparr>obj_fs_null = False, sclust = 2, objsize = 1024\<rparr>\<rparr>,
      log_fs = \<lparr>fs_type = 2, pdrv = 0, csize = 1, n_fatent = 8, fatbase = 10, database = 20\<rparr>,
      log_file = \<lparr>obj_fs_null = False, sclust = 2, objsize = 1024\<rparr>,
      log_sector = replicate 512 0, log_fat_sector = replicate 512 0, log_live_sector = replicate 512 0,
      log_fat_lba = NO_SECTOR, log_sector_index = NO_SECTOR, log_pos = 0, log_limit = 1024,
      log_ready = True, log_tried = True,
      plog = \<lparr>pl_magic = 0, pl_version = 0, pl_seq = 0, pl_write_index = 0, pl_wrapped = 0,
        pl_reserved = [0, 0, 0], pl_entries = []\<rparr>,
      health_blink_done = False\<rparr>"

lemma bootlog_example_chain:
  "512 * k < 1024 \<Longrightarrow> file_lba (sd_sectors (dev bootlog_example)) (log_fs bootlog_example)
     (log_file bootlog_example) (of_nat k) = Some (20 + of_nat k)"
proof -
  assume "512 * k < 1024"
  then have "k = 0 \<or> k = 1" by auto
  then show ?thesis
    by (auto simp: bootlog_example_def file_lba_def fat_next_def le16_def le16_of_def Let_def)
qed

theorem bootlog_text_on_card_witness:
  "let s' = bootlog_flush sd_card (bootlog_bytes sd_card (replicate 600 65) bootlog_example)
   in sd_sectors (dev s') 20 ! 511 = 65 \<and> sd_sectors (dev s') 21 ! 87 = 65 \<and> sd_sectors (dev s') 21 ! 88 = 0"
proof -
  define s' where "s' = bootlog_flush sd_card (bootlog_bytes sd_card (replicate 600 65) bootlog_example)"
  have lim: "unat (log_limit bootlog_example) = 1024" by (simp add: bootlog_example_def)
  have "let s' = bootlog_flush sd_card (bootlog_bytes sd_card (replicate 600 65) bootlog_example);
       tx = take (unat (log_limit bootlog_example)) (replicate 600 (65 :: u8))
     in (\<forall>i < length tx. sd_sectors (dev s') (20 + of_nat (i div 512)) ! (i mod 512) = tx ! i) \<and>
        (length tx mod 512 \<noteq> 0 \<longrightarrow> sd_sectors (dev s') (20 + of_nat (length tx div 512)) ! (length tx mod 512) = 0) \<and>
        (\<forall>lba. lba \<notin> (\<lambda>k. 20 + of_nat k) ` {k. 512 * k < unat (log_limit bootlog_example)} \<longrightarrow>
          sd_sectors (dev s') lba = sd_sectors (dev bootlog_example) lba)"
  proof (rule bootlog_text_on_card [OF sd.rom_storage_axioms])
    show "vol_ok (log_fs bootlog_example)" by (simp add: bootlog_example_def vol_ok_def)
    show "inj_on (\<lambda>k. 20 + of_nat k :: u32) {k. 512 * k < unat (log_limit bootlog_example)}"
      unfolding lim by (rule inj_onI) (auto simp: less_Suc_eq numeral_2_eq_2 dest: sym)
  qed (simp_all add: bootlog_example_chain lim, simp_all add: bootlog_example_def)
  then have "(\<forall>i < 600. sd_sectors (dev s') (20 + of_nat (i div 512)) ! (i mod 512) = replicate 600 65 ! i)"
    "sd_sectors (dev s') (20 + of_nat (600 div 512)) ! (600 mod 512) = 0"
    by (simp_all add: lim Let_def s'_def)
  from this(1) [rule_format, of 511] this(1) [rule_format, of 599] this(2)
  show ?thesis by (simp add: s'_def [symmetric] Let_def)
qed

end
