(* ===== verification/LoaderPlace.thy ===== *)
theory LoaderPlace
  imports Loader LogFile
begin

text \<open>
  Placing the kernel, \<^verbatim>\<open>src/boot/linux-loader.c\<close>: the sequence of sweeps, copies, flushes, verification
  and invalidations of \<open>linux_loader_main_impl\<close>, proved to leave the kernel and the device tree in
  memory and out of both caches, for every replacement policy and every stale cache content outside the
  payload; and where the checks and the verification fail.
\<close>

section \<open>The layout\<close>

text \<open>
  Where everything lies: the image of \<open>sz\<close> bytes at \<open>bp\<close>, the device tree of \<open>dn\<close> bytes at \<open>db\<close>, its
  destination \<open>dd\<close> above both and above the load window, which starts at \<open>lo\<close>. The segments do not
  overlap each other nor the payload; they and the end of the file part before a zero part are word
  aligned; the headers are in lines below the load window.
\<close>

definition layout_ok :: "(nat \<Rightarrow> u8) \<Rightarrow> nat \<Rightarrow> nat \<Rightarrow> nat \<Rightarrow> nat \<Rightarrow> nat \<Rightarrow> nat \<Rightarrow> nat \<Rightarrow> bool" where
  "layout_ok v bp sz db dn dd lo hi \<longleftrightarrow>
     bp + sz \<le> dd \<and> db + dn \<le> dd \<and> dd + dn \<le> RAM_SIZE \<and> hi \<le> dd \<and> dd mod 4 = 0 \<and>
     (let hs = hdrs v bp
      in (\<forall>i < length hs. \<forall>j < length hs. i \<noteq> j \<longrightarrow> window (hs ! i) \<inter> window (hs ! j) = {}) \<and>
         (\<forall>h \<in> set hs. window h \<inter> ({bp..<bp + sz} \<union> {db..<db + dn}) = {}) \<and>
         (\<forall>h \<in> set hs. p_type h = PT_LOAD \<longrightarrow> seg_at h mod 4 = 0 \<and> (msz h - fsz h < 4 \<or> fsz h mod 4 = 0)) \<and>
         table_at v bp + 32 * length hs \<le> 32 * (lo div 32) \<and> bp + 52 \<le> 32 * (lo div 32))"

text \<open>
  What the copy alone needs: the image may lie anywhere, also where a segment is loaded, as long as the
  window of a record does not cover the header, the source or the window of a record before it. That is
  what records in ascending order above the image give, and it makes walking them backwards correct: a
  low window may cover the source of a later record, which has been copied by then.
\<close>

definition copy_order_ok :: "(nat \<Rightarrow> u8) \<Rightarrow> nat \<Rightarrow> bool" where
  "copy_order_ok v bp \<longleftrightarrow>
     (let hs = hdrs v bp; tb = table_at v bp
      in \<forall>i < length hs. \<forall>j < i. window (hs ! i) \<inter> (table tb j \<union> source bp (hs ! j) \<union> window (hs ! j)) = {})"

context cached_ram begin

text \<open>The kernel and the device tree are in place, and the payload is as it was.\<close>

definition image_ok :: "'m \<Rightarrow> (nat \<Rightarrow> u8) \<Rightarrow> nat \<Rightarrow> nat \<Rightarrow> nat \<Rightarrow> nat \<Rightarrow> nat \<Rightarrow> bool" where
  "image_ok m v bp sz db dn dd \<longleftrightarrow> inv m \<and>
     (\<forall>h \<in> set (hdrs v bp). \<forall>p \<in> window h. solid m p \<and> view m p = content v bp h p) \<and>
     (\<forall>j < dn. solid m (dd + j) \<and> view m (dd + j) = v (db + j)) \<and>
     (\<forall>p \<in> {bp..<bp + sz} \<union> {db..<db + dn}. solid m p \<and> view m p = v p \<and> ram m p = v p)"

lemma image_ok_settled: "image_ok m v bp sz db dn dd \<Longrightarrow> settled m m' X Y \<Longrightarrow> image_ok m' v bp sz db dn dd"
  by (simp add: image_ok_def settled_def)

lemma image_ok_quiet: "image_ok m v bp sz db dn dd \<Longrightarrow> quiet m m' Q \<Longrightarrow> image_ok m' v bp sz db dn dd"
  by (simp add: image_ok_def quiet_def written_def)

lemma hdrs_nth: "i < length (hdrs v bp) \<Longrightarrow> hdrs v bp ! i = hdr_at v (table_at v bp) i"
  by (simp add: hdrs_def)

text \<open>The copy of the kernel: every window gets the bytes the image had before, and the rest is kept.\<close>

lemma copy_linux_elf_moves:
  assumes m: "inv m" and sz: "52 \<le> sz" "bp + sz \<le> RAM_SIZE"
    and tab: "table_at v bp + 32 * length (hdrs v bp) \<le> bp + sz"
    and ph: "k0 bp + e_phoff (ehdr_at v bp) = k0 (table_at v bp)"
    and src: "\<forall>p \<in> {bp..<bp + sz}. solid m p \<and> view m p = v p"
    and hs: "\<forall>h \<in> set (hdrs v bp). p_type h = PT_LOAD \<longrightarrow> loadable sz h"
    and ord: "copy_order_ok v bp"
  shows "\<exists>f. written m (copy_linux_elf c (k0 bp) m) (\<Union>h \<in> set (hdrs v bp). window h) f \<and>
    (\<forall>h \<in> set (hdrs v bp). \<forall>p \<in> window h. f p = content v bp h p)"
proof -
  define tb n H where "tb = table_at v bp" and "n = length (hdrs v bp)" and "H = hdr_at v (table_at v bp)"
  have hn: "hdrs v bp ! i = H i" if "i < n" for i using that by (simp add: n_def H_def hdrs_nth)
  have inH: "H i \<in> set (hdrs v bp)" if "i < n" for i
    using that nth_mem [of i "hdrs v bp"] by (simp add: hn [symmetric] n_def)
  have dis: "window (H i) \<inter> (table tb j \<union> source bp (H j) \<union> window (H j)) = {}" if "i < n" "j < i" for i j
    using ord [unfolded copy_order_ok_def Let_def, rule_format, of i j] that hn [of i] hn [of j]
    by (simp add: n_def tb_def)
  define f where "f p = content v bp (H (LEAST i. p \<in> window (H i))) p" for p
  have f: "f p = content v bp (H i) p" if "i < n" "p \<in> window (H i)" for i p
  proof -
    have "(LEAST i. p \<in> window (H i)) \<le> i" "p \<in> window (H (LEAST i. p \<in> window (H i)))"
      using that(2) by (rule Least_le, rule LeastI)
    then have "(LEAST i. p \<in> window (H i)) = i"
      using dis [of i "LEAST i. p \<in> window (H i)"] that by (cases "(LEAST i. p \<in> window (H i)) = i") auto
    then show ?thesis by (simp add: f_def)
  qed
  obtain m2 where m2: "read_ehdr c (k0 bp) m = (ehdr_at (view m) bp, m2)" "quiet m m2 {bp..<bp + 52}"
    using read_ehdr_quiet [OF m, of bp] src sz by auto
  have eh: "ehdr_at (view m) bp = ehdr_at v bp" by (rule ehdr_at_cong) (use src sz in auto)
  have k2: "solid m2 p \<and> view m2 p = v p" if "p \<in> {bp..<bp + sz}" for p
    using src that quiet_view [OF m2(2)] by auto
  have sub: "table tb i \<union> source bp (H i) \<subseteq> {bp..<bp + sz}" "tb + 32 * i + 32 \<le> RAM_SIZE" if "i < n" for i
    using tab that sz(2) hs inH [OF that]
    by (auto simp: table_def source_def loadable_def tb_def n_def table_at_def split: if_splits)
  have n: "unat (e_phnum (ehdr_at v bp)) = n" by (simp add: n_def hdrs_def)
  define m3 where "m3 = copy_loop c (k0 bp) (k0 tb) (rev [0..<n]) m2"
  have w3: "written m2 m3 (\<Union>i \<in> set (rev [0..<n]). window (H i)) f"
    unfolding m3_def
  proof (rule copy_loop_written [OF quiet_inv [OF m2(2)] sz(2), where v = v])
    show "sorted_wrt (\<lambda>i j. window (H i) \<inter> (table tb j \<union> source bp (H j) \<union> window (H j)) = {}) (rev [0..<n])"
      using dis by (auto simp: sorted_wrt_iff_nth_less rev_nth)
    show "\<forall>i \<in> set (rev [0..<n]). tb + 32 * i + 32 \<le> RAM_SIZE \<and> (p_type (H i) = PT_LOAD \<longrightarrow> loadable sz (H i)) \<and>
      hdr_at v tb i = H i \<and> (\<forall>p \<in> table tb i \<union> source bp (H i). solid m2 p \<and> view m2 p = v p)"
    proof (intro ballI conjI)
      fix i assume "i \<in> set (rev [0..<n])"
      then have i: "i < n" by simp
      show "tb + 32 * i + 32 \<le> RAM_SIZE" by (rule sub(2) [OF i])
      show "p_type (H i) = PT_LOAD \<longrightarrow> loadable sz (H i)" using hs inH [OF i] by blast
      show "hdr_at v tb i = H i" by (simp add: tb_def H_def)
      show "solid m2 p" "view m2 p = v p" if "p \<in> table tb i \<union> source bp (H i)" for p
        using k2 [of p] sub(1) [OF i] that by auto
    qed
  qed (use f in auto)
  have "written m m3 (\<Union>i \<in> set (rev [0..<n]). window (H i)) f"
    by (rule written_trans [OF _ w3, of m "{}" "\<lambda>_. 0"]) (use m2(2) in \<open>auto simp: quiet_def\<close>)
  moreover have "(\<Union>i \<in> set (rev [0..<n]). window (H i)) = (\<Union>h \<in> set (hdrs v bp). window h)"
  proof -
    have "set (hdrs v bp) = H ` set (rev [0..<n])" by (simp add: H_def n_def hdrs_def)
    then show ?thesis by simp
  qed
  moreover have "copy_linux_elf c (k0 bp) m = m3"
    by (simp add: copy_linux_elf_def m2(1) eh ph n m3_def tb_def)
  moreover have "\<forall>h \<in> set (hdrs v bp). \<forall>p \<in> window h. f p = content v bp h p"
    using f hn by (auto simp: in_set_conv_nth n_def)
  ultimately show ?thesis by auto
qed

text \<open>A layout without any overlap is in order.\<close>

lemma layout_copy_order:
  assumes lay: "layout_ok v bp sz db dn dd lo hi"
    and tab: "table_at v bp + 32 * length (hdrs v bp) \<le> bp + sz"
    and hs: "\<forall>h \<in> set (hdrs v bp). p_type h = PT_LOAD \<longrightarrow> loadable sz h"
  shows "copy_order_ok v bp"
  unfolding copy_order_ok_def Let_def
proof (intro allI impI)
  fix i j assume i: "i < length (hdrs v bp)" and j: "j < i"
  have h: "hdrs v bp ! i \<in> set (hdrs v bp)" "hdrs v bp ! j \<in> set (hdrs v bp)" using i j by simp_all
  have "window (hdrs v bp ! i) \<inter> window (hdrs v bp ! j) = {}" "window (hdrs v bp ! i) \<inter> {bp..<bp + sz} = {}"
    using lay i j h(1) unfolding layout_ok_def Let_def by (metis less_irrefl less_trans, blast)
  moreover have "table (table_at v bp) j \<union> source bp (hdrs v bp ! j) \<subseteq> {bp..<bp + sz}"
    using tab i j hs h(2) by (auto simp: table_def source_def loadable_def table_at_def split: if_splits)
  ultimately show "window (hdrs v bp ! i) \<inter>
      (table (table_at v bp) j \<union> source bp (hdrs v bp ! j) \<union> window (hdrs v bp ! j)) = {}" by blast
qed

text \<open>The copies, of the device tree and then of the kernel.\<close>

lemma copies_ok:
  assumes m: "inv m" and lay: "layout_ok v bp sz db dn dd lo hi" and sz: "52 \<le> sz"
    and tab: "table_at v bp + 32 * length (hdrs v bp) \<le> bp + sz"
    and ph: "k0 bp + e_phoff (ehdr_at v bp) = k0 (table_at v bp)"
    and src: "\<forall>p \<in> {bp..<bp + sz} \<union> {db..<db + dn}. solid m p \<and> view m p = v p \<and> ram m p = v p"
    and hs: "\<forall>h \<in> set (hdrs v bp). p_type h = PT_LOAD \<longrightarrow> loadable sz h \<and> seg_at h + msz h \<le> hi"
  shows "image_ok (copy_linux_elf c (k0 bp) (copy_forward c (k0 dd) (k0 db) dn m)) v bp sz db dn dd"
proof -
  let ?W = "\<Union>h \<in> set (hdrs v bp). window h"
  have L: "bp + sz \<le> dd" "db + dn \<le> dd" "dd + dn \<le> RAM_SIZE" "hi \<le> dd"
    "\<forall>h \<in> set (hdrs v bp). window h \<inter> ({bp..<bp + sz} \<union> {db..<db + dn}) = {}"
    using lay unfolding layout_ok_def Let_def by blast+
  define m1 where "m1 = copy_forward c (k0 dd) (k0 db) dn m"
  have w1: "written m m1 {dd..<dd + dn} (\<lambda>p. view m (db + (p - dd)))"
    unfolding m1_def by (rule copy_forward_written [OF m]) (use L src in auto)
  have k1: "solid m1 p \<and> view m1 p = v p \<and> ram m1 p = v p" if "p \<in> {bp..<bp + sz} \<union> {db..<db + dn}" for p
    using w1 src that L(1,2) by (auto simp: written_def)
  have ld: "\<forall>h \<in> set (hdrs v bp). p_type h = PT_LOAD \<longrightarrow> loadable sz h" using hs by blast
  obtain f where f: "written m1 (copy_linux_elf c (k0 bp) m1) ?W f"
    "\<forall>h \<in> set (hdrs v bp). \<forall>p \<in> window h. f p = content v bp h p"
    using copy_linux_elf_moves [OF _ sz _ tab ph _ ld layout_copy_order [OF lay tab ld], of m1] w1 k1 L(1,3)
    by (auto simp: written_def)
  have out: "dd + j \<notin> ?W" for j using hs L(4) by (fastforce simp: window_def split: if_splits)
  have dtb: "solid m1 (dd + j) \<and> view m1 (dd + j) = v (db + j)" if "j < dn" for j
    using w1 that src by (auto simp: written_def)
  have pay: "p \<notin> ?W" if "p \<in> {bp..<bp + sz} \<union> {db..<db + dn}" for p using L(5) that by blast
  have keep: "solid m3 p \<and> view m3 p = view m1 p \<and> (ram m1 p = view m1 p \<longrightarrow> ram m3 p = ram m1 p)"
    if "written m1 m3 ?W f" "solid m1 p" "p \<notin> ?W" for m3 p
    using that unfolding written_def by blast
  show ?thesis
    unfolding image_ok_def m1_def [symmetric]
  proof (intro conjI ballI allI impI)
    show "inv (copy_linux_elf c (k0 bp) m1)" using f(1) by (simp add: written_def)
    show "solid (copy_linux_elf c (k0 bp) m1) p" "view (copy_linux_elf c (k0 bp) m1) p = content v bp h p"
      if "h \<in> set (hdrs v bp)" "p \<in> window h" for h p
      using f that unfolding written_def by (metis UN_I)+
    show "solid (copy_linux_elf c (k0 bp) m1) (dd + j)" "view (copy_linux_elf c (k0 bp) m1) (dd + j) = v (db + j)"
      if "j < dn" for j
      using keep [OF f(1) _ out] dtb [OF that] by auto
    show "solid (copy_linux_elf c (k0 bp) m1) p" "view (copy_linux_elf c (k0 bp) m1) p = v p"
      "ram (copy_linux_elf c (k0 bp) m1) p = v p" if "p \<in> {bp..<bp + sz} \<union> {db..<db + dn}" for p
      using keep [OF f(1) _ pay [OF that]] k1 [OF that] by auto
  qed
qed

end

section \<open>Verification\<close>

lemma uart_puts_mach [simp]: "mach (uart_puts b str s) = mach s"
  by (simp add: uart_puts_def on_dev_def)

context cached_ram begin

text \<open>The verification of the kernel and of the device tree changes nothing.\<close>

lemma verify_ok:
  fixes s :: "('m, 'd) loader"
  assumes img: "image_ok (mach s) v bp sz db dn dd" and lay: "layout_ok v bp sz db dn dd lo hi" and sz: "52 \<le> sz"
    and tab: "table_at v bp + 32 * length (hdrs v bp) \<le> bp + sz"
    and ph: "k0 bp + e_phoff (ehdr_at v bp) = k0 (table_at v bp)"
    and hs: "\<forall>h \<in> set (hdrs v bp). p_type h = PT_LOAD \<longrightarrow> loadable sz h"
    and nr: "\<forall>h \<in> set (hdrs v bp). \<forall>p \<in> window h. \<not> resident (mach s) p"
  shows "\<exists>m'. verify_repair_linux_elf c b (k0 bp) s = Some (s\<lparr>mach := m'\<rparr>) \<and>
    quiet (mach s) m' {p. p < 32 * (lo div 32)}"
proof -
  define tb n H where "tb = table_at v bp" and "n = length (hdrs v bp)" and "H = hdr_at v (table_at v bp)"
  have inH: "H i \<in> set (hdrs v bp)" if "i < n" for i
    using that nth_mem [of i "hdrs v bp"] by (simp add: n_def H_def hdrs_nth)
  have L: "bp + sz \<le> dd" "dd + dn \<le> RAM_SIZE" "tb + 32 * n \<le> 32 * (lo div 32)" "bp + 52 \<le> 32 * (lo div 32)"
    using lay by (simp_all add: layout_ok_def Let_def tb_def n_def)
  have all: "\<forall>h \<in> set (hdrs v bp). p_type h = PT_LOAD \<longrightarrow> seg_at h mod 4 = 0 \<and> (msz h - fsz h < 4 \<or> fsz h mod 4 = 0)"
    "\<forall>h \<in> set (hdrs v bp). window h \<inter> ({bp..<bp + sz} \<union> {db..<db + dn}) = {}"
    using lay unfolding layout_ok_def Let_def by - (elim conjE, assumption)+
  have La: "p_type h = PT_LOAD \<longrightarrow> seg_at h mod 4 = 0 \<and> (msz h - fsz h < 4 \<or> fsz h mod 4 = 0)"
    "window h \<inter> {bp..<bp + sz} = {}" if "h \<in> set (hdrs v bp)" for h
    using bspec [OF all(1) that] bspec [OF all(2) that] by auto
  have pay: "solid (mach s) p \<and> view (mach s) p = v p \<and> ram (mach s) p = v p" if "p \<in> {bp..<bp + sz}" for p
    using img that by (simp add: image_ok_def)
  have inv0: "inv (mach s)" using img by (simp add: image_ok_def)
  obtain m1 where m1: "read_ehdr c (k0 bp) (mach s) = (ehdr_at (view (mach s)) bp, m1)" "quiet (mach s) m1 {bp..<bp + 52}"
    using read_ehdr_quiet [OF inv0, of bp] pay sz L(1,2) by auto
  have eh: "ehdr_at (view (mach s)) bp = ehdr_at v bp" by (rule ehdr_at_cong) (use pay sz in auto)
  have img1: "image_ok m1 v bp sz db dn dd" by (rule image_ok_quiet [OF img m1(2)])
  have apart: "fsz h < 4 \<or> seg_at h \<le> bp + foff h \<or> bp + foff h + 4 \<le> seg_at h"
    if "h \<in> set (hdrs v bp)" "p_type h = PT_LOAD" for h
  proof (rule ccontr)
    assume "\<not> ?thesis"
    then have "seg_at h \<in> window h" "seg_at h \<in> {bp..<bp + sz}"
      using that hs by (auto simp: window_def loadable_def)
    then show False using La(2) [OF that(1)] by blast
  qed
  have ready: "seg_ready m1 bp tb v i (H i)" if i: "i < n" for i
  proof -
    have "table tb i \<subseteq> {bp..<bp + sz}" using tab i by (auto simp: table_def tb_def n_def table_at_def)
    moreover have "source bp (H i) \<subseteq> {bp..<bp + sz}"
      using hs inH [OF i] by (auto simp: source_def loadable_def split: if_splits)
    moreover have "ram m1 p = view m1 p" if p: "p \<in> window (H i)" for p
    proof -
      have "\<not> resident (mach s) p" using nr inH [OF i] p by blast
      then have "ram (mach s) p = view (mach s) p" "solid (mach s) p" using not_resident [OF inv0, of p] by simp_all
      then show ?thesis using m1(2) by (auto simp: quiet_def written_def)
    qed
    ultimately show ?thesis using img1 inH [OF i] by (auto simp: seg_ready_def image_ok_def)
  qed
  have "\<exists>m'. verify_loop c b (k0 bp) (k0 tb) [0..<n] (s\<lparr>mach := m1\<rparr>) = Some ((s\<lparr>mach := m1\<rparr>)\<lparr>mach := m'\<rparr>) \<and>
      quiet (mach (s\<lparr>mach := m1\<rparr>)) m' (\<Union>i \<in> set [0..<n]. table tb i)"
  proof (rule verify_loop_same [where sz = sz and v = v and H = H])
    show "inv (mach (s\<lparr>mach := m1\<rparr>))" using quiet_inv [OF m1(2)] by simp
    show "bp + sz \<le> RAM_SIZE" using L by simp
    show "\<forall>i \<in> set [0..<n]. tb + 32 * i + 32 \<le> RAM_SIZE \<and> hdr_at v tb i = H i \<and>
      seg_ready (mach (s\<lparr>mach := m1\<rparr>)) bp tb v i (H i) \<and>
      (p_type (H i) = PT_LOAD \<longrightarrow> loadable sz (H i) \<and> seg_at (H i) mod 4 = 0 \<and>
        (msz (H i) - fsz (H i) < 4 \<or> fsz (H i) mod 4 = 0) \<and>
        (fsz (H i) < 4 \<or> seg_at (H i) \<le> bp + foff (H i) \<or> bp + foff (H i) + 4 \<le> seg_at (H i)))"
    proof (intro ballI conjI impI)
      fix i assume "i \<in> set [0..<n]"
      then have i: "i < n" by simp
      show "tb + 32 * i + 32 \<le> RAM_SIZE" using tab i L(1,2) by (simp add: tb_def n_def)
      show "hdr_at v tb i = H i" by (simp add: tb_def H_def)
      show "seg_ready (mach (s\<lparr>mach := m1\<rparr>)) bp tb v i (H i)" using ready [OF i] by simp
      assume ld: "p_type (H i) = PT_LOAD"
      show "loadable sz (H i)" using hs inH [OF i] ld by blast
      show "seg_at (H i) mod 4 = 0" "msz (H i) - fsz (H i) < 4 \<or> fsz (H i) mod 4 = 0"
        using La(1) [OF inH [OF i]] ld by simp_all
      show "fsz (H i) < 4 \<or> seg_at (H i) \<le> bp + foff (H i) \<or> bp + foff (H i) + 4 \<le> seg_at (H i)"
        by (rule apart [OF inH [OF i] ld])
    qed
  qed
  then obtain m2 where m2: "verify_loop c b (k0 bp) (k0 tb) [0..<n] (s\<lparr>mach := m1\<rparr>) = Some (s\<lparr>mach := m2\<rparr>)"
    "quiet m1 m2 (\<Union>i \<in> set [0..<n]. table tb i)" by auto
  have "(\<Union>i \<in> set [0..<n]. table tb i) \<subseteq> {p. p < 32 * (lo div 32)}" using L(3) by (auto simp: table_def)
  then have "quiet (mach s) m2 {p. p < 32 * (lo div 32)}"
    by (intro quiet_trans [OF m1(2) m2(2)]) (use L(4) in auto)
  moreover have "unat (e_phnum (ehdr_at v bp)) = n" by (simp add: n_def hdrs_def)
  ultimately show ?thesis
    using m2(1) by (auto simp: verify_repair_linux_elf_def m1(1) eh ph tb_def)
qed

lemma verify_dtb_ok:
  fixes s :: "('m, 'd) loader"
  assumes img: "image_ok (mach s) v bp sz db dn dd" and lay: "layout_ok v bp sz db dn dd lo hi"
    and nr: "\<forall>p \<in> {dd..<dd + dn}. \<not> resident (mach s) p"
  shows "verify_repair_range c b (to_kseg1 (k0 dd)) (k0 db) (of_nat dn) s = Some s"
proof -
  have L: "db + dn \<le> dd" "dd + dn \<le> RAM_SIZE" "dd mod 4 = 0" using lay by (simp_all add: layout_ok_def)
  have inv0: "inv (mach s)" using img by (simp add: image_ok_def)
  have un: "unat (of_nat dn :: u32) = dn" by (rule unat_of_nat_32) (use L in simp)
  show ?thesis
  proof (cases "dn = 0")
    case True
    then show ?thesis by (simp add: verify_repair_range_def verify_loops_def)
  next
    case False
    have k: "to_kseg1 (k0 dd) = k1 dd" "to_kseg1 (k0 db) = k1 db"
      using L False by (auto intro!: kseg1_of_kseg0 to_kseg0_k0)
    have "ram (mach s) (dd + j) = ram (mach s) (db + j)" if "j < dn" for j
    proof -
      have "ram (mach s) (dd + j) = view (mach s) (dd + j)" using not_resident [OF inv0] nr that by simp
      then show ?thesis using img that by (simp add: image_ok_def)
    qed
    then obtain g where "verify_loops c (k1 dd) (k1 db) dn (mach s) = Some (mach s, 0, g)"
      using verify_loops_ok [OF inv0 L(2,3), of db] L by fastforce
    then show ?thesis by (simp add: verify_repair_range_def k un)
  qed
qed

end

section \<open>The whole sequence\<close>

lemma lines_above: "p div 32 \<in> line_range lo n \<union> line_range dd dn \<Longrightarrow> lo \<le> dd \<Longrightarrow> lo div 32 \<le> p div 32"
  using div_le_mono [of lo dd 32] by (auto simp: line_range_def split: if_splits)

text \<open>The window a scan returns, as a range of RAM.\<close>

lemma scan_all_range:
  assumes "scan_all sz hs (0xffffffff, 0, 0) = Inr (mn, mx, loads)" "loads \<noteq> 0"
    and lo: "lo = unat mn - 0x80000000" and hi: "hi = unat mx - 0x80000000"
  shows "mn = k0 lo" "mx = k0 hi" "lo \<le> hi" "hi \<le> RAM_SIZE" "mx - mn = of_nat (hi - lo)"
    "\<And>h. h \<in> set hs \<Longrightarrow> p_type h = PT_LOAD \<Longrightarrow> loadable (unat sz) h \<and> lo \<le> seg_at h \<and> seg_at h + msz h \<le> hi"
    "\<And>h. h \<in> set hs \<Longrightarrow> window h \<subseteq> {lo..<lo + (hi - lo)}"
proof -
  note w = scan_all_window [OF assms(1)]
  have le: "unat mx \<le> 0x88000000" using w by (simp add: word_le_nat_alt)
  obtain h0 where h0: "h0 \<in> set hs" "p_type h0 = PT_LOAD" using w assms(2) by auto
  then have l0: "loadable (unat sz) h0" and mn0: "mn \<le> load_addr h0" and mx0: "unat (load_addr h0) + msz h0 \<le> unat mx"
    using w by auto
  have ge: "0x80000000 \<le> unat mn"
  proof (cases "mn = 0xffffffff")
    case False
    then obtain h where "h \<in> set hs" "p_type h = PT_LOAD" "mn = load_addr h" using w by auto
    then show ?thesis using w loadable_at(3) by auto
  qed simp
  have mnx: "unat mn \<le> unat mx" using mn0 mx0 by (simp add: word_le_nat_alt)
  have u: "unat mn = 0x80000000 + lo" "unat mx = 0x80000000 + hi" using ge mnx by (simp_all add: lo hi)
  have "mn = of_nat (unat mn)" "mx = of_nat (unat mx)" by simp_all
  then show k: "mn = k0 lo" "mx = k0 hi" unfolding k0_def u by simp_all
  show lh: "lo \<le> hi" "hi \<le> RAM_SIZE" using mnx le u by simp_all
  have "k0 hi = k0 lo + of_nat (hi - lo)" using lh(1) by (simp add: k0_def)
  then show "mx - mn = of_nat (hi - lo)" by (simp add: k)
  have seg: "loadable (unat sz) h \<and> lo \<le> seg_at h \<and> seg_at h + msz h \<le> hi" if "h \<in> set hs" "p_type h = PT_LOAD" for h
  proof -
    have h: "loadable (unat sz) h" "mn \<le> load_addr h" "unat (load_addr h) + msz h \<le> unat mx" using w that by auto
    then show ?thesis using loadable_at(3) [OF h(1)] u by (auto simp: seg_at_def word_le_nat_alt)
  qed
  then show "\<And>h. h \<in> set hs \<Longrightarrow> p_type h = PT_LOAD \<Longrightarrow> loadable (unat sz) h \<and> lo \<le> seg_at h \<and> seg_at h + msz h \<le> hi"
    by blast
  show "\<And>h. h \<in> set hs \<Longrightarrow> window h \<subseteq> {lo..<lo + (hi - lo)}"
    using seg lh(1) by (force simp: window_def split: if_splits)
qed

context cached_ram begin

lemma settled_step: "settled m m1 X Y \<Longrightarrow> settled m1 m2 X' Y' \<Longrightarrow> settled m m2 (X \<union> X') (Y \<union> Y')"
  by (rule settled_trans) auto

lemma settled_inv: "settled m m' X Y \<Longrightarrow> inv m'"
  by (simp add: settled_def)

text \<open>The two flushes, and the invalidations after the verification.\<close>

definition dropped :: "'m \<Rightarrow> nat \<Rightarrow> nat \<Rightarrow> nat \<Rightarrow> nat \<Rightarrow> bool" where
  "dropped m lo n dd dn \<longleftrightarrow> (\<forall>p. p div 32 \<in> line_range lo n \<union> line_range dd dn \<longrightarrow> \<not> resident m p)"

lemma flushes:
  assumes "inv m" "lo + n \<le> RAM_SIZE" "dd + dn \<le> RAM_SIZE"
    and m2: "m2 = cache_flush_range c (k0 dd) (of_nat dn) (cache_flush_range c (k0 lo) (of_nat n) m)"
  shows "settled m m2 (line_range lo n \<union> line_range dd dn) (line_range lo n \<union> line_range dd dn)" "dropped m2 lo n dd dn"
proof -
  have f: "settled m (cache_flush_range c (k0 lo) (of_nat n) m) (line_range lo n) (line_range lo n)"
    by (rule cache_flush_range_settled [OF assms(1,2)])
  show g: "settled m m2 (line_range lo n \<union> line_range dd dn) (line_range lo n \<union> line_range dd dn)"
    unfolding m2 by (rule settled_step [OF f cache_flush_range_settled [OF settled_inv [OF f] assms(3)]])
  then show "dropped m2 lo n dd dn" by (simp add: settled_def dropped_def)
qed

lemma invalidations:
  assumes "inv m" "lo + n \<le> RAM_SIZE" "dd + dn \<le> RAM_SIZE" and d: "dropped m lo n dd dn"
    and m2: "m2 = cache_invalidate_dcache_range c (k0 dd) (of_nat dn) (cache_invalidate_dcache_range c (k0 lo) (of_nat n) m)"
    and m5: "m5 = cache_invalidate_icache_range c (k0 dd) (of_nat dn) (cache_invalidate_icache_range c (k0 lo) (of_nat n)
      (cache_invalidate_icache_indices c m2))"
  shows "settled m m5 (line_range lo n \<union> line_range dd dn) (line_range lo n \<union> line_range dd dn)"
proof -
  have f1: "settled m (cache_invalidate_dcache_range c (k0 lo) (of_nat n) m) (line_range lo n) {}"
    by (rule cache_invalidate_dcache_range_settled [OF assms(1,2)]) (use d in \<open>simp add: dropped_def\<close>)
  have f2: "settled m m2 (line_range lo n \<union> line_range dd dn) ({} \<union> {})"
    unfolding m2
    by (rule settled_step [OF f1 cache_invalidate_dcache_range_settled [OF settled_inv [OF f1] assms(3)]])
      (use d f1 in \<open>auto simp: dropped_def settled_def\<close>)
  note f3 = settled_step [OF f2 cache_invalidate_icache_indices_settled [OF settled_inv [OF f2]]]
  note f4 = settled_step [OF f3 cache_invalidate_icache_range_settled [OF settled_inv [OF f3] assms(2)]]
  note f5 = settled_step [OF f4 cache_invalidate_icache_range_settled [OF settled_inv [OF f4] assms(3)]]
  show ?thesis using f5 by (simp add: m5)
qed

lemma place_kernel_ok:
  fixes s :: "('m, 'd) loader"
  assumes m: "inv (mach s)" and v: "v = view (mach s)" and lay: "layout_ok v bp sz db dn dd lo hi"
    and src: "\<forall>p \<in> {bp..<bp + sz} \<union> {db..<db + dn}. solid (mach s) p \<and> ram (mach s) p = v p"
    and scan: "scan_linux_elf c (k0 bp) (of_nat sz) (mach s) = (Inr (mn, mx), m')"
    and lo: "lo = unat mn - 0x80000000" and hi: "hi = unat mx - 0x80000000"
  shows "\<exists>s'. place_kernel c b (k0 bp) (k0 db) (of_nat dn) mn mx (k0 dd) s = Some s' \<and>
    (\<forall>h \<in> set (hdrs v bp). \<forall>p \<in> window h.
       ram (mach s') p = content v bp h p \<and> \<not> resident (mach s') p \<and> \<not> iresident (mach s') p) \<and>
    (\<forall>j < dn. ram (mach s') (dd + j) = v (db + j) \<and> \<not> resident (mach s') (dd + j) \<and> \<not> iresident (mach s') (dd + j))"
proof -
  have L: "bp + sz \<le> RAM_SIZE" "dd + dn \<le> RAM_SIZE" "hi \<le> dd" using lay by (auto simp: layout_ok_def)
  have usz: "unat (of_nat sz :: u32) = sz" by (rule unat_of_nat_32) (use L in simp)
  note sc = scan_accepts [OF m L(1) _ scan, folded v]
  have sol: "\<forall>p \<in> {bp..<bp + sz}. solid (mach s) p" using src by blast
  note sc = sc [OF sol]
  obtain loads where "scan_all (of_nat sz) (hdrs v bp) (0xffffffff, 0, 0) = Inr (mn, mx, loads)" "loads \<noteq> 0"
    using sc(4) by blast
  note R = scan_all_range [OF this lo hi, unfolded usz]
  have ln: "lo + (hi - lo) \<le> RAM_SIZE" "lo \<le> dd" using R(3,4) L by auto
  define A where "A = line_range lo (hi - lo) \<union> line_range dd dn"
  have win: "p div 32 \<in> A" if "h \<in> set (hdrs v bp)" "p \<in> window h" for h p
    using R(7) [OF that(1)] that(2) line_range_covers [of p lo "hi - lo"] by (auto simp: A_def)
  have dtb: "(dd + j) div 32 \<in> A" if "j < dn" for j using line_range_covers [of "dd + j" dd dn] that by (simp add: A_def)
  define m1 where "m1 = cache_writeback_dcache_indices c (mach s)"
  have s1: "settled (mach s) m1 {} {}" unfolding m1_def by (rule cache_writeback_dcache_indices_settled [OF m])
  define m2 where "m2 = copy_linux_elf c (k0 bp) (copy_forward c (k0 dd) (k0 db) dn m1)"
  have i2: "image_ok m2 v bp sz db dn dd"
    unfolding m2_def by (rule copies_ok [OF settled_inv [OF s1] lay sc(1-3)]) (use src s1 v R(6) in \<open>auto simp: settled_def\<close>)
  define m3 where "m3 = cache_flush_range c (k0 dd) (of_nat dn) (cache_flush_range c (k0 lo) (of_nat (hi - lo)) m2)"
  have inv2: "inv m2" using i2 by (simp add: image_ok_def)
  note f3 = flushes [OF inv2 ln(1) L(2) m3_def]
  have i3: "image_ok m3 v bp sz db dn dd" by (rule image_ok_settled [OF i2 f3(1)])
  obtain m4 where m4: "verify_repair_linux_elf c b (k0 bp) (s\<lparr>mach := m3\<rparr>) = Some (s\<lparr>mach := m4\<rparr>)"
    "quiet m3 m4 {p. p < 32 * (lo div 32)}"
    using verify_ok [of "s\<lparr>mach := m3\<rparr>", OF _ lay sc(1-3)] i3 R(6) f3(2) win
    by (fastforce simp: dropped_def A_def)
  have d4: "dropped m4 lo (hi - lo) dd dn"
  proof -
    have "\<not> resident m4 p" if "p div 32 \<in> line_range lo (hi - lo) \<union> line_range dd dn" for p
      using lines_above [OF that ln(2)] f3(2) that m4(2) by (fastforce simp: quiet_def dropped_def)
    then show ?thesis by (simp add: dropped_def)
  qed
  have i4: "image_ok m4 v bp sz db dn dd" by (rule image_ok_quiet [OF i3 m4(2)])
  have inv4: "inv m4" using i4 by (simp add: image_ok_def)
  have "\<forall>p \<in> {dd..<dd + dn}. \<not> resident m4 p" using d4 line_range_covers [of _ dd dn] by (auto simp: dropped_def)
  then have v4: "verify_repair_range c b (to_kseg1 (k0 dd)) (k0 db) (of_nat dn) (s\<lparr>mach := m4\<rparr>) = Some (s\<lparr>mach := m4\<rparr>)"
    using verify_dtb_ok [of "s\<lparr>mach := m4\<rparr>", OF _ lay] i4 by simp
  define m5 where "m5 = cache_invalidate_dcache_range c (k0 dd) (of_nat dn) (cache_invalidate_dcache_range c (k0 lo) (of_nat (hi - lo)) m4)"
  define m6 where "m6 = cache_invalidate_icache_range c (k0 dd) (of_nat dn) (cache_invalidate_icache_range c (k0 lo)
    (of_nat (hi - lo)) (cache_invalidate_icache_indices c m5))"
  note f6 = invalidations [OF inv4 ln(1) L(2) d4 m5_def m6_def, folded A_def]
  have i6: "image_ok m6 v bp sz db dn dd" by (rule image_ok_settled [OF i4 f6])
  have out: "\<not> resident m6 p \<and> \<not> iresident m6 p \<and> ram m6 p = view m6 p" if "p div 32 \<in> A" for p
    using f6 that not_resident [OF settled_inv [OF f6], of p] by (auto simp: settled_def)
  have udn: "unat (of_nat dn :: u32) = dn" by (rule unat_of_nat_32) (use L in simp)
  have k: "to_kseg0 (k0 dd) = k0 dd" if "dn \<noteq> 0" using to_kseg0_k0 [of dd] that L by simp
  have cp: "copy_forward c (to_kseg0 (k0 dd)) (k0 db) dn m1 = copy_forward c (k0 dd) (k0 db) dn m1"
    using k by (cases "dn = 0") auto
  have "place_kernel c b (k0 bp) (k0 db) (of_nat dn) mn mx (k0 dd) s =
      Some ((uart_puts b ''linux-loader: icache index sweep\<newline>'' (s\<lparr>mach := m5\<rparr>))\<lparr>mach := m6\<rparr>)"
    unfolding place_kernel_def R(1,2) R(5) [unfolded R(1,2)] udn
    by (simp add: m1_def [symmetric] cp m2_def [symmetric] m3_def [symmetric] m4(1) v4 m5_def [symmetric] m6_def [symmetric])
  then show ?thesis using i6 out win dtb by (auto simp: image_ok_def)
qed

text \<open>The copy of an accepted image that is in order.\<close>

lemma copy_accepted:
  assumes m: "inv m" and bp: "bp + sz \<le> RAM_SIZE" and sol: "\<forall>p \<in> {bp..<bp + sz}. solid m p"
    and scan: "scan_linux_elf c (k0 bp) (of_nat sz) m = (Inr (mn, mx), m')"
    and ord: "copy_order_ok (view m) bp" and h: "h \<in> set (hdrs (view m) bp)" "p \<in> window h"
  shows "view (copy_linux_elf c (k0 bp) m) p = content (view m) bp h p"
proof -
  note sc = scan_accepts [OF m bp sol scan]
  have usz: "unat (of_nat sz :: u32) = sz" by (rule unat_of_nat_32) (use bp in simp)
  obtain loads where "scan_all (of_nat sz) (hdrs (view m) bp) (0xffffffff, 0, 0) = Inr (mn, mx, loads)" "loads \<noteq> 0"
    using sc(4) by blast
  note R = scan_all_range [OF this refl refl, unfolded usz]
  obtain f where "written m (copy_linux_elf c (k0 bp) m) (\<Union>h \<in> set (hdrs (view m) bp). window h) f"
    "\<forall>h \<in> set (hdrs (view m) bp). \<forall>p \<in> window h. f p = content (view m) bp h p"
    using copy_linux_elf_moves [OF m sc(1) bp sc(2,3) _ _ ord] sol R(6) by blast
  then show ?thesis using h unfolding written_def by (metis UN_I)
qed

end

section \<open>Properties of the loader\<close>

text \<open>
  C3. The kernel and the device tree are in place before the jump. Let the scan accept a payload that is
  initialised and whose copy in memory is current (clean in the data cache), whatever stale lines the
  caches hold elsewhere. (1) If the window of no record covers the header, the source or the window of a
  record before it (\<open>copy_order_ok\<close>; windows may cover the image otherwise, and a record its own source),
  then after \<open>copy_linux_elf\<close> the processor reads in every window exactly the bytes the image had before:
  this needs the records to be walked backwards. (2) If moreover no window overlaps the payload or another
  window and the destinations are word aligned (\<open>layout_ok\<close>: the verification needs it, see below), then
  after the whole of \<open>place_kernel\<close> every byte of every loadable segment and of the device tree is in
  memory, and no line of them is left in the data or in the instruction cache.
\<close>

theorem kernel_and_dtb_placed:
  fixes s :: "(two_way, 'd) loader"
  assumes m: "tw_inv (mach s)" and v: "v = d_view (mach s)" and bp: "bp + sz \<le> RAM_SIZE"
    and src: "\<forall>p \<in> {bp..<bp + sz} \<union> {db..<db + dn}. d_solid (mach s) p \<and> dram (mach s) p = v p"
    and scan: "scan_linux_elf (two_way_cpu pick) (k0 bp) (of_nat sz) (mach s) = (Inr (mn, mx), m')"
    and lo: "lo = unat mn - 0x80000000" and hi: "hi = unat mx - 0x80000000"
  shows "(copy_order_ok v bp \<longrightarrow>
      (\<forall>h \<in> set (hdrs v bp). \<forall>p \<in> window h.
         d_view (copy_linux_elf (two_way_cpu pick) (k0 bp) (mach s)) p = content v bp h p)) \<and>
    (layout_ok v bp sz db dn dd lo hi \<longrightarrow>
      (\<exists>s'. place_kernel (two_way_cpu pick) b (k0 bp) (k0 db) (of_nat dn) mn mx (k0 dd) s = Some s' \<and>
        (\<forall>h \<in> set (hdrs v bp). \<forall>p \<in> window h.
           dram (mach s') p = content v bp h p \<and> \<not> d_resident (mach s') p \<and> \<not> i_resident (mach s') p) \<and>
        (\<forall>j < dn. dram (mach s') (dd + j) = v (db + j) \<and> \<not> d_resident (mach s') (dd + j) \<and>
           \<not> i_resident (mach s') (dd + j))))"
proof (intro conjI impI ballI)
  fix h p assume "copy_order_ok v bp" "h \<in> set (hdrs v bp)" "p \<in> window h"
  then show "d_view (copy_linux_elf (two_way_cpu pick) (k0 bp) (mach s)) p = content v bp h p"
    using two_way.copy_accepted [OF m bp _ scan] src unfolding v by blast
qed (rule two_way.place_kernel_ok [OF m v _ src scan lo hi])

text \<open>
  What the scan accepts fits: it computes the same function of the image bytes in every cache state, and
  for an accepted image every loadable segment has its file part inside the image and its window inside
  the reported range, which is inside RAM.
\<close>

theorem scan_window:
  assumes "tw_inv m" "bp + sz \<le> RAM_SIZE" "\<forall>p \<in> {bp..<bp + sz}. d_solid m p"
    and "scan_linux_elf (two_way_cpu pick) (k0 bp) (of_nat sz) m = (Inr (mn, mx), m')"
    and h: "h \<in> set (hdrs (d_view m) bp)" "p_type h = PT_LOAD"
  shows "unat (p_offset h) + unat (p_filesz h) \<le> sz \<and> p_filesz h \<le> p_memsz h \<and> mn \<le> load_addr h \<and>
    0x80000000 \<le> unat mn \<and> unat (load_addr h) + unat (p_memsz h) \<le> unat mx \<and> mx \<le> RAM_TOP"
proof -
  obtain loads where w: "scan_all (of_nat sz) (hdrs (d_view m) bp) (0xffffffff, 0, 0) = Inr (mn, mx, loads)" "loads \<noteq> 0"
    using two_way.scan_accepts(4) [OF assms(1-4)] by blast
  have usz: "unat (of_nat sz :: u32) = sz" by (rule unat_of_nat_32) (use assms(2) in simp)
  have "unat mn = 0x80000000 + (unat mn - 0x80000000)"
    using scan_all_range(1,3,4) [OF w refl refl] unat_k0 [of "unat mn - 0x80000000"] by simp
  then show ?thesis using scan_all_window [OF w(1)] h usz by (auto simp: loadable_def word_le_nat_alt)
qed

text \<open>
  C39. When the load window lies above the embedded image and overlaps it, the copy is right but the
  verification is not: it compares with a source that the copy has overwritten, and \<open>repairs\<close> the window
  into a repetition of its first \<open>d - s\<close> bytes.
\<close>

theorem verify_spreads_prefix:
  assumes m: "tw_inv m" and d: "d + n \<le> RAM_SIZE" "d mod 4 = 0" "s + 4 \<le> d"
    and copied: "\<forall>j < n. dram m (d + j) = f j" "\<forall>j < min n (d - s). dram m (s + j) = f j"
  shows "\<exists>m' r g. verify_loops (two_way_cpu pick) (k1 d) (k1 s) n m = Some (m', r, g) \<and>
    (\<forall>j < n. dram m' (d + j) = f (j mod (d - s)))"
proof -
  obtain m' r g where v: "verify_loops (two_way_cpu pick) (k1 d) (k1 s) n m = Some (m', r, g)"
    "dram m' = fwd d s n (dram m)"
    using two_way.verify_loops_ok [OF m d(1,2), of s pick] d by auto
  have "dram m' (d + j) = f (j mod (d - s))" if "j < n" for j
  proof -
    have "j mod (d - s) < min n (d - s)" using that d(3) le_less_trans [OF mod_less_eq_dividend [of j "d - s"] that] by simp
    then show ?thesis using v(2) fwd_overlap [of s d j n "dram m"] that d(3) copied(2) by simp
  qed
  then show ?thesis using v(1) by blast
qed

text \<open>
  C40. The verification clears the zero part of a segment with word accesses from the end of the file part:
  if that is not a multiple of four and the zero part has a whole word, the loader takes an address error.
\<close>

theorem misaligned_bss_faults:
  assumes "p_type ph = PT_LOAD" "4 \<le> unat (p_memsz ph - p_filesz ph)"
    and "(to_kseg1 (if p_paddr ph \<noteq> 0 then p_paddr ph else p_vaddr ph) + p_filesz ph) AND 3 \<noteq> 0"
  shows "verify_segment c b blob ph s = None"
proof -
  define dst n where "dst = to_kseg1 (if p_paddr ph \<noteq> 0 then p_paddr ph else p_vaddr ph)"
    and "n = unat (p_memsz ph - p_filesz ph)"
  obtain k where "n div 4 = Suc k" using assms(2) unfolding n_def [symmetric] by (cases "n div 4") auto
  then have "zero_verify c (dst + p_filesz ph) n m = None" for m
    using assms(3) by (simp add: dst_def zero_verify_def zero_word_def load_word_def)
  then show ?thesis
    using assms(1) by (simp add: verify_segment_def dst_def [symmetric] n_def [symmetric] Let_def split: option.split)
qed

section \<open>An example\<close>

text \<open>
  An image at byte \<open>0x100\<close> of RAM with one segment of eight bytes, four more to clear, loaded at
  \<open>0x80600000\<close>, and a device tree of four bytes at \<open>0x200\<close>, to be placed at \<open>0x80610000\<close>. The data cache holds
  a stale line of the load window.
\<close>

definition elf_example :: "u8 list" where
  "elf_example =
     [0x7f, 0x45, 0x4c, 0x46, 1, 1, 1, 0, 0, 0, 0, 0, 0, 0, 0, 0,  2, 0, 8, 0, 1, 0, 0, 0,
      0, 0, 0x60, 0x80, 52, 0, 0, 0,  0, 0, 0, 0, 0, 0, 0, 0, 52, 0, 32, 0, 1, 0, 0, 0, 0, 0, 0, 0,
      1, 0, 0, 0,  84, 0, 0, 0,  0, 0, 0x60, 0x80,  0, 0, 0x60, 0x80,  8, 0, 0, 0,  12, 0, 0, 0,  7, 0, 0, 0, 4, 0, 0, 0,
      11, 12, 13, 14, 15, 16, 17, 18]"

definition ram_example :: "nat \<Rightarrow> u8" where
  "ram_example p =
     (if 0x100 \<le> p \<and> p < 0x15c then elf_example ! (p - 0x100) else if 0x200 \<le> p \<and> p < 0x204 then 0xd0 else 0xee)"

definition warm_example :: two_way where
  "warm_example =
     \<lparr>dram = ram_example,
      dways = [(0, False) \<mapsto> \<lparr>ln_tag = 0x30000, ln_dirty = False, ln_data = (\<lambda>_. 0x55)\<rparr>],
      iways = [(0, True) \<mapsto> 0x30000]\<rparr>"

definition loader_example :: "two_way \<Rightarrow> (two_way, sd_board) loader" where
  "loader_example m =
     \<lparr>mach = m, dev = dev bootlog_example, log_fs = log_fs bootlog_example, log_file = log_file bootlog_example,
      log_sector = log_sector bootlog_example, log_fat_sector = log_fat_sector bootlog_example,
      log_live_sector = log_live_sector bootlog_example, log_fat_lba = NO_SECTOR, log_sector_index = NO_SECTOR,
      log_pos = 0, log_limit = 1024, log_ready = True, log_tried = True, plog = plog bootlog_example,
      health_blink_done = False\<rparr>"

lemma warm_example_view: "p < 0x4000 \<Longrightarrow> d_view warm_example p = ram_example p"
  "p < 0x4000 \<Longrightarrow> \<not> d_resident warm_example p"
  by (auto simp: d_view_def d_resident_def holds_def way_of_def warm_example_def)

lemma warm_example_inv: "tw_inv warm_example"
  by (simp add: tw_inv_def warm_example_def)

lemma warm_example_ehdr: "ehdr_at (d_view warm_example) 0x100 =
    \<lparr>e_ident = take 16 elf_example, e_type = 2, e_machine = 8, e_entry = 0x80600000, e_phoff = 52, e_phentsize = 32, e_phnum = 1\<rparr>"
proof -
  have "map (d_view warm_example) [0x100..<0x100 + 52] = take 52 elf_example"
    by (rule nth_equalityI) (auto simp: warm_example_view ram_example_def elf_example_def)
  then show ?thesis by (simp add: ehdr_at_def ehdr_of_def elf_example_def le16_def le32_def le16_of_def le32_of_def)
qed

lemma warm_example_hdrs: "table_at (d_view warm_example) 0x100 = 0x134"
  "hdrs (d_view warm_example) 0x100 =
    [\<lparr>p_type = 1, p_offset = 84, p_vaddr = 0x80600000, p_paddr = 0x80600000, p_filesz = 8, p_memsz = 12\<rparr>]"
proof -
  show t: "table_at (d_view warm_example) 0x100 = 0x134" by (simp add: table_at_def warm_example_ehdr)
  have "map (d_view warm_example) [0x134..<0x134 + 32] = take 32 (drop 52 elf_example)"
    by (rule nth_equalityI) (auto simp: warm_example_view ram_example_def elf_example_def)
  then show "hdrs (d_view warm_example) 0x100 =
      [\<lparr>p_type = 1, p_offset = 84, p_vaddr = 0x80600000, p_paddr = 0x80600000, p_filesz = 8, p_memsz = 12\<rparr>]"
    by (simp add: hdrs_def t warm_example_ehdr hdr_at_def phdr_of_def elf_example_def le32_def le32_of_def)
qed

lemma warm_example_scan: "\<exists>m'. scan_linux_elf (two_way_cpu pick) (k0 0x100) (of_nat 92) warm_example =
    (Inr (0x80600000, 0x8060000c), m')"
proof -
  have "scan_spec (d_view warm_example) 0x100 (of_nat 92) = Inr (0x80600000, 0x8060000c)"
    by (simp add: scan_spec_def warm_example_ehdr warm_example_hdrs ehdr_valid_def elf_example_def
        blob_range_valid_def scan_segment_def load_addr_def to_kseg0_def)
  then show ?thesis
    using two_way.scan_linux_elf_spec [of warm_example "0x100" 92 pick] warm_example_inv warm_example_view
    by (auto simp: d_solid_def)
qed

text \<open>
  An image at \<open>0x100\<close> whose first segment is loaded at \<open>0x178\<close>, over the source of the second, which is
  loaded at \<open>0x200\<close>: only the backward order copies it right.
\<close>

definition elf_low :: "u8 list" where
  "elf_low =
     [0x7f, 0x45, 0x4c, 0x46, 1, 1, 1, 0, 0, 0, 0, 0, 0, 0, 0, 0,  2, 0, 8, 0, 1, 0, 0, 0,
      0x78, 1, 0, 0x80, 52, 0, 0, 0,  0, 0, 0, 0, 0, 0, 0, 0, 52, 0, 32, 0, 2, 0, 0, 0, 0, 0, 0, 0,
      1, 0, 0, 0,  116, 0, 0, 0,  0x78, 1, 0, 0x80,  0x78, 1, 0, 0x80,  4, 0, 0, 0,  4, 0, 0, 0,  7, 0, 0, 0, 4, 0, 0, 0,
      1, 0, 0, 0,  120, 0, 0, 0,  0, 2, 0, 0x80,  0, 2, 0, 0x80,  4, 0, 0, 0,  8, 0, 0, 0,  7, 0, 0, 0, 4, 0, 0, 0,
      21, 22, 23, 24, 31, 32, 33, 34]"

definition low_example :: two_way where
  "low_example =
     \<lparr>dram = (\<lambda>p. if 0x100 \<le> p \<and> p < 0x17c then elf_low ! (p - 0x100) else 0xee), dways = (\<lambda>_. None), iways = (\<lambda>_. None)\<rparr>"

lemma low_example_view: "d_view low_example p = dram low_example p" "d_solid low_example p" "tw_inv low_example"
  by (simp_all add: d_view_def d_solid_def d_resident_def holds_def way_of_def tw_inv_def low_example_def)

lemma elf_low_length: "length elf_low = 124"
  by (simp add: elf_low_def)

lemma low_example_dram: "p < 124 \<Longrightarrow> dram low_example (0x100 + p) = elf_low ! p"
  by (simp add: low_example_def)

lemma low_example_bytes: "a + n \<le> 124 \<Longrightarrow> map (d_view low_example) [0x100 + a..<0x100 + a + n] = take n (drop a elf_low)"
  by (rule nth_equalityI) (simp_all add: low_example_view low_example_dram [simplified] elf_low_length add.assoc)

lemma low_example_ehdr: "ehdr_at (d_view low_example) 0x100 =
    \<lparr>e_ident = take 16 elf_low, e_type = 2, e_machine = 8, e_entry = 0x80000178, e_phoff = 52, e_phentsize = 32, e_phnum = 2\<rparr>"
  using low_example_bytes [of 0 52]
  by (simp add: ehdr_at_def ehdr_of_def elf_low_def le16_def le32_def le16_of_def le32_of_def)

lemma low_example_hdrs: "table_at (d_view low_example) 0x100 = 0x134"
  "hdrs (d_view low_example) 0x100 =
    [\<lparr>p_type = 1, p_offset = 116, p_vaddr = 0x80000178, p_paddr = 0x80000178, p_filesz = 4, p_memsz = 4\<rparr>,
     \<lparr>p_type = 1, p_offset = 120, p_vaddr = 0x80000200, p_paddr = 0x80000200, p_filesz = 4, p_memsz = 8\<rparr>]"
proof -
  show t: "table_at (d_view low_example) 0x100 = 0x134" by (simp add: table_at_def low_example_ehdr)
  show "hdrs (d_view low_example) 0x100 =
    [\<lparr>p_type = 1, p_offset = 116, p_vaddr = 0x80000178, p_paddr = 0x80000178, p_filesz = 4, p_memsz = 4\<rparr>,
     \<lparr>p_type = 1, p_offset = 120, p_vaddr = 0x80000200, p_paddr = 0x80000200, p_filesz = 4, p_memsz = 8\<rparr>]"
    using low_example_bytes [of 52 32] low_example_bytes [of 84 32]
    by (simp add: hdrs_def t low_example_ehdr hdr_at_def phdr_of_def elf_low_def le32_def le32_of_def upt_rec [of 0] upt_rec [of "Suc 0"])
qed

lemma low_example_scan: "\<exists>m'. scan_linux_elf (two_way_cpu pick) (k0 0x100) (of_nat 124) low_example =
    (Inr (0x80000178, 0x80000208), m')"
proof -
  have "scan_spec (d_view low_example) 0x100 (of_nat 124) = Inr (0x80000178, 0x80000208)"
    by (simp add: scan_spec_def low_example_ehdr low_example_hdrs ehdr_valid_def elf_low_def
        blob_range_valid_def scan_segment_def load_addr_def to_kseg0_def)
  then show ?thesis
    using two_way.scan_linux_elf_spec [of low_example "0x100" 124 pick] low_example_view by auto
qed

lemma low_example_order: "copy_order_ok (d_view low_example) 0x100"
  unfolding copy_order_ok_def Let_def low_example_hdrs
proof (intro allI impI)
  let ?h0 = "\<lparr>p_type = 1, p_offset = 116, p_vaddr = 0x80000178, p_paddr = 0x80000178, p_filesz = 4, p_memsz = 4\<rparr> :: elf32_phdr"
    and ?h1 = "\<lparr>p_type = 1, p_offset = 120, p_vaddr = 0x80000200, p_paddr = 0x80000200, p_filesz = 4, p_memsz = 8\<rparr> :: elf32_phdr"
  fix i j :: nat assume "i < length [?h0, ?h1]" "j < i"
  then have ij: "i = 1" "j = 0" by auto
  have "window ?h1 = {0x200..<0x208}" "window ?h0 = {0x178..<0x17c}" "source 0x100 ?h0 = {0x174..<0x178}" "table 0x134 0 = {0x134..<0x154}"
    by (simp_all add: window_def table_def source_def seg_at_def load_addr_def to_kseg0_def)
  then show "window ([?h0, ?h1] ! i) \<inter> (table 0x134 j \<union> source 0x100 ([?h0, ?h1] ! j) \<union> window ([?h0, ?h1] ! j)) = {}"
    unfolding ij by auto
qed

theorem kernel_and_dtb_placed_witness:
  "(\<exists>s'. place_kernel (two_way_cpu (\<lambda>_ _. False)) sd_card (k0 0x100) (k0 0x200) (of_nat 4) 0x80600000 0x8060000c (k0 0x610000)
      (loader_example warm_example) = Some s' \<and>
    dram (mach s') 0x600000 = 11 \<and> dram (mach s') 0x600008 = 0 \<and> \<not> d_resident (mach s') 0x600000 \<and>
    \<not> i_resident (mach s') 0x600000 \<and> dram (mach s') 0x610003 = 0xd0) \<and>
   d_view (copy_linux_elf (two_way_cpu (\<lambda>_ _. False)) (k0 0x100) low_example) 0x179 = 22 \<and>
   d_view (copy_linux_elf (two_way_cpu (\<lambda>_ _. False)) (k0 0x100) low_example) 0x201 = 32"
proof
  define v where "v = d_view warm_example"
  have hs: "hdrs v 0x100 = [\<lparr>p_type = 1, p_offset = 84, p_vaddr = 0x80600000, p_paddr = 0x80600000, p_filesz = 8, p_memsz = 12\<rparr>]"
    "table_at v 0x100 = 0x134"
    by (simp_all add: v_def warm_example_hdrs)
  define h where "h = \<lparr>p_type = 1, p_offset = 84, p_vaddr = 0x80600000, p_paddr = 0x80600000, p_filesz = 8, p_memsz = 12\<rparr>"
  have win: "window h = {0x600000..<0x60000c}" "seg_at h = 0x600000"
    by (simp_all add: h_def window_def seg_at_def load_addr_def to_kseg0_def)
  obtain m' where sc: "scan_linux_elf (two_way_cpu (\<lambda>_ _. False)) (k0 0x100) (of_nat 92) warm_example =
      (Inr (0x80600000, 0x8060000c), m')" using warm_example_scan by blast
  have m: "mach (loader_example warm_example) = warm_example" by (simp add: loader_example_def)
  have lay: "layout_ok v 0x100 92 0x200 4 0x610000 0x600000 0x60000c"
    unfolding layout_ok_def Let_def hs h_def [symmetric] by (simp add: win, auto simp: h_def)
  have src: "\<forall>p \<in> {0x100..<0x100 + 92} \<union> {0x200..<0x200 + 4}. d_solid warm_example p \<and> dram warm_example p = v p"
    using warm_example_view by (auto simp: v_def d_solid_def warm_example_def)
  note placed = kernel_and_dtb_placed [where s = "loader_example warm_example" and v = v and bp = "0x100" and sz = 92
      and db = "0x200" and dn = 4 and dd = "0x610000" and lo = "0x600000" and hi = "0x60000c" and b = sd_card, unfolded m,
      OF warm_example_inv v_def _ src sc, THEN conjunct2, THEN mp, OF _ _ _ lay]
  obtain s' where s': "place_kernel (two_way_cpu (\<lambda>_ _. False)) sd_card (k0 0x100) (k0 0x200) (of_nat 4) 0x80600000 0x8060000c
      (k0 0x610000) (loader_example warm_example) = Some s'"
    and w: "\<forall>h \<in> set (hdrs v 0x100). \<forall>p \<in> window h.
       dram (mach s') p = content v 0x100 h p \<and> \<not> d_resident (mach s') p \<and> \<not> i_resident (mach s') p"
    and d: "\<forall>j < 4. dram (mach s') (0x610000 + j) = v (0x200 + j) \<and> \<not> d_resident (mach s') (0x610000 + j) \<and>
       \<not> i_resident (mach s') (0x610000 + j)" using placed by auto
  have w': "dram (mach s') p = content v 0x100 h p \<and> \<not> d_resident (mach s') p \<and> \<not> i_resident (mach s') p"
    if "p \<in> {0x600000..<0x60000c}" for p using w that unfolding hs h_def [symmetric] by (simp add: win)
  have "content v 0x100 h 0x600000 = 11" "content v 0x100 h 0x600008 = 0"
    using warm_example_view(1) [of "0x154"]
    by (simp_all add: content_def win) (simp_all add: h_def v_def ram_example_def elf_example_def)
  moreover have "v 0x203 = 0xd0" using warm_example_view(1) [of "0x203"] by (simp add: v_def ram_example_def)
  ultimately show "\<exists>s'. place_kernel (two_way_cpu (\<lambda>_ _. False)) sd_card (k0 0x100) (k0 0x200) (of_nat 4) 0x80600000 0x8060000c (k0 0x610000)
      (loader_example warm_example) = Some s' \<and>
    dram (mach s') 0x600000 = 11 \<and> dram (mach s') 0x600008 = 0 \<and> \<not> d_resident (mach s') 0x600000 \<and>
    \<not> i_resident (mach s') 0x600000 \<and> dram (mach s') 0x610003 = 0xd0"
    using s' w' [of "0x600000"] w' [of "0x600008"] d [rule_format, of 3] by auto
next
  obtain m' where sc: "scan_linux_elf (two_way_cpu (\<lambda>_ _. False)) (k0 0x100) (of_nat 124) low_example =
      (Inr (0x80000178, 0x80000208), m')" using low_example_scan by blast
  have m: "mach (loader_example low_example) = low_example" by (simp add: loader_example_def)
  define v where "v = d_view low_example"
  have src: "\<forall>p \<in> {0x100..<0x100 + 124} \<union> {0x100..<0x100 + 0}. d_solid low_example p \<and> dram low_example p = v p"
    by (simp add: v_def low_example_view)
  note moved = kernel_and_dtb_placed [where s = "loader_example low_example" and v = v and bp = "0x100" and sz = 124
      and db = "0x100" and dn = 0, unfolded m, OF low_example_view(3) v_def _ src sc refl refl, THEN conjunct1, THEN mp,
      OF _ low_example_order [folded v_def]]
  have "d_view (copy_linux_elf (two_way_cpu (\<lambda>_ _. False)) (k0 0x100) low_example) p = content v 0x100 h p"
    if "h \<in> set (hdrs v 0x100)" "p \<in> window h" for h p
    using moved that by simp
  note at = this [unfolded v_def low_example_hdrs]
  show "d_view (copy_linux_elf (two_way_cpu (\<lambda>_ _. False)) (k0 0x100) low_example) 0x179 = 22 \<and>
   d_view (copy_linux_elf (two_way_cpu (\<lambda>_ _. False)) (k0 0x100) low_example) 0x201 = 32"
    using at [of "\<lparr>p_type = 1, p_offset = 116, p_vaddr = 0x80000178, p_paddr = 0x80000178, p_filesz = 4, p_memsz = 4\<rparr>" "0x179"]
      at [of "\<lparr>p_type = 1, p_offset = 120, p_vaddr = 0x80000200, p_paddr = 0x80000200, p_filesz = 4, p_memsz = 8\<rparr>" "0x201"]
      low_example_view(1) [of "0x175"] low_example_view(1) [of "0x179"] low_example_dram [of "0x75"] low_example_dram [of "0x79"]
    by (simp add: window_def content_def seg_at_def load_addr_def to_kseg0_def elf_low_def)
qed

theorem scan_window_witness:
  "unat (p_offset (hdrs (d_view warm_example) 0x100 ! 0)) + unat (p_filesz (hdrs (d_view warm_example) 0x100 ! 0)) \<le> 92 \<and>
   (0x80600000 :: u32) \<le> load_addr (hdrs (d_view warm_example) 0x100 ! 0)"
proof -
  obtain m' where sc: "scan_linux_elf (two_way_cpu (\<lambda>_ _. False)) (k0 0x100) (of_nat 92) warm_example =
      (Inr (0x80600000, 0x8060000c), m')" using warm_example_scan by blast
  have "\<forall>p \<in> {0x100..<0x100 + 92}. d_solid warm_example p" using warm_example_view by (auto simp: d_solid_def)
  from scan_window [OF warm_example_inv _ this sc, of "hdrs (d_view warm_example) 0x100 ! 0"]
  show ?thesis by (auto simp: warm_example_hdrs)
qed

text \<open>
  Twelve bytes of an image at \<open>0x100\<close>, copied correctly to \<open>0x104\<close>, are turned into three copies of its
  first word.
\<close>

definition overlap_example :: two_way where
  "overlap_example =
     \<lparr>dram = (\<lambda>p. if p < 0x104 then of_nat (p - 0x100) else of_nat (p - 0x104)), dways = (\<lambda>_. None), iways = (\<lambda>_. None)\<rparr>"

theorem verify_spreads_prefix_witness:
  "\<exists>m' r g. verify_loops (two_way_cpu (\<lambda>_ _. False)) (k1 0x104) (k1 0x100) 12 overlap_example = Some (m', r, g) \<and>
    dram overlap_example (0x104 + 5) = 5 \<and> dram m' (0x104 + 5) = 1"
proof -
  have "\<exists>m' r g. verify_loops (two_way_cpu (\<lambda>_ _. False)) (k1 0x104) (k1 0x100) 12 overlap_example = Some (m', r, g) \<and>
    (\<forall>j < 12. dram m' (0x104 + j) = of_nat (j mod (0x104 - 0x100)))"
    by (rule verify_spreads_prefix) (auto simp: overlap_example_def tw_inv_def)
  then obtain m' r g where v: "verify_loops (two_way_cpu (\<lambda>_ _. False)) (k1 0x104) (k1 0x100) 12 overlap_example = Some (m', r, g)"
    "\<forall>j < 12. dram m' (0x104 + j) = of_nat (j mod (0x104 - 0x100))" by blast
  have "dram m' (0x104 + 5) = 1" using v(2) [rule_format, of 5] by simp
  then show ?thesis using v(1) by (auto simp: overlap_example_def)
qed

theorem misaligned_bss_faults_witness:
  "verify_segment (two_way_cpu (\<lambda>_ _. False)) sd_card (k0 0x100)
     \<lparr>p_type = 1, p_offset = 84, p_vaddr = 0x80600000, p_paddr = 0x80600000, p_filesz = 6, p_memsz = 12\<rparr>
     (loader_example warm_example) = None"
  by (rule misaligned_bss_faults) (simp_all add: to_kseg1_def)

end
