(* ===== verification/CacheSim.thy ===== *)
theory CacheSim
  imports Prelude
begin

text \<open>
  The cache simulator of the measurement plugin, \<^verbatim>\<open>src/tools/qemu/sf2000-cache-model.c\<close>: geometry,
  set-associative lookup with ages, invalidation, instruction classes and the arithmetic of the report.
  The lookup is compared with an abstract cache that keeps, per set, the list of its tags in the order
  of their last use.
\<close>

section \<open>Instruction classes\<close>

datatype InsnClass = INSN_OTHER | INSN_BRANCH | INSN_JUMP | INSN_LOAD | INSN_STORE | INSN_MULDIV | INSN_COP2

text \<open>The enumeration values, used as indices of the counters.\<close>

definition class_index :: "InsnClass \<Rightarrow> nat" where
  "class_index k = (case k of INSN_OTHER \<Rightarrow> 0 | INSN_BRANCH \<Rightarrow> 1 | INSN_JUMP \<Rightarrow> 2 | INSN_LOAD \<Rightarrow> 3
     | INSN_STORE \<Rightarrow> 4 | INSN_MULDIV \<Rightarrow> 5 | INSN_COP2 \<Rightarrow> 6)"

definition classify_mips32 :: "u32 \<Rightarrow> InsnClass" where
  "classify_mips32 opcode =
     (let major = drop_bit 26 opcode; funct = opcode AND 0x3f
      in if major = 0 then
           (if funct \<in> {0x08, 0x09} then INSN_JUMP
            else if funct \<in> {0x18, 0x19, 0x1a, 0x1b, 0x10, 0x11, 0x12, 0x13} then INSN_MULDIV
            else INSN_OTHER)
         else if major = 1 \<or> (major \<ge> 4 \<and> major \<le> 7) then INSN_BRANCH
         else if major = 2 \<or> major = 3 then INSN_JUMP
         else if major = 0x12 then INSN_COP2
         else if (major \<ge> 0x20 \<and> major \<le> 0x27) \<or> (major \<ge> 0x30 \<and> major \<le> 0x37) then INSN_LOAD
         else if (major \<ge> 0x28 \<and> major \<le> 0x2f) \<or> (major \<ge> 0x38 \<and> major \<le> 0x3f) then INSN_STORE
         else INSN_OTHER)"

definition ratio_ppm :: "u64 \<Rightarrow> u64 \<Rightarrow> u64" where
  "ratio_ppm numerator denominator =
     (if denominator = 0 then 0
      else if numerator > (- 1) div 1000000
      then (numerator div denominator) * 1000000 + ((numerator mod denominator) * 1000000) div denominator
      else (numerator * 1000000) div denominator)"

section \<open>Geometry\<close>

record cache =
  tags :: "u64 list"
  ages :: "u32 list"
  valid :: "bool list"
  sets :: nat
  ways :: nat
  line_shift :: nat
  set_shift :: nat
  tick :: u64

definition is_power_of_two :: "u64 \<Rightarrow> bool" where
  "is_power_of_two value \<longleftrightarrow> value \<noteq> 0 \<and> value AND (value - 1) = 0"

function log2_u64 :: "u64 \<Rightarrow> nat" where
  "log2_u64 value = (if value > 1 then Suc (log2_u64 (drop_bit 1 value)) else 0)"
  by pat_completeness auto

termination
  by (relation "measure unat") (auto simp: drop_bit_eq_div unat_div word_less_nat_alt)

declare log2_u64.simps [simp del]

text \<open>\<open>cache_destroy\<close> leaves the structure zeroed.\<close>

definition cache_destroy :: "cache \<Rightarrow> cache" where
  "cache_destroy c =
     \<lparr>tags = [], ages = [], valid = [], sets = 0, ways = 0, line_shift = 0, set_shift = 0, tick = 0\<rparr>"

text \<open>
  \<open>alloc\<close> says whether memory for so many entries is there. The result is \<open>None\<close> when the division
  traps, and \<open>Some None\<close> for the error -1. The tick is that of the zeroed structure.
\<close>

definition cache_init :: "(nat \<Rightarrow> bool) \<Rightarrow> u64 \<Rightarrow> u64 \<Rightarrow> u64 \<Rightarrow> cache option option" where
  "cache_init alloc bytes line nways =
     (if \<not> is_power_of_two bytes \<or> \<not> is_power_of_two line \<or> \<not> is_power_of_two nways \<or> line < 4 \<or> nways = 0 \<or>
         bytes < line * nways
      then Some None
      else if line * nways = 0 then None
      else
        let nsets = bytes div (line * nways)
        in if \<not> is_power_of_two nsets \<or> nsets > (- 1) div nways then Some None
           else
             let entries = unat (nsets * nways)
             in if \<not> alloc entries then Some None
                else Some (Some
                  \<lparr>tags = replicate entries 0, ages = replicate entries 0, valid = replicate entries False,
                   sets = unat nsets, ways = unat nways, line_shift = log2_u64 line, set_shift = log2_u64 nsets,
                   tick = 0\<rparr>))"

definition cache_reset :: "cache \<Rightarrow> cache" where
  "cache_reset c =
     (let entries = sets c * ways c
      in c\<lparr>tags := replicate entries 0, ages := replicate entries 0, valid := replicate entries False, tick := 0\<rparr>)"

section \<open>Access\<close>

definition cache_set :: "cache \<Rightarrow> u64 \<Rightarrow> nat" where
  "cache_set c index_address = unat (drop_bit (line_shift c) index_address AND (of_nat (sets c) - 1))"

definition cache_tag :: "cache \<Rightarrow> u64 \<Rightarrow> u64" where
  "cache_tag c tag_address = drop_bit (set_shift c) (drop_bit (line_shift c) tag_address)"

definition next_tick :: "cache \<Rightarrow> cache" where
  "next_tick c =
     (let c = c\<lparr>tick := tick c + 1\<rparr>
      in if tick c = 0 then c\<lparr>ages := replicate (sets c * ways c) 0, tick := 1\<rparr> else c)"

datatype found = Hit nat | Victim nat

fun scan_ways :: "cache \<Rightarrow> nat \<Rightarrow> u64 \<Rightarrow> nat list \<Rightarrow> nat \<Rightarrow> u32 \<Rightarrow> found" where
  "scan_ways c base tag [] victim oldest = Victim (victim + base)"
| "scan_ways c base tag (way # rest) victim oldest =
     (let index = base + way
      in if valid c ! index \<and> tags c ! index = tag then Hit index
         else if \<not> valid c ! index then Victim (way + base)
         else if ages c ! index < oldest then scan_ways c base tag rest way (ages c ! index)
         else scan_ways c base tag rest victim oldest)"

definition cache_access_indexed :: "cache \<Rightarrow> u64 \<Rightarrow> u64 \<Rightarrow> bool \<times> cache" where
  "cache_access_indexed c tag_address index_address =
     (let tag = cache_tag c tag_address; base = cache_set c index_address * ways c; c = next_tick c
      in case scan_ways c base tag [0..<ways c] 0 0xffffffff of
           Hit i \<Rightarrow> (True, c\<lparr>ages := (ages c)[i := ucast (tick c)]\<rparr>)
         | Victim i \<Rightarrow>
             (False, c\<lparr>tags := (tags c)[i := tag], ages := (ages c)[i := ucast (tick c)], valid := (valid c)[i := True]\<rparr>))"

definition cache_access :: "cache \<Rightarrow> u64 \<Rightarrow> bool \<times> cache" where
  "cache_access c address = cache_access_indexed c address address"

fun invalidate_ways :: "nat \<Rightarrow> u64 \<Rightarrow> nat list \<Rightarrow> cache \<Rightarrow> cache" where
  "invalidate_ways base tag [] c = c"
| "invalidate_ways base tag (way # rest) c =
     (let index = base + way
      in invalidate_ways base tag rest
           (if valid c ! index \<and> tags c ! index = tag
            then c\<lparr>valid := (valid c)[index := False], ages := (ages c)[index := 0]\<rparr> else c))"

definition cache_invalidate_indexed :: "cache \<Rightarrow> u64 \<Rightarrow> u64 \<Rightarrow> cache" where
  "cache_invalidate_indexed c tag_address index_address =
     invalidate_ways (cache_set c index_address * ways c) (cache_tag c tag_address) [0..<ways c] c"

definition mips_direct_phys :: "u64 \<Rightarrow> u64" where
  "mips_direct_phys address =
     (let value = (ucast address :: u32)
      in if value AND 0xe0000000 = 0x80000000 \<or> value AND 0xe0000000 = 0xa0000000
         then ucast (value AND 0x1fffffff) else ucast value)"

definition sf2000_mmio_phys :: "u64 \<Rightarrow> bool" where
  "sf2000_mmio_phys address \<longleftrightarrow> address \<ge> 0x10000000 \<and> address < 0x1fc00000"

definition cache_access_instruction :: "bool \<Rightarrow> cache \<Rightarrow> u64 \<Rightarrow> bool \<times> cache" where
  "cache_access_instruction i_vipt c pc =
     (let physical = mips_direct_phys pc
      in if i_vipt then cache_access_indexed c physical pc else cache_access c physical)"

section \<open>Powers of two\<close>

lemma bit_top: "2 ^ k \<le> n \<Longrightarrow> n < 2 ^ Suc k \<Longrightarrow> bit (n :: nat) k"
  by (simp add: bit_iff_odd) (metis One_nat_def Suc_1 div_nat_eqI even_numeral mult.commute nat_mult_1 odd_one power_Suc)

lemma is_power_of_twoD:
  assumes "is_power_of_two w"
  obtains k where "k < 64" "w = 2 ^ k" "unat w = 2 ^ k"
proof -
  have w: "w \<noteq> 0" "w AND (w - 1) = 0" using assms by (auto simp: is_power_of_two_def)
  then have pos: "1 \<le> unat w" by (metis One_nat_def Suc_leI unat_gt_0)
  obtain k where k: "2 ^ k \<le> unat w" "unat w < 2 ^ (k + 1)" using ex_power_ivl1 [of 2 "unat w"] pos by auto
  have w64: "unat w < 2 ^ 64" using unsigned_less [of w, where 'a = nat] by simp
  then have k64: "k < 64" using k(1) by (metis le_less_trans nat_power_less_imp_less numeral_2_eq_2 zero_less_Suc)
  have u1: "unat (w - 1) = unat w - 1" using pos by (simp add: unat_sub word_le_nat_alt)
  have "unat w = 2 ^ k"
  proof (rule ccontr)
    assume "unat w \<noteq> 2 ^ k"
    then have "bit (unat (w - 1)) k" "bit (unat w) k" using k by (auto intro!: bit_top simp: u1)
    then have "bit (w AND (w - 1)) k" using k64 by (simp add: bit_unsigned_iff bit_and_iff)
    then show False using w(2) by simp
  qed
  then show ?thesis using that [OF k64] k64 by (metis of_nat_numeral of_nat_power of_nat_unat ucast_id)
qed

lemma unat_of_nat_64: "n < 2 ^ 64 \<Longrightarrow> unat (of_nat n :: u64) = n"
  by (simp only: unsigned_of_nat) (simp add: take_bit_nat_eq_self_iff)

lemma unat_power_64: "k < 64 \<Longrightarrow> unat (2 ^ k :: u64) = 2 ^ k"
  using unat_of_nat_64 [of "2 ^ k"] power_strict_increasing [of k 64 "2 :: nat"] by simp

lemma unat_max_64: "unat (- 1 :: u64) = 2 ^ 64 - 1"
proof -
  have "(- 1 :: u64) = 0xffffffffffffffff" by simp
  then show ?thesis by (simp only:) simp
qed

lemma log2_u64_power: "k < 64 \<Longrightarrow> log2_u64 (2 ^ k) = k"
proof (induction k)
  case 0
  then show ?case by (simp add: log2_u64.simps)
next
  case (Suc k)
  have "(2 :: u64) ^ Suc k > 1"
    unfolding word_less_nat_alt unat_power_64 [OF Suc.prems] using one_less_power [of "2 :: nat" "Suc k"] by simp
  moreover have "drop_bit 1 ((2 :: u64) ^ Suc k) = 2 ^ k"
  proof -
    have "unat ((2 :: u64) ^ Suc k div 2) = unat ((2 :: u64) ^ k)"
      using unat_power_64 [OF Suc.prems] unat_power_64 [of k] Suc.prems by (simp only: unat_div) simp
    then show ?thesis by (simp only: drop_bit_eq_div power_one_right word_unat_eq_iff)
  qed
  ultimately show ?case using Suc log2_u64.simps [of "2 ^ Suc k"] by simp
qed

section \<open>Geometry\<close>

definition cache_geom :: "cache \<Rightarrow> bool" where
  "cache_geom c \<longleftrightarrow> 0 < ways c \<and> set_shift c < 64 \<and> sets c = 2 ^ set_shift c \<and>
     length (tags c) = sets c * ways c \<and> length (ages c) = sets c * ways c \<and> length (valid c) = sets c * ways c"

lemma mult_le_div_64: "(b :: u64) \<noteq> 0 \<Longrightarrow> \<not> a > (- 1) div b \<Longrightarrow> unat (a * b) = unat a * unat b"
proof -
  assume b: "b \<noteq> 0" and a: "\<not> a > (- 1) div b"
  have "unat a \<le> (2 ^ 64 - 1) div unat b" using a by (simp add: not_less word_le_nat_alt unat_div unat_max_64)
  then have "unat a * unat b \<le> (2 ^ 64 - 1) div unat b * unat b" by (rule mult_le_mono1)
  also have "\<dots> \<le> 2 ^ 64 - 1" by (rule div_times_less_eq_dividend)
  finally show ?thesis by (simp add: unat_word_ariths)
qed

lemma cache_init_geom:
  assumes "cache_init alloc bytes line nways = Some (Some c)"
  shows "cache_geom c" "tick c = 0" "valid c = replicate (sets c * ways c) False" "ways c = unat nways"
    "unat line = 2 ^ line_shift c" "sets c * ways c * unat line = unat bytes"
proof -
  define nsets where "nsets = bytes div (line * nways)"
  have g: "is_power_of_two line" "is_power_of_two nsets" "\<not> nsets > (- 1) div nways" "nways \<noteq> 0"
      "line * nways \<noteq> 0" "is_power_of_two bytes" "is_power_of_two nways" "\<not> bytes < line * nways"
    and c: "c = \<lparr>tags = replicate (unat (nsets * nways)) 0, ages = replicate (unat (nsets * nways)) 0,
      valid = replicate (unat (nsets * nways)) False, sets = unat nsets, ways = unat nways,
      line_shift = log2_u64 line, set_shift = log2_u64 nsets, tick = 0\<rparr>"
    using assms by (auto simp: cache_init_def nsets_def Let_def split: if_splits)
  have e: "unat (nsets * nways) = unat nsets * unat nways" by (rule mult_le_div_64 [OF g(4,3)])
  obtain k where k: "k < 64" "nsets = 2 ^ k" "unat nsets = 2 ^ k" by (rule is_power_of_twoD [OF g(2)])
  obtain l where l: "l < 64" "line = 2 ^ l" "unat line = 2 ^ l" by (rule is_power_of_twoD [OF g(1)])
  obtain w where w: "w < 64" "nways = 2 ^ w" "unat nways = 2 ^ w" by (rule is_power_of_twoD [OF g(7)])
  obtain b where b: "b < 64" "bytes = 2 ^ b" "unat bytes = 2 ^ b" by (rule is_power_of_twoD [OF g(6)])
  show "cache_geom c" "tick c = 0" "valid c = replicate (sets c * ways c) False" "ways c = unat nways"
    using g(4) e k log2_u64_power [OF k(1)] by (auto simp: c cache_geom_def unat_gt_0)
  show "unat line = 2 ^ line_shift c" using l log2_u64_power [OF l(1)] by (simp add: c)
  have lw: "l + w < 64"
  proof (rule ccontr)
    assume "\<not> l + w < 64"
    then have "(2 :: u64) ^ (l + w) = 2 ^ 64 * 2 ^ (l + w - 64)" by (simp only: power_add [symmetric]) simp
    also have "(2 :: u64) ^ 64 = 0" by simp
    finally have "(2 :: u64) ^ (l + w) = 0" by simp
    then show False using g(5) by (simp add: l(2) w(2) power_add)
  qed
  then have ulw: "unat (line * nways) = 2 ^ (l + w)" using unat_power_64 [OF lw] by (simp add: l(2) w(2) power_add)
  then have "l + w \<le> b" using g(8) b(3) by (simp add: word_less_nat_alt not_less)
  then have "unat nsets = 2 ^ (b - (l + w))" using ulw b(3) by (simp add: nsets_def unat_div power_diff)
  then show "sets c * ways c * unat line = unat bytes"
    using \<open>l + w \<le> b\<close> by (simp add: c l(3) w(3) b(3) power_add [symmetric])
qed

lemma cache_set_less: "cache_geom c \<Longrightarrow> cache_set c a < sets c"
proof -
  assume g: "cache_geom c"
  then have "of_nat (sets c) - 1 = (mask (set_shift c) :: u64)" by (simp add: cache_geom_def mask_eq_exp_minus_1)
  then have "cache_set c a = unat (take_bit (set_shift c) (drop_bit (line_shift c) a))"
    by (simp only: cache_set_def take_bit_eq_mask)
  also have "\<dots> < 2 ^ set_shift c" using g by (simp add: unsigned_take_bit_eq cache_geom_def)
  finally show ?thesis using g by (simp add: cache_geom_def)
qed

lemma slot_less: "s < S \<Longrightarrow> w < W \<Longrightarrow> s * W + w < S * (W :: nat)"
proof -
  assume "s < S" "w < W"
  then have "s * W + w < Suc s * W" "Suc s * W \<le> S * W" by (simp, intro mult_le_mono1) simp
  then show ?thesis by simp
qed

lemma slot_inj: "w < W \<Longrightarrow> w' < W \<Longrightarrow> s * W + w = s' * W + w' \<longleftrightarrow> s = s' \<and> w = (w' :: nat)"
  by (metis add.commute div_mult_self1 mod_less mod_mult_self1 div_less add_0 gr_implies_not0)

section \<open>Exact least-recently-used replacement\<close>

text \<open>The abstract cache: per set, the tags in the order of their last use, at most \<open>n\<close> of them.\<close>

definition lru_access :: "nat \<Rightarrow> u64 \<Rightarrow> u64 list \<Rightarrow> bool \<times> u64 list" where
  "lru_access n t xs = (t \<in> set xs, take n (t # remove1 t xs))"

fun lru_run :: "nat \<Rightarrow> (nat \<Rightarrow> u64 list) \<Rightarrow> (nat \<times> u64) list \<Rightarrow> bool list" where
  "lru_run n S [] = []"
| "lru_run n S ((s, t) # xs) =
     (let (h, l) = lru_access n t (S s) in h # lru_run n (S(s := l)) xs)"

text \<open>
  The order of last use of the ways of a set: the ways in use are an initial segment, their ages fall
  along the order and are not above the tick, and no tag is there twice.
\<close>

definition set_order :: "cache \<Rightarrow> nat \<Rightarrow> nat list \<Rightarrow> bool" where
  "set_order c s p \<longleftrightarrow> distinct p \<and> set p = {..<length p} \<and> length p \<le> ways c \<and>
     (\<forall>w < ways c. valid c ! (s * ways c + w) \<longleftrightarrow> w < length p) \<and>
     sorted_wrt (\<lambda>v w. ages c ! (s * ways c + w) < ages c ! (s * ways c + v)) p \<and>
     distinct (map (\<lambda>w. tags c ! (s * ways c + w)) p) \<and>
     (\<forall>w < length p. unat (ages c ! (s * ways c + w)) \<le> unat (tick c))"

definition shows_lru :: "cache \<Rightarrow> (nat \<Rightarrow> u64 list) \<Rightarrow> bool" where
  "shows_lru c S \<longleftrightarrow> cache_geom c \<and>
     (\<forall>s < sets c. \<exists>p. set_order c s p \<and> S s = map (\<lambda>w. tags c ! (s * ways c + w)) p)"

subsection \<open>The scan of a set\<close>

lemma scan_hit:
  "\<forall>u \<in> set us. valid c ! (base + u) \<and> tags c ! (base + u) \<noteq> tag \<Longrightarrow> valid c ! (base + w) \<Longrightarrow>
   tags c ! (base + w) = tag \<Longrightarrow> scan_ways c base tag (us @ w # rest) v o' = Hit (base + w)"
  by (induction us arbitrary: v o') (auto simp: Let_def)

lemma scan_free:
  "\<forall>u \<in> set us. valid c ! (base + u) \<and> tags c ! (base + u) \<noteq> tag \<Longrightarrow> \<not> valid c ! (base + w) \<Longrightarrow>
   scan_ways c base tag (us @ w # rest) v o' = Victim (w + base)"
  by (induction us arbitrary: v o') (auto simp: Let_def)

lemma scan_keep:
  "\<forall>u \<in> set us. valid c ! (base + u) \<and> tags c ! (base + u) \<noteq> tag \<and> \<not> ages c ! (base + u) < o' \<Longrightarrow>
   scan_ways c base tag us v o' = Victim (v + base)"
  by (induction us) (auto simp: Let_def)

lemma scan_full:
  assumes "\<forall>u \<in> set us. valid c ! (base + u) \<and> tags c ! (base + u) \<noteq> tag" "w \<in> set us"
    "ages c ! (base + w) < o'" "\<forall>u \<in> set us. u \<noteq> w \<longrightarrow> ages c ! (base + w) < ages c ! (base + u)" "distinct us"
  shows "scan_ways c base tag us v o' = Victim (w + base)"
  using assms
proof (induction us arbitrary: v o')
  case (Cons u us)
  show ?case
  proof (cases "u = w")
    case True
    have "scan_ways c base tag us w (ages c ! (base + w)) = Victim (w + base)"
      by (rule scan_keep) (use Cons.prems True in auto)
    then show ?thesis using True Cons.prems by (simp add: Let_def)
  next
    case False
    have "scan_ways c base tag us v' o'' = Victim (w + base)" if "ages c ! (base + w) < o''" for v' o''
      by (rule Cons.IH) (use Cons.prems False that in auto)
    then show ?thesis using False Cons.prems by (simp add: Let_def)
  qed
qed simp

subsection \<open>One access\<close>

definition touch :: "cache \<Rightarrow> nat \<Rightarrow> u64 \<Rightarrow> cache" where
  "touch c i tag = c\<lparr>tick := tick c + 1, tags := (tags c)[i := tag], ages := (ages c)[i := ucast (tick c + 1)],
     valid := (valid c)[i := True]\<rparr>"

lemma touch_simps [simp]:
  "ways (touch c i tag) = ways c" "sets (touch c i tag) = sets c" "line_shift (touch c i tag) = line_shift c"
  "set_shift (touch c i tag) = set_shift c" "tick (touch c i tag) = tick c + 1"
  "cache_geom (touch c i tag) = cache_geom c"
  by (simp_all add: touch_def cache_geom_def)

lemma touch_nth:
  "j \<noteq> i \<Longrightarrow> tags (touch c i tag) ! j = tags c ! j" "j \<noteq> i \<Longrightarrow> ages (touch c i tag) ! j = ages c ! j"
  "j \<noteq> i \<Longrightarrow> valid (touch c i tag) ! j = valid c ! j"
  "i < length (tags c) \<Longrightarrow> tags (touch c i tag) ! i = tag"
  "i < length (ages c) \<Longrightarrow> ages (touch c i tag) ! i = ucast (tick c + 1)"
  "i < length (valid c) \<Longrightarrow> valid (touch c i tag) ! i"
  by (simp_all add: touch_def)

lemma tick_step:
  assumes "unat t + 1 < 2 ^ 32"
  shows "unat (t + 1 :: u64) = unat t + 1" "unat (ucast (t + 1) :: u32) = unat t + 1"
proof -
  show u: "unat (t + 1) = unat t + 1" using assms unat_add_lem [of t 1] by simp
  have "unat (ucast (t + 1) :: u32) = unat (t + 1) mod 2 ^ 32" by (simp add: unsigned_ucast_eq take_bit_eq_mod)
  then show "unat (ucast (t + 1) :: u32) = unat t + 1" using assms u by simp
qed

lemma touch_order:
  assumes g: "cache_geom c" and s: "s < sets c" and p: "set_order c s p" and w: "w \<le> length p" "w < ways c"
    and t: "unat (tick c) + 1 < 2 ^ 32" and tag: "tag \<notin> (\<lambda>u. tags c ! (s * ways c + u)) ` set (filter (\<lambda>v. v \<noteq> w) p)"
  shows "set_order (touch c (s * ways c + w) tag) s (w # filter (\<lambda>v. v \<noteq> w) p)"
    "map (\<lambda>u. tags (touch c (s * ways c + w) tag) ! (s * ways c + u)) (w # filter (\<lambda>v. v \<noteq> w) p) =
       tag # map (\<lambda>u. tags c ! (s * ways c + u)) (filter (\<lambda>v. v \<noteq> w) p)"
proof -
  define i c' q where "i = s * ways c + w" and "c' = touch c i tag" and "q = filter (\<lambda>v. v \<noteq> w) p"
  have P: "distinct p" "set p = {..<length p}" "length p \<le> ways c"
    "\<forall>w < ways c. valid c ! (s * ways c + w) \<longleftrightarrow> w < length p"
    "sorted_wrt (\<lambda>v w. ages c ! (s * ways c + w) < ages c ! (s * ways c + v)) p"
    "distinct (map (\<lambda>w. tags c ! (s * ways c + w)) p)"
    "\<forall>w < length p. unat (ages c ! (s * ways c + w)) \<le> unat (tick c)"
    using p unfolding set_order_def by blast+
  have il: "i < length (tags c)" "i < length (ages c)" "i < length (valid c)"
    using slot_less [OF s w(2)] g by (simp_all add: i_def cache_geom_def)
  have qp: "set q = set p - {w}" "distinct q" using P(1) by (auto simp: q_def)
  have sq: "set (w # q) = {..<length (w # q)}" "length (w # q) \<le> ways c"
  proof -
    have "length q = card (set p - {w})" using qp distinct_card [of q] by simp
    moreover have "card (set p - {w}) = (if w < length p then length p - 1 else length p)" by (subst P(2)) simp
    ultimately have l: "length (w # q) = (if w < length p then length p else Suc (length p))" by auto
    have st: "set (w # q) = insert w {..<length p}" using qp(1) by (subst (asm) P(2)) auto
    show "set (w # q) = {..<length (w # q)}" unfolding l st using w(1) by auto
    show "length (w # q) \<le> ways c" unfolding l using w P(3) by auto
  qed
  have same: "tags c' ! (s * ways c + u) = tags c ! (s * ways c + u)" "ages c' ! (s * ways c + u) = ages c ! (s * ways c + u)"
    "valid c' ! (s * ways c + u) = valid c ! (s * ways c + u)" if "u \<noteq> w" for u
    using that by (simp_all add: c'_def i_def touch_nth)
  have at: "tags c' ! i = tag" "ages c' ! i = ucast (tick c + 1)" "valid c' ! i" using il by (simp_all add: c'_def touch_nth)
  have tags': "map (\<lambda>u. tags c' ! (s * ways c + u)) (w # q) = tag # map (\<lambda>u. tags c ! (s * ways c + u)) q"
    using at(1) same(1) qp(1) by (auto simp: i_def)
  have old: "unat (ages c ! (s * ways c + u)) \<le> unat (tick c)" if "u \<in> set q" for u using that qp P(2,7) by auto
  have "sorted_wrt (\<lambda>v w. ages c' ! (s * ways c + w) < ages c' ! (s * ways c + v)) q"
  proof -
    have "sorted_wrt (\<lambda>v w. ages c ! (s * ways c + w) < ages c ! (s * ways c + v)) q"
      unfolding q_def by (rule sorted_wrt_filter [OF P(5)])
    then show ?thesis by (rule sorted_wrt_mono_rel [rotated]) (use same qp in auto)
  qed
  then have so: "sorted_wrt (\<lambda>v w. ages c' ! (s * ways c + w) < ages c' ! (s * ways c + v)) (w # q)"
    using old at(2) same(2) qp(1) tick_step [OF t] by (fastforce simp: i_def word_less_nat_alt)
  have v: "\<forall>u < ways c. valid c' ! (s * ways c + u) \<longleftrightarrow> u < length (w # q)"
  proof (intro allI impI)
    fix u assume u: "u < ways c"
    show "valid c' ! (s * ways c + u) \<longleftrightarrow> u < length (w # q)"
    proof (cases "u = w")
      case True
      then show ?thesis using at(3) sq(1) by (auto simp: i_def)
    next
      case False
      then have "u < length (w # q) \<longleftrightarrow> u \<in> set p" using sq(1) qp(1) by (metis insertCI insertE lessThan_iff DiffE DiffI list.simps(15) singletonD)
      then show ?thesis using same(3) [OF False] P(2,4) u by simp
    qed
  qed
  have ag: "\<forall>u < length (w # q). unat (ages c' ! (s * ways c + u)) \<le> unat (tick c')"
  proof (intro allI impI)
    fix u assume "u < length (w # q)"
    then have "u = w \<or> u \<in> set q" using sq(1) by (metis lessThan_iff set_ConsD)
    moreover have "unat (ages c' ! (s * ways c + w)) = unat (tick c')"
      using at(2) tick_step [OF t] by (simp only: i_def c'_def touch_simps)
    moreover have "unat (ages c' ! (s * ways c + u)) \<le> unat (tick c')" if "u \<in> set q"
      using old [OF that] same(2) [of u] that qp(1) tick_step(1) [OF t] by (simp add: c'_def)
    ultimately show "unat (ages c' ! (s * ways c + u)) \<le> unat (tick c')" by fastforce
  qed
  have dt: "distinct (map (\<lambda>u. tags c' ! (s * ways c + u)) (w # q))"
  proof -
    have "distinct (map (\<lambda>u. tags c ! (s * ways c + u)) q)"
      unfolding q_def using P(6) by (rule distinct_map_filter)
    then show ?thesis unfolding tags' using tag by (simp add: q_def)
  qed
  have "w \<notin> set q" using qp by simp
  then show "set_order (touch c (s * ways c + w) tag) s (w # filter (\<lambda>v. v \<noteq> w) p)"
    unfolding set_order_def c'_def [symmetric, unfolded i_def] q_def [symmetric]
    using qp(2) sq so v ag dt by (simp add: c'_def)
  show "map (\<lambda>u. tags (touch c (s * ways c + w) tag) ! (s * ways c + u)) (w # filter (\<lambda>v. v \<noteq> w) p) =
       tag # map (\<lambda>u. tags c ! (s * ways c + u)) (filter (\<lambda>v. v \<noteq> w) p)"
    using tags' by (simp only: c'_def i_def q_def)
qed

text \<open>The other sets do not change.\<close>

lemma touch_other:
  assumes "s' \<noteq> s" "w < ways c" "set_order c s' p" and t: "unat (tick c) + 1 < 2 ^ 32"
  shows "set_order (touch c (s * ways c + w) tag) s' p"
    "map (\<lambda>u. tags (touch c (s * ways c + w) tag) ! (s' * ways c + u)) p = map (\<lambda>u. tags c ! (s' * ways c + u)) p"
proof -
  have ne: "s' * ways c + u \<noteq> s * ways c + w" if "u < ways c" for u using slot_inj [OF that assms(2)] assms(1) by simp
  have p: "set p = {..<length p}" "length p \<le> ways c" using assms(3) by (auto simp: set_order_def)
  then have lt: "u < ways c" if "u \<in> set p" for u using that by auto
  show m: "map (\<lambda>u. tags (touch c (s * ways c + w) tag) ! (s' * ways c + u)) p = map (\<lambda>u. tags c ! (s' * ways c + u)) p"
    using ne lt by (simp add: touch_nth)
  have "sorted_wrt (\<lambda>v u. ages (touch c (s * ways c + w) tag) ! (s' * ways c + u) <
      ages (touch c (s * ways c + w) tag) ! (s' * ways c + v)) p"
  proof -
    have "sorted_wrt (\<lambda>v u. ages c ! (s' * ways c + u) < ages c ! (s' * ways c + v)) p"
      using assms(3) by (simp add: set_order_def)
    then show ?thesis by (rule sorted_wrt_mono_rel [rotated]) (use ne lt in \<open>auto simp: touch_nth\<close>)
  qed
  moreover have "\<forall>u < length p. unat (ages (touch c (s * ways c + w) tag) ! (s' * ways c + u)) \<le> unat (tick c + 1)"
    using assms(3) ne p(2) tick_step(1) [OF t] by (fastforce simp: set_order_def touch_nth)
  ultimately show "set_order (touch c (s * ways c + w) tag) s' p"
    using assms(3) ne unfolding set_order_def touch_simps m by (simp add: touch_nth)
qed

lemma set_order_known:
  assumes "set_order c s p"
  shows "\<forall>u < length p. valid c ! (s * ways c + u)" "w \<in> set p \<longleftrightarrow> w < length p" "length p \<le> ways c"
    "length p < ways c \<Longrightarrow> \<not> valid c ! (s * ways c + length p)"
  using assms by (auto simp: set_order_def)

lemma upt_split: "w < n \<Longrightarrow> [0..<n] = [0..<w] @ w # [Suc w..<n]"
  using upt_add_eq_append [of 0 w "n - w"] upt_conv_Cons [of w n] by simp

lemma access_set:
  assumes g: "cache_geom c" and s: "s < sets c" and p: "set_order c s p" and t: "unat (tick c) + 1 < 2 ^ 32"
    and xs: "xs = map (\<lambda>u. tags c ! (s * ways c + u)) p" and c1: "c1 = c\<lparr>tick := tick c + 1\<rparr>"
  obtains w where "w \<le> length p" "w < ways c"
    "scan_ways c1 (s * ways c) tag [0..<ways c] 0 0xffffffff =
      (if tag \<in> set xs then Hit (s * ways c + w) else Victim (w + s * ways c))"
    "tag \<notin> (\<lambda>u. tags c ! (s * ways c + u)) ` set (filter (\<lambda>v. v \<noteq> w) p)"
    "tag # map (\<lambda>u. tags c ! (s * ways c + u)) (filter (\<lambda>v. v \<noteq> w) p) = take (ways c) (tag # remove1 tag xs)"
    "tag \<in> set xs \<longrightarrow> tags c ! (s * ways c + w) = tag \<and> valid c ! (s * ways c + w)"
proof -
  note k = set_order_known [OF p]
  have P: "distinct p" "set p = {..<length p}" "distinct xs"
    "sorted_wrt (\<lambda>v w. ages c ! (s * ways c + w) < ages c ! (s * ways c + v)) p"
    "\<forall>w < length p. unat (ages c ! (s * ways c + w)) \<le> unat (tick c)"
    using p xs by (auto simp: set_order_def)
  have W: "0 < ways c" using g by (simp add: cache_geom_def)
  consider (hit) w where "w < length p" "tags c ! (s * ways c + w) = tag" "tag \<in> set xs"
    | (free) "tag \<notin> set xs" "length p < ways c" | (full) "tag \<notin> set xs" "length p = ways c"
    using k(3) P(2) by (cases "tag \<in> set xs") (fastforce simp: xs)+
  then show ?thesis
  proof cases
    case (hit w)
    have ne: "tags c ! (s * ways c + u) \<noteq> tag" if "u \<noteq> w" "u < length p" for u
      using that hit(1,2) P(1-3) inj_onD [of "\<lambda>u. tags c ! (s * ways c + u)" "set p" u w] by (auto simp: xs distinct_map)
    have "scan_ways c1 (s * ways c) tag ([0..<w] @ w # [Suc w..<ways c]) 0 0xffffffff = Hit (s * ways c + w)"
      by (rule scan_hit) (use k ne hit in \<open>auto simp: c1\<close>)
    then have sc: "scan_ways c1 (s * ways c) tag [0..<ways c] 0 0xffffffff = Hit (s * ways c + w)"
      using hit(1) k(3) by (simp add: upt_split [symmetric])
    have "remove1 tag xs = filter (\<lambda>x. x \<noteq> tag) xs" using P(3)
      by (simp add: distinct_remove1_removeAll removeAll_filter_not_eq) (rule filter_cong, auto)
    also have "\<dots> = map (\<lambda>u. tags c ! (s * ways c + u)) (filter (\<lambda>v. v \<noteq> w) p)"
      unfolding xs filter_map o_def
      by (rule arg_cong [of _ _ "map _"], rule filter_cong) (use ne hit P(2) in auto)
    finally have r: "remove1 tag xs = map (\<lambda>u. tags c ! (s * ways c + u)) (filter (\<lambda>v. v \<noteq> w) p)" .
    have "length (tag # remove1 tag xs) = length p" using hit by (auto simp: length_remove1 xs)
    moreover have "tag \<notin> (\<lambda>u. tags c ! (s * ways c + u)) ` set (filter (\<lambda>v. v \<noteq> w) p)"
      using ne k(2) by (auto dest: sym)
    ultimately show ?thesis using that [of w] hit sc k r by simp
  next
    case free
    have ne: "tags c ! (s * ways c + u) \<noteq> tag" if "u < length p" for u using that free P(2) by (auto simp: xs)
    have "scan_ways c1 (s * ways c) tag ([0..<length p] @ length p # [Suc (length p)..<ways c]) 0 0xffffffff =
        Victim (length p + s * ways c)"
      by (rule scan_free) (use k ne free in \<open>auto simp: c1\<close>)
    then have sc: "scan_ways c1 (s * ways c) tag [0..<ways c] 0 0xffffffff = Victim (length p + s * ways c)"
      using free by (simp add: upt_split [symmetric])
    have "filter (\<lambda>v. v \<noteq> length p) p = p" using P(2) by (auto simp: filter_id_conv)
    then show ?thesis using that [of "length p"] free sc by (simp add: remove1_idem xs)
  next
    case full
    have ne: "tags c ! (s * ways c + u) \<noteq> tag" if "u < length p" for u using that full P(2) by (auto simp: xs)
    define w where "w = last p"
    have pn: "p \<noteq> []" using W full by auto
    then have app: "p = butlast p @ [w]" by (simp add: w_def)
    have wl: "w < length p" using pn P(2) last_in_set [of p] by (auto simp: w_def)
    have nw: "w \<notin> set (butlast p)" using P(1) app by (metis distinct.simps(2) distinct_append not_distinct_conv_prefix)
    have min: "ages c ! (s * ways c + w) < ages c ! (s * ways c + u)" if "u < ways c" "u \<noteq> w" for u
    proof -
      have "u \<in> set (butlast p)" using that full P(2) app by (metis Un_iff empty_iff insert_iff lessThan_iff list.set set_append)
      moreover have "sorted_wrt (\<lambda>v w. ages c ! (s * ways c + w) < ages c ! (s * ways c + v)) (butlast p @ [w])"
        using P(4) app by simp
      ultimately show ?thesis by (simp add: sorted_wrt_append)
    qed
    have "unat (ages c ! (s * ways c + w)) < unat (0xffffffff :: u32)" using P(5) wl t by fastforce
    then have "scan_ways c1 (s * ways c) tag [0..<ways c] 0 0xffffffff = Victim (w + s * ways c)"
      by (intro scan_full) (use k ne wl full min in \<open>auto simp: c1 word_less_nat_alt\<close>)
    moreover have "filter (\<lambda>v. v \<noteq> w) p = butlast p"
    proof -
      have "filter (\<lambda>v. v \<noteq> w) (butlast p @ [w]) = butlast p" using nw by (auto simp: filter_id_conv)
      then show ?thesis using app by simp
    qed
    moreover have "take (ways c) (tag # xs) = tag # map (\<lambda>u. tags c ! (s * ways c + u)) (butlast p)"
      using full W by (cases "ways c") (simp_all add: xs map_butlast [symmetric] butlast_conv_take take_map)
    moreover have "tag \<notin> (\<lambda>u. tags c ! (s * ways c + u)) ` set (butlast p)" using ne P(2) by (auto dest: in_set_butlastD)
    ultimately show ?thesis using that [of w] wl full k(3) by (simp add: remove1_idem)
  qed
qed

text \<open>One access is one step of the abstract cache.\<close>

lemma access_step:
  assumes r: "shows_lru c S" and t: "unat (tick c) + 1 < 2 ^ 32"
    and a: "cache_access_indexed c ta ia = (h, c')" and s: "s = cache_set c ia" and tag: "tag = cache_tag c ta"
  shows "h = fst (lru_access (ways c) tag (S s))" "shows_lru c' (S(s := snd (lru_access (ways c) tag (S s))))"
    "unat (tick c') = unat (tick c) + 1" "ways c' = ways c" "sets c' = sets c" "line_shift c' = line_shift c"
    "set_shift c' = set_shift c"
proof -
  have g: "cache_geom c" using r by (simp add: shows_lru_def)
  have sl: "s < sets c" unfolding s by (rule cache_set_less [OF g])
  obtain p where p: "set_order c s p" "S s = map (\<lambda>u. tags c ! (s * ways c + u)) p" using r sl by (auto simp: shows_lru_def)
  obtain w where w: "w \<le> length p" "w < ways c"
    "scan_ways (c\<lparr>tick := tick c + 1\<rparr>) (s * ways c) tag [0..<ways c] 0 0xffffffff =
      (if tag \<in> set (S s) then Hit (s * ways c + w) else Victim (w + s * ways c))"
    "tag \<notin> (\<lambda>u. tags c ! (s * ways c + u)) ` set (filter (\<lambda>v. v \<noteq> w) p)"
    "tag # map (\<lambda>u. tags c ! (s * ways c + u)) (filter (\<lambda>v. v \<noteq> w) p) = take (ways c) (tag # remove1 tag (S s))"
    "tag \<in> set (S s) \<longrightarrow> tags c ! (s * ways c + w) = tag \<and> valid c ! (s * ways c + w)"
    by (rule access_set [OF g sl p(1) t p(2) refl, of tag])
  have nt: "next_tick c = c\<lparr>tick := tick c + 1\<rparr>"
    using tick_step(1) [OF t] by (auto simp: next_tick_def Let_def)
  have up: "(tags c)[s * ways c + w := tag] = tags c" "(valid c)[s * ways c + w := True] = valid c" if "tag \<in> set (S s)"
    using w(6) that list_update_id [of "tags c" "s * ways c + w"] list_update_id [of "valid c" "s * ways c + w"] by simp_all
  have c': "c' = touch c (s * ways c + w) tag" and h: "h = (tag \<in> set (S s))"
    using a w(3) up unfolding cache_access_indexed_def s [symmetric] tag [symmetric] Let_def nt
    by (auto simp: touch_def add.commute split: if_splits)
  show "h = fst (lru_access (ways c) tag (S s))" by (simp add: h lru_access_def)
  show "unat (tick c') = unat (tick c) + 1" "ways c' = ways c" "sets c' = sets c" "line_shift c' = line_shift c"
    "set_shift c' = set_shift c"
    using tick_step(1) [OF t] by (simp_all add: c')
  note o = touch_order [OF g sl p(1) w(1,2) t w(4)]
  have "\<exists>q. set_order c' s' q \<and> (S(s := snd (lru_access (ways c) tag (S s)))) s' = map (\<lambda>u. tags c' ! (s' * ways c + u)) q"
    if s': "s' < sets c" for s'
  proof (cases "s' = s")
    case True
    then show ?thesis
      using o w(5) by (intro exI [of _ "w # filter (\<lambda>v. v \<noteq> w) p"]) (simp add: c' lru_access_def)
  next
    case False
    obtain q where "set_order c s' q" "S s' = map (\<lambda>u. tags c ! (s' * ways c + u)) q" using r s' by (auto simp: shows_lru_def)
    then show ?thesis using touch_other [OF False w(2) _ t] False by (intro exI [of _ q]) (simp add: c')
  qed
  then show "shows_lru c' (S(s := snd (lru_access (ways c) tag (S s))))"
    using g by (simp add: shows_lru_def c')
qed

section \<open>Properties of the simulator\<close>

fun cache_run :: "cache \<Rightarrow> (u64 \<times> u64) list \<Rightarrow> bool list \<times> cache" where
  "cache_run c [] = ([], c)"
| "cache_run c ((ta, ia) # xs) =
     (let (h, c) = cache_access_indexed c ta ia; (hs, c) = cache_run c xs in (h # hs, c))"

lemma run_step:
  assumes "shows_lru c S" "unat (tick c) + length xs < 2 ^ 32"
  shows "fst (cache_run c xs) = lru_run (ways c) S (map (\<lambda>(ta, ia). (cache_set c ia, cache_tag c ta)) xs)"
  using assms
proof (induction xs arbitrary: c S)
  case (Cons x xs)
  obtain ta ia where x: "x = (ta, ia)" by (cases x)
  obtain h c' where a: "cache_access_indexed c ta ia = (h, c')" by (cases "cache_access_indexed c ta ia")
  have "unat (tick c) + 1 < 2 ^ 32" using Cons.prems(2) by simp
  note st = access_step [OF Cons.prems(1) this a refl refl]
  have keys: "cache_set c' i = cache_set c i" "cache_tag c' i = cache_tag c i" for i
    using st(5-7) by (simp_all add: cache_set_def cache_tag_def)
  obtain hs c'' where r: "cache_run c' xs = (hs, c'')" by (cases "cache_run c' xs")
  have "hs = lru_run (ways c) (S(cache_set c ia := snd (lru_access (ways c) (cache_tag c ta) (S (cache_set c ia)))))
      (map (\<lambda>(ta, ia). (cache_set c ia, cache_tag c ta)) xs)"
    using Cons.IH [OF st(2)] Cons.prems(2) st(3,4) r by (simp add: keys fun_upd_def)
  then show ?case using st(1) a r by (simp add: x split: prod.split)
qed simp

lemma init_shows_lru: "cache_init alloc bytes line nways = Some (Some c) \<Longrightarrow> shows_lru c (\<lambda>_. [])"
  using cache_init_geom [of alloc bytes line nways c] slot_less
  by (auto simp: shows_lru_def set_order_def cache_geom_def)

text \<open>
  C17. The simulator is an exact least-recently-used cache: from a fresh cache of an accepted geometry, and
  for fewer than \<open>2 ^ 32\<close> accesses, it reports the hits of the abstract cache that keeps per set the last
  \<open>ways\<close> distinct tags.
\<close>

theorem cache_is_lru:
  assumes "cache_init alloc bytes line nways = Some (Some c)" "length xs < 2 ^ 32"
  shows "fst (cache_run c xs) =
    lru_run (unat nways) (\<lambda>_. []) (map (\<lambda>(ta, ia). (cache_set c ia, cache_tag c ta)) xs)"
  using run_step [OF init_shows_lru [OF assms(1)]] cache_init_geom(2,4) [OF assms(1)] assms(2) by simp

text \<open>
  Four accesses to one set of a two-way cache: the third is a hit and the fourth evicts the line that has
  not been used longest, so the fifth misses.
\<close>

theorem cache_is_lru_witness:
  "\<exists>c. cache_init (\<lambda>_. True) 64 16 2 = Some (Some c) \<and>
     fst (cache_run c [(0, 0), (32, 32), (0, 0), (64, 64), (32, 32)]) = [False, False, True, False, False]"
proof -
  have "cache_init (\<lambda>_. True) 64 16 2 \<noteq> Some None" "cache_init (\<lambda>_. True) 64 16 2 \<noteq> None"
    by (simp_all add: cache_init_def is_power_of_two_def Let_def)
  then obtain c where c: "cache_init (\<lambda>_. True) 64 16 2 = Some (Some c)" by (metis not_None_eq)
  then have g: "line_shift c = 4" "set_shift c = 1" "sets c = 2"
    by (auto simp: cache_init_def is_power_of_two_def Let_def log2_u64.simps)
  have "fst (cache_run c [(0, 0), (32, 32), (0, 0), (64, 64), (32, 32)]) =
      lru_run (unat (2 :: u64)) (\<lambda>_. []) (map (\<lambda>(ta, ia). (cache_set c ia, cache_tag c ta)) [(0, 0), (32, 32), (0, 0), (64, 64), (32, 32)])"
    by (rule cache_is_lru [OF c]) simp
  also have "map (\<lambda>(ta, ia). (cache_set c ia, cache_tag c ta)) [(0, 0), (32, 32), (0, 0), (64, 64), (32, 32)] =
      [(0, 0), (0, 1), (0, 0), (0, 2), (0, 1)]"
    by (simp add: cache_set_def cache_tag_def g)
  also have "lru_run (unat (2 :: u64)) (\<lambda>_. []) [(0, 0), (0, 1), (0, 0), (0, 2), (0, 1)] = [False, False, True, False, False]"
    by (simp add: lru_access_def)
  finally show ?thesis using c by blast
qed

subsection \<open>Invalidation\<close>

lemma next_tick_simps [simp]:
  "tags (next_tick c) = tags c" "valid (next_tick c) = valid c" "ways (next_tick c) = ways c" "sets (next_tick c) = sets c"
  "line_shift (next_tick c) = line_shift c" "set_shift (next_tick c) = set_shift c"
  by (simp_all add: next_tick_def Let_def)

lemma invalidate_ways_effect:
  "tags (invalidate_ways base tag ws c) = tags c \<and> ways (invalidate_ways base tag ws c) = ways c \<and>
   sets (invalidate_ways base tag ws c) = sets c \<and> line_shift (invalidate_ways base tag ws c) = line_shift c \<and>
   set_shift (invalidate_ways base tag ws c) = set_shift c \<and>
   length (valid (invalidate_ways base tag ws c)) = length (valid c) \<and>
   (\<forall>j < length (valid c). valid (invalidate_ways base tag ws c) ! j \<longleftrightarrow>
      valid c ! j \<and> \<not> (tags c ! j = tag \<and> (\<exists>u \<in> set ws. j = base + u)))"
proof (induction ws arbitrary: c)
  case (Cons w ws)
  define c1 where "c1 = (if valid c ! (base + w) \<and> tags c ! (base + w) = tag
    then c\<lparr>valid := (valid c)[base + w := False], ages := (ages c)[base + w := 0]\<rparr> else c)"
  have "tags c1 = tags c" "ways c1 = ways c" "sets c1 = sets c" "line_shift c1 = line_shift c" "set_shift c1 = set_shift c"
    "length (valid c1) = length (valid c)"
    by (simp_all add: c1_def)
  moreover have "j < length (valid c) \<Longrightarrow> valid c1 ! j \<longleftrightarrow> valid c ! j \<and> \<not> (tags c ! j = tag \<and> j = base + w)" for j
    by (cases "j = base + w") (auto simp: c1_def)
  ultimately show ?case using Cons.IH [of c1] by (auto simp: c1_def [symmetric] Let_def)
qed simp

lemma access_hits_iff: "fst (cache_access_indexed c ta ia) =
    (\<exists>i. scan_ways (next_tick c) (cache_set c ia * ways c) (cache_tag c ta) [0..<ways c] 0 0xffffffff = Hit i)"
  by (auto simp: cache_access_indexed_def Let_def split: found.split)

text \<open>
  C35. Invalidating a line hides the lines in higher ways of its set: the scan stops at the free way, so the
  access to a line that is still there is counted as a miss (and the line is then there twice).
\<close>

theorem invalidated_way_hides_line:
  assumes g: "cache_geom c" and same: "cache_set c ib = cache_set c ia"
    and w: "w < v" "v < ways c"
    and a: "tags c ! (cache_set c ia * ways c + w) = cache_tag c ta"
    and b: "tags c ! (cache_set c ia * ways c + v) = cache_tag c tb" "valid c ! (cache_set c ia * ways c + v)"
    and before: "\<forall>u < v. valid c ! (cache_set c ia * ways c + u) \<and> tags c ! (cache_set c ia * ways c + u) \<noteq> cache_tag c tb"
  shows "fst (cache_access_indexed c tb ib) \<and> \<not> fst (cache_access_indexed (cache_invalidate_indexed c ta ia) tb ib)"
proof -
  define base c' where "base = cache_set c ia * ways c" and "c' = cache_invalidate_indexed c ta ia"
  have "scan_ways (next_tick c) base (cache_tag c tb) ([0..<v] @ v # [Suc v..<ways c]) 0 0xffffffff = Hit (base + v)"
    by (rule scan_hit) (use before b in \<open>auto simp: base_def\<close>)
  then have h: "fst (cache_access_indexed c tb ib)"
    using w(2) by (auto simp: access_hits_iff same base_def upt_split [symmetric])
  note e = invalidate_ways_effect [of base "cache_tag c ta" "[0..<ways c]" c]
  have keys: "cache_set c' i = cache_set c i" "cache_tag c' i = cache_tag c i" "ways c' = ways c" "tags c' = tags c" for i
    using e by (simp_all add: c'_def cache_invalidate_indexed_def base_def cache_set_def cache_tag_def)
  have bl: "base + u < length (valid c)" if "u < ways c" for u
    using slot_less [OF cache_set_less [OF g, of ia] that] g by (simp add: base_def cache_geom_def)
  have vd: "valid c' ! (base + u) \<longleftrightarrow> valid c ! (base + u) \<and> tags c ! (base + u) \<noteq> cache_tag c ta" if "u < ways c" for u
    using e bl [OF that] that by (auto simp: c'_def cache_invalidate_indexed_def base_def)
  define w0 where "w0 = (LEAST u. tags c ! (base + u) = cache_tag c ta)"
  have w0: "tags c ! (base + w0) = cache_tag c ta" "w0 \<le> w"
    using a unfolding w0_def base_def by (rule LeastI, rule Least_le)
  have lt: "tags c ! (base + u) \<noteq> cache_tag c ta" if "u < w0" for u using that not_less_Least unfolding w0_def by blast
  have "scan_ways (next_tick c') base (cache_tag c tb) ([0..<w0] @ w0 # [Suc w0..<ways c]) 0 0xffffffff = Victim (w0 + base)"
    by (rule scan_free) (use before lt w0 w vd in \<open>auto simp: keys base_def [symmetric]\<close>)
  then have "\<not> fst (cache_access_indexed c' tb ib)"
    using w0 w by (auto simp: access_hits_iff keys same base_def [symmetric] upt_split [symmetric])
  then show ?thesis using h by (simp add: c'_def)
qed

subsection \<open>Wrap-around of the ages\<close>

lemma all_less_2: "(\<forall>u < 2 :: nat. P u) \<longleftrightarrow> P 0 \<and> P (Suc 0)"
  by (auto simp: numeral_2_eq_2 less_Suc_eq)

text \<open>
  C36. The tick has 64 bits and the ages 32: with access number \<open>2 ^ 32\<close> the line used last gets the age 0 and
  is the next one to be evicted.
\<close>

theorem age_wrap_evicts_newest:
  assumes g: "cache_geom c" "ways c = 2" "tick c = 0xffffffff" and w: "w < 2"
    and set: "s = cache_set c ia" "cache_set c ix = s"
    and full: "\<forall>u < 2. valid c ! (s * 2 + u) \<and> ages c ! (s * 2 + u) \<noteq> 0"
    and tags: "tags c ! (s * 2 + w) = cache_tag c ta" "tags c ! (s * 2 + (1 - w)) \<noteq> cache_tag c ta"
      "\<forall>u < 2. tags c ! (s * 2 + u) \<noteq> cache_tag c tx"
  shows "let (h1, c1) = cache_access_indexed c ta ia; (h2, c2) = cache_access_indexed c1 tx ix
    in h1 \<and> \<not> h2 \<and> tags c2 ! (s * 2 + w) = cache_tag c tx"
proof -
  have up: "[0..<2] = [0, 1 :: nat]" by (simp add: numeral_2_eq_2)
  have len: "s * 2 + w < length (tags c)" "s * 2 + w < length (ages c)" "s * 2 + w < length (valid c)"
    using slot_less [OF cache_set_less [OF g(1), of ia], of w 2] g w set by (simp_all add: cache_geom_def)
  have w01: "w = 0 \<or> w = 1" using w by auto
  define c1 where "c1 = c\<lparr>tick := 0x100000000, ages := (ages c)[s * 2 + w := 0]\<rparr>"
  have f: "valid c ! (s * 2)" "valid c ! Suc (s * 2)" "ages c ! (s * 2) > 0" "ages c ! Suc (s * 2) > 0"
    "tags c ! (s * 2) \<noteq> cache_tag c tx" "tags c ! Suc (s * 2) \<noteq> cache_tag c tx"
    using full tags(3) by (auto simp: all_less_2 word_gt_0)
  have z: "(0x100000000 :: u32) = 0" using word_pow_0 [where 'a = 32] by simp
  have a: "cache_access_indexed c ta ia = (True, c1)"
    using w01 tags f set g by (auto simp: cache_access_indexed_def next_tick_def Let_def up c1_def z)
  have keys: "cache_set c1 i = cache_set c i" "cache_tag c1 i = cache_tag c i" for i
    by (simp_all add: c1_def cache_set_def cache_tag_def)
  have nt: "next_tick c1 = c1\<lparr>tick := 0x100000001\<rparr>" by (simp add: next_tick_def c1_def)
  have "scan_ways (c1\<lparr>tick := 0x100000001\<rparr>) (s * 2) (cache_tag c tx) [0..<2] 0 0xffffffff = Victim (w + s * 2)"
    by (rule scan_full) (use full tags(3) len w in \<open>auto simp: c1_def word_gt_0\<close>)
  moreover have "ways c1 = 2" using g by (simp add: c1_def)
  ultimately have "fst (cache_access_indexed c1 tx ix) = False \<and> tags (snd (cache_access_indexed c1 tx ix)) ! (s * 2 + w) = cache_tag c tx"
    using set len by (simp add: cache_access_indexed_def Let_def nt keys add.commute [of w]) (simp add: c1_def)
  then show ?thesis by (simp add: a split_def)
qed


definition cache_example :: cache where
  "cache_example = \<lparr>tags = [0, 1], ages = [1, 2], valid = [True, True], sets = 1, ways = 2, line_shift = 4, set_shift = 0, tick = 2\<rparr>"

theorem invalidated_way_hides_line_witness:
  "fst (cache_access_indexed cache_example 16 16) \<and>
   \<not> fst (cache_access_indexed (cache_invalidate_indexed cache_example 0 0) 16 16)"
proof (rule invalidated_way_hides_line [where w = 0 and v = 1])
  show "cache_geom cache_example" by (simp add: cache_geom_def cache_example_def)
qed (simp_all add: cache_example_def cache_set_def cache_tag_def)

theorem age_wrap_evicts_newest_witness:
  "let (h1, c1) = cache_access_indexed (cache_example\<lparr>tick := 0xffffffff\<rparr>) 16 16; (h2, c2) = cache_access_indexed c1 32 32
   in h1 \<and> \<not> h2 \<and> tags c2 ! (0 * 2 + 1) = cache_tag (cache_example\<lparr>tick := 0xffffffff\<rparr>) 32"
proof (rule age_wrap_evicts_newest)
  show "cache_geom (cache_example\<lparr>tick := 0xffffffff\<rparr>)" by (simp add: cache_geom_def cache_example_def)
qed (simp_all add: cache_example_def cache_set_def cache_tag_def all_less_2)

subsection \<open>Virtual and physical indices\<close>

lemma direct_low_bits:
  assumes "(ucast pc :: u32) AND 0xe0000000 \<in> {0x80000000, 0xa0000000}" "i < 29"
  shows "bit (mips_direct_phys pc) i = bit pc i"
proof -
  have "(0x1fffffff :: u32) = mask 29" by (simp add: mask_eq_exp_minus_1)
  then have "mips_direct_phys pc = ucast (ucast pc AND mask 29 :: u32)"
    using assms(1) by (auto simp: mips_direct_phys_def Let_def)
  then show ?thesis using assms(2) by (simp add: bit_simps)
qed

text \<open>
  For the direct segments the two indexing modes agree: KSEG0 and KSEG1 keep the low 29 bits of the
  physical address, so a cache of up to 512 MiB per way has the same sets for the virtual and the
  physical address. The aliases named in the comment of \<open>cache_access_indexed\<close> do not differ in their index.
\<close>

theorem vipt_is_pipt:
  assumes g: "cache_geom c" "line_shift c + set_shift c \<le> 29"
    and pc: "(ucast pc :: u32) AND 0xe0000000 \<in> {0x80000000, 0xa0000000}"
  shows "cache_access_instruction True c pc = cache_access_instruction False c pc"
proof -
  have m: "of_nat (sets c) - 1 = (mask (set_shift c) :: u64)" using g by (simp add: cache_geom_def mask_eq_exp_minus_1)
  have "drop_bit (line_shift c) pc AND mask (set_shift c) = drop_bit (line_shift c) (mips_direct_phys pc) AND mask (set_shift c)"
    using g(2) direct_low_bits [OF pc] by (intro bit_word_eqI) (auto simp: bit_simps)
  then have "cache_set c pc = cache_set c (mips_direct_phys pc)" by (simp add: cache_set_def m)
  then show ?thesis by (simp add: cache_access_instruction_def cache_access_def cache_access_indexed_def Let_def)
qed

theorem vipt_is_pipt_witness:
  "cache_access_instruction True cache_example 0xa0001234 = cache_access_instruction False cache_example 0xa0001234"
  by (rule vipt_is_pipt) (simp_all add: cache_example_def cache_geom_def)

text \<open>
  A line size and a number of ways whose product is \<open>2 ^ 64\<close> pass every check of \<open>cache_init\<close>, because the
  product is zero in 64 bits, and the division by it traps.
\<close>

theorem cache_init_traps:
  assumes "line = 2 ^ i" "nways = 2 ^ j" "2 \<le> i" "i < 64" "j < 64" "64 \<le> i + j" "is_power_of_two bytes"
  shows "cache_init alloc bytes line nways = None"
proof -
  have p: "is_power_of_two (2 ^ k)" if "k < 64" for k
  proof -
    have "(2 ^ k :: u64) AND (2 ^ k - 1) = 2 ^ k AND mask k" by (simp add: mask_eq_exp_minus_1)
    also have "\<dots> = 0" by (rule bit_word_eqI) (auto simp: bit_simps)
    finally show ?thesis using that unat_power_64 [OF that] by (auto simp: is_power_of_two_def)
  qed
  have "line * nways = 2 ^ 64 * 2 ^ (i + j - 64)" using assms(1,2,6) by (simp only: power_add [symmetric]) simp
  moreover have "(2 :: u64) ^ 64 = 0" by simp
  ultimately have z: "line * nways = 0" by (simp only: mult_zero_left)
  have "4 \<le> (2 :: nat) ^ i" using power_increasing [OF assms(3), of "2 :: nat"] by simp
  then have "\<not> line < 4" using assms(1) unat_power_64 [OF assms(4)] by (simp add: word_less_nat_alt)
  then show ?thesis
    using p assms z unat_power_64 [OF assms(5)] by (auto simp: cache_init_def)
qed

theorem cache_init_traps_witness: "cache_init (\<lambda>_. True) 16384 0x100000000 0x100000000 = None"
  by (rule cache_init_traps [of _ 32 _ 32]) (simp_all add: is_power_of_two_def)

end
