(* ===== verification/CacheProfile.thy ===== *)
theory CacheProfile
  imports CacheSim
begin

text \<open>
  The measurement plugin around the cache simulator, \<^verbatim>\<open>src/tools/qemu/sf2000-cache-model.c\<close>: the counters,
  the classification of program counters, the hotspot table, frames and reports, and the callbacks QEMU
  makes for a translated block, an executed block, a memory access and a frame marker. The data QEMU hands to
  a callback is an argument. A pointer into the hotspot table is its index, the first
  \<open>frame_cycle_count\<close> elements of an array of frame values are a list, and a report is the record of the values
  printed; the text of reports and of messages on the standard error stream is not modelled.
\<close>

section \<open>State\<close>

abbreviation (input) UINT64_MAX where "UINT64_MAX \<equiv> (0xffffffffffffffff :: u64)"
abbreviation (input) GTE_MAX_RANGES where "GTE_MAX_RANGES \<equiv> (127 :: nat)"
abbreviation (input) GTE_OP_COUNT where "GTE_OP_COUNT \<equiv> (22 :: nat)"
abbreviation (input) GTE_ID_NONE where "GTE_ID_NONE \<equiv> (0 :: u8)"
abbreviation (input) GTE_ID_ENTRY where "GTE_ID_ENTRY \<equiv> (0x80 :: u8)"
abbreviation (input) REC_DISCOVERY_BASE where "REC_DISCOVERY_BASE \<equiv> (0x83200000 :: u64)"
abbreviation (input) REC_DISCOVERY_END where "REC_DISCOVERY_END \<equiv> (0x84000000 :: u64)"
abbreviation (input) FRAME_VALUES where "FRAME_VALUES \<equiv> (4096 :: nat)"

record HotspotEntry =
  hs_pc :: u64
  hs_opcode :: u32
  hs_class_id :: InsnClass
  hs_executions :: u64
  hs_i_misses :: u64
  hs_d_accesses :: u64
  hs_d_misses :: u64
  first_d_miss_address :: u64
  last_d_miss_address :: u64
  first_d_miss_vaddr :: u64
  last_d_miss_vaddr :: u64

record GteRange =
  gr_offset :: u32
  gr_size :: u32
  gr_operation :: nat
  gr_work :: u8

record TranslationBlock =
  tb_pc :: "u64 list"
  tb_class_id :: "InsnClass list"
  tb_gte_id :: "u8 list"
  tb_hot :: "nat option list option"
  tb_mem :: "bool list"
  tb_rec_count :: nat

record MemData =
  md_hot :: "nat option"
  md_pc :: u64
  md_gte_id :: u8

record report =
  r_kind :: string
  r_sample_no :: u64
  r_scope :: string
  r_coverage :: string
  r_recbase_status :: string
  r_map_status :: string
  r_counts :: "u64 list"
  r_frame_samples :: nat
  r_frame_cycles :: "u64 list"
  r_frame_gte_work :: "u64 list"
  r_ppm :: "u64 list"
  r_rec_code_span :: u64
  r_helper :: "u64 list"
  r_helper_ppm :: "u64 list"
  r_estimated_cycles :: u64
  r_delta :: "u64 list"

record Model =
  icache :: cache
  dcache :: cache
  out :: "report list option"
  instructions :: u64
  i_accesses :: u64
  i_misses :: u64
  d_accesses :: u64
  d_lines :: u64
  d_bytes :: u64
  d_size_counts :: "u64 list"
  d_misses :: u64
  i_invalidations :: u64
  rec_i_invalidations :: u64
  stores :: u64
  mmio :: u64
  sample :: u64
  next_sample :: u64
  sample_no :: u64
  previous_instructions :: u64
  previous_i_misses :: u64
  previous_d_misses :: u64
  previous_estimated_cycles :: u64
  instruction_penalty :: u64
  data_penalty :: u64
  insn_classes :: "u64 list"
  rec_base :: u64
  rec_end :: u64
  rec_configured_base :: u64
  rec_base_evidence_pc :: u64
  core_base :: u64
  core_end :: u64
  rec_base_auto :: bool
  rec_base_was_auto :: bool
  rec_base_discovered :: bool
  rec_base_mismatch :: bool
  gte_enabled :: bool
  gte_map_hits :: u64
  gte_entries :: u64
  gte_map_entries :: u64
  gte_instructions :: u64
  gte_i_misses :: u64
  gte_d_accesses :: u64
  gte_d_lines :: u64
  gte_d_misses :: u64
  gte_counts :: "u64 list"
  gte_work :: u64
  gte_ranges :: "GteRange list"
  core_only :: bool
  emu_only :: bool
  rec_i_accesses :: u64
  rec_i_misses :: u64
  rec_d_accesses :: u64
  rec_d_lines :: u64
  rec_d_bytes :: u64
  rec_d_size_counts :: "u64 list"
  rec_d_misses :: u64
  rec_insn_classes :: "u64 list"
  rec_tb_execs :: u64
  rec_unique_lines :: u64
  rec_pc_low :: u64
  rec_pc_high :: u64
  rec_line_bits :: "u8 list option"
  rec_line_count :: nat
  d_vipt :: bool
  i_vipt :: bool
  rec_only :: bool
  phase_rec :: bool
  phase_active :: bool
  frame_opcode :: u32
  frame_number :: u64
  frame_report_period :: u64
  frame_stop :: u64
  frame_previous_cycles :: u64
  frame_cycle_sum :: u64
  frame_cycle_values :: "u64 list"
  frame_gte_work_sum :: u64
  frame_gte_work_values :: "u64 list"
  frame_previous_gte_work :: u64
  frame_have_previous :: bool
  frame_frozen :: bool
  have_previous :: bool
  hot_table :: "HotspotEntry list option"
  hot_file :: "(string \<times> HotspotEntry list) list option"
  translation_blocks :: "TranslationBlock list"
  translation_block_count :: u64
  memdata_count :: u64

section \<open>Program counters\<close>

definition pc_is_rec_code :: "Model \<Rightarrow> u64 \<Rightarrow> bool" where
  "pc_is_rec_code md pc \<longleftrightarrow> pc \<ge> rec_base md \<and> pc < rec_end md"

definition pc_is_core_code :: "Model \<Rightarrow> u64 \<Rightarrow> bool" where
  "pc_is_core_code md pc \<longleftrightarrow> pc \<ge> core_base md \<and> pc < core_end md"

text \<open>Zero, or the number of the range plus one, with the top bit set at the entry of a function.\<close>

fun range_id :: "u64 \<Rightarrow> nat \<Rightarrow> GteRange list \<Rightarrow> u8" where
  "range_id off i [] = GTE_ID_NONE"
| "range_id off i (r # rs) =
     (if off \<ge> ucast (gr_offset r) \<and> off < ucast (gr_offset r) + ucast (gr_size r)
      then of_nat (i + 1) OR (if off = ucast (gr_offset r) then GTE_ID_ENTRY else 0)
      else range_id off (i + 1) rs)"

definition gte_id_for_pc :: "Model \<Rightarrow> u64 \<Rightarrow> u8" where
  "gte_id_for_pc md pc =
     (if \<not> gte_enabled md \<or> \<not> pc_is_core_code md pc \<or> pc < core_base md then GTE_ID_NONE
      else range_id (pc - core_base md) 0 (gte_ranges md))"

definition pc_is_selected :: "Model \<Rightarrow> u64 \<Rightarrow> bool" where
  "pc_is_selected md pc =
     (if emu_only md then pc_is_core_code md pc \<or> pc_is_rec_code md pc
      else if core_only md then pc_is_core_code md pc
      else if rec_only md then pc_is_rec_code md pc
      else True)"

definition scope_label :: "Model \<Rightarrow> string" where
  "scope_label md =
     (if emu_only md then ''emu'' else if core_only md then ''core'' else if rec_only md then ''rec'' else ''all'')"

definition coverage_label :: "Model \<Rightarrow> string" where
  "coverage_label md =
     (if emu_only md then (if phase_rec md then ''core+rec-post-rec'' else ''core+rec'')
      else if core_only md then ''core-text''
      else if \<not> phase_rec md then ''full''
      else if rec_only md then ''rec-only'' else ''post-rec-late'')"

definition rec_base_status :: "Model \<Rightarrow> string" where
  "rec_base_status md =
     (if rec_base_mismatch md then ''mismatch''
      else if rec_base_evidence_pc md = 0 then ''no-evidence''
      else if rec_base_was_auto md then ''auto-first-rec-tb'' else ''configured-validated'')"

definition gte_map_status :: "Model \<Rightarrow> string" where
  "gte_map_status md =
     (if \<not> gte_enabled md then ''disabled'' else if gte_map_hits md = 0 then ''zero-hit''
      else if gte_entries md = 0 then ''body-only'' else ''ok'')"

definition mark_mismatch :: "Model \<Rightarrow> Model" where
  "mark_mismatch md = md\<lparr>rec_base_mismatch := True\<rparr>"

definition adopt_base :: "u64 \<Rightarrow> Model \<Rightarrow> Model" where
  "adopt_base pc md =
     (let sz = rec_end md - rec_base md
      in if pc AND 3 \<noteq> 0 \<or> pc < REC_DISCOVERY_BASE \<or> pc \<ge> REC_DISCOVERY_END \<or> pc > UINT64_MAX - sz
         then mark_mismatch md
         else md\<lparr>rec_base := pc, rec_end := pc + sz, rec_base_auto := False\<rparr>)"

definition check_base :: "u64 \<Rightarrow> Model \<Rightarrow> Model" where
  "check_base pc md = (if pc < rec_base md \<or> pc \<ge> rec_end md then mark_mismatch md else md)"

definition note_evidence :: "u64 \<Rightarrow> Model \<Rightarrow> Model" where
  "note_evidence pc md = md\<lparr>rec_base_evidence_pc := pc, rec_base_discovered := True\<rparr>"

definition rec_base_observe :: "u64 \<Rightarrow> Model \<Rightarrow> Model" where
  "rec_base_observe pc md =
     (if rec_base_evidence_pc md \<noteq> 0 then check_base pc md
      else if rec_base_was_auto md then adopt_base pc (note_evidence pc md)
      else check_base pc (note_evidence pc md))"

text \<open>The lowest and the highest program counter seen, and the bitmap of the lines seen.\<close>

definition note_low :: "u64 \<Rightarrow> Model \<Rightarrow> Model" where
  "note_low pc md = (if rec_pc_low md = UINT64_MAX \<or> pc < rec_pc_low md then md\<lparr>rec_pc_low := pc\<rparr> else md)"

definition note_high :: "u64 \<Rightarrow> Model \<Rightarrow> Model" where
  "note_high pc md = (if pc + 4 > rec_pc_high md then md\<lparr>rec_pc_high := pc + 4\<rparr> else md)"

definition note_line :: "u64 \<Rightarrow> Model \<Rightarrow> Model" where
  "note_line pc md =
     (case rec_line_bits md of None \<Rightarrow> md
      | Some bits \<Rightarrow>
          let line = unat (drop_bit (line_shift (icache md)) (pc - rec_base md)); m = push_bit (line mod 8) 1
          in if rec_line_count md = 0 \<or> line \<ge> rec_line_count md \<or> bits ! (line div 8) AND m \<noteq> 0 then md
             else md\<lparr>rec_line_bits := Some (bits[line div 8 := bits ! (line div 8) OR m]),
                    rec_unique_lines := rec_unique_lines md + 1\<rparr>)"

definition rec_code_observe :: "u64 \<Rightarrow> Model \<Rightarrow> Model" where
  "rec_code_observe pc md =
     (if \<not> pc_is_rec_code md pc then md
      else note_line pc (note_high pc (note_low pc (rec_base_observe pc md))))"

section \<open>Hotspots\<close>

definition hot_zero :: HotspotEntry where
  "hot_zero = \<lparr>hs_pc = 0, hs_opcode = 0, hs_class_id = INSN_OTHER, hs_executions = 0, hs_i_misses = 0, hs_d_accesses = 0,
     hs_d_misses = 0, first_d_miss_address = 0, last_d_miss_address = 0, first_d_miss_vaddr = 0, last_d_miss_vaddr = 0\<rparr>"

definition hot_hash :: "nat \<Rightarrow> u64 \<Rightarrow> nat" where
  "hot_hash capacity pc = unat ((pc XOR drop_bit 17 pc XOR drop_bit 31 pc) AND (of_nat capacity - 1))"

fun hot_probe :: "u64 \<Rightarrow> nat \<Rightarrow> nat \<Rightarrow> HotspotEntry list \<Rightarrow> (nat \<times> HotspotEntry list) option" where
  "hot_probe pc 0 index tab = None"
| "hot_probe pc (Suc probes) index tab =
     (if hs_pc (tab ! index) = pc then Some (index, tab)
      else if hs_pc (tab ! index) = 0 then Some (index, tab[index := (tab ! index)\<lparr>hs_pc := pc\<rparr>])
      else hot_probe pc probes (unat ((of_nat (index + 1) :: u64) AND (of_nat (length tab) - 1))) tab)"

text \<open>The capacity is the length of the table.\<close>

definition hotspot_lookup :: "u64 \<Rightarrow> Model \<Rightarrow> nat option \<times> Model" where
  "hotspot_lookup pc md =
     (case hot_table md of None \<Rightarrow> (None, md)
      | Some tab \<Rightarrow>
          case hot_probe pc (length tab) (hot_hash (length tab) pc) tab of None \<Rightarrow> (None, md)
          | Some (i, tab) \<Rightarrow> (Some i, md\<lparr>hot_table := Some tab\<rparr>))"

definition hot_update :: "nat option \<Rightarrow> (HotspotEntry \<Rightarrow> HotspotEntry) \<Rightarrow> Model \<Rightarrow> Model" where
  "hot_update h f md =
     (case h of None \<Rightarrow> md
      | Some i \<Rightarrow> md\<lparr>hot_table := map_option (\<lambda>tab. tab[i := f (tab ! i)]) (hot_table md)\<rparr>)"

definition hotspot_penalty :: "Model \<Rightarrow> HotspotEntry \<Rightarrow> u64" where
  "hotspot_penalty md e = hs_i_misses e * instruction_penalty md + hs_d_misses e * data_penalty md"

definition clear_entry :: "HotspotEntry \<Rightarrow> HotspotEntry" where
  "clear_entry e = e\<lparr>hs_executions := 0, hs_i_misses := 0, hs_d_accesses := 0, hs_d_misses := 0,
     first_d_miss_address := 0, last_d_miss_address := 0, first_d_miss_vaddr := 0, last_d_miss_vaddr := 0\<rparr>"

definition clear_hotspot_counts :: "Model \<Rightarrow> Model" where
  "clear_hotspot_counts md = md\<lparr>hot_table := map_option (map clear_entry) (hot_table md)\<rparr>"

text \<open>
  The array of the 32 best entries: an entry goes behind all entries that are at least as good, and
  what is pushed over the end is lost.
\<close>

definition hot_insert :: "(HotspotEntry \<Rightarrow> u64) \<Rightarrow> HotspotEntry \<Rightarrow> HotspotEntry list \<Rightarrow> HotspotEntry list" where
  "hot_insert score e top' =
     (if hs_pc e = 0 \<or> score e = 0 then top'
      else take 32 (takeWhile (\<lambda>t. score t \<ge> score e) top' @ e # dropWhile (\<lambda>t. score t \<ge> score e) top'))"

definition hot_top :: "(HotspotEntry \<Rightarrow> u64) \<Rightarrow> HotspotEntry list \<Rightarrow> HotspotEntry list" where
  "hot_top score tab = fold (hot_insert score) tab []"

definition write_hotspots :: "string \<Rightarrow> Model \<Rightarrow> Model" where
  "write_hotspots kind md =
     (case (hot_table md, hot_file md) of
        (Some tab, Some f) \<Rightarrow> md\<lparr>hot_file := Some (f @ [(kind, hot_top (hotspot_penalty md) tab)])\<rparr>
      | _ \<Rightarrow> md)"

section \<open>Reports\<close>

definition estimated_cycles_now :: "Model \<Rightarrow> u64" where
  "estimated_cycles_now md =
     instructions md + i_misses md * instruction_penalty md + d_misses md * data_penalty md"

definition array_percentile :: "u64 list \<Rightarrow> u64 \<Rightarrow> u64" where
  "array_percentile values permille =
     (let count = of_nat (length values)
      in if count = 0 then 0
         else
           let rank = (count * permille + 999) div 1000;
               rank = (if rank = 0 then 1 else rank);
               rank = (if rank > count then count else rank)
           in values ! (unat rank - 1))"

definition above :: "u64 \<Rightarrow> u64 \<Rightarrow> u64" where
  "above a b = (if a \<ge> b then a - b else 0)"

definition average :: "u64 list \<Rightarrow> u64 \<Rightarrow> u64" where
  "average values s = (if values = [] then 0 else s div of_nat (length values))"

definition count_fields :: "Model \<Rightarrow> u64 list" where
  "count_fields md =
     [instructions md, rec_base md, rec_configured_base md, rec_base_evidence_pc md, frame_number md,
      gte_instructions md, gte_i_misses md, gte_d_accesses md, gte_d_lines md, gte_d_misses md, gte_work md,
      gte_map_entries md, gte_map_hits md, gte_entries md, i_accesses md, i_misses md, i_invalidations md,
      d_accesses md, d_lines md, d_bytes md] @ d_size_counts md @
     [d_misses md, stores md, mmio md, rec_d_lines md, rec_unique_lines md,
      if rec_pc_low md = UINT64_MAX then 0 else rec_pc_low md, rec_pc_high md, rec_tb_execs md] @
     tl (insn_classes md) @ tl (rec_insn_classes md) @
     [rec_i_accesses md, rec_i_misses md, rec_i_invalidations md, rec_d_accesses md, rec_d_bytes md] @
     rec_d_size_counts md @ [rec_d_misses md] @ gte_counts md"

definition helper_fields :: "Model \<Rightarrow> u64 list" where
  "helper_fields md =
     [above (instructions md) (rec_i_accesses md), above (i_accesses md) (rec_i_accesses md),
      above (i_misses md) (rec_i_misses md), above (d_accesses md) (rec_d_accesses md),
      above (d_lines md) (rec_d_lines md), above (d_bytes md) (rec_d_bytes md)] @
     map2 above (d_size_counts md) (rec_d_size_counts md) @ [above (d_misses md) (rec_d_misses md)]"

definition make_report :: "string \<Rightarrow> Model \<Rightarrow> report" where
  "make_report kind md =
     (let cycles = estimated_cycles_now md; cv = frame_cycle_values md; gv = frame_gte_work_values md;
          h_i_acc = above (i_accesses md) (rec_i_accesses md); h_i_miss = above (i_misses md) (rec_i_misses md);
          h_d_lines = above (d_lines md) (rec_d_lines md); h_d_miss = above (d_misses md) (rec_d_misses md)
      in \<lparr>r_kind = kind, r_sample_no = sample_no md, r_scope = scope_label md, r_coverage = coverage_label md,
          r_recbase_status = rec_base_status md, r_map_status = gte_map_status md,
          r_counts = count_fields md, r_frame_samples = length cv,
          r_frame_cycles = average cv (frame_cycle_sum md) # map (array_percentile cv) [950, 980, 990, 999, 1000],
          r_frame_gte_work = average gv (frame_gte_work_sum md) # map (array_percentile gv) [950, 980, 990, 999, 1000],
          r_ppm = [ratio_ppm (i_misses md) (i_accesses md), ratio_ppm (d_misses md) (d_lines md),
            ratio_ppm (rec_i_accesses md) (i_accesses md), ratio_ppm (rec_d_accesses md) (d_accesses md),
            ratio_ppm (rec_i_misses md) (rec_i_accesses md), ratio_ppm (rec_d_misses md) (rec_d_accesses md),
            ratio_ppm (rec_i_misses md) (i_misses md), ratio_ppm (rec_d_misses md) (d_misses md),
            ratio_ppm (rec_d_misses md) (rec_d_lines md),
            ratio_ppm (rec_insn_classes md ! class_index INSN_BRANCH + rec_insn_classes md ! class_index INSN_JUMP)
              (rec_i_accesses md)],
          r_rec_code_span = (if rec_pc_low md = UINT64_MAX \<or> rec_pc_high md < rec_pc_low md then 0
            else rec_pc_high md - rec_pc_low md),
          r_helper = helper_fields md,
          r_helper_ppm = [ratio_ppm h_i_miss h_i_acc, ratio_ppm h_i_miss (i_misses md),
            ratio_ppm h_d_miss h_d_lines, ratio_ppm h_d_miss (d_misses md)],
          r_estimated_cycles = cycles,
          r_delta = (if have_previous md
            then [instructions md - previous_instructions md, i_misses md - previous_i_misses md,
                  d_misses md - previous_d_misses md, cycles - previous_estimated_cycles md]
            else [instructions md, i_misses md, d_misses md, cycles])\<rparr>)"

text \<open>The values of the frames are sorted in place; the sample number is the new one.\<close>

definition sort_frames :: "Model \<Rightarrow> Model" where
  "sort_frames md =
     md\<lparr>frame_cycle_values := sort (frame_cycle_values md), frame_gte_work_values := sort (frame_gte_work_values md),
       sample_no := sample_no md + 1\<rparr>"

definition append_report :: "string \<Rightarrow> report list \<Rightarrow> Model \<Rightarrow> Model" where
  "append_report kind rs md =
     md\<lparr>out := Some (rs @ [make_report kind md]), previous_instructions := instructions md,
       previous_i_misses := i_misses md, previous_d_misses := d_misses md,
       previous_estimated_cycles := estimated_cycles_now md, have_previous := True\<rparr>"

definition write_report :: "string \<Rightarrow> Model \<Rightarrow> Model" where
  "write_report kind md =
     (case out md of None \<Rightarrow> md | Some rs \<Rightarrow> write_hotspots kind (append_report kind rs (sort_frames md)))"

text \<open>
  \<open>do next_sample += sample while (next_sample <= instructions)\<close>: a loop over words that may wrap, so a
  partial function; \<open>None\<close> means that it does not end.
\<close>

partial_function (option) advance_sample :: "u64 \<Rightarrow> u64 \<Rightarrow> u64 \<Rightarrow> u64 option" where
  "advance_sample step limit next =
     (let next = next + step in if next \<le> limit then advance_sample step limit next else Some next)"

definition maybe_report :: "Model \<Rightarrow> Model option" where
  "maybe_report md =
     (if frame_opcode md \<noteq> 0 \<or> sample md = 0 \<or> instructions md < next_sample md then Some md
      else map_option (\<lambda>next. write_report ''periodic'' (md\<lparr>next_sample := next\<rparr>))
             (advance_sample (sample md) (instructions md) (next_sample md)))"

section \<open>Callbacks\<close>

definition reset_measurement :: "Model \<Rightarrow> Model" where
  "reset_measurement md =
     clear_hotspot_counts (md\<lparr>icache := cache_reset (icache md), dcache := cache_reset (dcache md),
       instructions := 0, i_accesses := 0, i_misses := 0, d_accesses := 0, d_lines := 0, d_bytes := 0,
       d_size_counts := replicate 4 0, d_misses := 0, i_invalidations := 0, rec_i_invalidations := 0, stores := 0,
       mmio := 0, sample_no := 0, next_sample := sample md, previous_instructions := 0, previous_i_misses := 0,
       previous_d_misses := 0, previous_estimated_cycles := 0, have_previous := False,
       insn_classes := replicate 7 0, gte_instructions := 0, gte_i_misses := 0, gte_d_accesses := 0,
       gte_d_lines := 0, gte_d_misses := 0, gte_counts := replicate GTE_OP_COUNT 0, gte_work := 0, gte_map_hits := 0,
       gte_entries := 0, rec_i_accesses := 0, rec_i_misses := 0, rec_d_accesses := 0, rec_d_lines := 0,
       rec_d_bytes := 0, rec_d_size_counts := replicate 4 0, rec_d_misses := 0, rec_insn_classes := replicate 7 0,
       rec_tb_execs := 0, rec_unique_lines := 0, rec_pc_low := UINT64_MAX, rec_pc_high := 0,
       rec_line_bits := map_option (\<lambda>bits. if rec_line_count md = 0 then bits else replicate ((rec_line_count md + 7) div 8) 0)
         (rec_line_bits md),
       frame_previous_cycles := 0, frame_cycle_sum := 0, frame_cycle_values := [], frame_gte_work_values := [],
       frame_gte_work_sum := 0, frame_previous_gte_work := 0, frame_have_previous := False\<rparr>)"

definition frame_record :: "u64 \<Rightarrow> u64 \<Rightarrow> Model \<Rightarrow> Model" where
  "frame_record cycles work md =
     (if frame_have_previous md \<and> length (frame_cycle_values md) < FRAME_VALUES
      then let frame_cycles = cycles - frame_previous_cycles md
           in md\<lparr>frame_cycle_values := frame_cycle_values md @ [frame_cycles],
                frame_cycle_sum := frame_cycle_sum md + frame_cycles,
                frame_gte_work_values := frame_gte_work_values md @ [work],
                frame_gte_work_sum := frame_gte_work_sum md + work\<rparr>
      else md)"

definition frame_end :: "Model \<Rightarrow> Model" where
  "frame_end md =
     (let cycles = estimated_cycles_now md
      in (frame_record cycles (gte_work md - frame_previous_gte_work md) md)
           \<lparr>frame_previous_cycles := cycles, frame_previous_gte_work := gte_work md, frame_have_previous := True\<rparr>)"

definition frame_report :: "Model \<Rightarrow> Model" where
  "frame_report md =
     clear_hotspot_counts ((write_report ''frame'' md)\<lparr>frame_cycle_sum := 0, frame_gte_work_sum := 0,
       frame_cycle_values := [], frame_gte_work_values := []\<rparr>)"

definition frame_marker_exec :: "Model \<Rightarrow> Model" where
  "frame_marker_exec md =
     (if frame_frozen md then md
      else
        let md = md\<lparr>frame_number := frame_number md + 1\<rparr>
        in if phase_rec md \<and> \<not> phase_active md then md
           else
             let stop = (frame_stop md \<noteq> 0 \<and> frame_number md \<ge> frame_stop md);
                 report_now = (frame_report_period md \<noteq> 0 \<and> frame_number md mod frame_report_period md = 0 \<or> stop);
                 md = frame_end md;
                 md = (if report_now then frame_report md else md)
             in if stop then md\<lparr>frame_frozen := True\<rparr> else md)"

definition bump :: "nat \<Rightarrow> u64 list \<Rightarrow> u64 list" where
  "bump i xs = xs[i := xs ! i + 1]"

definition count_gte :: "u8 \<Rightarrow> Model \<Rightarrow> Model" where
  "count_gte gte_id md =
     (if gte_id = GTE_ID_NONE then md
      else
        let r = gte_ranges md ! (unat (gte_id AND NOT GTE_ID_ENTRY) - 1);
            md = md\<lparr>gte_map_hits := gte_map_hits md + 1, gte_instructions := gte_instructions md + 1\<rparr>
        in if gte_id AND GTE_ID_ENTRY \<noteq> 0
           then md\<lparr>gte_entries := gte_entries md + 1, gte_counts := bump (gr_operation r) (gte_counts md),
                  gte_work := gte_work md + ucast (gr_work r)\<rparr>
           else md)"

text \<open>One instruction of an executed block; the flag is \<open>rec_tb_seen\<close>.\<close>

definition count_insn :: "InsnClass \<Rightarrow> Model \<Rightarrow> Model" where
  "count_insn class_id md =
     md\<lparr>instructions := instructions md + 1, i_accesses := i_accesses md + 1,
       insn_classes := bump (class_index class_id) (insn_classes md)\<rparr>"

definition count_rec_insn :: "u64 \<Rightarrow> InsnClass \<Rightarrow> Model \<Rightarrow> Model" where
  "count_rec_insn pc class_id md =
     (if \<not> pc_is_rec_code md pc then md
      else rec_code_observe pc (md\<lparr>rec_i_accesses := rec_i_accesses md + 1,
             rec_insn_classes := bump (class_index class_id) (rec_insn_classes md)\<rparr>))"

definition count_miss :: "u64 \<Rightarrow> u8 \<Rightarrow> nat option \<Rightarrow> Model \<Rightarrow> Model" where
  "count_miss pc gte_id hot md =
     hot_update hot (\<lambda>e. e\<lparr>hs_i_misses := hs_i_misses e + 1\<rparr>)
       (md\<lparr>i_misses := i_misses md + 1,
          gte_i_misses := gte_i_misses md + (if gte_id \<noteq> GTE_ID_NONE then 1 else 0),
          rec_i_misses := rec_i_misses md + (if pc_is_rec_code md pc then 1 else 0)\<rparr>)"

definition fetch_insn :: "u64 \<Rightarrow> u8 \<Rightarrow> nat option \<Rightarrow> Model \<Rightarrow> Model" where
  "fetch_insn pc gte_id hot md =
     (let (hit, ic) = cache_access_instruction (i_vipt md) (icache md) pc; md = md\<lparr>icache := ic\<rparr>
      in if hit then md else count_miss pc gte_id hot md)"

definition exec_insn :: "u64 \<Rightarrow> InsnClass \<Rightarrow> u8 \<Rightarrow> nat option \<Rightarrow> bool \<times> Model \<Rightarrow> bool \<times> Model" where
  "exec_insn pc class_id gte_id hot st =
     (let (seen, md) = st
      in if \<not> pc_is_selected md pc then st
         else (seen \<or> pc_is_rec_code md pc,
               fetch_insn pc gte_id hot
                 (hot_update hot (\<lambda>e. e\<lparr>hs_executions := hs_executions e + 1\<rparr>)
                   (count_gte gte_id (count_rec_insn pc class_id (count_insn class_id md))))))"

text \<open>The instructions of a block, with the entry of the hotspot table of each if there is a table.\<close>

definition block_insns :: "TranslationBlock \<Rightarrow> (u64 \<times> InsnClass \<times> u8 \<times> nat option) list" where
  "block_insns tb =
     (let hots = (case tb_hot tb of None \<Rightarrow> replicate (length (tb_pc tb)) None | Some hs \<Rightarrow> hs)
      in zip (tb_pc tb) (zip (tb_class_id tb) (zip (tb_gte_id tb) hots)))"

definition exec_insns :: "TranslationBlock \<Rightarrow> Model \<Rightarrow> bool \<times> Model" where
  "exec_insns tb md =
     fold (\<lambda>(pc, class_id, gte_id, hot). exec_insn pc class_id gte_id hot) (block_insns tb) (False, md)"

definition start_phase :: "Model \<Rightarrow> Model" where
  "start_phase md = (if phase_rec md \<and> \<not> phase_active md then (reset_measurement md)\<lparr>phase_active := True\<rparr> else md)"

definition tb_exec :: "TranslationBlock \<Rightarrow> Model \<Rightarrow> Model option" where
  "tb_exec tb md =
     (if frame_frozen md \<or> (phase_rec md \<and> \<not> phase_active md \<and> tb_rec_count tb = 0) then Some md
      else
        let (seen, md) = exec_insns tb (start_phase md)
        in maybe_report (if seen then md\<lparr>rec_tb_execs := rec_tb_execs md + 1\<rparr> else md))"

text \<open>
  What QEMU says about a memory access: the binary logarithm of its size, whether it stores, and the
  hardware address if QEMU has one (whether it is I/O, and the physical address).
\<close>

record meminfo =
  mem_size_shift :: nat
  mem_is_store :: bool
  mem_hwaddr :: "(bool \<times> u64) option"

definition miss_entry :: "u64 \<Rightarrow> u64 \<Rightarrow> HotspotEntry \<Rightarrow> HotspotEntry" where
  "miss_entry address vaddr e =
     (let e = e\<lparr>hs_d_misses := hs_d_misses e + 1\<rparr>;
          e = (if first_d_miss_address e = 0 then e\<lparr>first_d_miss_address := address, first_d_miss_vaddr := vaddr\<rparr> else e)
      in e\<lparr>last_d_miss_address := address, last_d_miss_vaddr := vaddr\<rparr>)"

text \<open>One line of a data access: the same statements for the first and for the second line.\<close>

definition data_line :: "MemData \<Rightarrow> u64 \<Rightarrow> u64 \<Rightarrow> u64 \<Rightarrow> Model \<Rightarrow> Model" where
  "data_line mem address index_address vaddr md =
     (let is_rec = pc_is_rec_code md (md_pc mem); gte = (md_gte_id mem \<noteq> GTE_ID_NONE);
          md = md\<lparr>d_lines := d_lines md + 1,
            gte_d_lines := gte_d_lines md + (if gte then 1 else 0), rec_d_lines := rec_d_lines md + (if is_rec then 1 else 0)\<rparr>;
          (hit, dc) = cache_access_indexed (dcache md) address index_address;
          md = md\<lparr>dcache := dc\<rparr>
      in if hit then md
         else hot_update (md_hot mem) (miss_entry address vaddr)
           (md\<lparr>d_misses := d_misses md + 1, gte_d_misses := gte_d_misses md + (if gte then 1 else 0),
              rec_d_misses := rec_d_misses md + (if is_rec then 1 else 0)\<rparr>))"

definition invalidate_line :: "u64 \<Rightarrow> u64 \<Rightarrow> u64 \<Rightarrow> Model \<Rightarrow> Model" where
  "invalidate_line address index_address vaddr md =
     md\<lparr>icache := cache_invalidate_indexed (icache md) address index_address,
       i_invalidations := i_invalidations md + 1,
       rec_i_invalidations := rec_i_invalidations md + (if pc_is_rec_code md vaddr then 1 else 0)\<rparr>"

text \<open>Without per-instruction data the callback gets the model itself: no entry, pc 0 and no range.\<close>

definition no_mem :: MemData where
  "no_mem = \<lparr>md_hot = None, md_pc = 0, md_gte_id = GTE_ID_NONE\<rparr>"

definition count_size :: "bool \<Rightarrow> nat \<Rightarrow> Model \<Rightarrow> Model" where
  "count_size is_rec size_shift md =
     (let bytes = push_bit size_shift 1; size_class = min size_shift 3;
          md = md\<lparr>d_bytes := d_bytes md + bytes, d_size_counts := bump size_class (d_size_counts md)\<rparr>
      in if is_rec
         then md\<lparr>rec_d_bytes := rec_d_bytes md + bytes, rec_d_size_counts := bump size_class (rec_d_size_counts md)\<rparr>
         else md)"

definition count_access :: "bool \<Rightarrow> MemData \<Rightarrow> bool \<Rightarrow> Model \<Rightarrow> Model" where
  "count_access is_rec mem is_store md =
     hot_update (md_hot mem) (\<lambda>e. e\<lparr>hs_d_accesses := hs_d_accesses e + 1\<rparr>)
       (md\<lparr>d_accesses := d_accesses md + 1, rec_d_accesses := rec_d_accesses md + (if is_rec then 1 else 0),
          stores := stores md + (if is_store then 1 else 0),
          gte_d_accesses := gte_d_accesses md + (if md_gte_id mem \<noteq> GTE_ID_NONE then 1 else 0)\<rparr>)"

text \<open>A data access that is not I/O, at a physical address.\<close>

definition data_access :: "MemData \<Rightarrow> nat \<Rightarrow> bool \<Rightarrow> u64 \<Rightarrow> u64 \<Rightarrow> Model \<Rightarrow> Model" where
  "data_access mem size_shift is_store address vaddr md =
     (let is_rec = pc_is_rec_code md (md_pc mem); extra = push_bit size_shift 1 - 1;
          rec_code_store = (is_store \<and> pc_is_rec_code md vaddr);
          last_address = address + extra; last_vaddr = vaddr + extra;
          index_address = (if d_vipt md then vaddr else address);
          last_index_address = (if d_vipt md then last_vaddr else last_address);
          shift = line_shift (dcache md);
          two = (drop_bit shift last_address \<noteq> drop_bit shift address);
          md = data_line mem address index_address vaddr
            (count_access is_rec mem is_store (count_size is_rec size_shift md));
          md = (if two then data_line mem last_address last_index_address last_vaddr md else md);
          md = (if rec_code_store then invalidate_line address index_address vaddr md else md)
      in if rec_code_store \<and> two then invalidate_line last_address last_index_address last_vaddr md else md)"

definition mem_access :: "MemData option \<Rightarrow> meminfo \<Rightarrow> u64 \<Rightarrow> Model \<Rightarrow> Model" where
  "mem_access userdata info vaddr md =
     (let mem = (case userdata of None \<Rightarrow> no_mem | Some mem \<Rightarrow> mem);
          address = (case mem_hwaddr info of None \<Rightarrow> mips_direct_phys vaddr | Some (_, phys) \<Rightarrow> phys);
          io = (case mem_hwaddr info of None \<Rightarrow> sf2000_mmio_phys address | Some (is_io, _) \<Rightarrow> is_io)
      in if frame_frozen md \<or> (phase_rec md \<and> \<not> phase_active md) \<or> \<not> pc_is_selected md (md_pc mem) then md
         else if io then md\<lparr>mmio := mmio md + 1\<rparr>
         else data_access mem (min (mem_size_shift info) 20) (mem_is_store info) address vaddr md)"

section \<open>Translation\<close>

text \<open>An instruction of a block that is being translated: its address and the bytes QEMU can give.\<close>

record insn =
  insn_vaddr :: u64
  insn_data :: "u8 list"

definition insn_opcode :: "insn \<Rightarrow> u32" where
  "insn_opcode ins =
     (case take 4 (insn_data ins) of [b0, b1, b2, b3] \<Rightarrow> le32_of b0 b1 b2 b3 | _ \<Rightarrow> 0)"

definition first_rec_candidate :: "insn list \<Rightarrow> u64" where
  "first_rec_candidate insns =
     (case filter (\<lambda>pc. pc \<ge> REC_DISCOVERY_BASE \<and> pc < REC_DISCOVERY_END) (map insn_vaddr insns) of
        [] \<Rightarrow> 0 | pc # _ \<Rightarrow> pc)"

definition observe_candidate :: "insn list \<Rightarrow> Model \<Rightarrow> Model" where
  "observe_candidate insns md =
     (let candidate = first_rec_candidate insns
      in if \<not> (phase_rec md \<and> \<not> phase_active md) \<or> candidate = 0 then md
         else if rec_base_was_auto md then rec_base_observe candidate md
         else if candidate < rec_base md \<or> candidate \<ge> rec_end md
         then mark_mismatch (note_evidence candidate md)
         else rec_base_observe candidate md)"

definition tb_rejected :: "insn list \<Rightarrow> Model \<Rightarrow> bool" where
  "tb_rejected insns md =
     (let core_count = length (filter (pc_is_core_code md) (map insn_vaddr insns));
          rec_count = length (filter (pc_is_rec_code md) (map insn_vaddr insns))
      in if emu_only md then core_count = 0 \<and> rec_count = 0
         else if core_only md then core_count = 0
         else if rec_only md then rec_count = 0
         else if phase_rec md then \<not> phase_active md \<and> rec_count = 0
         else False)"

text \<open>
  The callbacks registered for an instruction: a memory callback with its data (\<open>Some None\<close> stands for the
  model itself, when there was no memory for the data), and the frame marker.
\<close>

record slot =
  sl_gte_id :: u8
  sl_class_id :: InsnClass
  sl_hot :: "nat option"
  sl_mem :: "MemData option option"
  sl_frame :: bool

definition trans_insn :: "bool \<Rightarrow> insn \<Rightarrow> Model \<Rightarrow> slot \<times> Model" where
  "trans_insn alloc ins md =
     (let pc = insn_vaddr ins; gte_id = gte_id_for_pc md pc; opcode = insn_opcode ins; class_id = classify_mips32 opcode;
          frame = (frame_opcode md \<noteq> 0 \<and> opcode = frame_opcode md \<and> pc_is_core_code md pc)
      in if \<not> pc_is_selected md pc
         then (\<lparr>sl_gte_id = gte_id, sl_class_id = class_id, sl_hot = None, sl_mem = None, sl_frame = frame\<rparr>, md)
         else if \<not> alloc
         then (\<lparr>sl_gte_id = gte_id, sl_class_id = class_id, sl_hot = None, sl_mem = Some None, sl_frame = frame\<rparr>, md)
         else
           let (hot, md) = hotspot_lookup pc md;
               md = hot_update hot (\<lambda>e. e\<lparr>hs_opcode := opcode, hs_class_id := class_id\<rparr>) md;
               mem = \<lparr>md_hot = hot, md_pc = pc, md_gte_id = gte_id\<rparr>
           in (\<lparr>sl_gte_id = gte_id, sl_class_id = class_id, sl_hot = hot, sl_mem = Some (Some mem), sl_frame = frame\<rparr>,
               md\<lparr>memdata_count := memdata_count md + 1\<rparr>))"

fun trans_insns :: "(nat \<Rightarrow> bool) \<Rightarrow> nat \<Rightarrow> insn list \<Rightarrow> Model \<Rightarrow> slot list \<times> Model" where
  "trans_insns alloc i [] md = ([], md)"
| "trans_insns alloc i (ins # rest) md =
     (let (sl, md) = trans_insn (alloc i) ins md; (sls, md) = trans_insns alloc (i + 1) rest md in (sl # sls, md))"

text \<open>
  \<open>alloc_block\<close> says whether the block and its arrays can be allocated, \<open>alloc i\<close> whether the data of
  instruction \<open>i\<close> can. The result is the block with the callbacks of its instructions, if it is instrumented.
\<close>

definition tb_trans :: "bool \<Rightarrow> (nat \<Rightarrow> bool) \<Rightarrow> insn list \<Rightarrow> Model \<Rightarrow> (TranslationBlock \<times> slot list) option \<times> Model" where
  "tb_trans alloc_block alloc insns md =
     (let md = observe_candidate insns md
      in if tb_rejected insns md \<or> \<not> alloc_block then (None, md)
         else
           let rec_count = length (filter (pc_is_rec_code md) (map insn_vaddr insns));
               (slots, md) = trans_insns alloc 0 insns md;
               tb = \<lparr>tb_pc = map insn_vaddr insns, tb_class_id = map sl_class_id slots, tb_gte_id = map sl_gte_id slots,
                 tb_hot = (case hot_table md of None \<Rightarrow> None | Some _ \<Rightarrow> Some (map sl_hot slots)),
                 tb_mem = map (\<lambda>sl. case sl_mem sl of Some (Some _) \<Rightarrow> True | _ \<Rightarrow> False) slots,
                 tb_rec_count = rec_count\<rparr>
           in (Some (tb, slots), md\<lparr>translation_blocks := tb # translation_blocks md,
                 translation_block_count := translation_block_count md + 1\<rparr>))"

text \<open>The release of all blocks; the flag says that the counts agree.\<close>

definition free_translation_blocks :: "Model \<Rightarrow> bool \<times> Model" where
  "free_translation_blocks md =
     (let freed_blocks = of_nat (length (translation_blocks md));
          freed_memdata = of_nat (sum_list (map (\<lambda>tb. length (filter id (tb_mem tb))) (translation_blocks md)))
      in (freed_blocks = translation_block_count md \<and> freed_memdata = memdata_count md,
          md\<lparr>translation_blocks := [], translation_block_count := 0, memdata_count := 0\<rparr>))"

definition plugin_exit :: "Model \<Rightarrow> bool \<times> Model" where
  "plugin_exit md =
     (let md = (if frame_frozen md then md else write_report ''exit'' md)
      in free_translation_blocks (md\<lparr>icache := cache_destroy (icache md), dcache := cache_destroy (dcache md),
           rec_line_bits := None, rec_line_count := 0, hot_table := None, out := None\<rparr>))"

section \<open>Runs\<close>

text \<open>What QEMU does to the plugin, in any order.\<close>

datatype event = Translate bool "nat \<Rightarrow> bool" "insn list" | Execute TranslationBlock
  | Access "MemData option" meminfo u64 | Frame

definition step :: "event \<Rightarrow> Model \<Rightarrow> Model option" where
  "step e md =
     (case e of Translate ab al insns \<Rightarrow> Some (snd (tb_trans ab al insns md))
      | Execute tb \<Rightarrow> tb_exec tb md
      | Access mem info vaddr \<Rightarrow> Some (mem_access mem info vaddr md)
      | Frame \<Rightarrow> Some (frame_marker_exec md))"

fun run :: "event list \<Rightarrow> Model \<Rightarrow> Model option" where
  "run [] md = Some md"
| "run (e # es) md = (case step e md of None \<Rightarrow> None | Some md \<Rightarrow> run es md)"

end
