(* ===== verification/CText.thy ===== *)
theory CText
  imports Prelude
begin

text \<open>
  The text handling that the host plugin and the user-space services share: C strings, digits,
  \<open>strtoul\<close> with base 10 as the services use it, lines as \<open>fgets\<close> gives them, printed decimal numbers.
\<close>

section \<open>Characters and digits\<close>

definition is_space :: "char \<Rightarrow> bool" where
  "is_space c \<longleftrightarrow> (of_char c :: int) = 32 \<or> (9 \<le> (of_char c :: int) \<and> (of_char c :: int) \<le> 13)"

definition digit_value :: "char \<Rightarrow> int" where
  "digit_value c =
     (let n = of_char c
      in if 48 \<le> n \<and> n < 58 then n - 48 else if 97 \<le> n \<and> n < 123 then n - 87
         else if 65 \<le> n \<and> n < 91 then n - 55 else 99)"

definition digits_value :: "int \<Rightarrow> string \<Rightarrow> int" where
  "digits_value base = foldl (\<lambda>v c. v * base + digit_value c) 0"

definition strip_sign :: "string \<Rightarrow> bool \<times> string" where
  "strip_sign s = (case s of CHR ''-'' # r \<Rightarrow> (True, r) | CHR ''+'' # r \<Rightarrow> (False, r) | _ \<Rightarrow> (False, s))"

definition c_string :: "string \<Rightarrow> string" where
  "c_string = takeWhile (\<lambda>c. of_char c \<noteq> (0 :: int))"

text \<open>Blanks, and the end of a string without the characters of a kind.\<close>

definition is_blank :: "char \<Rightarrow> bool" where
  "is_blank c \<longleftrightarrow> c = CHR '' '' \<or> c = CHR 0x09"

definition strip_end :: "(char \<Rightarrow> bool) \<Rightarrow> string \<Rightarrow> string" where
  "strip_end P s = rev (dropWhile P (rev s))"

section \<open>Decimal numbers\<close>

abbreviation (input) ULONG_MAX where "ULONG_MAX \<equiv> (0xffffffff :: u32)"

text \<open>
  \<open>strtoul(text, &end, 10)\<close> on the 32-bit target: \<open>None\<close> when there is no number (\<open>end == text\<close>); a number that
  does not fit gives the largest value.
\<close>

definition strtoul10 :: "string \<Rightarrow> u32 option" where
  "strtoul10 s =
     (let (neg, s) = strip_sign (dropWhile is_space s);
          ds = takeWhile (\<lambda>c. digit_value c < 10) s; v = digits_value 10 ds
      in if ds = [] then None
         else Some (if v \<ge> 2 ^ 32 then ULONG_MAX else if neg then - of_int v else of_int v))"

text \<open>\<open>%u\<close>.\<close>

fun dec_digits :: "nat \<Rightarrow> string" where
  "dec_digits n = (if n < 10 then [] else dec_digits (n div 10)) @ [char_of (48 + int (n mod 10))]"

declare dec_digits.simps [simp del]

lemma digits_value_snoc: "digits_value b (ds @ [d]) = digits_value b ds * b + digit_value d"
  by (simp add: digits_value_def)

lemma digit_value_dec: "n < 10 \<Longrightarrow> digit_value (char_of (48 + int n)) = int n"
  by (simp add: digit_value_def Let_def)

lemma digits_value_dec: "digits_value 10 (dec_digits n) = int n \<and> (\<forall>c\<in>set (dec_digits n). 0 \<le> digit_value c \<and> digit_value c < 10) \<and> dec_digits n \<noteq> []"
proof (induction n rule: dec_digits.induct)
  case (1 n)
  show ?case
  proof (cases "n < 10")
    case True
    then show ?thesis by (simp add: dec_digits.simps [of n] digits_value_def digit_value_dec)
  next
    case False
    then have "digits_value 10 (dec_digits n) = int (n div 10) * 10 + int (n mod 10)"
      using 1 by (simp add: dec_digits.simps [of n] digits_value_snoc digit_value_dec)
    moreover have "\<dots> = int n" using div_mult_mod_eq [of n 10] by linarith
    ultimately show ?thesis using False 1 by (auto simp: dec_digits.simps [of n] digit_value_dec)
  qed
qed

definition show_int :: "int \<Rightarrow> string" where
  "show_int i = (if i < 0 then ''-'' @ dec_digits (nat (- i)) else dec_digits (nat i))"

text \<open>\<open>%x\<close>.\<close>

fun hex_text :: "nat \<Rightarrow> string" where
  "hex_text n = (if n < 16 then [] else hex_text (n div 16)) @ [''0123456789abcdef'' ! (n mod 16)]"

declare hex_text.simps [simp del]

section \<open>Lines\<close>

text \<open>A file as \<open>fgets\<close> gives it: pieces that end after a newline or after 255 characters.\<close>

fun fgets_lines :: "string \<Rightarrow> string \<Rightarrow> string list" where
  "fgets_lines [] acc = (if acc = [] then [] else [rev acc])"
| "fgets_lines (c # cs) acc =
     (if of_char c = (10 :: int) \<or> length acc = 254 then rev (c # acc) # fgets_lines cs []
      else fgets_lines cs (c # acc))"

end
