(* ===== verification/CacheConfig.thy ===== *)
theory CacheConfig
  imports CacheProfile CText
begin

text \<open>
  The installation of the measurement plugin, \<^verbatim>\<open>src/tools/qemu/sf2000-cache-model.c\<close>: numbers and options of
  the command line, the map of the geometry engine's functions and the first state of the model. Files, the
  utility that hashes a file and the outcome of allocations are arguments. The functions of the C library
  are written out as far as they are used: \<open>strtoull\<close> with base 0, \<open>sscanf\<close> with literals and bounded words,
  \<open>fgets\<close> into 256 bytes.
\<close>

section \<open>Numbers\<close>

definition strip_prefix :: "string \<Rightarrow> int \<times> string" where
  "strip_prefix s =
     (case s of
        CHR ''0'' # x # d # rest \<Rightarrow>
          if x \<in> {CHR ''x'', CHR ''X''} \<and> digit_value d < 16 then (16, d # rest) else (8, s)
      | CHR ''0'' # rest \<Rightarrow> (8, s)
      | _ \<Rightarrow> (10, s))"

text \<open>\<open>strtoull\<close> with base 0: the value (\<open>None\<close> when it does not fit) and the rest, if there is a number.\<close>

definition strtoull :: "string \<Rightarrow> (u64 option \<times> string) option" where
  "strtoull s =
     (let (neg, s) = strip_sign (dropWhile is_space s); (base, s) = strip_prefix s;
          ds = takeWhile (\<lambda>c. digit_value c < base) s; v = digits_value base ds
      in if ds = [] then None
         else Some (if v \<ge> 2 ^ 64 then None else Some (if neg then - of_int v else of_int v),
                    dropWhile (\<lambda>c. digit_value c < base) s))"

definition parse_u64 :: "string \<Rightarrow> u64 \<Rightarrow> u64" where
  "parse_u64 s fallback = (case strtoull s of Some (Some v, []) \<Rightarrow> v | _ \<Rightarrow> fallback)"

section \<open>The map of the geometry engine\<close>

definition gte_names :: "string list" where
  "gte_names = [''rtps'', ''rtpt'', ''mvmva'', ''nclip'', ''avsz3'', ''avsz4'', ''sqr'', ''nccs'', ''ncct'', ''ncds'',
     ''ncdt'', ''op'', ''dcpl'', ''gpf'', ''gpl'', ''dpcs'', ''dpct'', ''ncs'', ''nct'', ''cc'', ''intpl'', ''cdp'']"

abbreviation (input) GTE_INTPL where "GTE_INTPL \<equiv> (20 :: nat)"

definition gte_site_index :: "string \<Rightarrow> nat option" where
  "gte_site_index name =
     (if name \<in> set gte_names then Some (length (takeWhile (\<lambda>n. n \<noteq> name) gte_names))
      else if take 6 name = ''intpl_'' then Some GTE_INTPL else None)"

text \<open>\<open>sscanf\<close>: white space, a character, a word of at most so many characters. The result is the words read.\<close>

datatype directive = White | Literal char | Word_of nat

fun sscanf :: "directive list \<Rightarrow> string \<Rightarrow> string list" where
  "sscanf [] s = []"
| "sscanf (White # ds) s = sscanf ds (dropWhile is_space s)"
| "sscanf (Literal c # ds) s = (case s of x # xs \<Rightarrow> if x = c then sscanf ds xs else [] | [] \<Rightarrow> [])"
| "sscanf (Word_of n # ds) s =
     (let s = dropWhile is_space s; w = takeWhile (\<lambda>c. \<not> is_space c) (take n s)
      in if w = [] then [] else w # sscanf ds (drop (length w) s))"

definition literal :: "string \<Rightarrow> directive list" where
  "literal = map (\<lambda>c. if is_space c then White else Literal c)"

definition header_format :: "directive list" where
  "header_format =
     literal ''# sf2000-gte-map version=1 corebase='' @ Word_of 31 # literal '' coresize='' @ Word_of 31 #
     literal '' core_sha256='' @ [Word_of 64]"

definition entry_format :: "directive list" where
  "entry_format =
     literal ''gte '' @ Word_of 31 # literal '' '' @ Word_of 31 # literal '' '' @ Word_of 31 # literal '' '' @ [Word_of 31]"

text \<open>The header read last (base, size, hash), and the ranges so far.\<close>

type_synonym map_state = "(u64 \<times> u64 \<times> string) option \<times> GteRange list"

definition map_header :: "string list \<Rightarrow> map_state \<Rightarrow> map_state option" where
  "map_header ws st =
     (case ws of
        [base_text, size_text, hash_text] \<Rightarrow>
          let map_base = parse_u64 base_text UINT64_MAX; map_size = parse_u64 size_text UINT64_MAX
          in if map_base = UINT64_MAX \<or> map_size = UINT64_MAX \<or> length hash_text \<noteq> 64 then None
             else Some (Some (map_base, map_size, hash_text), snd st)
      | _ \<Rightarrow> Some st)"

definition map_entry :: "string list \<Rightarrow> map_state \<Rightarrow> map_state option" where
  "map_entry ws st =
     (case ws of
        [name, offset_text, size_text, work_text] \<Rightarrow>
          let off = parse_u64 offset_text UINT64_MAX; function_size = parse_u64 size_text UINT64_MAX;
              work = parse_u64 work_text UINT64_MAX
          in (case gte_site_index name of None \<Rightarrow> None
              | Some operation \<Rightarrow>
                  if off = UINT64_MAX \<or> function_size = UINT64_MAX \<or> function_size = 0 \<or> work = 0 \<or> work > 255 \<or>
                     off > 0xffffffff \<or> function_size > 0xffffffff \<or> off > UINT64_MAX - function_size \<or>
                     length (snd st) \<ge> GTE_MAX_RANGES
                  then None
                  else Some (fst st, snd st @ [\<lparr>gr_offset = ucast off, gr_size = ucast function_size,
                         gr_operation = operation, gr_work = ucast work\<rparr>]))
      | _ \<Rightarrow> Some st)"

definition map_line :: "string \<Rightarrow> map_state \<Rightarrow> map_state option" where
  "map_line line st =
     (let line = c_string line
      in if take 1 line = ''#'' then map_header (sscanf header_format line) st
         else map_entry (sscanf entry_format line) st)"

fun map_lines :: "string list \<Rightarrow> map_state \<Rightarrow> map_state option" where
  "map_lines [] st = Some st"
| "map_lines (l # ls) st = (case map_line l st of None \<Rightarrow> None | Some st \<Rightarrow> map_lines ls st)"

text \<open>\<open>strcasecmp\<close> in the C locale.\<close>

definition lower :: "char \<Rightarrow> int" where
  "lower c = (let n = of_char c in if 65 \<le> n \<and> n < 91 then n + 32 else n)"

definition verify_file_sha256 :: "(string \<Rightarrow> (bool \<times> string) option) \<Rightarrow> string \<Rightarrow> string \<Rightarrow> bool" where
  "verify_file_sha256 sha256sum path expected =
     (if path = [] \<or> CHR 0x27 \<in> set path \<or> CHR 0x0A \<in> set path \<or> CHR 0x0D \<in> set path \<or>
         length path + length ''/usr/bin/sha256sum '' + 2 \<ge> 4096 + 32
      then False
      else case sha256sum path of None \<Rightarrow> False
        | Some (status_ok, out_line) \<Rightarrow>
            status_ok \<and> length (c_string (take 255 out_line)) \<ge> 64 \<and>
            map lower (take 64 out_line) = map lower expected)"

definition in_core :: "u64 \<Rightarrow> GteRange \<Rightarrow> bool" where
  "in_core core_size r \<longleftrightarrow> \<not> ucast (gr_offset r) > core_size \<and> \<not> ucast (gr_size r) > core_size - ucast (gr_offset r)"

definition overlap :: "GteRange \<Rightarrow> GteRange \<Rightarrow> bool" where
  "overlap r prior \<longleftrightarrow>
     (ucast (gr_offset r) :: u64) < ucast (gr_offset prior) + ucast (gr_size prior) \<and>
     (ucast (gr_offset prior) :: u64) < ucast (gr_offset r) + ucast (gr_size r)"

fun ranges_fit :: "u64 \<Rightarrow> GteRange list \<Rightarrow> GteRange list \<Rightarrow> bool" where
  "ranges_fit core_size prior [] = True"
| "ranges_fit core_size prior (r # rs) =
     (in_core core_size r \<and> \<not> (\<exists>p\<in>set prior. overlap r p) \<and> ranges_fit core_size (prior @ [r]) rs)"

text \<open>\<open>None\<close> for every failure. The fingerprint of the model is empty when the function is called.\<close>

definition load_gte_map ::
  "(string \<Rightarrow> string option) \<Rightarrow> (string \<Rightarrow> (bool \<times> string) option) \<Rightarrow> string \<Rightarrow> string \<Rightarrow> u64 \<Rightarrow> u64 \<Rightarrow> GteRange list option" where
  "load_gte_map read_file sha256sum core_elf path corebase coresize =
     (case read_file path of None \<Rightarrow> None
      | Some content \<Rightarrow>
          case map_lines (fgets_lines content []) (None, []) of
            Some (Some (map_base, map_size, hash_text), ranges) \<Rightarrow>
              if map_base \<noteq> corebase \<or> map_size \<noteq> coresize \<or> core_elf = [] \<or>
                 \<not> verify_file_sha256 sha256sum core_elf hash_text \<or>
                 \<not> (\<forall>op<GTE_OP_COUNT. op \<in> set (map gr_operation ranges)) \<or>
                 \<not> ranges_fit coresize [] ranges
              then None else Some ranges
          | _ \<Rightarrow> None)"

section \<open>Installation\<close>

record profile =
  o_size :: u64
  o_line :: u64
  o_ways :: u64
  o_sample :: u64
  o_ipenalty :: u64
  o_dpenalty :: u64
  o_d_vipt :: bool
  o_i_vipt :: bool
  o_phase_rec :: bool
  o_phase_active :: bool
  o_rec_only :: bool
  o_core_only :: bool
  o_emu_only :: bool
  o_out :: "string option"
  o_hot_path :: string
  o_gte_map_path :: string
  o_gte_core_elf :: string
  o_rec_base :: u64
  o_rec_auto :: bool
  o_rec_size :: u64
  o_core_base :: u64
  o_core_size :: u64
  o_frame_opcode :: u32
  o_frame_report_period :: u64
  o_frame_stop :: u64

definition default_profile :: profile where
  "default_profile =
     \<lparr>o_size = 16384, o_line = 16, o_ways = 2, o_sample = 10000000, o_ipenalty = 8, o_dpenalty = 12,
      o_d_vipt = True, o_i_vipt = True, o_phase_rec = False, o_phase_active = True,
      o_rec_only = False, o_core_only = False, o_emu_only = False,
      o_out = None, o_hot_path = [], o_gte_map_path = [], o_gte_core_elf = [],
      o_rec_base = 0x83200000, o_rec_auto = True, o_rec_size = 0x00880000,
      o_core_base = 0x83000000, o_core_size = 0x00120000,
      o_frame_opcode = 0, o_frame_report_period = 0, o_frame_stop = 0\<rparr>"

definition scope_option :: "string \<Rightarrow> profile \<Rightarrow> profile option" where
  "scope_option v p =
     (if v = ''all'' then Some (p\<lparr>o_rec_only := False, o_core_only := False, o_emu_only := False\<rparr>)
      else if v = ''rec'' then Some (p\<lparr>o_rec_only := True, o_core_only := False, o_emu_only := False\<rparr>)
      else if v = ''core'' then Some (p\<lparr>o_rec_only := False, o_core_only := True, o_emu_only := False\<rparr>)
      else if v = ''emu'' then Some (p\<lparr>o_rec_only := False, o_core_only := False, o_emu_only := True\<rparr>)
      else None)"

text \<open>A path is cut to the 4095 characters its array holds.\<close>

definition number_option :: "string \<Rightarrow> string \<Rightarrow> profile \<Rightarrow> profile option" where
  "number_option key v p =
     (if key = ''size'' then Some (p\<lparr>o_size := parse_u64 v (o_size p)\<rparr>)
      else if key = ''line'' then Some (p\<lparr>o_line := parse_u64 v (o_line p)\<rparr>)
      else if key = ''ways'' then Some (p\<lparr>o_ways := parse_u64 v (o_ways p)\<rparr>)
      else if key = ''sample'' then Some (p\<lparr>o_sample := parse_u64 v (o_sample p)\<rparr>)
      else if key = ''ipenalty'' then Some (p\<lparr>o_ipenalty := parse_u64 v (o_ipenalty p)\<rparr>)
      else if key = ''dpenalty'' then Some (p\<lparr>o_dpenalty := parse_u64 v (o_dpenalty p)\<rparr>)
      else if key = ''recsize'' then Some (p\<lparr>o_rec_size := parse_u64 v (o_rec_size p)\<rparr>)
      else if key = ''corebase'' then Some (p\<lparr>o_core_base := parse_u64 v (o_core_base p)\<rparr>)
      else if key = ''coresize'' then Some (p\<lparr>o_core_size := parse_u64 v (o_core_size p)\<rparr>)
      else if key = ''frameopcode'' then Some (p\<lparr>o_frame_opcode := ucast (parse_u64 v 0)\<rparr>)
      else if key = ''framereport'' then Some (p\<lparr>o_frame_report_period := parse_u64 v 0\<rparr>)
      else if key = ''framestop'' then Some (p\<lparr>o_frame_stop := parse_u64 v 0\<rparr>)
      else None)"

definition plugin_option :: "string \<Rightarrow> string \<Rightarrow> profile \<Rightarrow> profile option" where
  "plugin_option key v p =
     (if key = ''dmode'' then
        (if v = ''vipt'' then Some (p\<lparr>o_d_vipt := True\<rparr>) else if v = ''pipt'' then Some (p\<lparr>o_d_vipt := False\<rparr>) else None)
      else if key = ''imode'' then
        (if v = ''vipt'' then Some (p\<lparr>o_i_vipt := True\<rparr>) else if v = ''pipt'' then Some (p\<lparr>o_i_vipt := False\<rparr>) else None)
      else if key = ''phase'' then
        (if v = ''boot'' then Some (p\<lparr>o_phase_rec := False, o_phase_active := True\<rparr>)
         else if v = ''rec'' then Some (p\<lparr>o_phase_rec := True, o_phase_active := False\<rparr>) else None)
      else if key = ''scope'' then scope_option v p
      else if key = ''out'' then Some (p\<lparr>o_out := Some v\<rparr>)
      else if key = ''label'' then Some p
      else if key = ''hotspots'' then Some (p\<lparr>o_hot_path := take 4095 v\<rparr>)
      else if key = ''gtemap'' then Some (p\<lparr>o_gte_map_path := take 4095 v\<rparr>)
      else if key = ''coreelf'' then Some (p\<lparr>o_gte_core_elf := take 4095 v\<rparr>)
      else if key = ''recbase'' then
        (if v = ''auto'' then Some (p\<lparr>o_rec_base := 0x83200000, o_rec_auto := True\<rparr>)
         else Some (p\<lparr>o_rec_base := parse_u64 v (o_rec_base p), o_rec_auto := False\<rparr>))
      else number_option key v p)"

text \<open>An argument is a key, or a key and a value behind the first equals sign.\<close>

fun plugin_options :: "string list \<Rightarrow> profile \<Rightarrow> profile option" where
  "plugin_options [] p = Some p"
| "plugin_options (a # args) p =
     (case plugin_option (takeWhile (\<lambda>c. c \<noteq> CHR ''='') a) (drop 1 (dropWhile (\<lambda>c. c \<noteq> CHR ''='') a)) p of
        None \<Rightarrow> None | Some p \<Rightarrow> plugin_options args p)"

text \<open>
  The environment: the files that can be read, the hashing utility, and which allocations and openings
  succeed (the arrays of a cache by their number of entries, the bitmap by its size, the hotspot table, the
  output file, the hotspot file).
\<close>

record host =
  h_read_file :: "string \<Rightarrow> string option"
  h_sha256sum :: "string \<Rightarrow> (bool \<times> string) option"
  h_icache_alloc :: "nat \<Rightarrow> bool"
  h_dcache_alloc :: "nat \<Rightarrow> bool"
  h_bits_alloc :: "nat \<Rightarrow> bool"
  h_hot_alloc :: bool
  h_out_open :: bool
  h_hot_open :: bool

datatype installation = Trap | Refused | Installed Model

definition rec_lines :: "profile \<Rightarrow> nat" where
  "rec_lines p = unat ((o_rec_size p + o_line p - 1) div o_line p)"

definition first_model :: "host \<Rightarrow> profile \<Rightarrow> cache \<Rightarrow> cache \<Rightarrow> GteRange list \<Rightarrow> Model" where
  "first_model h p ic dc ranges =
     \<lparr>icache = ic, dcache = dc, out = Some [], instructions = 0, i_accesses = 0, i_misses = 0, d_accesses = 0, d_lines = 0,
      d_bytes = 0, d_size_counts = replicate 4 0, d_misses = 0, i_invalidations = 0, rec_i_invalidations = 0, stores = 0,
      mmio = 0, sample = o_sample p, next_sample = o_sample p, sample_no = 0, previous_instructions = 0, previous_i_misses = 0,
      previous_d_misses = 0, previous_estimated_cycles = 0, instruction_penalty = o_ipenalty p,
      data_penalty = o_dpenalty p, insn_classes = replicate 7 0, rec_base = o_rec_base p,
      rec_end = o_rec_base p + o_rec_size p, rec_configured_base = o_rec_base p, rec_base_evidence_pc = 0,
      core_base = o_core_base p, core_end = o_core_base p + o_core_size p, rec_base_auto = o_rec_auto p,
      rec_base_was_auto = o_rec_auto p, rec_base_discovered = False, rec_base_mismatch = False,
      gte_enabled = (o_gte_map_path p \<noteq> []), gte_map_hits = 0, gte_entries = 0, gte_map_entries = of_nat (length ranges),
      gte_instructions = 0, gte_i_misses = 0, gte_d_accesses = 0, gte_d_lines = 0, gte_d_misses = 0,
      gte_counts = replicate GTE_OP_COUNT 0, gte_work = 0, gte_ranges = ranges, core_only = o_core_only p,
      emu_only = o_emu_only p, rec_i_accesses = 0, rec_i_misses = 0, rec_d_accesses = 0, rec_d_lines = 0,
      rec_d_bytes = 0, rec_d_size_counts = replicate 4 0, rec_d_misses = 0, rec_insn_classes = replicate 7 0,
      rec_tb_execs = 0, rec_unique_lines = 0, rec_pc_low = UINT64_MAX, rec_pc_high = 0,
      rec_line_bits = Some (replicate ((rec_lines p + 7) div 8) 0), rec_line_count = rec_lines p,
      d_vipt = o_d_vipt p, i_vipt = o_i_vipt p, rec_only = o_rec_only p,
      phase_rec = (o_phase_rec p \<and> \<not> o_core_only p), phase_active = (o_phase_active p \<or> o_core_only p),
      frame_opcode = o_frame_opcode p, frame_number = 0, frame_report_period = o_frame_report_period p,
      frame_stop = o_frame_stop p, frame_previous_cycles = 0, frame_cycle_sum = 0, frame_cycle_values = [],
      frame_gte_work_sum = 0, frame_gte_work_values = [], frame_previous_gte_work = 0, frame_have_previous = False,
      frame_frozen = False, have_previous = False,
      hot_table = (if o_hot_path p = [] then None else Some (replicate 65536 hot_zero)),
      hot_file = (if o_hot_path p \<noteq> [] \<and> h_hot_open h then Some [] else None),
      translation_blocks = [], translation_block_count = 0, memdata_count = 0\<rparr>"

definition profile_rejected :: "profile \<Rightarrow> bool" where
  "profile_rejected p \<longleftrightarrow> o_out p = None \<or> o_out p = Some [] \<or> o_sample p = 0 \<or> o_rec_size p = 0 \<or>
     o_rec_base p > UINT64_MAX - o_rec_size p \<or> o_core_size p = 0 \<or> o_core_base p > UINT64_MAX - o_core_size p"

definition profile_ranges :: "host \<Rightarrow> profile \<Rightarrow> GteRange list option" where
  "profile_ranges h p =
     (if o_gte_map_path p = [] then Some []
      else load_gte_map (h_read_file h) (h_sha256sum h) (o_gte_core_elf p) (o_gte_map_path p) (o_core_base p)
             (o_core_base p + o_core_size p - o_core_base p))"

definition install_rest :: "host \<Rightarrow> profile \<Rightarrow> cache \<Rightarrow> cache \<Rightarrow> installation" where
  "install_rest h p ic dc =
     (case profile_ranges h p of None \<Rightarrow> Refused
      | Some ranges \<Rightarrow>
          if rec_lines p > unat UINT64_MAX - 7 \<or> \<not> h_bits_alloc h ((rec_lines p + 7) div 8) \<or>
             (o_hot_path p \<noteq> [] \<and> \<not> h_hot_alloc h) \<or> \<not> h_out_open h
          then Refused else Installed (first_model h p ic dc ranges))"

text \<open>The caches are made one after the other.\<close>

definition qemu_plugin_install :: "host \<Rightarrow> string list \<Rightarrow> installation" where
  "qemu_plugin_install h argv =
     (case plugin_options argv default_profile of None \<Rightarrow> Refused
      | Some p \<Rightarrow>
          if profile_rejected p then Refused
          else case cache_init (h_icache_alloc h) (o_size p) (o_line p) (o_ways p) of
              None \<Rightarrow> Trap | Some None \<Rightarrow> Refused
            | Some (Some ic) \<Rightarrow>
                case cache_init (h_dcache_alloc h) (o_size p) (o_line p) (o_ways p) of
                  None \<Rightarrow> Trap | Some None \<Rightarrow> Refused
                | Some (Some dc) \<Rightarrow> install_rest h p ic dc)"

section \<open>Properties of numbers\<close>

text \<open>The sixteen hexadecimal digits that the plugin and its tools print for an address.\<close>

definition hex_digit :: "int \<Rightarrow> char" where
  "hex_digit n = char_of (if n < 10 then 48 + n else 87 + n)"

fun hex_digits :: "nat \<Rightarrow> int \<Rightarrow> string" where
  "hex_digits 0 n = []"
| "hex_digits (Suc k) n = hex_digits k (n div 16) @ [hex_digit (n mod 16)]"

lemma digit_value_hex: "0 \<le> n \<Longrightarrow> n < 16 \<Longrightarrow> digit_value (hex_digit n) = n"
  by (simp add: digit_value_def hex_digit_def Let_def)

lemma digits_value_hex: "digits_value 16 (hex_digits k n) = n mod 16 ^ k"
proof (induction k arbitrary: n)
  case (Suc k)
  have "digits_value 16 (hex_digits (Suc k) n) = n div 16 mod 16 ^ k * 16 + n mod 16"
    by (simp add: digits_value_snoc digit_value_hex Suc.IH)
  also have "\<dots> = n mod 16 ^ Suc k" by (simp add: zmod_zmult2_eq)
  finally show ?case .
qed (simp add: digits_value_def)

lemma hex_digits_ok: "c \<in> set (hex_digits k n) \<Longrightarrow> digit_value c < 16"
  by (induction k arbitrary: n) (auto simp: digit_value_hex)

lemma length_hex_digits: "length (hex_digits k n) = k"
  by (induction k arbitrary: n) auto

lemma parse_hex:
  assumes "ds \<noteq> []" "\<forall>c\<in>set ds. digit_value c < 16" "digits_value 16 ds < 2 ^ 64"
  shows "parse_u64 (''0x'' @ ds) fallback = of_int (digits_value 16 ds)"
proof -
  obtain d rest where ds: "ds = d # rest" using assms(1) by (cases ds) auto
  have "strip_prefix (''0x'' @ ds) = (16, ds)" using assms(2) by (simp add: strip_prefix_def ds)
  moreover have "strip_sign (dropWhile is_space (''0x'' @ ds)) = (False, ''0x'' @ ds)"
    by (simp add: strip_sign_def is_space_def)
  moreover have t: "takeWhile (\<lambda>c. digit_value c < 16) ds = ds" "dropWhile (\<lambda>c. digit_value c < 16) ds = []"
    using assms(2) by (simp_all add: takeWhile_eq_all_conv dropWhile_eq_Nil_conv)
  ultimately show ?thesis using assms(1,3) by (simp add: parse_u64_def strtoull_def Let_def t del: append_Cons append_Nil)
qed

text \<open>An address printed with 16 digits is read back.\<close>

theorem parse_u64_reads_address: "parse_u64 (''0x'' @ hex_digits 16 (uint w)) fallback = w"
proof -
  have w: "uint w < 2 ^ 64" using unsigned_less [of w] by simp
  then have "digits_value 16 (hex_digits 16 (uint w)) = uint w" by (simp add: digits_value_hex)
  moreover have "hex_digits 16 (uint w) \<noteq> []" using length_hex_digits [of 16 "uint w"] by auto
  ultimately show ?thesis
    using parse_hex [of "hex_digits 16 (uint w)"] hex_digits_ok [of _ 16 "uint w"] w by auto
qed

section \<open>Properties of the map\<close>

lemma takeWhile_short: "x \<in> set xs \<Longrightarrow> \<not> P x \<Longrightarrow> length (takeWhile P xs) < length xs"
  by (induction xs) auto

lemma site_index_less: "gte_site_index name = Some op' \<Longrightarrow> op' < GTE_OP_COUNT"
proof -
  have "length (takeWhile (\<lambda>n. n \<noteq> name) gte_names) < length gte_names" if "name \<in> set gte_names"
    using that by (rule takeWhile_short) simp
  moreover have "length gte_names = 22" by (simp add: gte_names_def)
  ultimately show "gte_site_index name = Some op' \<Longrightarrow> op' < GTE_OP_COUNT"
    by (auto simp: gte_site_index_def split: if_splits)
qed

definition ranges_ok :: "GteRange list \<Rightarrow> bool" where
  "ranges_ok rs \<longleftrightarrow> length rs \<le> GTE_MAX_RANGES \<and> (\<forall>r\<in>set rs. gr_operation r < GTE_OP_COUNT)"

lemma map_line_ok: "map_line l st = Some st' \<Longrightarrow> ranges_ok (snd st) \<Longrightarrow> ranges_ok (snd st')"
  by (auto simp: map_line_def map_header_def map_entry_def ranges_ok_def Let_def site_index_less
      split: if_splits list.splits option.splits)

lemma map_lines_ok: "map_lines ls st = Some st' \<Longrightarrow> ranges_ok (snd st) \<Longrightarrow> ranges_ok (snd st')"
  by (induction ls arbitrary: st) (auto split: option.splits dest: map_line_ok)

definition covers :: "GteRange \<Rightarrow> u64 \<Rightarrow> bool" where
  "covers r off \<longleftrightarrow> off \<ge> ucast (gr_offset r) \<and> off < ucast (gr_offset r) + ucast (gr_size r)"

lemma covers_overlap: "covers r off \<Longrightarrow> covers p off \<Longrightarrow> overlap r p"
  by (auto simp: covers_def overlap_def)

lemma fit_nth:
  assumes "ranges_fit cs prior rs" "i < length rs"
  shows "in_core cs (rs ! i) \<and> (\<forall>p\<in>set (prior @ take i rs). \<not> overlap (rs ! i) p)"
  using assms
proof (induction rs arbitrary: prior i)
  case (Cons r rs)
  show ?case
  proof (cases i)
    case (Suc j)
    then show ?thesis using Cons.IH [of "prior @ [r]" j] Cons.prems by simp
  qed (use Cons.prems in simp)
qed simp

lemma range_id_none: "\<forall>r\<in>set rs. \<not> covers r off \<Longrightarrow> range_id off k rs = GTE_ID_NONE"
  by (induction rs arbitrary: k) (auto simp: covers_def)

lemma range_id_Cons:
  "range_id off k (r # rs) =
     (if covers r off then of_nat (k + 1) OR (if off = ucast (gr_offset r) then GTE_ID_ENTRY else 0) else range_id off (k + 1) rs)"
  by (simp add: covers_def)

lemma range_id_nth:
  "i < length rs \<Longrightarrow> covers (rs ! i) off \<Longrightarrow> \<forall>p\<in>set (take i rs). \<not> covers p off \<Longrightarrow>
   range_id off k rs = of_nat (k + i + 1) OR (if off = ucast (gr_offset (rs ! i)) then GTE_ID_ENTRY else 0)"
proof (induction rs arbitrary: i k)
  case (Cons r rs)
  show ?case
  proof (cases i)
    case 0
    then show ?thesis using Cons.prems by (simp only: range_id_Cons) simp
  next
    case (Suc j)
    then have "\<not> covers r off" using Cons.prems(3) by simp
    moreover have "k + 1 + j + 1 = k + i + 1" using Suc by simp
    ultimately show ?thesis using Cons.IH [of j "k + 1"] Cons.prems Suc by (simp only: range_id_Cons) simp
  qed
qed simp

lemma id_decode:
  assumes "n < 128" "e \<in> {0, GTE_ID_ENTRY}"
  shows "(of_nat n OR e) AND NOT GTE_ID_ENTRY = (of_nat n :: u8)" "((of_nat n OR e) AND GTE_ID_ENTRY \<noteq> (0 :: u8)) = (e \<noteq> 0)"
proof -
  have m: "(0x7f :: u8) = mask 7" by (simp add: mask_eq_exp_minus_1)
  have "unat (of_nat n :: u8) = n" using assms(1) by (simp add: unat_of_nat)
  moreover from this have "unat (take_bit 7 (of_nat n :: u8)) = n"
    using assms(1) by (simp only: unsigned_take_bit_eq) (simp add: take_bit_eq_mod)
  ultimately have "take_bit 7 (of_nat n :: u8) = of_nat n" by (simp only: word_unat_eq_iff)
  then have n7: "of_nat n AND (0x7f :: u8) = of_nat n" by (simp only: m take_bit_eq_mask)
  have "of_nat n AND (0x80 :: u8) = (of_nat n AND 0x7f) AND 0x80" by (simp only: n7)
  also have "\<dots> = 0" by (simp add: and.assoc)
  finally have n8: "of_nat n AND (0x80 :: u8) = 0" .
  have c: "NOT GTE_ID_ENTRY = 0x7f" by code_simp
  show "(of_nat n OR e) AND NOT GTE_ID_ENTRY = (of_nat n :: u8)"
    using assms(2) n7 unfolding c by (auto simp: bit.conj_disj_distrib2)
  show "((of_nat n OR e) AND GTE_ID_ENTRY \<noteq> (0 :: u8)) = (e \<noteq> 0)"
    using assms(2) n8 by (auto simp: bit.conj_disj_distrib2)
qed


lemma load_gte_map_ok:
  assumes "load_gte_map rf sha elf path cb cs = Some rs"
  shows "ranges_ok rs" "ranges_fit cs [] rs"
proof -
  obtain content hd where "map_lines (fgets_lines content []) (None, []) = Some (hd, rs)" "ranges_fit cs [] rs"
    using assms by (auto simp: load_gte_map_def split: option.splits prod.splits if_splits)
  then show "ranges_ok rs" "ranges_fit cs [] rs" using map_lines_ok [of _ "(None, [])" "(hd, rs)"] by (auto simp: ranges_ok_def)
qed

section \<open>Properties of an installation\<close>

lemma installed:
  assumes "qemu_plugin_install h argv = Installed md"
  obtains p ic dc rs where "plugin_options argv default_profile = Some p" "\<not> profile_rejected p"
    "cache_init (h_icache_alloc h) (o_size p) (o_line p) (o_ways p) = Some (Some ic)"
    "cache_init (h_dcache_alloc h) (o_size p) (o_line p) (o_ways p) = Some (Some dc)"
    "profile_ranges h p = Some rs" "md = first_model h p ic dc rs"
  using assms by (auto simp: qemu_plugin_install_def install_rest_def split: option.splits if_splits)

lemma unat_64: "unat (w :: u64) < 2 ^ 64"
  using unsigned_less [of w] by simp

lemma word_window:
  fixes b s :: u64
  assumes "\<not> b > UINT64_MAX - s" "off < s"
  shows "b \<le> b + off" "b + off < b + s" "b + off - b = off" "b + s - b = s"
proof -
  have m: "unat UINT64_MAX = 2 ^ 64 - 1" by simp
  have "unat (UINT64_MAX - s) = unat UINT64_MAX - unat s"
    by (intro unat_sub) (simp only: word_le_nat_alt m, use unat_64 [of s] in simp)
  then have "unat b + unat s < 2 ^ 64" using assms(1) unat_64 [of b] unat_64 [of s] m by (simp add: word_less_nat_alt not_less)
  moreover have "unat off < unat s" using assms(2) by (simp add: word_less_nat_alt)
  ultimately have "unat (b + s) = unat b + unat s" "unat (b + off) = unat b + unat off"
    using unat_add_lem [of b s] unat_add_lem [of b off] by simp_all
  then show "b \<le> b + off" "b + off < b + s" using assms(2) by (simp_all add: word_le_nat_alt word_less_nat_alt)
qed simp_all

text \<open>What the map says of an offset of the core: the only range that covers it, if any.\<close>

lemma installed_id:
  assumes "qemu_plugin_install h argv = Installed md" "i < length (gte_ranges md)" "covers (gte_ranges md ! i) off"
  shows "gte_id_for_pc md (core_base md + off) =
    of_nat (i + 1) OR (if off = ucast (gr_offset (gte_ranges md ! i)) then GTE_ID_ENTRY else 0)"
    and "i + 1 < 128" "gr_operation (gte_ranges md ! i) < GTE_OP_COUNT"
proof -
  obtain p ic dc rs where p: "\<not> profile_rejected p" "profile_ranges h p = Some rs" "md = first_model h p ic dc rs"
    by (rule installed [OF assms(1)])
  have md: "gte_ranges md = rs" "core_base md = o_core_base p" "core_end md = o_core_base p + o_core_size p"
      "gte_enabled md = (o_gte_map_path p \<noteq> [])"
    using p(3) by (simp_all add: first_model_def)
  have path: "o_gte_map_path p \<noteq> []" using p(2) assms(2) md(1) by (auto simp: profile_ranges_def)
  have rs: "ranges_ok rs" "ranges_fit (o_core_size p) [] rs"
    using load_gte_map_ok p(2) path by (auto simp: profile_ranges_def)
  show "i + 1 < 128" "gr_operation (gte_ranges md ! i) < GTE_OP_COUNT"
    using rs(1) assms(2) md(1) nth_mem [of i rs] by (auto simp: ranges_ok_def)
  have fit: "in_core (o_core_size p) (rs ! i)" "\<forall>q\<in>set (take i rs). \<not> overlap (rs ! i) q"
    using fit_nth [OF rs(2)] assms(2) md(1) by auto
  then have first: "\<forall>q\<in>set (take i rs). \<not> covers q off" using covers_overlap assms(3) md(1) by blast
  have "off < o_core_size p"
  proof -
    define o' s' where "o' = (ucast (gr_offset (rs ! i)) :: u64)" and "s' = (ucast (gr_size (rs ! i)) :: u64)"
    have "unat o' \<le> unat (o_core_size p)" "unat s' \<le> unat (o_core_size p) - unat o'"
      using fit(1) by (auto simp: in_core_def o'_def [symmetric] s'_def [symmetric] not_less word_le_nat_alt unat_sub)
    moreover have "unat off < unat o' + unat s'"
      using assms(3) unat_add_lem [of o' s'] calculation unat_64 [of "o_core_size p"]
      by (auto simp: covers_def md(1) o'_def [symmetric] s'_def [symmetric] word_less_nat_alt)
    ultimately show ?thesis by (simp add: word_less_nat_alt)
  qed
  then have "pc_is_core_code md (core_base md + off)" "core_base md + off - core_base md = off" "core_base md \<le> core_base md + off"
    using p(1) word_window [where b = "o_core_base p" and s = "o_core_size p" and off = off] by (auto simp: profile_rejected_def pc_is_core_code_def md)
  then show "gte_id_for_pc md (core_base md + off) =
      of_nat (i + 1) OR (if off = ucast (gr_offset (gte_ranges md ! i)) then GTE_ID_ENTRY else 0)"
    using range_id_nth [of i rs off 0] assms(2,3) first path by (simp add: gte_id_for_pc_def md not_less [symmetric])
qed

text \<open>
  C20. Whatever map was accepted at installation: an instruction that lies in the function of range \<open>i\<close> counts as
  one of the geometry engine, and at the entry of the function, and only there, it counts one operation of the
  range's kind and adds the work of the range.
\<close>

theorem gte_instruction_counted:
  assumes "qemu_plugin_install h argv = Installed md" "i < length (gte_ranges md)" "covers (gte_ranges md ! i) off"
  shows "let r = gte_ranges md ! i; md' = count_gte (gte_id_for_pc md (core_base md + off)) md;
      entry = (off = ucast (gr_offset r))
    in gte_instructions md' = gte_instructions md + 1 \<and> gr_operation r < length (gte_counts md) \<and>
       gte_counts md' = (if entry then bump (gr_operation r) (gte_counts md) else gte_counts md) \<and>
       gte_work md' = gte_work md + (if entry then ucast (gr_work r) else 0)"
proof -
  define e where "e = (if off = ucast (gr_offset (gte_ranges md ! i)) then GTE_ID_ENTRY else 0)"
  note id = installed_id [OF assms, folded e_def]
  have e: "e \<in> {0, GTE_ID_ENTRY}" "e \<noteq> 0 \<longleftrightarrow> off = ucast (gr_offset (gte_ranges md ! i))" by (auto simp: e_def)
  note dec = id_decode [OF id(2) e(1)]
  have u: "unat (of_nat (i + 1) :: u8) = i + 1" using id(2) by (simp only: unat_of_nat) simp
  have "of_nat (i + 1) OR e \<noteq> (0 :: u8)"
  proof
    assume "of_nat (i + 1) OR e = (0 :: u8)"
    then have "(of_nat (i + 1) :: u8) = 0" using dec(1) by simp
    then show False using u by simp
  qed
  moreover have "length (gte_counts md) = GTE_OP_COUNT"
    by (rule installed [OF assms(1)]) (simp add: first_model_def)
  ultimately show ?thesis
    unfolding id(1) count_gte_def Let_def dec u using e(2) id(3) by simp
qed


section \<open>A concrete installation\<close>

text \<open>A map with one function of four bytes for each of the 22 operations.\<close>

definition example_hash :: string where
  "example_hash = replicate 64 (CHR ''a'')"

definition example_lines :: "string list" where
  "example_lines =
     (''# sf2000-gte-map version=1 corebase=0x83000000 coresize=0x120000 core_sha256='' @ example_hash @ [CHR 0x0A]) #
     map (\<lambda>i. ''gte '' @ (gte_names ! i) @ '' 0x'' @ hex_digits 2 (4 * int i) @ '' 4 3'' @ [CHR 0x0A]) [0..<22]"

definition example_ranges :: "GteRange list" where
  "example_ranges = map (\<lambda>i. \<lparr>gr_offset = of_int (4 * int i), gr_size = 4, gr_operation = i, gr_work = 3\<rparr>) [0..<22]"

definition example_host :: host where
  "example_host =
     \<lparr>h_read_file = (\<lambda>path. Some (concat example_lines)), h_sha256sum = (\<lambda>path. Some (True, example_hash)),
      h_icache_alloc = (\<lambda>n. True), h_dcache_alloc = (\<lambda>n. True), h_bits_alloc = (\<lambda>n. True), h_hot_alloc = True,
      h_out_open = True, h_hot_open = True\<rparr>"

definition example_argv :: "string list" where
  "example_argv = [''out=o'', ''size=0x40'', ''gtemap=map'', ''coreelf=core'', ''hotspots=h'']"

definition example_profile :: profile where
  "example_profile = default_profile\<lparr>o_out := Some ''o'', o_size := 64, o_gte_map_path := ''map'', o_gte_core_elf := ''core'',
     o_hot_path := ''h''\<rparr>"

lemma example_options: "plugin_options example_argv default_profile = Some example_profile"
  by code_simp

lemma example_fgets: "fgets_lines (concat example_lines) [] = example_lines"
  by code_simp

lemma example_header:
  "map_line (hd example_lines) (None, []) = Some (Some (0x83000000, 0x120000, example_hash), [])"
  by code_simp

lemma example_entries:
  "map_lines (take 11 (tl example_lines)) (hd', []) = Some (hd', take 11 example_ranges)"
  "map_lines (drop 11 (tl example_lines)) (hd', take 11 example_ranges) = Some (hd', example_ranges)"
  by code_simp+

lemma example_fit: "ranges_fit 0x120000 [] example_ranges"
  by code_simp

lemma example_verified: "verify_file_sha256 (h_sha256sum example_host) ''core'' example_hash"
  by code_simp

lemma map_lines_append: "map_lines (xs @ ys) st = (case map_lines xs st of None \<Rightarrow> None | Some st \<Rightarrow> map_lines ys st)"
  by (induction xs arbitrary: st) (auto split: option.split)

lemma example_load:
  "load_gte_map (h_read_file example_host) (h_sha256sum example_host) ''core'' ''map'' 0x83000000 0x120000 = Some example_ranges"
proof -
  define h where "h = Some (0x83000000 :: u64, 0x120000 :: u64, example_hash)"
  have "map_lines (tl example_lines) (h, []) = Some (h, example_ranges)"
    using map_lines_append [of "take 11 (tl example_lines)" "drop 11 (tl example_lines)"] by (simp add: example_entries)
  moreover have "example_lines = hd example_lines # tl example_lines" by (simp add: example_lines_def)
  ultimately have "map_lines example_lines (None, []) = Some (h, example_ranges)"
    using example_header map_lines.simps(2) [of "hd example_lines" "tl example_lines"] by (simp add: h_def)
  moreover have "\<forall>op<22. op \<in> set (map gr_operation example_ranges)" by (simp add: example_ranges_def comp_def)
  moreover have "h_read_file example_host ''map'' = Some (concat example_lines)" by (simp add: example_host_def)
  ultimately show ?thesis
    unfolding load_gte_map_def by (simp add: example_fgets h_def example_verified example_fit)
qed

lemma example_cache: "cache_init (\<lambda>n. True) 64 16 2 \<noteq> None" "cache_init (\<lambda>n. True) 64 16 2 \<noteq> Some None"
  by code_simp+

lemma example_install:
  obtains md where "qemu_plugin_install example_host example_argv = Installed md" "length (gte_ranges md) = 22"
    "covers (gte_ranges md ! 1) 4"
    "\<exists>c. cache_init (\<lambda>n. True) 64 16 2 = Some (Some c) \<and> icache md = c" "hot_table md = Some (replicate 65536 hot_zero)"
proof -
  obtain c where c: "cache_init (\<lambda>n. True) 64 16 2 = Some (Some c)" using example_cache by auto
  define rs where "rs = example_ranges"
  have rs: "length rs = 22" "covers (rs ! 1) 4" by (simp_all add: rs_def example_ranges_def covers_def)
  have p: "profile_ranges example_host example_profile = Some rs"
    using example_load by (simp add: rs_def profile_ranges_def example_profile_def default_profile_def)
  have l: "rec_lines example_profile = 557056" by (simp add: rec_lines_def example_profile_def default_profile_def)
  have r: "install_rest example_host example_profile c c = Installed (first_model example_host example_profile c c rs)"
    by (simp add: install_rest_def p l) (simp add: example_host_def)
  have f: "\<not> profile_rejected example_profile" "o_size example_profile = 64" "o_line example_profile = 16" "o_ways example_profile = 2"
      "h_icache_alloc example_host = (\<lambda>n. True)" "h_dcache_alloc example_host = (\<lambda>n. True)"
    by (simp_all add: profile_rejected_def example_profile_def default_profile_def example_host_def)
  have "qemu_plugin_install example_host example_argv = Installed (first_model example_host example_profile c c rs)"
    by (simp add: qemu_plugin_install_def example_options f c r)
  then show ?thesis using rs c by (intro that) (auto simp: first_model_def example_profile_def)
qed

theorem gte_instruction_counted_witness:
  "\<exists>md. qemu_plugin_install example_host example_argv = Installed md \<and> gte_instructions (count_gte (gte_id_for_pc md (core_base md + 4)) md) = gte_instructions md + 1"
proof -
  obtain md where md: "qemu_plugin_install example_host example_argv = Installed md" "length (gte_ranges md) = 22"
      "covers (gte_ranges md ! 1) 4"
    by (rule example_install)
  then show ?thesis using gte_instruction_counted [OF md(1) _ md(3)] by (auto simp: Let_def)
qed

end
