(* ===== verification/CacheBooks.thy ===== *)
theory CacheBooks
  imports CacheConfig
begin

text \<open>
  The counters of the measurement plugin over a whole run: what is counted twice agrees, an executed block
  always returns, and the instruction misses reported are the misses of a least-recently-used cache.
  Two projections of the state carry the proofs: the counters of the books, and what the instruction cache
  depends on; an operation that touches neither is the identity on them.
\<close>

section \<open>Projections\<close>

text \<open>The fields that the books are kept on, and those that the instruction cache depends on.\<close>

definition ledger :: "Model \<Rightarrow> u64 list \<times> u64 list list \<times> u64 list \<times> u64 list" where
  "ledger md =
     ([instructions md, i_accesses md, rec_i_accesses md, d_accesses md, rec_d_accesses md, frame_cycle_sum md,
       frame_gte_work_sum md],
      [insn_classes md, rec_insn_classes md, d_size_counts md, rec_d_size_counts md],
      frame_cycle_values md, frame_gte_work_values md)"

definition fetches :: "Model \<Rightarrow> cache \<times> u64 \<times> bool list" where
  "fetches md = (icache md, i_misses md,
     [emu_only md, core_only md, rec_only md, phase_rec md, frame_frozen md, i_vipt md])"

lemma ledger_upd [simp]:
  "ledger (md\<lparr>icache := x_icache\<rparr>) = ledger md"
  "ledger (md\<lparr>dcache := x_dcache\<rparr>) = ledger md"
  "ledger (md\<lparr>out := x_out\<rparr>) = ledger md"
  "ledger (md\<lparr>i_misses := x_i_misses\<rparr>) = ledger md"
  "ledger (md\<lparr>d_lines := x_d_lines\<rparr>) = ledger md"
  "ledger (md\<lparr>d_bytes := x_d_bytes\<rparr>) = ledger md"
  "ledger (md\<lparr>d_misses := x_d_misses\<rparr>) = ledger md"
  "ledger (md\<lparr>i_invalidations := x_i_invalidations\<rparr>) = ledger md"
  "ledger (md\<lparr>rec_i_invalidations := x_rec_i_invalidations\<rparr>) = ledger md"
  "ledger (md\<lparr>stores := x_stores\<rparr>) = ledger md"
  "ledger (md\<lparr>mmio := x_mmio\<rparr>) = ledger md"
  "ledger (md\<lparr>sample := x_sample\<rparr>) = ledger md"
  "ledger (md\<lparr>next_sample := x_next_sample\<rparr>) = ledger md"
  "ledger (md\<lparr>sample_no := x_sample_no\<rparr>) = ledger md"
  "ledger (md\<lparr>previous_instructions := x_previous_instructions\<rparr>) = ledger md"
  "ledger (md\<lparr>previous_i_misses := x_previous_i_misses\<rparr>) = ledger md"
  "ledger (md\<lparr>previous_d_misses := x_previous_d_misses\<rparr>) = ledger md"
  "ledger (md\<lparr>previous_estimated_cycles := x_previous_estimated_cycles\<rparr>) = ledger md"
  "ledger (md\<lparr>instruction_penalty := x_instruction_penalty\<rparr>) = ledger md"
  "ledger (md\<lparr>data_penalty := x_data_penalty\<rparr>) = ledger md"
  "ledger (md\<lparr>rec_base := x_rec_base\<rparr>) = ledger md"
  "ledger (md\<lparr>rec_end := x_rec_end\<rparr>) = ledger md"
  "ledger (md\<lparr>rec_configured_base := x_rec_configured_base\<rparr>) = ledger md"
  "ledger (md\<lparr>rec_base_evidence_pc := x_rec_base_evidence_pc\<rparr>) = ledger md"
  "ledger (md\<lparr>core_base := x_core_base\<rparr>) = ledger md"
  "ledger (md\<lparr>core_end := x_core_end\<rparr>) = ledger md"
  "ledger (md\<lparr>rec_base_auto := x_rec_base_auto\<rparr>) = ledger md"
  "ledger (md\<lparr>rec_base_was_auto := x_rec_base_was_auto\<rparr>) = ledger md"
  "ledger (md\<lparr>rec_base_discovered := x_rec_base_discovered\<rparr>) = ledger md"
  "ledger (md\<lparr>rec_base_mismatch := x_rec_base_mismatch\<rparr>) = ledger md"
  "ledger (md\<lparr>gte_enabled := x_gte_enabled\<rparr>) = ledger md"
  "ledger (md\<lparr>gte_map_hits := x_gte_map_hits\<rparr>) = ledger md"
  "ledger (md\<lparr>gte_entries := x_gte_entries\<rparr>) = ledger md"
  "ledger (md\<lparr>gte_map_entries := x_gte_map_entries\<rparr>) = ledger md"
  "ledger (md\<lparr>gte_instructions := x_gte_instructions\<rparr>) = ledger md"
  "ledger (md\<lparr>gte_i_misses := x_gte_i_misses\<rparr>) = ledger md"
  "ledger (md\<lparr>gte_d_accesses := x_gte_d_accesses\<rparr>) = ledger md"
  "ledger (md\<lparr>gte_d_lines := x_gte_d_lines\<rparr>) = ledger md"
  "ledger (md\<lparr>gte_d_misses := x_gte_d_misses\<rparr>) = ledger md"
  "ledger (md\<lparr>gte_counts := x_gte_counts\<rparr>) = ledger md"
  "ledger (md\<lparr>gte_work := x_gte_work\<rparr>) = ledger md"
  "ledger (md\<lparr>gte_ranges := x_gte_ranges\<rparr>) = ledger md"
  "ledger (md\<lparr>core_only := x_core_only\<rparr>) = ledger md"
  "ledger (md\<lparr>emu_only := x_emu_only\<rparr>) = ledger md"
  "ledger (md\<lparr>rec_i_misses := x_rec_i_misses\<rparr>) = ledger md"
  "ledger (md\<lparr>rec_d_lines := x_rec_d_lines\<rparr>) = ledger md"
  "ledger (md\<lparr>rec_d_bytes := x_rec_d_bytes\<rparr>) = ledger md"
  "ledger (md\<lparr>rec_d_misses := x_rec_d_misses\<rparr>) = ledger md"
  "ledger (md\<lparr>rec_tb_execs := x_rec_tb_execs\<rparr>) = ledger md"
  "ledger (md\<lparr>rec_unique_lines := x_rec_unique_lines\<rparr>) = ledger md"
  "ledger (md\<lparr>rec_pc_low := x_rec_pc_low\<rparr>) = ledger md"
  "ledger (md\<lparr>rec_pc_high := x_rec_pc_high\<rparr>) = ledger md"
  "ledger (md\<lparr>rec_line_bits := x_rec_line_bits\<rparr>) = ledger md"
  "ledger (md\<lparr>rec_line_count := x_rec_line_count\<rparr>) = ledger md"
  "ledger (md\<lparr>d_vipt := x_d_vipt\<rparr>) = ledger md"
  "ledger (md\<lparr>i_vipt := x_i_vipt\<rparr>) = ledger md"
  "ledger (md\<lparr>rec_only := x_rec_only\<rparr>) = ledger md"
  "ledger (md\<lparr>phase_rec := x_phase_rec\<rparr>) = ledger md"
  "ledger (md\<lparr>phase_active := x_phase_active\<rparr>) = ledger md"
  "ledger (md\<lparr>frame_opcode := x_frame_opcode\<rparr>) = ledger md"
  "ledger (md\<lparr>frame_number := x_frame_number\<rparr>) = ledger md"
  "ledger (md\<lparr>frame_report_period := x_frame_report_period\<rparr>) = ledger md"
  "ledger (md\<lparr>frame_stop := x_frame_stop\<rparr>) = ledger md"
  "ledger (md\<lparr>frame_previous_cycles := x_frame_previous_cycles\<rparr>) = ledger md"
  "ledger (md\<lparr>frame_previous_gte_work := x_frame_previous_gte_work\<rparr>) = ledger md"
  "ledger (md\<lparr>frame_have_previous := x_frame_have_previous\<rparr>) = ledger md"
  "ledger (md\<lparr>frame_frozen := x_frame_frozen\<rparr>) = ledger md"
  "ledger (md\<lparr>have_previous := x_have_previous\<rparr>) = ledger md"
  "ledger (md\<lparr>hot_table := x_hot_table\<rparr>) = ledger md"
  "ledger (md\<lparr>hot_file := x_hot_file\<rparr>) = ledger md"
  "ledger (md\<lparr>translation_blocks := x_translation_blocks\<rparr>) = ledger md"
  "ledger (md\<lparr>translation_block_count := x_translation_block_count\<rparr>) = ledger md"
  "ledger (md\<lparr>memdata_count := x_memdata_count\<rparr>) = ledger md"
  by (simp_all add: ledger_def)

lemma fetches_upd [simp]:
  "fetches (md\<lparr>dcache := x_dcache\<rparr>) = fetches md"
  "fetches (md\<lparr>out := x_out\<rparr>) = fetches md"
  "fetches (md\<lparr>instructions := x_instructions\<rparr>) = fetches md"
  "fetches (md\<lparr>i_accesses := x_i_accesses\<rparr>) = fetches md"
  "fetches (md\<lparr>d_accesses := x_d_accesses\<rparr>) = fetches md"
  "fetches (md\<lparr>d_lines := x_d_lines\<rparr>) = fetches md"
  "fetches (md\<lparr>d_bytes := x_d_bytes\<rparr>) = fetches md"
  "fetches (md\<lparr>d_size_counts := x_d_size_counts\<rparr>) = fetches md"
  "fetches (md\<lparr>d_misses := x_d_misses\<rparr>) = fetches md"
  "fetches (md\<lparr>i_invalidations := x_i_invalidations\<rparr>) = fetches md"
  "fetches (md\<lparr>rec_i_invalidations := x_rec_i_invalidations\<rparr>) = fetches md"
  "fetches (md\<lparr>stores := x_stores\<rparr>) = fetches md"
  "fetches (md\<lparr>mmio := x_mmio\<rparr>) = fetches md"
  "fetches (md\<lparr>sample := x_sample\<rparr>) = fetches md"
  "fetches (md\<lparr>next_sample := x_next_sample\<rparr>) = fetches md"
  "fetches (md\<lparr>sample_no := x_sample_no\<rparr>) = fetches md"
  "fetches (md\<lparr>previous_instructions := x_previous_instructions\<rparr>) = fetches md"
  "fetches (md\<lparr>previous_i_misses := x_previous_i_misses\<rparr>) = fetches md"
  "fetches (md\<lparr>previous_d_misses := x_previous_d_misses\<rparr>) = fetches md"
  "fetches (md\<lparr>previous_estimated_cycles := x_previous_estimated_cycles\<rparr>) = fetches md"
  "fetches (md\<lparr>instruction_penalty := x_instruction_penalty\<rparr>) = fetches md"
  "fetches (md\<lparr>data_penalty := x_data_penalty\<rparr>) = fetches md"
  "fetches (md\<lparr>insn_classes := x_insn_classes\<rparr>) = fetches md"
  "fetches (md\<lparr>rec_base := x_rec_base\<rparr>) = fetches md"
  "fetches (md\<lparr>rec_end := x_rec_end\<rparr>) = fetches md"
  "fetches (md\<lparr>rec_configured_base := x_rec_configured_base\<rparr>) = fetches md"
  "fetches (md\<lparr>rec_base_evidence_pc := x_rec_base_evidence_pc\<rparr>) = fetches md"
  "fetches (md\<lparr>core_base := x_core_base\<rparr>) = fetches md"
  "fetches (md\<lparr>core_end := x_core_end\<rparr>) = fetches md"
  "fetches (md\<lparr>rec_base_auto := x_rec_base_auto\<rparr>) = fetches md"
  "fetches (md\<lparr>rec_base_was_auto := x_rec_base_was_auto\<rparr>) = fetches md"
  "fetches (md\<lparr>rec_base_discovered := x_rec_base_discovered\<rparr>) = fetches md"
  "fetches (md\<lparr>rec_base_mismatch := x_rec_base_mismatch\<rparr>) = fetches md"
  "fetches (md\<lparr>gte_enabled := x_gte_enabled\<rparr>) = fetches md"
  "fetches (md\<lparr>gte_map_hits := x_gte_map_hits\<rparr>) = fetches md"
  "fetches (md\<lparr>gte_entries := x_gte_entries\<rparr>) = fetches md"
  "fetches (md\<lparr>gte_map_entries := x_gte_map_entries\<rparr>) = fetches md"
  "fetches (md\<lparr>gte_instructions := x_gte_instructions\<rparr>) = fetches md"
  "fetches (md\<lparr>gte_i_misses := x_gte_i_misses\<rparr>) = fetches md"
  "fetches (md\<lparr>gte_d_accesses := x_gte_d_accesses\<rparr>) = fetches md"
  "fetches (md\<lparr>gte_d_lines := x_gte_d_lines\<rparr>) = fetches md"
  "fetches (md\<lparr>gte_d_misses := x_gte_d_misses\<rparr>) = fetches md"
  "fetches (md\<lparr>gte_counts := x_gte_counts\<rparr>) = fetches md"
  "fetches (md\<lparr>gte_work := x_gte_work\<rparr>) = fetches md"
  "fetches (md\<lparr>gte_ranges := x_gte_ranges\<rparr>) = fetches md"
  "fetches (md\<lparr>rec_i_accesses := x_rec_i_accesses\<rparr>) = fetches md"
  "fetches (md\<lparr>rec_i_misses := x_rec_i_misses\<rparr>) = fetches md"
  "fetches (md\<lparr>rec_d_accesses := x_rec_d_accesses\<rparr>) = fetches md"
  "fetches (md\<lparr>rec_d_lines := x_rec_d_lines\<rparr>) = fetches md"
  "fetches (md\<lparr>rec_d_bytes := x_rec_d_bytes\<rparr>) = fetches md"
  "fetches (md\<lparr>rec_d_size_counts := x_rec_d_size_counts\<rparr>) = fetches md"
  "fetches (md\<lparr>rec_d_misses := x_rec_d_misses\<rparr>) = fetches md"
  "fetches (md\<lparr>rec_insn_classes := x_rec_insn_classes\<rparr>) = fetches md"
  "fetches (md\<lparr>rec_tb_execs := x_rec_tb_execs\<rparr>) = fetches md"
  "fetches (md\<lparr>rec_unique_lines := x_rec_unique_lines\<rparr>) = fetches md"
  "fetches (md\<lparr>rec_pc_low := x_rec_pc_low\<rparr>) = fetches md"
  "fetches (md\<lparr>rec_pc_high := x_rec_pc_high\<rparr>) = fetches md"
  "fetches (md\<lparr>rec_line_bits := x_rec_line_bits\<rparr>) = fetches md"
  "fetches (md\<lparr>rec_line_count := x_rec_line_count\<rparr>) = fetches md"
  "fetches (md\<lparr>d_vipt := x_d_vipt\<rparr>) = fetches md"
  "fetches (md\<lparr>phase_active := x_phase_active\<rparr>) = fetches md"
  "fetches (md\<lparr>frame_opcode := x_frame_opcode\<rparr>) = fetches md"
  "fetches (md\<lparr>frame_number := x_frame_number\<rparr>) = fetches md"
  "fetches (md\<lparr>frame_report_period := x_frame_report_period\<rparr>) = fetches md"
  "fetches (md\<lparr>frame_stop := x_frame_stop\<rparr>) = fetches md"
  "fetches (md\<lparr>frame_previous_cycles := x_frame_previous_cycles\<rparr>) = fetches md"
  "fetches (md\<lparr>frame_cycle_sum := x_frame_cycle_sum\<rparr>) = fetches md"
  "fetches (md\<lparr>frame_cycle_values := x_frame_cycle_values\<rparr>) = fetches md"
  "fetches (md\<lparr>frame_gte_work_sum := x_frame_gte_work_sum\<rparr>) = fetches md"
  "fetches (md\<lparr>frame_gte_work_values := x_frame_gte_work_values\<rparr>) = fetches md"
  "fetches (md\<lparr>frame_previous_gte_work := x_frame_previous_gte_work\<rparr>) = fetches md"
  "fetches (md\<lparr>frame_have_previous := x_frame_have_previous\<rparr>) = fetches md"
  "fetches (md\<lparr>have_previous := x_have_previous\<rparr>) = fetches md"
  "fetches (md\<lparr>hot_table := x_hot_table\<rparr>) = fetches md"
  "fetches (md\<lparr>hot_file := x_hot_file\<rparr>) = fetches md"
  "fetches (md\<lparr>translation_blocks := x_translation_blocks\<rparr>) = fetches md"
  "fetches (md\<lparr>translation_block_count := x_translation_block_count\<rparr>) = fetches md"
  "fetches (md\<lparr>memdata_count := x_memdata_count\<rparr>) = fetches md"
  by (simp_all add: fetches_def)

lemmas keep_if = if_distrib [of ledger] if_distrib [of fetches]

named_theorems profile_defs

lemmas [profile_defs] = mark_mismatch_def adopt_base_def check_base_def note_evidence_def rec_base_observe_def note_low_def
  note_high_def note_line_def rec_code_observe_def hot_update_def count_gte_def clear_hotspot_counts_def write_hotspots_def
  invalidate_line_def observe_candidate_def hotspot_lookup_def append_report_def

lemma ledger_keep [simp]:
  "ledger (mark_mismatch md) = ledger md"
  "ledger (adopt_base pc md) = ledger md"
  "ledger (check_base pc md) = ledger md"
  "ledger (note_evidence pc md) = ledger md"
  "ledger (note_low pc md) = ledger md"
  "ledger (note_high pc md) = ledger md"
  "ledger (note_line pc md) = ledger md"
  "ledger (hot_update h f md) = ledger md"
  "ledger (count_gte g md) = ledger md"
  "ledger (clear_hotspot_counts md) = ledger md"
  "ledger (write_hotspots k md) = ledger md"
  "ledger (invalidate_line a i v md) = ledger md"
  "ledger (append_report k rs md) = ledger md"
  "ledger (snd (hotspot_lookup pc md)) = ledger md"
  by (simp_all add: profile_defs keep_if Let_def split: option.split)

lemma ledger_base [simp]: "ledger (rec_base_observe pc md) = ledger md"
  by (simp add: rec_base_observe_def keep_if)

lemma ledger_code [simp]: "ledger (rec_code_observe pc md) = ledger md"
  by (simp add: rec_code_observe_def keep_if)

lemma ledger_candidate [simp]: "ledger (observe_candidate insns md) = ledger md"
  by (simp add: observe_candidate_def keep_if Let_def)

lemma ledger_miss [simp]: "ledger (count_miss pc g h md) = ledger md"
  by (simp add: count_miss_def)

lemma ledger_fetch [simp]: "ledger (fetch_insn pc g h md) = ledger md"
  by (simp add: fetch_insn_def keep_if Let_def split_def)

lemma ledger_line [simp]: "ledger (data_line mem a i v md) = ledger md"
  by (simp add: data_line_def keep_if Let_def split_def)

lemma ledger_trans [simp]: "ledger (snd (trans_insn al ins md)) = ledger md"
  using ledger_keep(14) [of "insn_vaddr ins" md] by (simp add: trans_insn_def keep_if Let_def split_def)

lemma ledger_trans_all [simp]: "ledger (snd (trans_insns al i insns md)) = ledger md"
proof (induction insns arbitrary: i md)
  case (Cons ins insns)
  show ?case using Cons.IH [of "i + 1" "snd (trans_insn (al i) ins md)"] by (simp add: Let_def split_def)
qed simp

lemma ledger_tb_trans [simp]: "ledger (snd (tb_trans ab al insns md)) = ledger md"
  by (simp add: tb_trans_def keep_if Let_def split_def)

section \<open>Double-entry bookkeeping\<close>

definition books :: "Model \<Rightarrow> bool" where
  "books md \<longleftrightarrow> instructions md = i_accesses md \<and>
     length (insn_classes md) = 7 \<and> sum_list (insn_classes md) = i_accesses md \<and>
     length (rec_insn_classes md) = 7 \<and> sum_list (rec_insn_classes md) = rec_i_accesses md \<and>
     length (d_size_counts md) = 4 \<and> sum_list (d_size_counts md) = d_accesses md \<and>
     length (rec_d_size_counts md) = 4 \<and> sum_list (rec_d_size_counts md) = rec_d_accesses md \<and>
     frame_cycle_sum md = sum_list (frame_cycle_values md) \<and>
     frame_gte_work_sum md = sum_list (frame_gte_work_values md) \<and>
     length (frame_gte_work_values md) = length (frame_cycle_values md) \<and> length (frame_cycle_values md) \<le> FRAME_VALUES"

lemma books_ledger: "ledger md' = ledger md \<Longrightarrow> books md' = books md"
  by (simp add: books_def ledger_def)

lemma length_bump [simp]: "length (bump i xs) = length xs"
  by (simp add: bump_def)

lemma sum_bump: "i < length xs \<Longrightarrow> sum_list (bump i xs) = sum_list xs + 1"
proof (induction xs arbitrary: i)
  case (Cons x xs)
  then show ?case by (cases i) (auto simp: bump_def)
qed simp

lemma class_index_less: "class_index k < 7"
  by (simp add: class_index_def split: InsnClass.split)

lemma books_count_insn: "books md \<Longrightarrow> books (count_insn k md)"
  by (simp add: books_def count_insn_def sum_bump class_index_less)

lemma books_count_rec: "books md \<Longrightarrow> books (count_rec_insn pc k md)"
proof -
  assume b: "books md"
  define md1 where "md1 = md\<lparr>rec_i_accesses := rec_i_accesses md + 1, rec_insn_classes := bump (class_index k) (rec_insn_classes md)\<rparr>"
  have "books md1" using b by (simp add: md1_def books_def sum_bump class_index_less)
  then have "books (rec_code_observe pc md1)" by (simp add: books_ledger [of "rec_code_observe pc md1" md1])
  then show ?thesis using b by (simp add: count_rec_insn_def md1_def)
qed

lemma books_exec_insn: "books (snd st) \<Longrightarrow> books (snd (exec_insn pc k g h st))"
proof -
  assume b: "books (snd st)"
  have "ledger (fetch_insn pc g h (hot_update h f (count_gte g md))) = ledger md" for f md by simp
  then have "books (fetch_insn pc g h (hot_update h f (count_gte g md))) = books md" for f md
    using books_ledger by blast
  then show ?thesis using b books_count_rec [OF books_count_insn] by (simp add: exec_insn_def split_def Let_def)
qed

lemma books_exec_insns: "books md \<Longrightarrow> books (snd (exec_insns tb md))"
proof -
  have "books (snd st) \<Longrightarrow> books (snd (fold (\<lambda>(pc, k, g, h). exec_insn pc k g h) xs st))" for st xs
    by (induction xs arbitrary: st) (auto simp: split_def books_exec_insn)
  then show "books md \<Longrightarrow> books (snd (exec_insns tb md))" by (simp add: exec_insns_def)
qed

lemma sum_insort: "sum_list (insort x xs) = x + sum_list (xs :: u64 list)"
  by (induction xs) (simp_all add: algebra_simps)

lemma sum_sort: "sum_list (sort xs) = sum_list (xs :: u64 list)"
  by (induction xs) (simp_all add: sum_insort)

lemma books_report: "books md \<Longrightarrow> books (write_report k md)"
proof -
  assume b: "books md"
  have "books (sort_frames md)" using b by (simp add: books_def sort_frames_def sum_sort)
  moreover have "ledger (write_hotspots k (append_report k rs md')) = ledger md'" for rs md' by simp
  then have "books (write_hotspots k (append_report k rs md')) = books md'" for rs md' by (rule books_ledger)
  ultimately show ?thesis using b by (cases "out md") (simp_all add: write_report_def)
qed

lemma books_maybe: "books md \<Longrightarrow> maybe_report md = Some md' \<Longrightarrow> books md'"
proof -
  assume b: "books md" and m: "maybe_report md = Some md'"
  have "books (md\<lparr>next_sample := n\<rparr>)" for n using b books_ledger [of "md\<lparr>next_sample := n\<rparr>" md] by simp
  then have "books (write_report k (md\<lparr>next_sample := n\<rparr>))" for k n by (rule books_report)
  then show ?thesis using b m by (auto simp: maybe_report_def split: if_splits)
qed

lemma books_reset: "books (reset_measurement md)"
  unfolding reset_measurement_def by (subst books_ledger [OF ledger_keep(10)]) (simp add: books_def sum_list_replicate)

lemma books_tb_exec: "books md \<Longrightarrow> tb_exec tb md = Some md' \<Longrightarrow> books md'"
proof -
  assume b: "books md" and e: "tb_exec tb md = Some md'"
  have "books (start_phase md)" using b books_reset by (simp add: start_phase_def books_ledger [of "_\<lparr>phase_active := _\<rparr>"])
  then have x: "books (snd (exec_insns tb (start_phase md)))" by (rule books_exec_insns)
  have "books (snd (exec_insns tb (start_phase md))\<lparr>rec_tb_execs := n\<rparr>)" for n
    using x books_ledger [of "snd (exec_insns tb (start_phase md))\<lparr>rec_tb_execs := n\<rparr>" "snd (exec_insns tb (start_phase md))"] by simp
  then have "books (if seen then snd (exec_insns tb (start_phase md))\<lparr>rec_tb_execs := n\<rparr> else snd (exec_insns tb (start_phase md)))" for seen n
    using x by simp
  from books_maybe [OF this] show ?thesis using b e by (simp add: tb_exec_def split_def Let_def split: if_splits)
qed

lemma books_access: "books md \<Longrightarrow> books (mem_access u info vaddr md)"
proof -
  assume b: "books md"
  have "books (count_access r mem st (count_size r n md))" for r mem st n
  proof -
    define md1 where "md1 = count_size r n md"
    have "ledger (count_access r mem st md1) = ledger (md1\<lparr>d_accesses := d_accesses md1 + 1, rec_d_accesses := rec_d_accesses md1 + (if r then 1 else 0)\<rparr>)"
      by (simp add: count_access_def)
    moreover have "books (md1\<lparr>d_accesses := d_accesses md1 + 1, rec_d_accesses := rec_d_accesses md1 + (if r then 1 else 0)\<rparr>)"
      using b by (cases r) (simp_all add: books_def md1_def count_size_def Let_def sum_bump)
    ultimately show ?thesis using books_ledger md1_def by blast
  qed
  moreover have "ledger (data_access mem n st a v md) = ledger (count_access (pc_is_rec_code md (md_pc mem)) mem st (count_size (pc_is_rec_code md (md_pc mem)) n md))" for mem n st a v
    by (simp add: data_access_def Let_def keep_if)
  ultimately have "books (data_access mem n st a v md)" for mem n st a v using books_ledger by blast
  then show ?thesis using b by (simp add: mem_access_def Let_def books_ledger [of "_\<lparr>mmio := _\<rparr>"])
qed

lemma books_frame: "books md \<Longrightarrow> books (frame_marker_exec md)"
proof -
  assume b: "books md"
  define md1 where "md1 = md\<lparr>frame_number := frame_number md + 1\<rparr>"
  have b1: "books md1" using b by (simp add: md1_def books_ledger [of "_\<lparr>frame_number := _\<rparr>"])
  have "books (frame_record c w md1)" for c w using b1 by (simp add: frame_record_def Let_def books_def)
  then have b2: "books (frame_end md1)"
    by (simp add: frame_end_def Let_def) (simp add: books_def)
  have "books (frame_report md2)" if "books md2" for md2
  proof -
    have "books ((write_report ''frame'' md2)\<lparr>frame_cycle_sum := 0, frame_gte_work_sum := 0, frame_cycle_values := [], frame_gte_work_values := []\<rparr>)"
      using books_report [OF that] by (simp add: books_def)
    then show ?thesis unfolding frame_report_def by (simp add: books_ledger [OF ledger_keep(10)])
  qed
  then show ?thesis
    using b b1 b2 by (simp add: frame_marker_exec_def Let_def md1_def [symmetric] books_ledger [of "_\<lparr>frame_frozen := _\<rparr>"])
qed

lemma books_run: "run es md = Some md' \<Longrightarrow> books md \<Longrightarrow> books md'"
proof (induction es arbitrary: md)
  case (Cons e es)
  obtain md1 where s: "step e md = Some md1" "run es md1 = Some md'" using Cons.prems(1) by (auto split: option.splits)
  have "books md1"
  proof (cases e)
    case (Translate ab al insns)
    then show ?thesis using s(1) Cons.prems(2) books_ledger [OF ledger_tb_trans, of ab al insns md] by (auto simp: step_def)
  qed (use s(1) Cons.prems(2) in \<open>auto simp: step_def intro: books_tb_exec books_access books_frame\<close>)
  then show ?case using Cons.IH s(2) by blast
qed simp

lemma installed_books: "qemu_plugin_install h argv = Installed md \<Longrightarrow> books md"
  by (erule installed) (simp add: first_model_def books_def sum_list_replicate)

text \<open>
  C18. The books balance after every history of callbacks: instructions are i-cache accesses and are the sum
  over the classes, data accesses are the sum over the sizes, the same for generated code, and the sums of
  the frames are those of the recorded values.
\<close>

theorem books_balance:
  assumes "qemu_plugin_install h argv = Installed md" "run es md = Some md'"
  shows "books md'"
  by (rule books_run [OF assms(2) installed_books [OF assms(1)]])

theorem books_balance_witness: "\<exists>md. qemu_plugin_install example_host example_argv = Installed md \<and> books (frame_marker_exec md)"
proof -
  obtain md where md: "qemu_plugin_install example_host example_argv = Installed md" by (rule example_install)
  have "books (frame_marker_exec md)" by (rule books_balance [OF md, of "[Frame]"]) (simp add: step_def)
  then show ?thesis using md by blast
qed

section \<open>Executed blocks return\<close>

lemma advance_ends:
  assumes "inc \<noteq> 0" "unat limit + unat inc < 2 ^ 64" "next \<le> limit"
  shows "\<exists>n. advance_sample inc limit next = Some n \<and> limit < n \<and> unat n \<le> unat limit + unat inc"
  using assms(3)
proof (induction "unat limit - unat next" arbitrary: "next" rule: less_induct)
  case less
  have u: "unat (next + inc) = unat next + unat inc"
    using unat_add_lem [of "next" inc] assms(2) less.prems by (simp add: word_le_nat_alt)
  have pos: "0 < unat inc" using assms(1) by (simp add: unat_gt_0)
  show ?case
  proof (cases "next + inc \<le> limit")
    case True
    have "unat limit - unat (next + inc) < unat limit - unat next" using True u pos by (simp add: word_le_nat_alt)
    from less.hyps [OF this True] show ?thesis
      using True by (simp add: advance_sample.simps [of inc limit "next"])
  next
    case False
    then show ?thesis using u less.prems by (simp add: advance_sample.simps [of inc limit "next"] word_le_nat_alt not_le word_less_nat_alt)
  qed
qed

lemma maybe_report_returns:
  assumes "unat (instructions md) + unat (sample md) < 2 ^ 64"
  shows "\<exists>md'. maybe_report md = Some md'"
  using advance_ends [of "sample md" "instructions md" "next_sample md"] assms
  by (auto simp: maybe_report_def not_less)

abbreviation (input) pace where "pace md \<equiv> (instructions md, sample md)"

lemma pace_keep [unfolded prod.inject, simp]:
  "pace (hot_update h f md) = pace md"
  "pace (count_gte g md) = pace md"
  "pace (rec_base_observe pc md) = pace md"
  "pace (note_low pc md) = pace md"
  "pace (note_high pc md) = pace md"
  "pace (note_line pc md) = pace md"
  by (simp_all add: profile_defs Let_def split: option.split)

lemma pace_fetch [unfolded prod.inject, simp]: "pace (fetch_insn pc g h md) = pace md"
  by (simp add: fetch_insn_def count_miss_def split_def Let_def)

lemma pace_count [unfolded prod.inject, simp]: "pace (count_rec_insn pc k md) = pace md"
  by (simp add: count_rec_insn_def rec_code_observe_def)

lemma unat_Suc_le: "unat (w + 1 :: u64) \<le> unat w + 1"
  by (metis le_cases unat_plus_if' unat_1 diff_le_self)

lemma pace_exec_insn:
  "unat (instructions (snd (exec_insn pc k g h st))) \<le> unat (instructions (snd st)) + 1 \<and>
   sample (snd (exec_insn pc k g h st)) = sample (snd st)"
  using unat_Suc_le by (simp add: exec_insn_def split_def Let_def count_insn_def)

lemma pace_exec_insns:
  "unat (instructions (snd (exec_insns tb md))) \<le> unat (instructions md) + length (tb_pc tb) \<and>
   sample (snd (exec_insns tb md)) = sample md"
proof -
  have "unat (instructions (snd (fold (\<lambda>(pc, k, g, h). exec_insn pc k g h) xs st))) \<le> unat (instructions (snd st)) + length xs \<and>
      sample (snd (fold (\<lambda>(pc, k, g, h). exec_insn pc k g h) xs st)) = sample (snd st)" for xs st
  proof (induction xs arbitrary: st)
    case (Cons x xs)
    obtain pc k g h where x: "x = (pc, k, g, h)" by (cases x)
    show ?case using Cons.IH [of "exec_insn pc k g h st"] pace_exec_insn [of pc k g h st] by (simp add: x)
  qed simp
  from this [of "block_insns tb" "(False, md)"] show ?thesis
    by (auto simp: exec_insns_def block_insns_def Let_def intro: order_trans)
qed

lemma pace_start:
  "unat (instructions (start_phase md)) \<le> unat (instructions md)" "sample (start_phase md) = sample md"
  by (simp_all add: start_phase_def reset_measurement_def clear_hotspot_counts_def)

text \<open>
  A block always finishes, its report and the search for the next sample included, as long as the counter of
  instructions stays one sample period below its wrap-around.
\<close>

theorem tb_exec_returns:
  assumes "unat (instructions md) + length (tb_pc tb) + unat (sample md) < 2 ^ 64"
  shows "\<exists>md'. tb_exec tb md = Some md'"
proof -
  define md1 where "md1 = snd (exec_insns tb (start_phase md))"
  have "unat (instructions md1) + unat (sample md1) < 2 ^ 64"
    using pace_exec_insns [of tb "start_phase md"] pace_start [of md] assms by (simp add: md1_def)
  then have "\<exists>md'. maybe_report (md1\<lparr>rec_tb_execs := n\<rparr>) = Some md'" "\<exists>md'. maybe_report md1 = Some md'" for n
    by (intro maybe_report_returns; simp)+
  then show ?thesis by (simp add: tb_exec_def split_def Let_def md1_def)
qed

text \<open>Nothing is filtered out: the plain scope, from the start and not stopped.\<close>

definition plain :: "Model \<Rightarrow> bool" where
  "plain md \<longleftrightarrow> \<not> emu_only md \<and> \<not> core_only md \<and> \<not> rec_only md \<and> \<not> phase_rec md \<and> \<not> frame_frozen md"

definition example_block :: TranslationBlock where
  "example_block = \<lparr>tb_pc = [0x83000004, 0x83000008], tb_class_id = [INSN_OTHER, INSN_LOAD], tb_gte_id = [0, 0], tb_hot = None,
     tb_mem = [True, True], tb_rec_count = 0\<rparr>"

lemma example_sample:
  assumes "qemu_plugin_install example_host example_argv = Installed md"
  shows "sample md = 10000000 \<and> instructions md = 0 \<and> plain md \<and> i_vipt md"
proof -
  obtain p ic dc rs where "plugin_options example_argv default_profile = Some p" "md = first_model example_host p ic dc rs"
    by (rule installed [OF assms])
  then show ?thesis
    by (simp add: example_options first_model_def plain_def) (auto simp: example_profile_def default_profile_def)
qed

theorem tb_exec_returns_witness:
  "\<exists>md md'. qemu_plugin_install example_host example_argv = Installed md \<and> tb_exec example_block md = Some md'"
proof -
  obtain md where md: "qemu_plugin_install example_host example_argv = Installed md" by (rule example_install)
  have "\<exists>md'. tb_exec example_block md = Some md'"
    by (rule tb_exec_returns) (simp add: example_sample [OF md] example_block_def)
  then show ?thesis using md by blast
qed

section \<open>Instruction fetches\<close>

lemma fetches_keep [simp]:
  "fetches (mark_mismatch md) = fetches md"
  "fetches (adopt_base pc md) = fetches md"
  "fetches (check_base pc md) = fetches md"
  "fetches (note_evidence pc md) = fetches md"
  "fetches (note_low pc md) = fetches md"
  "fetches (note_high pc md) = fetches md"
  "fetches (note_line pc md) = fetches md"
  "fetches (hot_update h f md) = fetches md"
  "fetches (count_gte g md) = fetches md"
  "fetches (write_hotspots k md) = fetches md"
  "fetches (append_report k rs md) = fetches md"
  "fetches (sort_frames md) = fetches md"
  "fetches (count_insn cl md) = fetches md"
  by (simp_all add: profile_defs sort_frames_def count_insn_def keep_if Let_def split: option.split)

lemma fetches_count [simp]: "fetches (count_rec_insn pc k md) = fetches md"
  by (simp add: count_rec_insn_def rec_code_observe_def rec_base_observe_def keep_if)

lemma fetches_report [simp]: "fetches (write_report k md) = fetches md"
  by (cases "out md") (simp_all add: write_report_def)

lemma fetches_maybe: "maybe_report md = Some md' \<Longrightarrow> fetches md' = fetches md"
  by (auto simp: maybe_report_def split: if_splits)

definition fetch_key :: "bool \<Rightarrow> u64 \<Rightarrow> u64 \<times> u64" where
  "fetch_key vipt pc = (mips_direct_phys pc, if vipt then pc else mips_direct_phys pc)"

lemma access_key: "cache_access_instruction vipt c pc = (case fetch_key vipt pc of (ta, ia) \<Rightarrow> cache_access_indexed c ta ia)"
  by (simp add: cache_access_instruction_def fetch_key_def cache_access_def Let_def)

definition fetched :: "Model \<Rightarrow> Model \<Rightarrow> u64 list \<Rightarrow> bool" where
  "fetched md md' pcs \<longleftrightarrow>
     (let (hs, ic) = cache_run (icache md) (map (fetch_key (i_vipt md)) pcs)
      in fetches md' = (ic, i_misses md + of_nat (length (filter Not hs)), snd (snd (fetches md))))"

lemma fetched_refl: "fetched md md []"
  by (simp add: fetched_def fetches_def)

lemma run_append: "cache_run c (xs @ ys) =
    (let (hs, c) = cache_run c xs; (hs', c) = cache_run c ys in (hs @ hs', c))"
  by (induction xs arbitrary: c) (auto simp: split_def Let_def)

lemma fetched_trans: "fetched md md1 xs \<Longrightarrow> fetched md1 md2 ys \<Longrightarrow> fetched md md2 (xs @ ys)"
  by (auto simp: fetched_def fetches_def run_append split_def Let_def)

lemma fetched_cong: "fetched md md1 xs \<Longrightarrow> fetches md2 = fetches md1 \<Longrightarrow> fetched md md2 xs"
  by (simp add: fetched_def split_def)

lemma fetched_plain: "fetched md md' xs \<Longrightarrow> plain md' = plain md"
  by (auto simp: fetched_def fetches_def plain_def split_def)

lemma fetched_insn: "plain (snd st) \<Longrightarrow> fetched (snd st) (snd (exec_insn pc k g h st)) [pc]"
proof -
  assume p: "plain (snd st)"
  define md1 where "md1 = hot_update h (\<lambda>e. e\<lparr>hs_executions := hs_executions e + 1\<rparr>)
    (count_gte g (count_rec_insn pc k (count_insn k (snd st))))"
  have f: "fetches md1 = fetches (snd st)" by (simp add: md1_def)
  then have eq: "icache md1 = icache (snd st)" "i_misses md1 = i_misses (snd st)" "i_vipt md1 = i_vipt (snd st)"
    "snd (snd (fetches md1)) = snd (snd (fetches (snd st)))"
    by (simp_all add: fetches_def)
  obtain hit ic where a: "cache_access_instruction (i_vipt md1) (icache md1) pc = (hit, ic)"
    by (cases "cache_access_instruction (i_vipt md1) (icache md1) pc")
  have "fetches (fetch_insn pc g h md1) = (ic, i_misses md1 + (if hit then 0 else 1), snd (snd (fetches md1)))"
    by (simp add: fetch_insn_def a count_miss_def Let_def) (simp add: fetches_def)
  moreover have "snd (exec_insn pc k g h st) = fetch_insn pc g h md1"
    using p by (simp add: exec_insn_def split_def Let_def md1_def plain_def pc_is_selected_def)
  moreover have "cache_run (icache (snd st)) [fetch_key (i_vipt (snd st)) pc] = ([hit], ic)"
    using a by (cases "fetch_key (i_vipt (snd st)) pc") (simp add: access_key eq)
  ultimately show ?thesis by (simp add: fetched_def eq)
qed

lemma fetched_insns: "plain md \<Longrightarrow> fetched md (snd (exec_insns tb md)) (map fst (block_insns tb))"
proof -
  have "plain (snd st) \<Longrightarrow> fetched (snd st) (snd (fold (\<lambda>(pc, k, g, h). exec_insn pc k g h) xs st)) (map fst xs)" for st xs
  proof (induction xs arbitrary: st)
    case (Cons x xs)
    obtain pc k g h where x: "x = (pc, k, g, h)" by (cases x)
    note s = fetched_insn [OF Cons.prems, of pc k g h]
    show ?case using fetched_trans [OF s Cons.IH] fetched_plain [OF s] Cons.prems by (simp add: x)
  qed (simp add: fetched_refl)
  from this [of "(False, md)" "block_insns tb"]
  show "plain md \<Longrightarrow> fetched md (snd (exec_insns tb md)) (map fst (block_insns tb))" by (simp add: exec_insns_def)
qed

lemma fetched_block: "plain md \<Longrightarrow> tb_exec tb md = Some md' \<Longrightarrow> fetched md md' (map fst (block_insns tb))"
proof -
  assume p: "plain md" and e: "tb_exec tb md = Some md'"
  have "start_phase md = md" using p by (simp add: start_phase_def plain_def)
  then obtain seen where "maybe_report (if seen then snd (exec_insns tb md)\<lparr>rec_tb_execs := rec_tb_execs (snd (exec_insns tb md)) + 1\<rparr>
      else snd (exec_insns tb md)) = Some md'"
    using p e by (auto simp: tb_exec_def plain_def split_def Let_def)
  from fetches_maybe [OF this] have "fetches md' = fetches (snd (exec_insns tb md))" by (simp add: keep_if)
  then show ?thesis using fetched_cong [OF fetched_insns [OF p]] by simp
qed

lemma fetched_run:
  "plain md \<Longrightarrow> run (map Execute tbs) md = Some md' \<Longrightarrow> fetched md md' (concat (map (\<lambda>tb. map fst (block_insns tb)) tbs))"
proof (induction tbs arbitrary: md)
  case (Cons tb tbs)
  obtain md1 where s: "tb_exec tb md = Some md1" "run (map Execute tbs) md1 = Some md'"
    using Cons.prems(2) by (auto simp: step_def split: option.splits)
  note f = fetched_block [OF Cons.prems(1) s(1)]
  show ?case using fetched_trans [OF f Cons.IH [OF _ s(2)]] fetched_plain [OF f] Cons.prems(1) by simp
qed (simp add: fetched_refl)

text \<open>
  The instruction misses reported are those of a least-recently-used cache: from a fresh cache, whatever
  blocks are executed in the plain scope, the counter of misses has grown by the number of misses of the
  abstract cache on the sequence of program counters.
\<close>

theorem i_misses_are_lru_misses:
  assumes i: "qemu_plugin_install h argv = Installed md" and p: "plain md"
    and r: "run (map Execute tbs) md = Some md'"
    and n: "length (concat (map (\<lambda>tb. map fst (block_insns tb)) tbs)) < 2 ^ 32"
  shows "i_misses md' = of_nat (length (filter Not
    (lru_run (ways (icache md)) (\<lambda>_. [])
      (map (\<lambda>pc. (cache_set (icache md) (if i_vipt md then pc else mips_direct_phys pc),
                   cache_tag (icache md) (mips_direct_phys pc)))
        (concat (map (\<lambda>tb. map fst (block_insns tb)) tbs))))))"
proof -
  obtain al bytes line nways c where init: "cache_init al bytes line nways = Some (Some c)" "icache md = c" "i_misses md = 0"
    by (rule installed [OF i]) (auto simp: first_model_def)
  define pcs where "pcs = concat (map (\<lambda>tb. map fst (block_insns tb)) tbs)"
  have "fetched md md' pcs" unfolding pcs_def by (rule fetched_run [OF p r])
  then have "i_misses md' = i_misses md + of_nat (length (filter Not (fst (cache_run c (map (fetch_key (i_vipt md)) pcs)))))"
    using init(2) by (auto simp: fetched_def fetches_def split_def Let_def)
  moreover have "fst (cache_run c (map (fetch_key (i_vipt md)) pcs)) =
      lru_run (unat nways) (\<lambda>_. []) (map (\<lambda>(ta, ia). (cache_set c ia, cache_tag c ta)) (map (fetch_key (i_vipt md)) pcs))"
    using run_step [OF init_shows_lru [OF init(1)], of "map (fetch_key (i_vipt md)) pcs"] cache_init_geom(2,4) [OF init(1)] n
    by (simp add: pcs_def [symmetric])
  moreover have "map (\<lambda>(ta, ia). (cache_set c ia, cache_tag c ta)) (map (fetch_key (i_vipt md)) pcs) =
      map (\<lambda>pc. (cache_set c (if i_vipt md then pc else mips_direct_phys pc), cache_tag c (mips_direct_phys pc))) pcs"
    by (simp add: fetch_key_def)
  ultimately show ?thesis by (simp only: init(2,3) cache_init_geom(4) [OF init(1)] add_0 pcs_def [symmetric])
qed


theorem i_misses_are_lru_misses_witness:
  "\<exists>md md'. qemu_plugin_install example_host example_argv = Installed md \<and> run [Execute example_block] md = Some md' \<and> i_misses md' = 1"
proof -
  obtain md where md: "qemu_plugin_install example_host example_argv = Installed md"
      "\<exists>c. cache_init (\<lambda>n. True) 64 16 2 = Some (Some c) \<and> icache md = c" by (rule example_install)
  have pl: "plain md" and v: "i_vipt md" using example_sample [OF md(1)] by simp_all
  obtain md' where "tb_exec example_block md = Some md'"
    using tb_exec_returns [of md example_block] example_sample [OF md(1)] by (auto simp: example_block_def)
  then have r: "run (map Execute [example_block]) md = Some md'" by (simp add: step_def)
  have b: "map fst (block_insns example_block) = [0x83000004, 0x83000008]" by (simp add: block_insns_def example_block_def)
  have "case cache_init (\<lambda>n. True) 64 16 2 of Some (Some c) \<Rightarrow>
      length (filter Not (lru_run (ways c) (\<lambda>_. []) (map (\<lambda>pc. (cache_set c pc, cache_tag c (mips_direct_phys pc))) [0x83000004, 0x83000008]))) = 1
    | _ \<Rightarrow> False" by code_simp
  then have "i_misses md' = 1"
    using i_misses_are_lru_misses [OF md(1) pl r] md(2) v by (auto simp: b)
  then show ?thesis using md(1) r by auto
qed

end
