(* ===== verification/CacheHot.thy ===== *)
theory CacheHot
  imports CacheConfig "HOL-Library.Multiset"
begin

text \<open>
  The hotspot table, the reports and the memory of the measurement plugin: open addressing is a map whose
  entries stay where they are, the list of hotspots is a stable sort, the percentiles are nearest
  ranks, and everything allocated for translated blocks is released at the end.
\<close>

section \<open>The hotspot table as a map\<close>

text \<open>Open addressing: every program counter of the table is found by walking from the slot of its hash.\<close>

definition hot_slot :: "nat \<Rightarrow> u64 \<Rightarrow> nat \<Rightarrow> nat" where
  "hot_slot n pc d = (hot_hash n pc + d) mod n"

definition hot_ok :: "u64 list \<Rightarrow> bool" where
  "hot_ok pcs \<longleftrightarrow> (\<exists>k<64. length pcs = 2 ^ k) \<and>
     (\<forall>i<length pcs. pcs ! i \<noteq> 0 \<longrightarrow>
        (\<exists>d<length pcs. i = hot_slot (length pcs) (pcs ! i) d \<and>
           (\<forall>e<d. pcs ! hot_slot (length pcs) (pcs ! i) e \<notin> {0, pcs ! i})))"

lemma and_capacity:
  assumes "k < 64" "n < 2 ^ 64"
  shows "unat ((of_nat n :: u64) AND (of_nat (2 ^ k) - 1)) = n mod 2 ^ k"
proof -
  have "(of_nat (2 ^ k) - 1 :: u64) = mask k" by (simp add: mask_eq_exp_minus_1)
  then have "unat ((of_nat n :: u64) AND (of_nat (2 ^ k) - 1)) = take_bit k (unat (of_nat n :: u64))"
    by (simp only: take_bit_eq_mask [symmetric] unsigned_take_bit_eq)
  then show ?thesis using assms by (simp only: unat_of_nat_64 take_bit_eq_mod)
qed

lemma hash_less: "k < 64 \<Longrightarrow> n = 2 ^ k \<Longrightarrow> hot_hash n pc < n"
proof -
  assume "k < 64" "n = 2 ^ k"
  moreover define w where "w = pc XOR drop_bit 17 pc XOR drop_bit 31 pc"
  moreover have "unat w < 2 ^ 64" using unsigned_less [of w] by simp
  ultimately show ?thesis using and_capacity [of k "unat w"] by (simp add: hot_hash_def)
qed

lemma slot_bound: "k < 64 \<Longrightarrow> n = 2 ^ k \<Longrightarrow> hot_slot n pc d < n"
  by (simp add: hot_slot_def)

lemma hot_step:
  assumes "k < 64" "n = 2 ^ k"
  shows "unat ((of_nat (hot_slot n pc d + 1) :: u64) AND (of_nat n - 1)) = hot_slot n pc (Suc d)"
proof -
  have "hot_slot n pc d + 1 \<le> n" using slot_bound [OF assms, of pc d] by simp
  also have "n < 2 ^ 64" using assms power_strict_increasing [of k 64 "2::nat"] by simp
  finally show ?thesis 
    using and_capacity [OF assms(1), of "hot_slot n pc d + 1"] unfolding assms(2) by (simp only: hot_slot_def) (simp add: mod_Suc_eq)
qed

text \<open>The probing stops at the first slot that is empty or has the program counter.\<close>

lemma probe_finds:
  assumes "k < 64" "length tab = 2 ^ k" "d < m"
    and "\<And>e. e < d \<Longrightarrow> hs_pc (tab ! hot_slot (length tab) pc (s + e)) \<notin> {0, pc}"
    and "hs_pc (tab ! hot_slot (length tab) pc (s + d)) \<in> {0, pc}"
  shows "hot_probe pc m (hot_slot (length tab) pc s) tab =
    (let i = hot_slot (length tab) pc (s + d)
     in Some (i, if hs_pc (tab ! i) = pc then tab else tab[i := (tab ! i)\<lparr>hs_pc := pc\<rparr>]))"
  using assms(3-)
proof (induction d arbitrary: s m)
  case 0
  then obtain m' where "m = Suc m'" by (cases m) auto
  then show ?case using 0 by (auto simp: Let_def)
next
  case (Suc d)
  obtain m' where m: "m = Suc m'" "d < m'" using Suc.prems(1) by (cases m) auto
  have n: "hs_pc (tab ! hot_slot (length tab) pc s) \<notin> {0, pc}" using Suc.prems(2) [of 0] by simp
  have "hot_probe pc m' (hot_slot (length tab) pc (Suc s)) tab =
    (let i = hot_slot (length tab) pc (Suc s + d)
     in Some (i, if hs_pc (tab ! i) = pc then tab else tab[i := (tab ! i)\<lparr>hs_pc := pc\<rparr>]))"
    using Suc.IH [OF m(2), of "Suc s"] Suc.prems(2) [of "Suc e" for e] Suc.prems(3) by simp
  then show ?case using n hot_step [OF assms(1,2), of pc s] by (simp add: m(1))
qed

lemma probe_full:
  assumes "k < 64" "length tab = 2 ^ k"
    and "\<And>e. e < m \<Longrightarrow> hs_pc (tab ! hot_slot (length tab) pc (s + e)) \<notin> {0, pc}"
  shows "hot_probe pc m (hot_slot (length tab) pc s) tab = None"
  using assms(3)
proof (induction m arbitrary: s)
  case (Suc m)
  have n: "hs_pc (tab ! hot_slot (length tab) pc s) \<notin> {0, pc}" using Suc.prems [of 0] by simp
  have "hot_probe pc m (hot_slot (length tab) pc (Suc s)) tab = None"
    using Suc.IH [of "Suc s"] Suc.prems [of "Suc e" for e] by simp
  then show ?case using n hot_step [OF assms(1,2), of pc s] by simp
qed simp

text \<open>Walking from any hash visits every slot.\<close>

lemma slot_onto:
  assumes "k < 64" "n = 2 ^ k" "i < n"
  shows "\<exists>d<n. hot_slot n pc d = i"
proof -
  define h where "h = hot_hash n pc"
  have h: "h < n" using hash_less [OF assms(1,2)] by (simp add: h_def)
  have "(h + (i + n - h) mod n) mod n = (h + (i + n - h)) mod n" by (simp add: mod_add_right_eq)
  also have "\<dots> = i" using h assms(3) by simp
  finally have "hot_slot n pc ((i + n - h) mod n) = i" by (simp add: hot_slot_def h_def)
  moreover have "(i + n - h) mod n < n" using h by simp
  ultimately show ?thesis by blast
qed

lemma ok_distinct:
  assumes "hot_ok pcs" "i < length pcs" "j < length pcs" "pcs ! i = pcs ! j" "pcs ! i \<noteq> 0"
  shows "i = j"
proof -
  obtain d e where d: "i = hot_slot (length pcs) (pcs ! i) d" "\<forall>x<d. pcs ! hot_slot (length pcs) (pcs ! i) x \<notin> {0, pcs ! i}"
    and e: "j = hot_slot (length pcs) (pcs ! i) e" "\<forall>x<e. pcs ! hot_slot (length pcs) (pcs ! i) x \<notin> {0, pcs ! i}"
    using assms unfolding hot_ok_def by metis
  have "\<not> d < e" "\<not> e < d" using d e assms(4) by (metis insertI1 insertI2)+
  then show ?thesis using d(1) e(1) by (metis linorder_neqE_nat)
qed

lemma ok_insert:
  assumes "hot_ok pcs" "d < length pcs" "pc \<noteq> 0" "i = hot_slot (length pcs) pc d" "pcs ! i = 0"
    and "\<forall>e<d. pcs ! hot_slot (length pcs) pc e \<notin> {0, pc}"
  shows "hot_ok (pcs[i := pc])"
proof -
  obtain k where k: "k < 64" "length pcs = 2 ^ k" using assms(1) by (auto simp: hot_ok_def)
  have sl: "hot_slot (length pcs) q e < length pcs" for q e using slot_bound [OF k] .
  have "\<exists>d<length pcs. j = hot_slot (length pcs) (pcs[i := pc] ! j) d \<and>
      (\<forall>e<d. pcs[i := pc] ! hot_slot (length pcs) (pcs[i := pc] ! j) e \<notin> {0, pcs[i := pc] ! j})"
    if j: "j < length pcs" "pcs[i := pc] ! j \<noteq> 0" for j
  proof (cases "j = i")
    case True
    have "hot_slot (length pcs) pc e \<noteq> i" if "e < d" for e using assms(5,6) that by (metis insertI1)
    then have "pcs[i := pc] ! hot_slot (length pcs) pc e \<notin> {0, pc}" if "e < d" for e
      using assms(6) that by (metis nth_list_update_neq)
    then show ?thesis using assms(2,4) True j(1) by (intro exI [of _ d]) simp
  next
    case False
    then obtain d' where d': "d' < length pcs" "j = hot_slot (length pcs) (pcs ! j) d'"
        "\<forall>e<d'. pcs ! hot_slot (length pcs) (pcs ! j) e \<notin> {0, pcs ! j}"
      using assms(1) j by (auto simp: hot_ok_def)
    have "hot_slot (length pcs) (pcs ! j) e \<noteq> i" if "e < d'" for e using assms(5) d'(3) that by (metis insertI1)
    then have "pcs[i := pc] ! hot_slot (length pcs) (pcs ! j) e \<notin> {0, pcs ! j}" if "e < d'" for e
      using d'(3) that by (metis nth_list_update_neq)
    then show ?thesis using d'(1,2) False by (intro exI [of _ d']) simp
  qed
  then show ?thesis using k unfolding hot_ok_def by auto
qed

lemma ok_empty: "k < 64 \<Longrightarrow> hot_ok (replicate (2 ^ k) 0)"
  by (auto simp: hot_ok_def)

text \<open>The first slot on the way that is empty or has the program counter, if there is one.\<close>

lemma first_slot:
  fixes n :: nat
  shows "(\<forall>e<n. \<not> P e) \<or> (\<exists>d<n. P d \<and> (\<forall>e<d. \<not> P e))"
proof (rule disjCI)
  assume "\<not> (\<exists>d<n. P d \<and> (\<forall>e<d. \<not> P e))"
  then have "\<not> P e" if "e < n" for e using that by (induction e rule: less_induct) (metis less_trans)
  then show "\<forall>e<n. \<not> P e" by blast
qed

abbreviation hot_pcs :: "HotspotEntry list \<Rightarrow> u64 list" where "hot_pcs \<equiv> map hs_pc"

lemma probe_spec:
  assumes ok: "hot_ok (hot_pcs tab)" and pc: "pc \<noteq> 0"
  shows "case hot_probe pc (length tab) (hot_hash (length tab) pc) tab of
      None \<Rightarrow> \<forall>e\<in>set tab. hs_pc e \<notin> {0, pc}
    | Some (i, tab') \<Rightarrow> i < length tab \<and> hs_pc (tab' ! i) = pc \<and> hot_ok (hot_pcs tab') \<and>
        (tab' = tab \<or> hs_pc (tab ! i) = 0 \<and> (\<forall>e\<in>set tab. hs_pc e \<noteq> pc) \<and> tab' = tab[i := (tab ! i)\<lparr>hs_pc := pc\<rparr>])"
proof -
  define n where "n = length tab"
  obtain k where k: "k < 64" "length tab = 2 ^ k" using ok by (auto simp: hot_ok_def)
  have sl: "hot_slot n pc d < n" for d using slot_bound [OF k] by (simp add: n_def)
  have h: "hot_hash n pc = hot_slot n pc 0" using hash_less [OF k] by (simp add: hot_slot_def n_def)
  from first_slot [of n "\<lambda>d. hs_pc (tab ! hot_slot n pc d) \<in> {0, pc}"] show ?thesis
  proof
    assume none: "\<forall>e<n. hs_pc (tab ! hot_slot n pc e) \<notin> {0, pc}"
    then have "hot_probe pc n (hot_slot n pc 0) tab = None" using probe_full [OF k, of n pc 0] by (simp add: n_def)
    moreover have "hs_pc (tab ! i) \<notin> {0, pc}" if "i < n" for i
      using none slot_onto [OF k, of i pc] that n_def by metis
    then have "\<forall>e\<in>set tab. hs_pc e \<notin> {0, pc}" by (metis in_set_conv_nth n_def)
    ultimately show ?thesis unfolding n_def [symmetric] h by simp
  next
    assume "\<exists>d<n. hs_pc (tab ! hot_slot n pc d) \<in> {0, pc} \<and> (\<forall>e<d. hs_pc (tab ! hot_slot n pc e) \<notin> {0, pc})"
    then obtain d where d: "d < n" "hs_pc (tab ! hot_slot n pc d) \<in> {0, pc}" "\<forall>e<d. hs_pc (tab ! hot_slot n pc e) \<notin> {0, pc}" by blast
    define i where "i = hot_slot n pc d"
    have p: "hot_probe pc n (hot_slot n pc 0) tab = Some (i, if hs_pc (tab ! i) = pc then tab else tab[i := (tab ! i)\<lparr>hs_pc := pc\<rparr>])"
      using probe_finds [OF k d(1), of pc 0] d(2,3) by (simp add: n_def i_def Let_def)
    have i: "i < n" using sl by (simp add: i_def)
    show ?thesis
    proof (cases "hs_pc (tab ! i) = pc")
      case True
      then show ?thesis using p i ok unfolding n_def [symmetric] h by simp
    next
      case False
      then have z: "hs_pc (tab ! i) = 0" using d(2) by (simp add: i_def)
      have absent: "hs_pc e \<noteq> pc" if "e \<in> set tab" for e
      proof
        assume e: "hs_pc e = pc"
        obtain j where "j < length tab" "tab ! j = e" using \<open>e \<in> set tab\<close> by (auto simp: in_set_conv_nth)
        then have j: "j < n" "hs_pc (tab ! j) = pc" using e by (simp_all add: n_def)
        then obtain d' where d': "j = hot_slot n pc d'" "\<forall>e<d'. hs_pc (tab ! hot_slot n pc e) \<notin> {0, pc}"
          using ok pc sl unfolding hot_ok_def by (auto simp: n_def)
        have "d' \<noteq> d" using j d'(1) z pc by (auto simp: i_def)
        moreover have "\<not> d' < d" using j d'(1) d(3) by auto
        moreover have "\<not> d < d'" using d'(2) z by (auto simp: i_def)
        ultimately show False by simp
      qed
      have "hot_pcs (tab[i := (tab ! i)\<lparr>hs_pc := pc\<rparr>]) = (hot_pcs tab)[i := pc]" by (simp add: map_update)
      moreover have "hot_ok ((hot_pcs tab)[i := pc])"
        by (rule ok_insert [OF ok _ pc, of d]) (use d i z sl in \<open>auto simp: n_def i_def\<close>)
      ultimately show ?thesis using p i z absent False unfolding n_def [symmetric] h by (auto simp: n_def)
    qed
  qed
qed


text \<open>
  Looking a program counter up finds its entry, or makes one in an empty slot, or fails when every slot is
  taken by another one; no other entry changes.
\<close>

theorem hotspot_lookup_is_map:
  assumes "hot_table md = Some tab" "hot_ok (hot_pcs tab)" "pc \<noteq> 0"
  shows "case hotspot_lookup pc md of
      (None, md') \<Rightarrow> md' = md \<and> (\<forall>e\<in>set tab. hs_pc e \<notin> {0, pc})
    | (Some i, md') \<Rightarrow> \<exists>tab'. md' = md\<lparr>hot_table := Some tab'\<rparr> \<and> i < length tab \<and> hs_pc (tab' ! i) = pc \<and>
        hot_ok (hot_pcs tab') \<and>
        (tab' = tab \<or> hs_pc (tab ! i) = 0 \<and> (\<forall>e\<in>set tab. hs_pc e \<noteq> pc) \<and> tab' = tab[i := (tab ! i)\<lparr>hs_pc := pc\<rparr>])"
  using probe_spec [OF assms(2,3)] by (auto simp: hotspot_lookup_def assms(1) split: option.splits prod.splits)

lemma example_keys: "hot_ok (hot_pcs (replicate 65536 hot_zero))"
  using ok_empty [of 16] by (simp add: hot_zero_def)

theorem hotspot_lookup_is_map_witness:
  "\<exists>md. qemu_plugin_install example_host example_argv = Installed md \<and>
     (case hotspot_lookup 0x83000004 md of (None, md') \<Rightarrow> False
      | (Some i, md') \<Rightarrow> \<exists>tab'. hot_table md' = Some tab' \<and> hs_pc (tab' ! i) = 0x83000004)"
proof -
  obtain md where md: "qemu_plugin_install example_host example_argv = Installed md" "hot_table md = Some (replicate 65536 hot_zero)"
    by (rule example_install)
  show ?thesis
    using md(1) hotspot_lookup_is_map [OF md(2) example_keys, of "0x83000004"]
    by (intro exI [of _ md]) (auto simp: hot_zero_def split: prod.splits option.splits)
qed

text \<open>The program counters of the table; callbacks other than the translation keep them.\<close>

abbreviation keys :: "Model \<Rightarrow> u64 list option" where
  "keys md \<equiv> map_option hot_pcs (hot_table md)"

lemma keys_hot_update [simp]: "(\<And>e. hs_pc (f e) = hs_pc e) \<Longrightarrow> keys (hot_update h f md) = keys md"
proof -
  assume f: "\<And>e. hs_pc (f e) = hs_pc e"
  have "hot_pcs (tab[i := f (tab ! i)]) = hot_pcs tab" for i tab
  proof (cases "i < length tab")
    case True
    then show ?thesis by (metis f list_update_id map_update nth_map)
  qed (simp add: list_update_beyond)
  then show ?thesis by (simp add: hot_update_def option.map_comp comp_def split: option.split)
qed

lemma keys_clear [simp]: "keys (clear_hotspot_counts md) = keys md"
  by (simp add: clear_hotspot_counts_def option.map_comp comp_def clear_entry_def)

lemmas observe_defs = rec_base_observe_def check_base_def adopt_base_def note_evidence_def mark_mismatch_def

lemmas small_defs = observe_defs note_low_def note_high_def note_line_def count_insn_def count_gte_def count_size_def
  invalidate_line_def observe_candidate_def append_report_def sort_frames_def write_hotspots_def frame_record_def
  clear_hotspot_counts_def

lemma hot_table_keep [simp]:
  "hot_table (rec_base_observe pc md) = hot_table md"
  "hot_table (note_low pc md) = hot_table md"
  "hot_table (note_high pc md) = hot_table md"
  "hot_table (note_line pc md) = hot_table md"
  "hot_table (count_insn k md) = hot_table md"
  "hot_table (count_gte g md) = hot_table md"
  "hot_table (count_size r sh md) = hot_table md"
  "hot_table (invalidate_line a i v md) = hot_table md"
  "hot_table (observe_candidate insns md) = hot_table md"
  "hot_table (append_report kind rs md) = hot_table md"
  "hot_table (sort_frames md) = hot_table md"
  "hot_table (write_hotspots kind md) = hot_table md"
  "hot_table (frame_record c w md) = hot_table md"
  by (simp_all add: small_defs Let_def split: option.split)

lemma hot_table_report [simp]: "hot_table (write_report kind md) = hot_table md"
  by (simp add: write_report_def split: option.split)

lemma hot_table_count_rec [simp]: "hot_table (count_rec_insn pc k md) = hot_table md"
  by (simp add: count_rec_insn_def rec_code_observe_def)

lemma hot_table_maybe: "maybe_report md = Some md' \<Longrightarrow> hot_table md' = hot_table md"
  by (auto simp: maybe_report_def split: if_splits)

lemma keys_frame [simp]: "keys (frame_marker_exec md) = keys md"
  by (simp add: frame_marker_exec_def frame_report_def frame_end_def Let_def)

lemma keys_fetch [simp]: "keys (fetch_insn pc g h md) = keys md"
  by (simp add: fetch_insn_def count_miss_def split_def Let_def)

lemma keys_exec_insn [simp]: "keys (snd (exec_insn pc k g h st)) = keys (snd st)"
  by (simp add: exec_insn_def split_def Let_def)

lemma keys_exec_insns [simp]: "keys (snd (exec_insns tb md)) = keys md"
proof -
  have "keys (snd (fold (\<lambda>(pc, k, g, h). exec_insn pc k g h) xs st)) = keys (snd st)" for xs st
    by (induction xs arbitrary: st) (simp_all add: split_def)
  then show ?thesis by (simp add: exec_insns_def)
qed

lemma keys_start [simp]: "keys (start_phase md) = keys md"
  by (simp add: start_phase_def reset_measurement_def)

lemma keys_tb_exec: "tb_exec tb md = Some md' \<Longrightarrow> keys md' = keys md"
proof -
  assume e: "tb_exec tb md = Some md'"
  have "keys md' = keys (snd (exec_insns tb (start_phase md)))"
    if "maybe_report (if b then (snd (exec_insns tb (start_phase md)))\<lparr>rec_tb_execs := n\<rparr> else snd (exec_insns tb (start_phase md))) = Some md'" for b n
    using hot_table_maybe [OF that] by simp
  then show ?thesis using e by (auto simp: tb_exec_def split_def Let_def split: if_splits)
qed

lemma keys_line [simp]: "keys (data_line mem a i v md) = keys md"
  by (simp add: data_line_def miss_entry_def split_def Let_def)

lemma keys_access [simp]: "keys (mem_access u info vaddr md) = keys md"
  by (simp add: mem_access_def data_access_def count_access_def Let_def)

text \<open>Translation may add program counters; the table never loses one.\<close>

definition grows :: "u64 list option \<Rightarrow> u64 list option \<Rightarrow> bool" where
  "grows ks ks' \<longleftrightarrow>
     (case ks of None \<Rightarrow> ks' = None
      | Some pcs \<Rightarrow> \<exists>pcs'. ks' = Some pcs' \<and> length pcs' = length pcs \<and> (hot_ok pcs \<longrightarrow> hot_ok pcs') \<and>
          (hot_ok pcs \<longrightarrow> (\<forall>i<length pcs. pcs ! i \<noteq> 0 \<longrightarrow> pcs' ! i = pcs ! i)))"

lemma grows_refl [simp]: "grows ks ks"
  by (simp add: grows_def split: option.split)

lemma grows_trans: "grows a b \<Longrightarrow> grows b c \<Longrightarrow> grows a c"
  by (auto simp: grows_def split: option.splits)

lemma grows_lookup: "grows (keys md) (keys (snd (hotspot_lookup pc md)))"
proof (cases "hot_table md")
  case (Some tab)
  show ?thesis
  proof (cases "pc = 0")
    case True
    have same: "hot_probe 0 m i tab = Some (j, t) \<Longrightarrow> t = tab" for m i j t
      by (induction "0 :: u64" m i tab arbitrary: j t rule: hot_probe.induct) (auto split: if_splits)
    show ?thesis using Some True by (auto simp: hotspot_lookup_def dest: same split: option.split)
  next
    case False
    have len: "hot_probe pc m i tab = Some (j, t) \<Longrightarrow> length t = length tab" for m i j t
      by (induction pc m i tab arbitrary: j t rule: hot_probe.induct) (auto split: if_splits)
    have "grows (Some (hot_pcs tab)) (Some (hot_pcs t))"
      if "hot_probe pc (length tab) (hot_hash (length tab) pc) tab = Some (j, t)" for j t
      using probe_spec [OF _ False, of tab] that len [OF that] by (auto simp: grows_def) (metis nth_list_update_neq)
    then show ?thesis using Some by (auto simp: hotspot_lookup_def split: option.split)
  qed
qed (simp add: hotspot_lookup_def)

lemma grows_trans_insn: "grows (keys md) (keys (snd (trans_insn al ins md)))"
  using grows_lookup [of md "insn_vaddr ins"] by (simp add: trans_insn_def split_def Let_def)

lemma grows_trans_insns: "grows (keys md) (keys (snd (trans_insns al i insns md)))"
proof (induction insns arbitrary: i md)
  case (Cons ins insns)
  show ?case using grows_trans [OF grows_trans_insn Cons.IH] by (simp add: split_def Let_def)
qed simp

lemma grows_tb_trans: "grows (keys md) (keys (snd (tb_trans ab al insns md)))"
  using grows_trans_insns [of "observe_candidate insns md" al 0 insns] by (simp add: tb_trans_def split_def Let_def)

lemma grows_run: "run es md = Some md' \<Longrightarrow> grows (keys md) (keys md')"
proof (induction es arbitrary: md)
  case (Cons e es)
  obtain md1 where s: "step e md = Some md1" "run es md1 = Some md'" using Cons.prems by (auto split: option.splits)
  have "grows (keys md) (keys md1)"
    using s(1) keys_tb_exec [of _ md md1] by (cases e) (auto simp: step_def grows_tb_trans)
  then show ?case using grows_trans Cons.IH [OF s(2)] by blast
qed simp

text \<open>
  A pointer into the table that a callback keeps stays valid: whatever QEMU does later, the entry still
  belongs to the program counter it was made for, and no other entry does.
\<close>

theorem hotspot_entries_stable:
  assumes "run es md = Some md'" "hot_table md = Some tab" "hot_ok (hot_pcs tab)"
    and "i < length tab" "hs_pc (tab ! i) \<noteq> 0"
  shows "\<exists>tab'. hot_table md' = Some tab' \<and> hs_pc (tab' ! i) = hs_pc (tab ! i) \<and>
    (\<forall>j<length tab'. hs_pc (tab' ! j) = hs_pc (tab ! i) \<longrightarrow> j = i)"
proof -
  obtain tab' where t: "hot_table md' = Some tab'" "length tab' = length tab" "hot_ok (hot_pcs tab')"
      "hs_pc (tab' ! i) = hs_pc (tab ! i)"
    using grows_run [OF assms(1)] assms(2-) by (auto simp: grows_def split: option.splits)
  moreover have "j = i" if "j < length tab'" "hs_pc (tab' ! j) = hs_pc (tab ! i)" for j
    using ok_distinct [OF t(3), of j i] that t(2,4) assms(4,5) by simp
  ultimately show ?thesis by blast
qed

theorem hotspot_entries_stable_witness:
  "\<exists>md. qemu_plugin_install example_host example_argv = Installed md \<and>
     (\<exists>tab'. hot_table (frame_marker_exec (md\<lparr>hot_table := Some [hot_zero\<lparr>hs_pc := 8\<rparr>]\<rparr>)) = Some tab' \<and> hs_pc (tab' ! 0) = 8)"
proof -
  obtain md where md: "qemu_plugin_install example_host example_argv = Installed md" by (rule example_install)
  define md0 where "md0 = md\<lparr>hot_table := Some [hot_zero\<lparr>hs_pc := 8\<rparr>]\<rparr>"
  have "hot_ok (hot_pcs [hot_zero\<lparr>hs_pc := 8\<rparr>])" by (auto simp: hot_ok_def hot_slot_def intro: exI [of _ 0])
  from hotspot_entries_stable [of "[Frame]" md0, OF _ _ this, of "frame_marker_exec md0" 0] show ?thesis
    using md by (auto simp: step_def md0_def)
qed

section \<open>Release of the data of blocks\<close>

text \<open>What the plugin has allocated for blocks, and its counts; only the translation changes them.\<close>

definition counted :: "Model \<Rightarrow> bool" where
  "counted md \<longleftrightarrow> translation_block_count md = of_nat (length (translation_blocks md)) \<and>
     memdata_count md = of_nat (sum_list (map (\<lambda>tb. length (filter id (tb_mem tb))) (translation_blocks md)))"

abbreviation owned :: "Model \<Rightarrow> TranslationBlock list \<times> u64 \<times> u64" where
  "owned md \<equiv> (translation_blocks md, translation_block_count md, memdata_count md)"

lemma counted_owned: "owned md' = owned md \<Longrightarrow> counted md' = counted md"
  by (simp add: counted_def)

lemma owned_keep:
  "owned (hot_update h f md) = owned md"
  "owned (rec_base_observe pc md) = owned md"
  "owned (note_low pc md) = owned md"
  "owned (note_high pc md) = owned md"
  "owned (note_line pc md) = owned md"
  "owned (count_insn k md) = owned md"
  "owned (count_gte g md) = owned md"
  "owned (count_size r sh md) = owned md"
  "owned (invalidate_line a i v md) = owned md"
  "owned (observe_candidate insns md) = owned md"
  "owned (append_report kind rs md) = owned md"
  "owned (sort_frames md) = owned md"
  "owned (write_hotspots kind md) = owned md"
  "owned (frame_record c w md) = owned md"
  "owned (clear_hotspot_counts md) = owned md"
  by (simp_all add: small_defs hot_update_def Let_def split: option.split)

lemmas [simp] = owned_keep [unfolded prod.inject]

lemma owned_report [unfolded prod.inject, simp]: "owned (write_report kind md) = owned md"
  by (simp add: write_report_def split: option.split)

lemma owned_count_rec [unfolded prod.inject, simp]: "owned (count_rec_insn pc k md) = owned md"
  by (simp add: count_rec_insn_def rec_code_observe_def)

lemma owned_maybe: "maybe_report md = Some md' \<Longrightarrow> owned md' = owned md"
  by (auto simp: maybe_report_def split: if_splits)

lemma owned_frame: "owned (frame_marker_exec md) = owned md"
  by (simp add: frame_marker_exec_def frame_report_def frame_end_def Let_def)

lemma owned_exec_insn [unfolded prod.inject, simp]: "owned (snd (exec_insn pc k g h st)) = owned (snd st)"
  by (simp add: exec_insn_def fetch_insn_def count_miss_def split_def Let_def)

lemma owned_exec_insns [unfolded prod.inject, simp]: "owned (snd (exec_insns tb md)) = owned md"
proof -
  have "owned (snd (fold (\<lambda>(pc, k, g, h). exec_insn pc k g h) xs st)) = owned (snd st)" for xs st
    by (induction xs arbitrary: st) (simp_all add: split_def)
  then show ?thesis by (simp add: exec_insns_def)
qed

lemma owned_start [unfolded prod.inject, simp]: "owned (start_phase md) = owned md"
  by (simp add: start_phase_def reset_measurement_def)

lemma owned_tb_exec: "tb_exec tb md = Some md' \<Longrightarrow> owned md' = owned md"
proof -
  assume e: "tb_exec tb md = Some md'"
  have "owned md' = owned md"
    if "maybe_report (if b then (snd (exec_insns tb (start_phase md)))\<lparr>rec_tb_execs := n\<rparr> else snd (exec_insns tb (start_phase md))) = Some md'" for b n
    using owned_maybe [OF that] by (simp split: if_splits)
  then show ?thesis using e by (auto simp: tb_exec_def split_def Let_def split: if_splits)
qed

lemma owned_line [unfolded prod.inject, simp]: "owned (data_line mem a i v md) = owned md"
  by (simp add: data_line_def split_def Let_def)

lemma owned_access: "owned (mem_access u info vaddr md) = owned md"
  by (simp add: mem_access_def data_access_def count_access_def Let_def)

text \<open>The data allocated for the instructions of a block is what its slots have.\<close>

lemma trans_insn_owned:
  "translation_blocks (snd (trans_insn al ins md)) = translation_blocks md"
  "translation_block_count (snd (trans_insn al ins md)) = translation_block_count md"
  "memdata_count (snd (trans_insn al ins md)) = memdata_count md +
     (case sl_mem (fst (trans_insn al ins md)) of Some (Some _) \<Rightarrow> 1 | _ \<Rightarrow> 0)"
  by (simp_all add: trans_insn_def hotspot_lookup_def split_def Let_def split: option.split)

lemma trans_insns_owned:
  "translation_blocks (snd (trans_insns al i insns md)) = translation_blocks md \<and>
   translation_block_count (snd (trans_insns al i insns md)) = translation_block_count md \<and>
   memdata_count (snd (trans_insns al i insns md)) = memdata_count md +
     of_nat (length (filter id (map (\<lambda>sl. case sl_mem sl of Some (Some _) \<Rightarrow> True | _ \<Rightarrow> False) (fst (trans_insns al i insns md)))))"
proof (induction insns arbitrary: i md)
  case (Cons ins insns)
  show ?case using Cons.IH [of "i + 1" "snd (trans_insn (al i) ins md)"]
    by (simp add: split_def Let_def trans_insn_owned split: option.split)
qed simp

lemma counted_tb_trans: "counted md \<Longrightarrow> counted (snd (tb_trans ab al insns md))"
proof -
  assume c: "counted md"
  then have "counted (observe_candidate insns md)" by (simp add: counted_def)
  then show ?thesis using trans_insns_owned [of al 0 insns "observe_candidate insns md"]
    by (simp add: tb_trans_def split_def Let_def counted_def)
qed

lemma counted_run: "run es md = Some md' \<Longrightarrow> counted md \<Longrightarrow> counted md'"
proof (induction es arbitrary: md)
  case (Cons e es)
  obtain md1 where s: "step e md = Some md1" "run es md1 = Some md'" using Cons.prems by (auto split: option.splits)
  have "counted md1"
    using s(1) Cons.prems(2) counted_owned [OF owned_tb_exec, of _ md md1] counted_owned [OF owned_access] counted_owned [OF owned_frame]
    by (cases e) (auto simp: step_def counted_tb_trans)
  then show ?case using Cons.IH [OF s(2)] by blast
qed simp

text \<open>
  C19. Everything is released: at the end of any run the check of the exit handler finds that the blocks and the
  per-instruction data it releases are as many as were allocated, and no block is left.
\<close>

theorem exit_releases_all:
  assumes "qemu_plugin_install h argv = Installed md" "run es md = Some md'"
  shows "fst (plugin_exit md') \<and> owned (snd (plugin_exit md')) = ([], 0, 0)"
proof -
  have "counted md" by (rule installed [OF assms(1)]) (simp add: first_model_def counted_def)
  then have "counted md'" by (rule counted_run [OF assms(2)])
  then show ?thesis by (simp add: plugin_exit_def free_translation_blocks_def counted_def Let_def)
qed

theorem exit_releases_all_witness:
  "\<exists>md. qemu_plugin_install example_host example_argv = Installed md \<and> fst (plugin_exit (frame_marker_exec md))"
proof -
  obtain md where md: "qemu_plugin_install example_host example_argv = Installed md" by (rule example_install)
  have "run [Frame] md = Some (frame_marker_exec md)" by (simp add: step_def)
  from exit_releases_all [OF md this] show ?thesis using md by blast
qed

section \<open>The best hotspots\<close>

definition rank_insert :: "('a \<Rightarrow> u64) \<Rightarrow> 'a \<Rightarrow> 'a list \<Rightarrow> 'a list" where
  "rank_insert score e xs = takeWhile (\<lambda>t. score t \<ge> score e) xs @ e # dropWhile (\<lambda>t. score t \<ge> score e) xs"

lemma take_insert:
  "take n (takeWhile P (take n xs) @ e # dropWhile P (take n xs)) = take n (takeWhile P xs @ e # dropWhile P xs)"
proof (induction xs arbitrary: n)
  case (Cons x xs)
  have "take m (x # take m xs) = take m (x # xs)" for m by (cases m) (simp_all add: take_take min_def)
  then show ?case using Cons.IH by (cases n) auto
qed simp

lemma hot_top_ranked:
  "hot_top score tab = take 32 (fold (rank_insert score) (filter (\<lambda>e. hs_pc e \<noteq> 0 \<and> score e \<noteq> 0) tab) [])"
  unfolding hot_top_def
proof (induction tab rule: rev_induct)
  case (snoc e tab)
  then show ?case using take_insert [of 32 "\<lambda>t. score t \<ge> score e"] by (simp add: hot_insert_def rank_insert_def)
qed simp

definition down :: "('a \<Rightarrow> u64) \<Rightarrow> 'a \<Rightarrow> int" where
  "down score e = - uint (score e)"

lemma rank_sorted: "sorted (map (down score) xs) \<Longrightarrow> sorted (map (down score) (rank_insert score e xs))"
proof (induction xs)
  case (Cons x xs)
  have split: "y \<in> set xs" if "y \<in> set (takeWhile P xs) \<union> set (dropWhile P xs)" for y P
    using that by (auto dest: set_takeWhileD set_dropWhileD)
  show ?case
  proof (cases "score e \<le> score x")
    case True
    then have "down score x \<le> down score e" by (simp add: down_def word_le_def)
    then show ?thesis using Cons True split by (auto simp: rank_insert_def)
  next
    case False
    then have "down score e \<le> down score x" by (simp add: down_def word_le_def)
    then show ?thesis using Cons.prems False by (fastforce simp: rank_insert_def)
  qed
qed (simp add: rank_insert_def)

lemma rank_mset: "mset (rank_insert score e xs) = add_mset e (mset xs)"
  by (simp add: rank_insert_def) (metis mset_append takeWhile_dropWhile_id)

lemma rank_stable:
  assumes "sorted (map (down score) xs)"
  shows "filter (\<lambda>x. down score k = down score x) (rank_insert score e xs) =
    filter (\<lambda>x. down score k = down score x) (xs @ [e])"
proof (cases "down score k = down score e")
  case False
  have "filter Q (rank_insert score e xs) = filter Q xs" if "\<not> Q e" for Q
    using that by (simp add: rank_insert_def) (metis filter_append takeWhile_dropWhile_id)
  then show ?thesis using False by simp
next
  case True
  have none: "filter (\<lambda>x. down score e = down score x) (dropWhile (\<lambda>t. score t \<ge> score e) xs) = []"
    using assms
  proof (induction xs)
    case (Cons x xs)
    show ?case
    proof (cases "score e \<le> score x")
      case False
      then have "down score e < down score y" if "y \<in> set (x # xs)" for y
        using Cons.prems that by (auto simp: down_def word_le_def)
      then show ?thesis using False by (fastforce simp: filter_empty_conv)
    qed (use Cons in simp)
  qed simp
  have "filter (\<lambda>x. down score e = down score x) xs = filter (\<lambda>x. down score e = down score x) (takeWhile (\<lambda>t. score t \<ge> score e) xs)"
    using none by (metis append_Nil2 filter_append takeWhile_dropWhile_id)
  then show ?thesis using none True by (simp add: rank_insert_def)
qed

lemma rank_is_sort: "fold (rank_insert score) es [] = sort_key (down score) es"
proof -
  have "sorted (map (down score) (fold (rank_insert score) es [])) \<and> mset (fold (rank_insert score) es []) = mset es \<and>
      (\<forall>k. filter (\<lambda>x. down score k = down score x) (fold (rank_insert score) es []) = filter (\<lambda>x. down score k = down score x) es)"
  proof (induction es rule: rev_induct)
    case (snoc e es)
    then show ?case using rank_sorted [of score _ e] rank_stable [of score _ _ e] by (simp add: rank_mset)
  qed simp
  then show ?thesis by (intro properties_for_sort_key [symmetric]) auto
qed

text \<open>
  The hotspot report lists the 32 entries with the highest penalties, best first and in table order among
  equals: the incremental insertion is a stable sort.
\<close>

theorem hot_top_best:
  "hot_top score tab =
     take 32 (sort_key (\<lambda>e. - uint (score e)) (filter (\<lambda>e. hs_pc e \<noteq> 0 \<and> score e \<noteq> 0) tab))"
  unfolding hot_top_ranked rank_is_sort down_def ..

section \<open>Percentiles\<close>

lemma percentile_index:
  assumes "values \<noteq> []" "length values \<le> 4096" "p \<le> 1000"
  shows "array_percentile values (of_nat p) = values ! (max 1 ((length values * p + 999) div 1000) - 1)"
proof -
  define n where "n = length values"
  have n: "0 < n" "n \<le> 4096" using assms by (auto simp: n_def)
  have np: "n * p \<le> 4096 * 1000" using mult_le_mono [OF n(2) assms(3)] by simp
  have rk: "(n * p + 999) div 1000 \<le> n"
  proof -
    have "n * p \<le> n * 1000" using assms(3) by simp
    then have "(n * p + 999) div 1000 \<le> (n * 1000 + 999) div 1000" by (intro div_le_mono) simp
    then show ?thesis by simp
  qed
  have "unat ((of_nat n * of_nat p + 999) div 1000 :: u64) = (n * p + 999) div 1000"
  proof -
    have "unat (of_nat (n * p + 999) :: u64) = n * p + 999" by (rule unat_of_nat_64) (use np in simp)
    then show ?thesis by (simp add: unat_div)
  qed
  moreover have "unat (of_nat n :: u64) = n" by (rule unat_of_nat_64) (use n in simp)
  ultimately show ?thesis
    using n rk unfolding array_percentile_def Let_def n_def [symmetric]
    by (auto simp: word_less_nat_alt unat_eq_0 max_def)
qed

lemma below_index: "sorted xs \<Longrightarrow> i < length xs \<Longrightarrow> i < length (filter (\<lambda>x. x \<le> xs ! i) (xs :: 'a::linorder list))"
proof -
  assume s: "sorted xs" and i: "i < length xs"
  have "filter (\<lambda>x. x \<le> xs ! i) (take (Suc i) xs) = take (Suc i) xs"
    using s i by (intro filter_True) (auto simp: in_set_conv_nth sorted_iff_nth_mono)
  then have "Suc i = length (filter (\<lambda>x. x \<le> xs ! i) (take (Suc i) xs))" using i by (metis Suc_leI length_take min.absorb2)
  also have "\<dots> \<le> length (filter (\<lambda>x. x \<le> xs ! i) xs)"
    by (metis append_take_drop_id filter_append le_add1 length_append)
  finally show ?thesis by simp
qed

lemma less_index: "sorted xs \<Longrightarrow> i < length xs \<Longrightarrow> length (filter (\<lambda>x. x < xs ! i) (xs :: 'a::linorder list)) \<le> i"
proof -
  assume s: "sorted xs" and i: "i < length xs"
  have "filter (\<lambda>x. x < xs ! i) (drop i xs) = []"
    using s i by (auto simp: filter_empty_conv in_set_conv_nth sorted_iff_nth_mono not_less)
  then have "length (filter (\<lambda>x. x < xs ! i) xs) = length (filter (\<lambda>x. x < xs ! i) (take i xs))"
    by (metis append_Nil2 append_take_drop_id filter_append)
  also have "\<dots> \<le> i" by (metis length_filter_le length_take min.cobounded2 order_trans)
  finally show ?thesis .
qed

lemma length_filter_sort: "length (filter P (sort xs)) = length (filter P xs)"
  by (metis mset_filter mset_sort size_mset)

text \<open>
  The percentile of the report is the nearest rank: of the values recorded, at least \<open>p\<close> per mille are not
  above it, and fewer are below it.
\<close>

theorem percentile_nearest_rank:
  assumes "values \<noteq> []" "length values \<le> 4096" "0 < p" "p \<le> 1000"
  shows "let v = array_percentile (sort values) (of_nat p)
    in v \<in> set values \<and> length values * p \<le> 1000 * length (filter (\<lambda>x. x \<le> v) values) \<and>
       1000 * length (filter (\<lambda>x. x < v) values) < length values * p"
proof -
  define n r where "n = length values" and "r = (n * p + 999) div 1000"
  have n: "0 < n" using assms by (simp add: n_def)
  then have np: "0 < n * p" using assms(3) by simp
  have r: "0 < r" "r \<le> n" "n * p \<le> 1000 * r" "1000 * (r - 1) < n * p"
  proof -
    show "0 < r" "n * p \<le> 1000 * r" "1000 * (r - 1) < n * p" using np unfolding r_def by linarith+
    have "n * p \<le> n * 1000" using assms(4) by simp
    then show "r \<le> n" unfolding r_def by linarith
  qed
  define v where "v = sort values ! (r - 1)"
  have ne: "sort values \<noteq> []" using assms(1) by (metis length_0_conv length_sort)
  have v: "array_percentile (sort values) (of_nat p) = v"
    using percentile_index [of "sort values" p, OF ne] assms r(1) by (simp add: v_def r_def n_def max_def)
  have i: "r - 1 < length (sort values)" using r by (simp add: n_def)
  have "v \<in> set values" unfolding v_def using nth_mem [OF i] by simp
  moreover have "r \<le> length (filter (\<lambda>x. x \<le> v) values)"
    using below_index [OF sorted_sort i] unfolding v_def length_filter_sort by simp
  moreover have "length (filter (\<lambda>x. x < v) values) \<le> r - 1"
    using less_index [OF sorted_sort i] unfolding v_def length_filter_sort .
  ultimately show ?thesis using r(3,4) unfolding v Let_def n_def [symmetric] by linarith
qed

theorem percentile_nearest_rank_witness:
  "let v = array_percentile (sort [30, 10, 20]) (of_nat 950)
   in v \<in> set [30, 10, 20] \<and> length [30, 10, 20 :: u64] * 950 \<le> 1000 * length (filter (\<lambda>x. x \<le> v) [30, 10, 20]) \<and>
      1000 * length (filter (\<lambda>x. x < v) [30, 10, 20]) < length [30, 10, 20 :: u64] * 950"
  by (rule percentile_nearest_rank) simp_all

end
