(* ===== verification/Pad.thy ===== *)
theory Pad
  imports CText
begin

text \<open>
  The keypad bridge \<^verbatim>\<open>src/userspace/sf2000-pad.c\<close>: the serial key registers behind GPIO pins, the detection
  of the board, debouncing and the events handed to the input layer. Register accesses and the delays of the
  shift clock are callbacks over a machine state \<open>'m\<close>, files are functions of that state, and the events written to
  the input device are collected in the state of the main loop.
\<close>

section \<open>GPIO\<close>

record 'm pad_io =
  pad_read32 :: "'m \<Rightarrow> u32 \<Rightarrow> u32 \<times> 'm"
  pad_write32 :: "'m \<Rightarrow> u32 \<Rightarrow> u32 \<Rightarrow> 'm"
  pad_write8 :: "'m \<Rightarrow> u32 \<Rightarrow> u8 \<Rightarrow> 'm"
  pad_spins :: "'m \<Rightarrow> nat \<Rightarrow> 'm"

abbreviation (input) PINMUX_L_OFF where "PINMUX_L_OFF \<equiv> (0x4a0 :: u32)"
abbreviation (input) GPIO_L_IN_OFF where "GPIO_L_IN_OFF \<equiv> (0x50 :: u32)"
abbreviation (input) GPIO_L_OUT_OFF where "GPIO_L_OUT_OFF \<equiv> (0x54 :: u32)"
abbreviation (input) GPIO_L_DIR_OFF where "GPIO_L_DIR_OFF \<equiv> (0x58 :: u32)"
abbreviation (input) GPIO_R_IN_OFF where "GPIO_R_IN_OFF \<equiv> (0xb0 :: u32)"
abbreviation (input) PIN_L23 where "PIN_L23 \<equiv> (23 :: nat)"
abbreviation (input) PIN_L24 where "PIN_L24 \<equiv> (24 :: nat)"
abbreviation (input) PIN_L25 where "PIN_L25 \<equiv> (25 :: nat)"
abbreviation (input) PIN_L26 where "PIN_L26 \<equiv> (26 :: nat)"
abbreviation (input) PIN_L27 where "PIN_L27 \<equiv> (27 :: nat)"
abbreviation (input) PIN_R07 where "PIN_R07 \<equiv> (7 :: nat)"
abbreviation (input) BUTTON_COUNT where "BUTTON_COUNT \<equiv> (12 :: nat)"
abbreviation (input) KEY_SHIFTER_BITS where "KEY_SHIFTER_BITS \<equiv> (16 :: nat)"

definition pinmux_l_gpio :: "('m, 'z) pad_io_scheme \<Rightarrow> nat \<Rightarrow> 'm \<Rightarrow> 'm" where
  "pinmux_l_gpio io pin m = pad_write8 io m (PINMUX_L_OFF + of_nat pin) 0"

definition gpio_l_configure :: "('m, 'z) pad_io_scheme \<Rightarrow> nat \<Rightarrow> bool \<Rightarrow> 'm \<Rightarrow> 'm" where
  "gpio_l_configure io pin output m =
     (let m = pinmux_l_gpio io pin m; (dir, m) = pad_read32 io m GPIO_L_DIR_OFF
      in pad_write32 io m GPIO_L_DIR_OFF (if output then dir OR BIT pin else dir AND NOT (BIT pin)))"

definition gpio_l_set :: "('m, 'z) pad_io_scheme \<Rightarrow> nat \<Rightarrow> bool \<Rightarrow> 'm \<Rightarrow> 'm" where
  "gpio_l_set io pin high m =
     (let (out, m) = pad_read32 io m GPIO_L_OUT_OFF
      in pad_write32 io m GPIO_L_OUT_OFF (if high then out OR BIT pin else out AND NOT (BIT pin)))"

definition gpio_l_get :: "('m, 'z) pad_io_scheme \<Rightarrow> nat \<Rightarrow> 'm \<Rightarrow> bool \<times> 'm" where
  "gpio_l_get io pin m = (let (v, m) = pad_read32 io m GPIO_L_IN_OFF in (bit v pin, m))"

section \<open>Scanning\<close>

text \<open>One clock pulse: low, then high.\<close>

definition clock_pulse :: "('m, 'z) pad_io_scheme \<Rightarrow> nat \<Rightarrow> 'm \<Rightarrow> 'm" where
  "clock_pulse io pin m =
     pad_spins io (gpio_l_set io pin True (pad_spins io (gpio_l_set io pin False m) 180)) 180"

fun sf2000_bits :: "('m, 'z) pad_io_scheme \<Rightarrow> nat list \<Rightarrow> u32 \<Rightarrow> 'm \<Rightarrow> u32 \<times> 'm" where
  "sf2000_bits io [] raw_mask m = (raw_mask, m)"
| "sf2000_bits io (i # is) raw_mask m =
     (let (level, m) = gpio_l_get io PIN_L23 m
      in sf2000_bits io is (if \<not> level then raw_mask OR BIT i else raw_mask) (clock_pulse io PIN_L24 m))"

definition sf2000_load :: "('m, 'z) pad_io_scheme \<Rightarrow> 'm \<Rightarrow> 'm" where
  "sf2000_load io m =
     (let m = gpio_l_set io PIN_L24 True (gpio_l_configure io PIN_L24 True m);
          m = gpio_l_set io PIN_L23 False (gpio_l_configure io PIN_L23 True m)
      in pad_spins io (gpio_l_configure io PIN_L23 False (pad_spins io m 300)) 300)"

definition scan_sf2000 :: "('m, 'z) pad_io_scheme \<Rightarrow> 'm \<Rightarrow> u32 \<times> 'm" where
  "scan_sf2000 io m = sf2000_bits io [0..<BUTTON_COUNT] 0 (sf2000_load io m)"

definition stock_bit_for_button :: "nat list" where
  "stock_bit_for_button = [11, 10, 12, 13, 14, 0, 3, 4, 6, 7, 5, 1]"

definition gb300_stock_bit_for_shift :: "nat list" where
  "gb300_stock_bit_for_shift = [15, 11, 10, 12, 13, 14, 0, 3, 4, 6, 7, 5, 1, 2, 8, 9]"

fun stock_bits :: "('m, 'z) pad_io_scheme \<Rightarrow> nat list \<Rightarrow> u32 \<Rightarrow> 'm \<Rightarrow> u32 \<times> 'm" where
  "stock_bits io [] raw_mask m = (raw_mask, m)"
| "stock_bits io (b # bs) raw_mask m =
     (let (level0, m) = gpio_l_get io PIN_L27 m; (level1, m) = gpio_l_get io PIN_L25 m
      in stock_bits io bs (if \<not> level0 \<or> \<not> level1 then raw_mask OR BIT b else raw_mask) (clock_pulse io PIN_L26 m))"

definition stock_load :: "('m, 'z) pad_io_scheme \<Rightarrow> 'm \<Rightarrow> 'm" where
  "stock_load io m =
     (let m = gpio_l_configure io PIN_L26 True m;
          m = gpio_l_configure io PIN_L27 True m;
          m = gpio_l_configure io PIN_L25 True m;
          m = gpio_l_set io PIN_L27 False m;
          m = gpio_l_set io PIN_L25 False m;
          m = pad_spins io (gpio_l_set io PIN_L26 False m) 300;
          m = gpio_l_configure io PIN_L27 False m
      in pad_spins io (gpio_l_configure io PIN_L25 False m) 300)"

definition scan_stock_bits_raw :: "('m, 'z) pad_io_scheme \<Rightarrow> 'm \<Rightarrow> u32 \<times> 'm" where
  "scan_stock_bits_raw io m = stock_bits io gb300_stock_bit_for_shift 0 (stock_load io m)"

definition normalize_stock_bits :: "u32 \<Rightarrow> u32" where
  "normalize_stock_bits raw =
     fold (\<lambda>i normalized. if raw AND BIT (stock_bit_for_button ! i) \<noteq> 0 then normalized OR BIT i else normalized)
       [0..<BUTTON_COUNT] 0"

definition scan_stock_bits :: "('m, 'z) pad_io_scheme \<Rightarrow> 'm \<Rightarrow> u32 \<times> 'm" where
  "scan_stock_bits io m = (let (raw, m) = scan_stock_bits_raw io m in (normalize_stock_bits raw, m))"

datatype pad_profile = PAD_PROFILE_AUTO | PAD_PROFILE_SF2000 | PAD_PROFILE_STOCK_BITS

definition scan_buttons :: "('m, 'z) pad_io_scheme \<Rightarrow> pad_profile \<Rightarrow> 'm \<Rightarrow> u32 \<times> 'm" where
  "scan_buttons io profile m = (if profile = PAD_PROFILE_STOCK_BITS then scan_stock_bits io m else scan_sf2000 io m)"

definition parse_profile :: "string option \<Rightarrow> pad_profile" where
  "parse_profile name =
     (case name of None \<Rightarrow> PAD_PROFILE_AUTO
      | Some n \<Rightarrow>
          if n = ''auto'' then PAD_PROFILE_AUTO
          else if n \<in> {''stock-bits'', ''gb300'', ''dy12'', ''dy14''} then PAD_PROFILE_STOCK_BITS
          else PAD_PROFILE_SF2000)"

section \<open>Detection of the board\<close>

abbreviation (input) BOARD_GB300_KEY_MASK where "BOARD_GB300_KEY_MASK \<equiv> (0xffff :: u32)"

text \<open>Three scans: the conjunction and the disjunction of the masks.\<close>

fun scan_polls :: "('m \<Rightarrow> u32 \<times> 'm) \<Rightarrow> nat \<Rightarrow> u32 \<times> u32 \<Rightarrow> 'm \<Rightarrow> (u32 \<times> u32) \<times> 'm" where
  "scan_polls scan 0 acc m = (acc, m)"
| "scan_polls scan (Suc n) acc m =
     (let (raw, m) = scan m in scan_polls scan n (fst acc AND raw, snd acc OR raw) m)"

definition detect_scores :: "u32 \<Rightarrow> u32 \<Rightarrow> u32 \<Rightarrow> u32 \<Rightarrow> nat \<times> nat" where
  "detect_scores gb_and gb_or l_in r_in =
     (let (sf, gb) =
            (if gb_and = BOARD_GB300_KEY_MASK \<and> gb_or = BOARD_GB300_KEY_MASK then (2, 0)
             else if gb_and = 0 \<and> gb_or = 0 then (0, 2)
             else if gb_or \<noteq> BOARD_GB300_KEY_MASK then (0, 1) else (0, 0));
          (sf, gb) = (if bit l_in PIN_L27 then (sf, gb + 1) else (sf + 1, gb))
      in if bit r_in PIN_R07 then (sf + 1, gb) else (sf, gb + 1))"

definition detect_profile :: "nat \<Rightarrow> nat \<Rightarrow> pad_profile" where
  "detect_profile sf_score gb_score =
     (if sf_score \<ge> 2 \<and> sf_score \<ge> gb_score + 2 then PAD_PROFILE_SF2000
      else if gb_score \<ge> 2 \<and> gb_score \<ge> sf_score + 2 then PAD_PROFILE_STOCK_BITS
      else PAD_PROFILE_SF2000)"

text \<open>The masks of the first scan are only logged.\<close>

definition detect_board_profile :: "('m, 'z) pad_io_scheme \<Rightarrow> 'm \<Rightarrow> pad_profile \<times> 'm" where
  "detect_board_profile io m =
     (let (l_in, m) = pad_read32 io m GPIO_L_IN_OFF; (r_in, m) = pad_read32 io m GPIO_R_IN_OFF;
          (_, m) = scan_polls (scan_sf2000 io) 3 (0xfff, 0) m;
          ((gb_and, gb_or), m) = scan_polls (scan_stock_bits_raw io) 3 (BOARD_GB300_KEY_MASK, 0) m;
          (sf, gb) = detect_scores gb_and gb_or l_in r_in
      in (detect_profile sf gb, m))"

section \<open>Input events\<close>

record input_event =
  ev_type :: u16
  ev_code :: u16
  ev_value :: int

abbreviation (input) EV_SYN where "EV_SYN \<equiv> (0 :: u16)"
abbreviation (input) EV_KEY where "EV_KEY \<equiv> (1 :: u16)"

text \<open>The key codes, in the order R, Y, X, L, A, B, SELECT, START, UP, DOWN, LEFT, RIGHT.\<close>

definition buttons :: "u16 list" where
  "buttons = [0x137, 0x134, 0x133, 0x136, 0x131, 0x130, 0x13a, 0x13b, 0x220, 0x221, 0x222, 0x223]"

definition emit_changes :: "u32 \<Rightarrow> u32 \<Rightarrow> input_event list" where
  "emit_changes old_mask new_mask =
     map (\<lambda>i. \<lparr>ev_type = EV_KEY, ev_code = buttons ! i, ev_value = (if new_mask AND BIT i \<noteq> 0 then 1 else 0)\<rparr>)
       (filter (\<lambda>i. old_mask AND BIT i \<noteq> new_mask AND BIT i) [0..<BUTTON_COUNT]) @
     [\<lparr>ev_type = EV_SYN, ev_code = 0, ev_value = 0\<rparr>]"

section \<open>Configuration\<close>

abbreviation (input) POLL_INTERVAL_MS where "POLL_INTERVAL_MS \<equiv> (4 :: u32)"
abbreviation (input) DEFAULT_STANDBY_POLL_MS where "DEFAULT_STANDBY_POLL_MS \<equiv> (2000 :: u32)"

definition scan_config_line :: "string \<Rightarrow> u32 \<Rightarrow> u32" where
  "scan_config_line line normal =
     (let line = dropWhile is_blank line; key = takeWhile (\<lambda>c. c \<noteq> CHR ''='') line;
          rest = dropWhile (\<lambda>c. c \<noteq> CHR ''='') line
      in if rest = [] \<or> strip_end is_blank key \<noteq> ''input_scan_ms'' then normal
         else case strtoul10 (dropWhile is_blank (tl rest)) of
             Some parsed \<Rightarrow> if parsed \<ge> 2 \<and> parsed \<le> 20 then parsed else normal
           | None \<Rightarrow> normal)"

fun split_lines :: "string \<Rightarrow> string \<Rightarrow> string list" where
  "split_lines [] acc = (if acc = [] then [] else [rev acc])"
| "split_lines (c # cs) acc = (if c = CHR 0x0A then rev acc # split_lines cs [] else split_lines cs (c # acc))"

text \<open>The first 4095 bytes of the file, up to a zero byte, if the file can be read and is not empty.\<close>

definition load_scan_config_file :: "string option \<Rightarrow> u32 \<Rightarrow> u32" where
  "load_scan_config_file content normal =
     (case content of None \<Rightarrow> normal
      | Some data \<Rightarrow> fold scan_config_line (split_lines (c_string (take 4095 data)) []) normal)"

definition poll_interval_ms :: "string option \<Rightarrow> u32 \<Rightarrow> u32" where
  "poll_interval_ms marker normal =
     (case marker of None \<Rightarrow> normal
      | Some text \<Rightarrow>
          case strtoul10 (c_string (take 15 text)) of
            Some configured \<Rightarrow> if configured \<ge> 100 \<and> configured \<le> 10000 then configured else DEFAULT_STANDBY_POLL_MS
          | None \<Rightarrow> DEFAULT_STANDBY_POLL_MS)"

section \<open>The main loop\<close>

text \<open>The files the loop looks at: the standby marker, the storage marker, the user's configuration.\<close>

record pad_files =
  standby_marker :: "string option"
  storage_marker :: bool
  user_config :: "string option"

record pad =
  pd_state :: u32
  pd_raw_prev :: u32
  pd_raw_count :: nat
  pd_standby_check :: nat
  pd_poll_ms :: u32
  pd_normal_poll_ms :: u32
  pd_user_config_loaded :: bool
  pd_events :: "input_event list"

definition pad_start :: "u32 \<Rightarrow> pad" where
  "pad_start normal =
     \<lparr>pd_state = 0, pd_raw_prev = 0, pd_raw_count = 0, pd_standby_check = 0, pd_poll_ms = normal,
      pd_normal_poll_ms = normal, pd_user_config_loaded = False, pd_events = []\<rparr>"

text \<open>A reading that differs from the one before is confirmed by a second scan at once, except in standby.\<close>

definition pad_read :: "('m \<Rightarrow> u32 \<times> 'm) \<Rightarrow> pad \<Rightarrow> 'm \<Rightarrow> (u32 \<times> pad) \<times> 'm" where
  "pad_read scan p m =
     (let (raw, m) = scan m
      in if raw = pd_raw_prev p
         then ((raw, if pd_raw_count p < 3 then p\<lparr>pd_raw_count := pd_raw_count p + 1\<rparr> else p), m)
         else
           let p = p\<lparr>pd_raw_prev := raw, pd_raw_count := 0\<rparr>
           in if pd_poll_ms p \<noteq> pd_normal_poll_ms p then ((raw, p), m)
              else
                let (confirmed, m) = scan m
                in if confirmed = raw then ((raw, p\<lparr>pd_raw_count := 1\<rparr>), m)
                   else ((confirmed, p\<lparr>pd_raw_prev := confirmed\<rparr>), m))"

definition pad_report :: "u32 \<Rightarrow> pad \<Rightarrow> pad" where
  "pad_report raw p =
     (if pd_raw_count p \<ge> (if pd_poll_ms p = pd_normal_poll_ms p then 1 else 0) \<and> raw \<noteq> pd_state p
      then p\<lparr>pd_events := pd_events p @ emit_changes (pd_state p) raw, pd_state := raw\<rparr> else p)"

definition pad_user_config :: "pad_files \<Rightarrow> pad \<Rightarrow> pad" where
  "pad_user_config f p =
     (if \<not> pd_user_config_loaded p \<and> storage_marker f
      then let old = pd_normal_poll_ms p; new = load_scan_config_file (user_config f) old
           in p\<lparr>pd_normal_poll_ms := new, pd_user_config_loaded := True,
                pd_poll_ms := (if pd_poll_ms p = old then new else pd_poll_ms p)\<rparr>
      else p)"

definition pad_standby :: "pad_files \<Rightarrow> pad \<Rightarrow> pad" where
  "pad_standby f p =
     (if pd_poll_ms p \<noteq> pd_normal_poll_ms p \<or> pd_standby_check p + 1 \<ge> 64
      then pad_user_config f (p\<lparr>pd_poll_ms := poll_interval_ms (standby_marker f) (pd_normal_poll_ms p), pd_standby_check := 0\<rparr>)
      else p\<lparr>pd_standby_check := pd_standby_check p + 1\<rparr>)"

definition pad_iterate :: "('m \<Rightarrow> u32 \<times> 'm) \<Rightarrow> pad_files \<Rightarrow> pad \<Rightarrow> 'm \<Rightarrow> pad \<times> 'm" where
  "pad_iterate scan f p m =
     (let ((raw, p), m) = pad_read scan p m in (pad_standby f (pad_report raw p), m))"

text \<open>One iteration for each snapshot of the files, until the loop is stopped.\<close>

fun pad_run :: "('m \<Rightarrow> u32 \<times> 'm) \<Rightarrow> pad_files list \<Rightarrow> pad \<Rightarrow> 'm \<Rightarrow> pad \<times> 'm" where
  "pad_run scan [] p m = (p, m)"
| "pad_run scan (f # fs) p m = (let (p, m) = pad_iterate scan f p m in pad_run scan fs p m)"

definition pad_main :: "('m, 'z) pad_io_scheme \<Rightarrow> string option \<Rightarrow> string option \<Rightarrow> string option \<Rightarrow> pad_files list \<Rightarrow> 'm \<Rightarrow> pad \<times> 'm" where
  "pad_main io name system_config first_user_config fs m =
     (let (profile, m) = (if parse_profile name = PAD_PROFILE_AUTO then detect_board_profile io m else (parse_profile name, m));
          normal = load_scan_config_file first_user_config (load_scan_config_file system_config POLL_INTERVAL_MS)
      in pad_run (scan_buttons io profile) fs (pad_start normal) m)"

section \<open>The key registers\<close>

text \<open>
  What the scans rely on in the board: serial registers behind the data pins, loaded while their pin is driven
  low, shifted by a rising edge of the clock pin, and read with low for a pressed key while the pin is an
  input; behind the last key the line is high. \<open>serial\<close> is what a register still holds, \<open>keys\<close> what
  would be loaded.
\<close>

locale key_shifter =
  fixes io :: "('m, 'z) pad_io_scheme"
    and dir out :: "'m \<Rightarrow> u32"
    and serial keys :: "'m \<Rightarrow> nat \<Rightarrow> bool list"
    and clk :: nat and data :: "nat set"
  assumes read_dir: "fst (pad_read32 io m GPIO_L_DIR_OFF) = dir m"
    and read_out: "fst (pad_read32 io m GPIO_L_OUT_OFF) = out m"
    and read_in: "pin \<in> data \<Longrightarrow> \<not> bit (dir m) pin \<Longrightarrow>
      bit (fst (pad_read32 io m GPIO_L_IN_OFF)) pin = (case serial m pin of [] \<Rightarrow> True | pressed # _ \<Rightarrow> \<not> pressed)"
    and read_keeps: "dir (snd (pad_read32 io m a)) = dir m" "out (snd (pad_read32 io m a)) = out m"
      "serial (snd (pad_read32 io m a)) = serial m" "keys (snd (pad_read32 io m a)) = keys m"
    and write8_keeps: "dir (pad_write8 io m a b) = dir m" "out (pad_write8 io m a b) = out m"
      "serial (pad_write8 io m a b) = serial m" "keys (pad_write8 io m a b) = keys m"
    and spins_keep: "dir (pad_spins io m n) = dir m" "out (pad_spins io m n) = out m"
      "serial (pad_spins io m n) = serial m" "keys (pad_spins io m n) = keys m"
    and write_dir: "dir (pad_write32 io m GPIO_L_DIR_OFF v) = v" "out (pad_write32 io m GPIO_L_DIR_OFF v) = out m"
      "keys (pad_write32 io m GPIO_L_DIR_OFF v) = keys m"
    and write_out: "dir (pad_write32 io m GPIO_L_OUT_OFF v) = dir m" "out (pad_write32 io m GPIO_L_OUT_OFF v) = v"
      "keys (pad_write32 io m GPIO_L_OUT_OFF v) = keys m"
    and dir_loads: "pin \<in> data \<Longrightarrow> bit v pin \<Longrightarrow> \<not> bit (out m) pin \<Longrightarrow>
      serial (pad_write32 io m GPIO_L_DIR_OFF v) pin = keys m pin"
    and dir_holds: "pin \<in> data \<Longrightarrow> \<not> bit v pin \<Longrightarrow> bit v clk = bit (dir m) clk \<Longrightarrow>
      serial (pad_write32 io m GPIO_L_DIR_OFF v) pin = serial m pin"
    and out_loads: "pin \<in> data \<Longrightarrow> bit (dir m) pin \<Longrightarrow> \<not> bit v pin \<Longrightarrow>
      serial (pad_write32 io m GPIO_L_OUT_OFF v) pin = keys m pin"
    and out_shifts: "pin \<in> data \<Longrightarrow> \<not> bit (dir m) pin \<Longrightarrow> bit (dir m) clk \<Longrightarrow> bit v clk \<Longrightarrow> \<not> bit (out m) clk \<Longrightarrow>
      serial (pad_write32 io m GPIO_L_OUT_OFF v) pin = tl (serial m pin)"
    and out_holds: "pin \<in> data \<Longrightarrow> \<not> bit (dir m) pin \<Longrightarrow> bit (dir m) clk \<Longrightarrow> \<not> bit v clk \<Longrightarrow>
      serial (pad_write32 io m GPIO_L_OUT_OFF v) pin = serial m pin"
    and pins: "clk < 32" "clk \<notin> data" "data \<subseteq> {..<32}"
begin

lemmas quiet = read_dir read_out read_keeps write8_keeps spins_keep write_dir write_out

lemma configure [simp]:
  "dir (gpio_l_configure io pin o' m) = (if o' then dir m OR BIT pin else dir m AND NOT (BIT pin))"
  "out (gpio_l_configure io pin o' m) = out m"
  "keys (gpio_l_configure io pin o' m) = keys m"
  by (simp_all add: gpio_l_configure_def pinmux_l_gpio_def split_def Let_def quiet)

lemma set_pin [simp]:
  "dir (gpio_l_set io pin high m) = dir m"
  "out (gpio_l_set io pin high m) = (if high then out m OR BIT pin else out m AND NOT (BIT pin))"
  "keys (gpio_l_set io pin high m) = keys m"
  by (simp_all add: gpio_l_set_def split_def Let_def quiet)

lemma get_pin [simp]:
  "dir (snd (gpio_l_get io pin m)) = dir m" "out (snd (gpio_l_get io pin m)) = out m"
  "serial (snd (gpio_l_get io pin m)) = serial m" "keys (snd (gpio_l_get io pin m)) = keys m"
  by (simp_all add: gpio_l_get_def split_def Let_def quiet)

lemma get_level: "pin \<in> data \<Longrightarrow> \<not> bit (dir m) pin \<Longrightarrow>
    fst (gpio_l_get io pin m) = (case serial m pin of [] \<Rightarrow> True | pressed # _ \<Rightarrow> \<not> pressed)"
  by (simp add: gpio_l_get_def split_def Let_def read_in)

lemma bit_on: "n < 32 \<Longrightarrow> bit (w OR BIT n) k \<longleftrightarrow> bit w k \<or> k = n"
  by (auto simp: bit_or_iff bit_BIT)

lemma bit_off: "n < 32 \<Longrightarrow> bit (w AND NOT (BIT n)) k \<longleftrightarrow> bit w k \<and> k \<noteq> n"
  by (auto simp: bit_and_iff bit_not_iff bit_BIT dest: bit_imp_le_length)

lemmas bit_upd = bit_on bit_off

text \<open>Driving a pin low loads its register, releasing it keeps what was loaded.\<close>

lemma drive_loads: "pin \<in> data \<Longrightarrow> bit (dir m) pin \<Longrightarrow> serial (gpio_l_set io pin False m) pin = keys m pin"
  using pins(3) by (auto simp: gpio_l_set_def split_def Let_def quiet out_loads bit_upd)

lemma release_holds: "pin \<in> data \<Longrightarrow> serial (gpio_l_configure io pin False m) pin = serial m pin"
proof -
  assume p: "pin \<in> data"
  then have "pin < 32" "pin \<noteq> clk" using pins by auto
  then show ?thesis using p
    by (simp add: gpio_l_configure_def pinmux_l_gpio_def split_def Let_def quiet dir_holds bit_upd)
qed

text \<open>While a pin is driven low every access to another pin loads it again; releasing another pin holds it.\<close>

lemma driven_set:
  "pin \<in> data \<Longrightarrow> bit (dir m) pin \<Longrightarrow> \<not> bit (out m) pin \<Longrightarrow> p' < 32 \<Longrightarrow> p' \<noteq> pin \<Longrightarrow>
   serial (gpio_l_set io p' high m) pin = keys m pin"
  by (simp add: gpio_l_set_def split_def Let_def quiet out_loads bit_upd)

lemma driven_release:
  "pin \<in> data \<Longrightarrow> bit (dir m) pin \<Longrightarrow> \<not> bit (out m) pin \<Longrightarrow> p' < 32 \<Longrightarrow> p' \<noteq> pin \<Longrightarrow>
   serial (gpio_l_configure io p' False m) pin = keys m pin"
  by (simp add: gpio_l_configure_def pinmux_l_gpio_def split_def Let_def quiet dir_loads bit_upd)

lemma release_other: "pin \<in> data \<Longrightarrow> p' \<in> data \<Longrightarrow> \<not> bit (dir m) pin \<Longrightarrow> serial (gpio_l_configure io p' False m) pin = serial m pin"
proof -
  assume p: "pin \<in> data" "p' \<in> data" "\<not> bit (dir m) pin"
  then have "p' < 32" "p' \<noteq> clk" using pins by auto
  then show ?thesis using p
    by (simp add: gpio_l_configure_def pinmux_l_gpio_def split_def Let_def quiet dir_holds bit_upd)
qed

text \<open>A clock pulse shifts the register of an input pin by one.\<close>

lemma pulse:
  assumes "pin \<in> data" "\<not> bit (dir m) pin" "bit (dir m) clk"
  shows "serial (clock_pulse io clk m) pin = tl (serial m pin)"
    and "dir (clock_pulse io clk m) = dir m" and "keys (clock_pulse io clk m) = keys m"
proof -
  define m1 where "m1 = pad_spins io (gpio_l_set io clk False m) 180"
  have low: "serial m1 pin = serial m pin" "dir m1 = dir m" "\<not> bit (out m1) clk"
    using assms pins(1) by (simp_all add: m1_def gpio_l_set_def split_def Let_def quiet out_holds bit_upd)
  have "serial (gpio_l_set io clk True m1) pin = tl (serial m1 pin)"
    using assms low pins(1) by (simp add: gpio_l_set_def split_def Let_def quiet out_shifts bit_upd)
  then show "serial (clock_pulse io clk m) pin = tl (serial m pin)" using low(1) by (simp add: clock_pulse_def m1_def quiet)
qed (simp_all add: clock_pulse_def quiet)

end

definition pressed :: "bool list \<Rightarrow> nat \<Rightarrow> bool" where
  "pressed ks i \<longleftrightarrow> i < length ks \<and> ks ! i"

lemma level_pressed: "(case drop k ks of [] \<Rightarrow> True | p # _ \<Rightarrow> \<not> p) = (\<not> pressed ks k)"
  by (cases "k < length ks") (auto simp: pressed_def Cons_nth_drop_Suc [symmetric])

text \<open>The board of the SF2000: clock on L24, one register behind L23.\<close>

locale sf2000_keys = key_shifter io dir out serial keys 24 "{23}"
  for io :: "('m, 'z) pad_io_scheme" and dir out :: "'m \<Rightarrow> u32" and serial keys :: "'m \<Rightarrow> nat \<Rightarrow> bool list"
begin

lemma bits_read:
  "serial m 23 = drop k ks \<Longrightarrow> bit (dir m) 24 \<Longrightarrow> \<not> bit (dir m) 23 \<Longrightarrow> k + n \<le> 32 \<Longrightarrow>
   bit (fst (sf2000_bits io [k..<k + n] raw m)) i \<longleftrightarrow> bit raw i \<or> (k \<le> i \<and> i < k + n \<and> pressed ks i)"
proof (induction n arbitrary: k raw m)
  case (Suc n)
  define m1 where "m1 = snd (gpio_l_get io 23 m)"
  have l: "fst (gpio_l_get io 23 m) = (\<not> pressed ks k)" using Suc.prems by (simp add: get_level level_pressed)
  have s: "serial (clock_pulse io 24 m1) 23 = drop (Suc k) ks" "dir (clock_pulse io 24 m1) = dir m"
    using pulse [of 23 m1] Suc.prems by (simp_all add: m1_def drop_Suc tl_drop)
  have u: "[k..<k + Suc n] = k # [Suc k..<Suc k + n]" by (simp add: upt_conv_Cons del: upt_Suc)
  have "bit (fst (sf2000_bits io [k..<k + Suc n] raw m)) i \<longleftrightarrow>
      bit (if pressed ks k then raw OR BIT k else raw) i \<or> (Suc k \<le> i \<and> i < Suc k + n \<and> pressed ks i)"
    unfolding u using Suc.IH [OF s(1)] s(2) Suc.prems(2-) l by (simp add: split_def Let_def m1_def)
  then show ?case using Suc.prems(4) by (auto simp: bit_on not_less_eq_eq le_less_Suc_eq Suc_le_eq dest: le_neq_implies_less)
qed auto

lemma loaded:
  "serial (sf2000_load io m) 23 = keys m 23" "bit (dir (sf2000_load io m)) 24" "\<not> bit (dir (sf2000_load io m)) 23"
  by (simp_all add: sf2000_load_def Let_def quiet release_holds drive_loads bit_upd)

lemma scan: "bit (fst (scan_sf2000 io m)) i \<longleftrightarrow> i < 12 \<and> pressed (keys m 23) i"
  using bits_read [of "sf2000_load io m" 0 "keys m 23" 12 0 i] loaded [of m] by (simp add: scan_sf2000_def)

end

text \<open>The board with the stock layout: clock on L26, registers behind L27 and L25.\<close>

locale stock_keys = key_shifter io dir out serial keys 26 "{25, 27}"
  for io :: "('m, 'z) pad_io_scheme" and dir out :: "'m \<Rightarrow> u32" and serial keys :: "'m \<Rightarrow> nat \<Rightarrow> bool list"
begin

lemma bits_read:
  "serial m 27 = drop k ks \<Longrightarrow> serial m 25 = drop k ks' \<Longrightarrow> bit (dir m) 26 \<Longrightarrow> \<not> bit (dir m) 27 \<Longrightarrow> \<not> bit (dir m) 25 \<Longrightarrow>
   \<forall>b\<in>set bs. b < 32 \<Longrightarrow>
   bit (fst (stock_bits io bs raw m)) i \<longleftrightarrow> bit raw i \<or> (\<exists>j<length bs. bs ! j = i \<and> (pressed ks (k + j) \<or> pressed ks' (k + j)))"
proof (induction bs arbitrary: k raw m)
  case (Cons b bs)
  define m1 where "m1 = snd (gpio_l_get io 25 (snd (gpio_l_get io 27 m)))"
  have l: "fst (gpio_l_get io 27 m) = (\<not> pressed ks k)" "fst (gpio_l_get io 25 (snd (gpio_l_get io 27 m))) = (\<not> pressed ks' k)"
    using Cons.prems by (simp_all add: get_level level_pressed)
  have s: "serial (clock_pulse io 26 m1) 27 = drop (Suc k) ks" "serial (clock_pulse io 26 m1) 25 = drop (Suc k) ks'"
      "dir (clock_pulse io 26 m1) = dir m"
    using pulse [of 27 m1] pulse [of 25 m1] Cons.prems by (simp_all add: m1_def drop_Suc tl_drop)
  have "bit (fst (stock_bits io (b # bs) raw m)) i \<longleftrightarrow>
      bit (if pressed ks k \<or> pressed ks' k then raw OR BIT b else raw) i \<or>
      (\<exists>j<length bs. bs ! j = i \<and> (pressed ks (Suc k + j) \<or> pressed ks' (Suc k + j)))"
    using Cons.IH [OF s(1,2)] s(3) Cons.prems(3-) l by (simp add: split_def Let_def m1_def)
  moreover have "(\<exists>j<length (b # bs). (b # bs) ! j = i \<and> (pressed ks (k + j) \<or> pressed ks' (k + j))) \<longleftrightarrow>
      b = i \<and> (pressed ks k \<or> pressed ks' k) \<or> (\<exists>j<length bs. bs ! j = i \<and> (pressed ks (Suc k + j) \<or> pressed ks' (Suc k + j)))"
    by (simp add: Ex_less_Suc2)
  ultimately show ?case using Cons.prems(6) by (auto simp: bit_on)
qed simp

lemma loaded:
  "serial (stock_load io m) 27 = keys m 27" "serial (stock_load io m) 25 = keys m 25"
  "bit (dir (stock_load io m)) 26" "\<not> bit (dir (stock_load io m)) 27" "\<not> bit (dir (stock_load io m)) 25"
proof -
  define m1 where "m1 = pad_spins io (gpio_l_set io 26 False (gpio_l_set io 25 False (gpio_l_set io 27 False
    (gpio_l_configure io 25 True (gpio_l_configure io 27 True (gpio_l_configure io 26 True m)))))) 300"
  have m1: "bit (dir m1) 26" "bit (dir m1) 27" "bit (dir m1) 25" "\<not> bit (out m1) 27" "\<not> bit (out m1) 25"
      "serial m1 27 = keys m 27" "serial m1 25 = keys m 25" "keys m1 = keys m"
    by (simp_all add: m1_def quiet driven_set bit_upd)
  define m2 where "m2 = gpio_l_configure io 27 False m1"
  have m2: "serial m2 27 = keys m 27" "serial m2 25 = keys m 25" "bit (dir m2) 26" "\<not> bit (dir m2) 27" "keys m2 = keys m"
    using m1 by (simp_all add: m2_def release_holds driven_release bit_upd)
  have "stock_load io m = pad_spins io (gpio_l_configure io 25 False m2) 300"
    by (simp add: stock_load_def m1_def m2_def Let_def)
  then show "serial (stock_load io m) 27 = keys m 27" "serial (stock_load io m) 25 = keys m 25"
    "bit (dir (stock_load io m)) 26" "\<not> bit (dir (stock_load io m)) 27" "\<not> bit (dir (stock_load io m)) 25"
    using m2 by (simp_all add: quiet release_holds release_other bit_upd)
qed

lemma scan_raw: "bit (fst (scan_stock_bits_raw io m)) i \<longleftrightarrow>
    (\<exists>j<16. gb300_stock_bit_for_shift ! j = i \<and> (pressed (keys m 27) j \<or> pressed (keys m 25) j))"
proof -
  have "\<forall>b\<in>set gb300_stock_bit_for_shift. b < 32" "length gb300_stock_bit_for_shift = 16"
    by (simp_all add: gb300_stock_bit_for_shift_def)
  then show ?thesis using bits_read [of "stock_load io m" 0 "keys m 27" "keys m 25" gb300_stock_bit_for_shift 0 i] loaded [of m]
    by (simp add: scan_stock_bits_raw_def)
qed

end

section \<open>The boards as machines\<close>

record shift_hw =
  hw_dir :: u32
  hw_out :: u32
  hw_serial :: "nat \<Rightarrow> bool list"
  hw_keys :: "nat \<Rightarrow> bool list"

text \<open>What the registers hold after the direction or the output register has changed.\<close>

definition hw_settle :: "nat \<Rightarrow> shift_hw \<Rightarrow> u32 \<Rightarrow> u32 \<Rightarrow> shift_hw" where
  "hw_settle clk hw d v =
     (let rises = bit d clk \<and> bit v clk \<and> \<not> (bit (hw_dir hw) clk \<and> bit (hw_out hw) clk)
      in hw\<lparr>hw_dir := d, hw_out := v,
           hw_serial := (\<lambda>pin. if bit d pin \<and> \<not> bit v pin then hw_keys hw pin
             else if rises then tl (hw_serial hw pin) else hw_serial hw pin)\<rparr>)"

definition hw_read :: "shift_hw \<Rightarrow> u32 \<Rightarrow> u32 \<times> shift_hw" where
  "hw_read hw a =
     (if a = GPIO_L_DIR_OFF then hw_dir hw
      else if a = GPIO_L_OUT_OFF then hw_out hw
      else if a = GPIO_L_IN_OFF then
        fold (\<lambda>pin v. if bit (hw_dir hw) pin then (if bit (hw_out hw) pin then v OR BIT pin else v)
                else case hw_serial hw pin of p # _ \<Rightarrow> if p then v else v OR BIT pin | [] \<Rightarrow> v OR BIT pin) [0..<32] 0
      else 0, hw)"

definition hw_write :: "nat \<Rightarrow> shift_hw \<Rightarrow> u32 \<Rightarrow> u32 \<Rightarrow> shift_hw" where
  "hw_write clk hw a v =
     (if a = GPIO_L_DIR_OFF then hw_settle clk hw v (hw_out hw)
      else if a = GPIO_L_OUT_OFF then hw_settle clk hw (hw_dir hw) v else hw)"

definition shift_io :: "nat \<Rightarrow> shift_hw pad_io" where
  "shift_io clk = \<lparr>pad_read32 = hw_read, pad_write32 = hw_write clk, pad_write8 = (\<lambda>hw a b. hw), pad_spins = (\<lambda>hw n. hw)\<rparr>"

lemma bit_fold:
  assumes "distinct is" "\<forall>i\<in>set is. i < 32" "\<And>i v. i \<in> set is \<Longrightarrow> f i v = (if c i then v OR BIT i else v)"
  shows "bit (fold f is v) n \<longleftrightarrow> bit v n \<or> (n \<in> set is \<and> c n)"
  using assms
proof (induction "is" arbitrary: v)
  case (Cons i "is")
  have "bit (f i v) n \<longleftrightarrow> bit v n \<or> (n = i \<and> c n)"
    using Cons.prems(2) Cons.prems(3) [of i] by (auto simp: bit_or_iff bit_BIT)
  then show ?case using Cons by auto
qed simp

lemma hw_level:
  assumes "pin < 32" "\<not> bit (hw_dir hw) pin"
  shows "bit (fst (hw_read hw GPIO_L_IN_OFF)) pin = (case hw_serial hw pin of [] \<Rightarrow> True | p # _ \<Rightarrow> \<not> p)"
proof -
  define c where "c = (\<lambda>pin. if bit (hw_dir hw) pin then bit (hw_out hw) pin else case hw_serial hw pin of [] \<Rightarrow> True | p # _ \<Rightarrow> \<not> p)"
  have "fst (hw_read hw GPIO_L_IN_OFF) = fold (\<lambda>pin v. if c pin then v OR BIT pin else v) [0..<32] 0"
    unfolding hw_read_def by (auto simp: c_def split: list.split intro!: fold_cong)
  then have "bit (fst (hw_read hw GPIO_L_IN_OFF)) pin \<longleftrightarrow> c pin"
    using assms(1) bit_fold [of "[0..<32]" "\<lambda>pin v. if c pin then v OR BIT pin else v" c 0 pin] by (simp del: upt_Suc)
  then show ?thesis using assms(2) by (simp add: c_def)
qed

lemmas hw_simps = shift_io_def hw_write_def hw_settle_def Let_def

lemma hw_read_same [simp]: "snd (hw_read hw a) = hw" by (simp add: hw_read_def)

interpretation sf_board: sf2000_keys "shift_io 24" hw_dir hw_out hw_serial hw_keys
  by unfold_locales (auto simp: hw_simps hw_level, simp_all add: hw_read_def)

interpretation stock_board: stock_keys "shift_io 26" hw_dir hw_out hw_serial hw_keys
  by unfold_locales (auto simp: hw_simps hw_level, simp_all add: hw_read_def)

text \<open>
  C28. On a board that works as the code assumes, a scan of the SF2000 registers reads exactly the twelve keys that
  are pressed, whatever the registers held before.
\<close>

theorem scan_reads_keys:
  "bit (fst (scan_sf2000 (shift_io 24) hw)) i \<longleftrightarrow> i < 12 \<and> pressed (hw_keys hw 23) i"
  by (rule sf_board.scan)

section \<open>The stock layout\<close>

lemma all_less_12: "(\<forall>i<12. P i) \<longleftrightarrow> P 0 \<and> P 1 \<and> P 2 \<and> P 3 \<and> P 4 \<and> P 5 \<and> P 6 \<and> P 7 \<and> P 8 \<and> P 9 \<and> P 10 \<and> P (11 :: nat)"
  by (simp add: numeral_eq_Suc All_less_Suc2)

lemma bit_normalize: "bit (normalize_stock_bits raw) i \<longleftrightarrow> i < 12 \<and> bit raw (stock_bit_for_button ! i)"
proof -
  have s: "\<forall>i<12. stock_bit_for_button ! i < 32" by (simp add: stock_bit_for_button_def all_less_12)
  show ?thesis unfolding normalize_stock_bits_def
    by (subst bit_fold [where c = "\<lambda>i. bit raw (stock_bit_for_button ! i)"]) (use s in \<open>auto simp: and_BIT_eq_0\<close>)
qed

text \<open>
  A scan of the stock board reads button \<open>i\<close> exactly when the key in position \<open>i + 1\<close> of one of its two
  registers is pressed: the table of bit numbers and its inverse cancel.
\<close>

theorem scan_stock_reads_keys:
  "bit (fst (scan_stock_bits (shift_io 26) hw)) i \<longleftrightarrow>
     i < 12 \<and> (pressed (hw_keys hw 27) (i + 1) \<or> pressed (hw_keys hw 25) (i + 1))"
proof (cases "i < 12")
  case True
  define P where "P = (\<lambda>j. pressed (hw_keys hw 27) j \<or> pressed (hw_keys hw 25) j)"
  have "\<forall>i<12. gb300_stock_bit_for_shift ! (i + 1) = stock_bit_for_button ! i"
    by (simp add: all_less_12 gb300_stock_bit_for_shift_def stock_bit_for_button_def)
  then have at: "gb300_stock_bit_for_shift ! (i + 1) = stock_bit_for_button ! i" using True by blast
  have "distinct gb300_stock_bit_for_shift" "length gb300_stock_bit_for_shift = 16" by (simp_all add: gb300_stock_bit_for_shift_def)
  then have only: "j = i + 1" if "j < 16" "gb300_stock_bit_for_shift ! j = stock_bit_for_button ! i" for j
    using that at True nth_eq_iff_index_eq [of gb300_stock_bit_for_shift j "i + 1"] by simp
  have "(\<exists>j<16. gb300_stock_bit_for_shift ! j = stock_bit_for_button ! i \<and> P j) \<longleftrightarrow> P (i + 1)"
  proof
    assume "\<exists>j<16. gb300_stock_bit_for_shift ! j = stock_bit_for_button ! i \<and> P j"
    then obtain j where "j < 16" "gb300_stock_bit_for_shift ! j = stock_bit_for_button ! i" "P j" by blast
    then show "P (i + 1)" using only [of j] by simp
  next
    assume "P (i + 1)"
    moreover have "i + 1 < 16" using True by simp
    ultimately show "\<exists>j<16. gb300_stock_bit_for_shift ! j = stock_bit_for_button ! i \<and> P j" using at by blast
  qed
  then show ?thesis
    using True stock_board.scan_raw [of hw "stock_bit_for_button ! i"] by (simp add: scan_stock_bits_def split_def Let_def bit_normalize P_def)
qed (simp add: scan_stock_bits_def split_def Let_def bit_normalize)

section \<open>The decision about the board\<close>

lemma detect_table:
  "detect_profile (fst (detect_scores gb_and gb_or l_in r_in)) (snd (detect_scores gb_and gb_or l_in r_in)) = PAD_PROFILE_STOCK_BITS \<longleftrightarrow>
     (gb_and = 0 \<and> gb_or = 0 \<and> (bit l_in 27 \<or> \<not> bit r_in 7)) \<or>
     (\<not> (gb_and = 0xffff \<and> gb_or = 0xffff) \<and> bit l_in 27 \<and> \<not> bit r_in 7)"
  by (auto simp: detect_profile_def detect_scores_def split_def Let_def)

section \<open>Events and state\<close>

text \<open>What a reader of the input device knows: the key codes that are held down.\<close>

definition replay :: "input_event \<Rightarrow> (u16 \<Rightarrow> bool) \<Rightarrow> u16 \<Rightarrow> bool" where
  "replay e held = (if ev_type e = EV_KEY then held(ev_code e := ev_value e \<noteq> 0) else held)"

definition shows_mask :: "(u16 \<Rightarrow> bool) \<Rightarrow> u32 \<Rightarrow> bool" where
  "shows_mask held w \<longleftrightarrow> (\<forall>i<BUTTON_COUNT. held (buttons ! i) = bit w i) \<and> (\<forall>c. held c \<longrightarrow> c \<in> set buttons)"

lemma button_facts: "distinct buttons" "length buttons = 12"
  by (simp_all add: buttons_def)

lemma replay_keys:
  assumes "set is \<subseteq> {..<12}" "distinct is"
  shows "fold replay (map (\<lambda>i. \<lparr>ev_type = EV_KEY, ev_code = buttons ! i, ev_value = (if w AND BIT i \<noteq> 0 then 1 else 0)\<rparr>) is) held c =
    (if \<exists>i\<in>set is. buttons ! i = c then \<exists>i\<in>set is. buttons ! i = c \<and> bit w i else held c)"
  using assms
proof (induction "is" arbitrary: held)
  case (Cons i "is")
  have i: "i < 12" using Cons.prems by simp
  have other: "buttons ! j \<noteq> buttons ! i" if "j \<in> set is" for j
    using that Cons.prems button_facts nth_eq_iff_index_eq [of buttons j i] by auto
  show ?case using Cons i other by (auto simp: replay_def and_BIT_eq_0)
qed simp

lemma emit_shows: "shows_mask held old \<Longrightarrow> shows_mask (fold replay (emit_changes old new) held) new"
proof -
  assume h: "shows_mask held old"
  define is' where "is' = filter (\<lambda>i. old AND BIT i \<noteq> new AND BIT i) [0..<12]"
  have same: "bit old i = bit new i" if "i < 12" "i \<notin> set is'" for i
  proof -
    have "old AND BIT i = new AND BIT i" using that by (simp add: is'_def)
    then have "bit (old AND BIT i) i = bit (new AND BIT i) i" by simp
    then show ?thesis using that(1) by (simp add: bit_and_iff bit_BIT)
  qed
  have sub: "set is' \<subseteq> {..<12}" "distinct is'" by (auto simp: is'_def)
  have inj: "j = i" if "i < 12" "j \<in> set is'" "buttons ! j = buttons ! i" for i j
    using that sub(1) button_facts nth_eq_iff_index_eq [of buttons j i] by auto
  have r: "fold replay (emit_changes old new) held c =
      (if \<exists>i\<in>set is'. buttons ! i = c then \<exists>i\<in>set is'. buttons ! i = c \<and> bit new i else held c)" for c
    using replay_keys [OF sub, of new held c] by (simp add: emit_changes_def is'_def replay_def)
  have "fold replay (emit_changes old new) held (buttons ! i) = bit new i" if i: "i < 12" for i
  proof (cases "i \<in> set is'")
    case True
    then show ?thesis using inj [OF i] by (auto simp: r)
  next
    case False
    then have "\<not> (\<exists>j\<in>set is'. buttons ! j = buttons ! i)" using inj [OF i] by blast
    then show ?thesis using same [OF i False] h i by (simp add: r shows_mask_def)
  qed
  moreover have "c \<in> set buttons" if "fold replay (emit_changes old new) held c" for c
    using that h sub(1) button_facts(2) by (auto simp: r shows_mask_def split: if_splits)
  ultimately show ?thesis by (simp add: shows_mask_def)
qed

definition pad_shown :: "pad \<Rightarrow> bool" where
  "pad_shown p \<longleftrightarrow> shows_mask (fold replay (pd_events p) (\<lambda>_. False)) (pd_state p)"

lemma shown_start: "pad_shown (pad_start n)"
  by (simp add: pad_shown_def pad_start_def shows_mask_def)

lemma shown_cong: "pd_events p = pd_events q \<Longrightarrow> pd_state p = pd_state q \<Longrightarrow> pad_shown p = pad_shown q"
  by (simp add: pad_shown_def)

lemma shown_report: "pad_shown p \<Longrightarrow> pad_shown (pad_report raw p)"
  by (simp add: pad_report_def pad_shown_def emit_shows)

lemma read_keeps: "pd_events (snd (fst (pad_read scan p m))) = pd_events p" "pd_state (snd (fst (pad_read scan p m))) = pd_state p"
  "pd_poll_ms (snd (fst (pad_read scan p m))) = pd_poll_ms p" "pd_normal_poll_ms (snd (fst (pad_read scan p m))) = pd_normal_poll_ms p"
  by (simp_all add: pad_read_def split_def Let_def)

lemma standby_keeps: "pd_events (pad_standby f p) = pd_events p" "pd_state (pad_standby f p) = pd_state p"
  "pd_raw_prev (pad_standby f p) = pd_raw_prev p" "pd_raw_count (pad_standby f p) = pd_raw_count p"
  by (simp_all add: pad_standby_def pad_user_config_def Let_def)

lemma shown_iterate: "pad_shown p \<Longrightarrow> pad_shown (fst (pad_iterate scan f p m))"
  using shown_cong [OF read_keeps(1,2), of scan p m] shown_cong [OF standby_keeps(1,2)] shown_report
  by (simp add: pad_iterate_def split_def Let_def)

text \<open>
  C29. The events written always add up to the state: whoever replays them holds exactly the keys whose bits are set,
  after any number of rounds and whatever the board and the files do.
\<close>

theorem pad_events_show_state:
  "shows_mask (fold replay (pd_events (fst (pad_run scan fs (pad_start n) m))) (\<lambda>_. False)) (pd_state (fst (pad_run scan fs (pad_start n) m)))"
proof -
  have "pad_shown p \<Longrightarrow> pad_shown (fst (pad_run scan fs p m))" for p
    by (induction fs arbitrary: p m) (simp_all add: split_def Let_def shown_iterate)
  from this [OF shown_start] show ?thesis by (simp add: pad_shown_def)
qed

section \<open>Debouncing\<close>

text \<open>A scan that keeps what it read, the last reading first.\<close>

definition logged :: "('m \<Rightarrow> u32 \<times> 'm) \<Rightarrow> 'm \<times> u32 list \<Rightarrow> u32 \<times> 'm \<times> u32 list" where
  "logged scan s = (let (r, m) = scan (fst s) in (r, m, r # snd s))"

definition confirmed :: "pad \<Rightarrow> u32 list \<Rightarrow> bool" where
  "confirmed p seen \<longleftrightarrow> (\<exists>rest. seen = pd_raw_prev p # rest \<and> (1 \<le> pd_raw_count p \<longrightarrow> (\<exists>rest'. rest = pd_raw_prev p # rest')))"

lemma confirmed_read:
  assumes "confirmed p (snd s)"
  shows "case pad_read (logged scan) p s of ((raw, p'), s') \<Rightarrow> confirmed p' (snd s') \<and> raw = pd_raw_prev p'"
  using assms by (auto simp: pad_read_def logged_def split_def Let_def confirmed_def)

lemma confirmed_iterate:
  assumes "confirmed p (snd s)"
  shows "confirmed (fst (pad_iterate (logged scan) f p s)) (snd (snd (pad_iterate (logged scan) f p s)))"
    and "pd_poll_ms p = pd_normal_poll_ms p \<Longrightarrow> pd_state (fst (pad_iterate (logged scan) f p s)) \<noteq> pd_state p \<Longrightarrow>
      \<exists>rest. snd (snd (pad_iterate (logged scan) f p s)) =
        pd_state (fst (pad_iterate (logged scan) f p s)) # pd_state (fst (pad_iterate (logged scan) f p s)) # rest"
proof -
  obtain raw p' s' where r: "pad_read (logged scan) p s = ((raw, p'), s')" by (metis prod.exhaust)
  have c: "confirmed p' (snd s')" "raw = pd_raw_prev p'" using confirmed_read [OF assms, of scan] by (simp_all add: r)
  have e: "pad_iterate (logged scan) f p s = (pad_standby f (pad_report raw p'), s')" by (simp add: pad_iterate_def r)
  have q: "pd_poll_ms p' = pd_poll_ms p" "pd_normal_poll_ms p' = pd_normal_poll_ms p" "pd_state p' = pd_state p"
    using read_keeps [of "logged scan" p s] by (simp_all add: r)
  show "confirmed (fst (pad_iterate (logged scan) f p s)) (snd (snd (pad_iterate (logged scan) f p s)))"
    using c(1) by (simp add: e confirmed_def standby_keeps pad_report_def)
  show "\<exists>rest. snd (snd (pad_iterate (logged scan) f p s)) =
      pd_state (fst (pad_iterate (logged scan) f p s)) # pd_state (fst (pad_iterate (logged scan) f p s)) # rest"
    if "pd_poll_ms p = pd_normal_poll_ms p" "pd_state (fst (pad_iterate (logged scan) f p s)) \<noteq> pd_state p"
    using that c q by (auto simp: e standby_keeps pad_report_def confirmed_def split: if_splits)
qed

lemma confirmed_run: "confirmed p (snd s) \<Longrightarrow> confirmed (fst (pad_run (logged scan) fs p s)) (snd (snd (pad_run (logged scan) fs p s)))"
  by (induction fs arbitrary: p s) (simp_all add: split_def Let_def confirmed_iterate(1))

text \<open>
  C30. No glitch gets through: outside standby the state changes only to a mask that the last two scans have read
  (the released keypad counts as read before the first scan).
\<close>

theorem pad_debounced:
  assumes "pad_run (logged scan) fs (pad_start n) (m, [0]) = (p, s)"
    and "pad_iterate (logged scan) f p s = (p', s')"
    and "pd_poll_ms p = pd_normal_poll_ms p" "pd_state p' \<noteq> pd_state p"
  shows "\<exists>rest. snd s' = pd_state p' # pd_state p' # rest"
proof -
  have "confirmed (pad_start n) (snd (m, [0]))" by (simp add: confirmed_def pad_start_def)
  from confirmed_run [OF this, of scan fs] have "confirmed p (snd s)" by (simp add: assms(1))
  from confirmed_iterate(2) [OF this, of scan f] show ?thesis using assms(2-) by simp
qed

theorem pad_debounced_witness:
  "\<exists>p s. pad_run (logged (\<lambda>m :: unit. (4, m))) [] (pad_start 4) ((), [0]) = (p, s) \<and>
     (\<exists>rest. snd (snd (pad_iterate (logged (\<lambda>m :: unit. (4, m))) \<lparr>standby_marker = None, storage_marker = False, user_config = None\<rparr> p s)) = 4 # 4 # rest)"
proof -
  define f where "f = \<lparr>standby_marker = None, storage_marker = False, user_config = None\<rparr>"
  define r where "r = pad_iterate (logged (\<lambda>m :: unit. (4, m))) f (pad_start 4) ((), [0])"
  have st: "pd_state (fst r) = 4"
    by (simp add: r_def f_def pad_iterate_def pad_read_def logged_def pad_start_def pad_report_def pad_standby_def)
  have "\<exists>rest. snd (snd r) = pd_state (fst r) # pd_state (fst r) # rest"
    by (rule pad_debounced [of "\<lambda>m :: unit. (4, m)" "[]" 4 "()" "pad_start 4" "((), [0])" f]) (use st in \<open>simp_all add: r_def\<close>, simp_all add: pad_start_def)
  then have "\<exists>rest. snd (snd r) = 4 # 4 # rest" by (simp only: st)
  then show ?thesis by (simp add: r_def f_def)
qed

text \<open>
  C31. No change is lost or late: when the board reads the same mask throughout a round, the state is that mask at the
  end of the round, in standby too.
\<close>

theorem pad_follows:
  assumes "\<And>m. fst (scan m) = v"
  shows "pd_state (fst (pad_iterate scan f p m)) = v"
  using assms by (auto simp: pad_iterate_def pad_read_def pad_report_def standby_keeps split_def Let_def)

theorem pad_follows_witness:
  "pd_state (fst (pad_iterate (\<lambda>m :: unit. (5, m)) \<lparr>standby_marker = None, storage_marker = False, user_config = None\<rparr> (pad_start 4) ())) = 5"
  by (rule pad_follows) simp

section \<open>Periods\<close>

lemma config_line_range: "normal \<in> {2..20} \<Longrightarrow> scan_config_line l normal \<in> {2..20}"
  by (auto simp: scan_config_line_def Let_def split: option.splits)

lemma config_range: "normal \<in> {2..20} \<Longrightarrow> load_scan_config_file c normal \<in> {2..20}"
proof -
  assume n: "normal \<in> {2..20}"
  have "fold scan_config_line ls normal \<in> {2..20}" for ls
    by (rule fold_invariant [where P = "\<lambda>n. n \<in> {2..20}"]) (use n config_line_range in blast)+
  then show ?thesis using n by (auto simp: load_scan_config_file_def split: option.splits)
qed

definition pad_periods :: "pad \<Rightarrow> bool" where
  "pad_periods p \<longleftrightarrow> pd_normal_poll_ms p \<in> {2..20} \<and> (pd_poll_ms p = pd_normal_poll_ms p \<or> pd_poll_ms p \<in> {100..10000})"

lemma poll_interval: "poll_interval_ms mk normal = normal \<and> mk = None \<or> poll_interval_ms mk normal \<in> {100..10000}"
  by (auto simp: poll_interval_ms_def split: option.splits)

lemma periods_iterate: "pad_periods p \<Longrightarrow> pad_periods (fst (pad_iterate scan f p m))"
proof -
  assume p: "pad_periods p"
  define q where "q = pad_report (fst (fst (pad_read scan p m))) (snd (fst (pad_read scan p m)))"
  have q: "pad_periods q" using p read_keeps(3,4) [of scan p m] by (simp add: q_def pad_report_def pad_periods_def)
  have "pad_periods (pad_standby f q)"
    using q poll_interval [of "standby_marker f" "pd_normal_poll_ms q"] config_range [of "pd_normal_poll_ms q" "user_config f"]
    by (auto simp: pad_standby_def pad_user_config_def pad_periods_def Let_def)
  then show ?thesis by (simp add: pad_iterate_def split_def Let_def q_def)
qed

text \<open>
  Whatever the configuration files hold, the keypad is scanned every 2 to 20 milliseconds, or every 100 to 10000 in
  standby, so that the two can be told apart by the period.
\<close>

theorem pad_poll_bounds:
  "pad_periods (fst (pad_run scan fs (pad_start (load_scan_config_file user (load_scan_config_file system 4))) m))"
proof -
  have r: "pad_periods p \<Longrightarrow> pad_periods (fst (pad_run scan fs p m))" for p
    by (induction fs arbitrary: p m) (simp_all add: split_def Let_def periods_iterate)
  have "load_scan_config_file user (load_scan_config_file system 4) \<in> {2..20}"
    by (intro config_range) simp
  then show ?thesis by (intro r) (simp add: pad_periods_def pad_start_def)
qed

end
