(* ===== verification/Logd.thy ===== *)
theory Logd
  imports CText "HOL-Library.Monad_Syntax"
begin

text \<open>
  The log daemon \<^verbatim>\<open>src/userspace/sf2000-logd.c\<close>: the bounded journal in memory and its drains to the log file,
  records with their time stamps, the checkpoint keys, flush requests, the change of cards, and the main loop with
  the deferral of writes during a performance session. The log file and the clocks are callbacks over a machine
  state \<open>'m\<close>; what the other files and devices hold is given for every round of the loop. A retry of an interrupted
  write may never end, so results are options (\<open>None\<close>: does not return). The snapshot of the device
  topology is a string of the round, and messages to the kernel log are not modelled.
\<close>

section \<open>State\<close>

abbreviation (input) LOG_BUFFER_SIZE where "LOG_BUFFER_SIZE \<equiv> (524288 :: nat)"
abbreviation (input) LOG_FLUSH_BYTES where "LOG_FLUSH_BYTES \<equiv> (131072 :: nat)"
abbreviation (input) LOG_FLUSH_US where "LOG_FLUSH_US \<equiv> (2000000 :: u64)"
abbreviation (input) FRONTEND_PROBE_US where "FRONTEND_PROBE_US \<equiv> (60000000 :: u64)"

datatype write_result = Wrote nat | Interrupted | Failed

record 'm log_io =
  io_write :: "'m \<Rightarrow> string \<Rightarrow> write_result \<times> 'm"
  io_fsync :: "'m \<Rightarrow> bool \<times> 'm"
  io_open :: "'m \<Rightarrow> bool \<times> 'm"
  io_close :: "'m \<Rightarrow> 'm"
  io_now :: "'m \<Rightarrow> u64 \<times> 'm"
  io_times :: "'m \<Rightarrow> (int \<times> int \<times> int) \<times> 'm"

text \<open>
  \<open>log_buffer\<close> is the used part of the array; \<open>performance_ready\<close> and \<open>flush_done\<close> stand for the marker file of
  a running journal and for the file with the answer to the last flush request.\<close>

record logd =
  log_buffer :: string
  log_peak :: nat
  log_dropped :: u64
  log_open :: bool
  storage_deferred :: bool
  performance_metric_records :: u32
  performance_metric_bytes :: u32
  ticks_per_second :: u64
  mount_generation :: u32
  log_chord_keys :: u32
  log_chord_latched :: bool
  last_flush :: u64
  last_probe :: u64
  last_sync :: u64
  previous_topology :: string
  performance_ready :: bool
  flush_done :: "string option"

section \<open>Writing\<close>

partial_function (option) write_all :: "('m \<Rightarrow> string \<Rightarrow> write_result \<times> 'm) \<Rightarrow> string \<Rightarrow> 'm \<Rightarrow> (bool \<times> 'm) option" where
  "write_all wr bytes m =
     (if bytes = [] then Some (True, m)
      else case wr m bytes of
          (Wrote n, m) \<Rightarrow> if n = 0 then Some (False, m) else write_all wr (drop n bytes) m
        | (Interrupted, m) \<Rightarrow> write_all wr bytes m
        | (Failed, m) \<Rightarrow> Some (False, m))"

type_synonym 'm op = "logd \<Rightarrow> 'm \<Rightarrow> (logd \<times> 'm) option"
type_synonym 'm test = "logd \<Rightarrow> 'm \<Rightarrow> (bool \<times> logd \<times> 'm) option"

definition drain :: "('m, 'z) log_io_scheme \<Rightarrow> 'm test" where
  "drain io s m =
     do { (ok, m) \<leftarrow> write_all (io_write io) (log_buffer s) m;
          Some (ok, if ok then s\<lparr>log_buffer := []\<rparr> else s, m) }"

definition flush_log :: "('m, 'z) log_io_scheme \<Rightarrow> 'm test" where
  "flush_log io s m =
     (if storage_deferred s \<or> \<not> log_open s \<or> log_buffer s = [] then Some (True, s, m) else drain io s m)"

definition sync_log :: "('m, 'z) log_io_scheme \<Rightarrow> 'm test" where
  "sync_log io s m =
     (if storage_deferred s then Some (True, s, m)
      else do { (ok, s, m) \<leftarrow> flush_log io s m;
                Some (if \<not> ok then (False, s, m) else if \<not> log_open s then (True, s, m)
                      else let (ok, m) = io_fsync io m in (ok, s, m)) })"

definition force_flush_log :: "('m, 'z) log_io_scheme \<Rightarrow> 'm test" where
  "force_flush_log io s m =
     (if \<not> log_open s then Some (False, s, m)
      else do { (ok, s, m) \<leftarrow> (if log_buffer s = [] then Some (True, s, m) else drain io s m);
                Some (if \<not> ok then (False, s, m) else let (ok, m) = io_fsync io m in (ok, s, m)) })"

section \<open>The journal\<close>

text \<open>A text longer than the buffer.\<close>

definition append_long :: "('m, 'z) log_io_scheme \<Rightarrow> string \<Rightarrow> 'm op" where
  "append_long io bytes s m =
     (if \<not> storage_deferred s \<and> log_open s
      then do { (_, s, m) \<leftarrow> flush_log io s m; (_, m) \<leftarrow> write_all (io_write io) bytes m; Some (s, m) }
      else Some (s\<lparr>log_dropped := log_dropped s + of_nat (length bytes - LOG_BUFFER_SIZE),
                   log_buffer := drop (length bytes - LOG_BUFFER_SIZE) bytes, log_peak := LOG_BUFFER_SIZE\<rparr>, m))"

text \<open>The oldest bytes are discarded when the text does not fit.\<close>

definition make_room :: "nat \<Rightarrow> logd \<Rightarrow> logd" where
  "make_room n s =
     (if length (log_buffer s) + n > LOG_BUFFER_SIZE
      then let discard = length (log_buffer s) + n - LOG_BUFFER_SIZE
           in s\<lparr>log_buffer := drop discard (log_buffer s), log_dropped := log_dropped s + of_nat discard\<rparr>
      else s)"

definition add_bytes :: "string \<Rightarrow> logd \<Rightarrow> logd" where
  "add_bytes bytes s =
     (let b = log_buffer s @ bytes in s\<lparr>log_buffer := b, log_peak := max (log_peak s) (length b)\<rparr>)"

definition append_short :: "('m, 'z) log_io_scheme \<Rightarrow> string \<Rightarrow> 'm op" where
  "append_short io bytes s m =
     do { (_, s, m) \<leftarrow> (if length (log_buffer s) + length bytes > LOG_BUFFER_SIZE \<and> \<not> storage_deferred s \<and> log_open s
                        then flush_log io s m else Some (True, s, m));
          let s = add_bytes bytes (make_room (length bytes) s);
          (_, s, m) \<leftarrow> (if \<not> storage_deferred s \<and> length (log_buffer s) \<ge> LOG_FLUSH_BYTES
                        then flush_log io s m else Some (True, s, m));
          Some (s, m) }"

definition append_bytes :: "('m, 'z) log_io_scheme \<Rightarrow> string \<Rightarrow> 'm op" where
  "append_bytes io bytes s m =
     (if bytes = [] then Some (s, m)
      else if length bytes > LOG_BUFFER_SIZE then append_long io bytes s m else append_short io bytes s m)"

section \<open>Records\<close>

definition record_prefix :: "u64 \<Rightarrow> u64 \<Rightarrow> int \<times> int \<times> int \<Rightarrow> string \<Rightarrow> string" where
  "record_prefix ticks usec cpu source =
     (let tick = usec * ticks div 1000000; (process, user, system) = cpu
      in ''tick='' @ dec_digits (unat tick) @ '' mono_us='' @ dec_digits (unat usec) @ '' proc='' @ show_int process @
         '' user='' @ show_int user @ '' sys='' @ show_int system @ '' source='' @ source @ '' '')"

definition append_record :: "('m, 'z) log_io_scheme \<Rightarrow> string \<Rightarrow> string \<Rightarrow> 'm op" where
  "append_record io source payload s m =
     (let (cpu, m) = io_times io m; (usec, m) = io_now io m
      in do { (s, m) \<leftarrow> append_bytes io (record_prefix (ticks_per_second s) usec cpu source) s m;
              (s, m) \<leftarrow> append_bytes io payload s m;
              if payload = [] \<or> last payload \<noteq> CHR 0x0A then append_bytes io [CHR 0x0A] s m else Some (s, m) })"

definition checkpoint_log :: "('m, 'z) log_io_scheme \<Rightarrow> string \<Rightarrow> 'm test" where
  "checkpoint_log io reason s m =
     (let reason = (if reason = [] then ''unspecified'' else reason)
      in do { (s, m) \<leftarrow> append_record io ''logd'' (take 159 (''log flush checkpoint reason='' @ reason)) s m;
              force_flush_log io s m })"

text \<open>A list of records, one after the other.\<close>

fun append_records :: "('m, 'z) log_io_scheme \<Rightarrow> (string \<times> string) list \<Rightarrow> 'm op" where
  "append_records io [] s m = Some (s, m)"
| "append_records io ((source, payload) # rs) s m =
     do { (s, m) \<leftarrow> append_record io source payload s m; append_records io rs s m }"

text \<open>A file is read in pieces of 4096 bytes.\<close>

fun chunks :: "nat \<Rightarrow> string \<Rightarrow> string list" where
  "chunks n [] = []"
| "chunks n (c # cs) = take (Suc n) (c # cs) # chunks n (drop n cs)"

definition append_profile_file :: "('m, 'z) log_io_scheme \<Rightarrow> string \<Rightarrow> string \<Rightarrow> 'm op" where
  "append_profile_file io source content = append_records io (map (Pair source) (chunks 4095 content))"

fun append_system_profile :: "('m, 'z) log_io_scheme \<Rightarrow> (string \<times> string) list \<Rightarrow> 'm op" where
  "append_system_profile io [] s m = Some (s, m)"
| "append_system_profile io ((source, content) # fs) s m =
     do { (s, m) \<leftarrow> append_profile_file io source content s m; append_system_profile io fs s m }"

text \<open>The metrics of the frontend: lines of at most 767 characters, the rest of a longer line is cut.\<close>

fun metric_lines :: "string \<Rightarrow> string \<Rightarrow> string list" where
  "metric_lines [] line = (if line = [] then [] else [rev line])"
| "metric_lines (c # cs) line =
     (if c = CHR 0x0A then rev line # metric_lines cs []
      else metric_lines cs (if length line < 767 then c # line else line))"

definition import_performance_metrics :: "('m, 'z) log_io_scheme \<Rightarrow> string option \<Rightarrow> 'm op" where
  "import_performance_metrics io content s m =
     (case content of None \<Rightarrow> Some (s, m)
      | Some text \<Rightarrow>
          let ls = metric_lines text []
          in append_records io (map (Pair ''frontend-metric'') ls)
               (s\<lparr>performance_metric_bytes := performance_metric_bytes s + of_nat (length text),
                  performance_metric_records := performance_metric_records s + of_nat (length ls)\<rparr>) m)"

section \<open>The checkpoint keys\<close>

record key_event =
  ke_device :: nat
  ke_type :: u16
  ke_code :: u16
  ke_value :: int

abbreviation (input) BTN_START where "BTN_START \<equiv> (0x13b :: u16)"
abbreviation (input) BTN_DPAD_RIGHT where "BTN_DPAD_RIGHT \<equiv> (0x223 :: u16)"

text \<open>The new state of the chord, and whether it asks for a checkpoint.\<close>

definition chord_event :: "key_event \<Rightarrow> u32 \<times> bool \<Rightarrow> bool \<times> u32 \<times> bool" where
  "chord_event e st =
     (let (keys, latched) = st; b = (if ke_code e = BTN_START then 1 else 2)
      in if ke_type e \<noteq> 1 \<or> ke_code e \<notin> {BTN_START, BTN_DPAD_RIGHT} then (False, st)
         else if ke_value e \<noteq> 0
         then let keys = keys OR b
              in if keys = 3 \<and> \<not> latched then (True, keys, True) else (False, keys, latched)
         else (False, keys AND NOT b, False))"

definition event_line :: "key_event \<Rightarrow> string" where
  "event_line e = ''event='' @ dec_digits (ke_device e) @ '' type='' @ dec_digits (unat (ke_type e)) @
     '' code='' @ dec_digits (unat (ke_code e)) @ '' value='' @ show_int (ke_value e)"

definition input_event :: "('m, 'z) log_io_scheme \<Rightarrow> key_event \<Rightarrow> 'm op" where
  "input_event io e s m =
     do { (s, m) \<leftarrow> append_record io ''input'' (event_line e) s m;
          let (now, keys, latched) = chord_event e (log_chord_keys s, log_chord_latched s);
          let s = s\<lparr>log_chord_keys := keys, log_chord_latched := latched\<rparr>;
          if now then do { (_, s, m) \<leftarrow> checkpoint_log io ''START+RIGHT'' s m; Some (s, m) } else Some (s, m) }"

fun drain_input_fds :: "('m, 'z) log_io_scheme \<Rightarrow> key_event list \<Rightarrow> 'm op" where
  "drain_input_fds io [] s m = Some (s, m)"
| "drain_input_fds io (e # es) s m = do { (s, m) \<leftarrow> input_event io e s m; drain_input_fds io es s m }"

section \<open>Requests and cards\<close>

definition service_flush_request :: "('m, 'z) log_io_scheme \<Rightarrow> string option \<Rightarrow> 'm op" where
  "service_flush_request io request s m =
     (case request of None \<Rightarrow> Some (s, m)
      | Some text \<Rightarrow>
          let reason = (if text = [] then ''unspecified'' else c_string (take 95 text))
          in do { (ok, s, m) \<leftarrow> checkpoint_log io reason s m;
                  Some (s\<lparr>flush_done := Some (if ok then ''ok'' else ''error'')\<rparr>, m) })"

definition read_mount_generation :: "string option \<Rightarrow> u32" where
  "read_mount_generation content =
     (case content of None \<Rightarrow> 0
      | Some text \<Rightarrow> foldl (\<lambda>v c. v * 10 + of_int (digit_value c)) 0
          (takeWhile (\<lambda>c. 48 \<le> (of_char c :: int) \<and> (of_char c :: int) \<le> 57) (take 31 text)))"

definition open_log_file :: "('m, 'z) log_io_scheme \<Rightarrow> logd \<Rightarrow> 'm \<Rightarrow> bool \<times> logd \<times> 'm" where
  "open_log_file io s m =
     (let m = (if log_open s then io_close io m else m); (ok, m) = io_open io m
      in (ok, s\<lparr>log_open := ok\<rparr>, m))"

definition close_log :: "('m, 'z) log_io_scheme \<Rightarrow> 'm op" where
  "close_log io s m =
     (if log_open s then do { (_, s, m) \<leftarrow> flush_log io s m; Some (s\<lparr>log_open := False\<rparr>, io_close io m) }
      else Some (s, m))"

abbreviation (input) MOUNTED_TEXT where "MOUNTED_TEXT \<equiv> ''--- SF2000 Linux storage mounted ---''"

definition refresh_storage_binding :: "('m, 'z) log_io_scheme \<Rightarrow> bool \<Rightarrow> string option \<Rightarrow> 'm op" where
  "refresh_storage_binding io marker generation s m =
     (let gen = read_mount_generation generation
      in if \<not> marker then close_log io s m
         else if \<not> log_open s \<or> (gen \<noteq> 0 \<and> gen \<noteq> mount_generation s)
         then do { (s, m) \<leftarrow> close_log io s m;
                   let (ok, s, m) = open_log_file io s m;
                   if ok
                   then do { (s, m) \<leftarrow> append_record io ''logd'' MOUNTED_TEXT (s\<lparr>mount_generation := gen\<rparr>) m;
                             (_, s, m) \<leftarrow> sync_log io s m; Some (s, m) }
                   else Some (s, m) }
         else Some (s, m))"

section \<open>The main loop\<close>

text \<open>What a round of the loop finds: markers, files, kernel messages, key events.\<close>

record round =
  rd_marker :: bool
  rd_generation :: "string option"
  rd_standby :: bool
  rd_active :: bool
  rd_metrics :: "string option"
  rd_kmsg :: "string list"
  rd_events :: "key_event list"
  rd_request :: "string option"
  rd_profile :: "(string \<times> string) list"
  rd_topology :: string

definition journal_begin :: "('m, 'z) log_io_scheme \<Rightarrow> 'm op" where
  "journal_begin io s m =
     do { (_, s, m) \<leftarrow> sync_log io s m;
          (s, m) \<leftarrow> append_record io ''logd'' ''RAM journal begin: FAT writes deferred''
            (s\<lparr>storage_deferred := True, log_peak := length (log_buffer s), log_dropped := 0,
               performance_metric_records := 0, performance_metric_bytes := 0\<rparr>) m;
          Some (s\<lparr>performance_ready := True\<rparr>, m) }"

definition journal_summary :: "logd \<Rightarrow> string" where
  "journal_summary s =
     take 159 (''RAM journal end: bytes='' @ dec_digits (length (log_buffer s)) @ '' peak='' @ dec_digits (log_peak s) @
       '' dropped='' @ dec_digits (unat (log_dropped s)) @ '' metrics='' @ dec_digits (unat (performance_metric_records s)) @
       '' metric_bytes='' @ dec_digits (unat (performance_metric_bytes s)) @ [CHR 0x0A])"

definition journal_end :: "('m, 'z) log_io_scheme \<Rightarrow> string option \<Rightarrow> 'm op" where
  "journal_end io metrics s m =
     do { (s, m) \<leftarrow> import_performance_metrics io metrics s m;
          (s, m) \<leftarrow> append_record io ''logd'' (journal_summary s) s m;
          (_, s, m) \<leftarrow> flush_log io (s\<lparr>storage_deferred := False\<rparr>) m;
          let (now, m) = io_now io m;
          Some (s\<lparr>performance_ready := False, last_flush := now\<rparr>, m) }"

definition probe :: "('m, 'z) log_io_scheme \<Rightarrow> round \<Rightarrow> u64 \<Rightarrow> 'm op" where
  "probe io r now s m =
     (if rd_active r then
        (if now - last_probe s \<ge> FRONTEND_PROBE_US
         then do { (s, m) \<leftarrow> append_record io ''heartbeat'' ''frontend-active'' s m; Some (s\<lparr>last_probe := now\<rparr>, m) }
         else Some (s, m))
      else if now - last_probe s \<ge> LOG_FLUSH_US
      then do { (s, m) \<leftarrow> append_system_profile io (rd_profile r) s m;
                (s, m) \<leftarrow> (if rd_topology r \<noteq> previous_topology s
                  then do { (s, m) \<leftarrow> append_record io ''topology'' (rd_topology r) s m;
                            Some (s\<lparr>previous_topology := rd_topology r\<rparr>, m) }
                  else Some (s, m));
                (s, m) \<leftarrow> append_record io ''heartbeat'' ''alive'' s m;
                Some (s\<lparr>last_probe := now\<rparr>, m) }
      else Some (s, m))"

definition periodic :: "('m, 'z) log_io_scheme \<Rightarrow> bool \<Rightarrow> u64 \<Rightarrow> 'm op" where
  "periodic io active now s m =
     do { (s, m) \<leftarrow> (if \<not> active \<and> (length (log_buffer s) \<ge> LOG_FLUSH_BYTES \<or> now - last_flush s \<ge> LOG_FLUSH_US)
            then do { (_, s, m) \<leftarrow> flush_log io s m; Some (s\<lparr>last_flush := now\<rparr>, m) } else Some (s, m));
          (if \<not> active \<and> now - last_sync s \<ge> LOG_FLUSH_US
            then do { (_, s, m) \<leftarrow> sync_log io s m; Some (s\<lparr>last_sync := now\<rparr>, m) } else Some (s, m)) }"

definition journal_switch :: "('m, 'z) log_io_scheme \<Rightarrow> round \<Rightarrow> 'm op" where
  "journal_switch io r s m =
     (if rd_active r \<and> \<not> storage_deferred s then journal_begin io s m
      else if \<not> rd_active r \<and> storage_deferred s then journal_end io (rd_metrics r) s m
      else Some (s, m))"

definition standby_round :: "('m, 'z) log_io_scheme \<Rightarrow> 'm op" where
  "standby_round io s m =
     do { (_, s, m) \<leftarrow> sync_log io s m;
          let (now, m) = io_now io m;
          Some (s\<lparr>last_flush := now, last_probe := now, last_sync := now\<rparr>, m) }"

definition busy_round :: "('m, 'z) log_io_scheme \<Rightarrow> round \<Rightarrow> 'm op" where
  "busy_round io r s m =
     do { (s, m) \<leftarrow> journal_switch io r s m;
          (s, m) \<leftarrow> append_records io (map (Pair ''kmsg'') (rd_kmsg r)) s m;
          (s, m) \<leftarrow> drain_input_fds io (rd_events r) s m;
          (s, m) \<leftarrow> service_flush_request io (rd_request r) s m;
          let (now, m) = io_now io m;
          (s, m) \<leftarrow> probe io r now s m;
          periodic io (rd_active r) now s m }"

definition logd_round :: "('m, 'z) log_io_scheme \<Rightarrow> round \<Rightarrow> 'm op" where
  "logd_round io r s m =
     do { (s, m) \<leftarrow> refresh_storage_binding io (rd_marker r) (rd_generation r) s m;
          if rd_standby r then standby_round io s m else busy_round io r s m }"

fun logd_rounds :: "('m, 'z) log_io_scheme \<Rightarrow> round list \<Rightarrow> 'm op" where
  "logd_rounds io [] s m = Some (s, m)"
| "logd_rounds io (r # rs) s m = do { (s, m) \<leftarrow> logd_round io r s m; logd_rounds io rs s m }"

definition logd_stop :: "('m, 'z) log_io_scheme \<Rightarrow> 'm op" where
  "logd_stop io s m =
     do { (s, m) \<leftarrow> append_record io ''logd'' ''--- SF2000 Linux logger shutdown ---'' s m;
          (_, s, m) \<leftarrow> sync_log io (s\<lparr>storage_deferred := False, performance_ready := False\<rparr>) m;
          Some (s\<lparr>log_open := False\<rparr>, if log_open s then io_close io m else m) }"

definition logd_start :: "u64 \<Rightarrow> logd" where
  "logd_start ticks =
     \<lparr>log_buffer = [], log_peak = 0, log_dropped = 0, log_open = False, storage_deferred = False,
      performance_metric_records = 0, performance_metric_bytes = 0, ticks_per_second = ticks, mount_generation = 0,
      log_chord_keys = 0, log_chord_latched = False, last_flush = 0, last_probe = 0, last_sync = 0,
      previous_topology = [], performance_ready = False, flush_done = None\<rparr>"

text \<open>
  Before the card is mounted only kernel messages are collected. The result is \<open>None\<close> inside if the log file cannot
  be opened. The waits of the source, for the mount and then \<open>while (!stop_requested())\<close>, are driven by what the
  outside does: \<open>early\<close> holds the messages that arrive before the mount, \<open>rs\<close> one round for every turn of the loop
  until the stop request. Both are finite lists of any length, so what is said of \<open>logd_main\<close> is said of a run that is
  stopped at some time, and of every round of it.
\<close>

definition logd_main :: "('m, 'z) log_io_scheme \<Rightarrow> u64 \<Rightarrow> string list \<Rightarrow> string option \<Rightarrow> round list \<Rightarrow> 'm \<Rightarrow>
    ((logd \<times> 'm) option) option" where
  "logd_main io ticks early generation rs m =
     do { (s, m) \<leftarrow> append_record io ''logd'' ''--- SF2000 Linux pre-mount profile begin ---'' (logd_start ticks) m;
          (s, m) \<leftarrow> append_records io (map (Pair ''kmsg'') early) s m;
          let (ok, s, m) = open_log_file io s m;
          if \<not> ok then Some None
          else do { (s, m) \<leftarrow> append_record io ''logd'' MOUNTED_TEXT (s\<lparr>mount_generation := read_mount_generation generation\<rparr>) m;
                    (_, s, m) \<leftarrow> sync_log io s m;
                    let (now, m) = io_now io m;
                    (s, m) \<leftarrow> logd_rounds io rs (s\<lparr>last_flush := now, last_probe := now, last_sync := now\<rparr>) m;
                    (s, m) \<leftarrow> logd_stop io s m;
                    Some (Some (s, m)) } }"

end
