(* ===== verification/LogdJournal.thy ===== *)
theory LogdJournal
  imports Logd
begin

text \<open>
  Contracts of the devices the log daemon writes to, invariants of its journal proved once for every operation, and
  what the daemon promises: it returns, its buffer is bounded, it keeps the newest text while writes are deferred,
  loses nothing otherwise, and asks for a checkpoint once per press of the two keys.
\<close>

section \<open>Operations that return, and invariants of the journal\<close>

text \<open>An operation returns, with a result of which \<open>Q\<close> holds.\<close>

definition sure :: "('a \<Rightarrow> bool) \<Rightarrow> 'a option \<Rightarrow> bool" where
  "sure Q r = (case r of None \<Rightarrow> False | Some x \<Rightarrow> Q x)"

lemma sure_simps [simp]:
  "\<not> sure Q None" "sure Q (Some x) = Q x" "sure Q (r \<bind> f) = sure (\<lambda>x. sure Q (f x)) r"
  by (auto simp: sure_def split: option.split)

lemma sure_if [intro!]: "(b \<Longrightarrow> sure Q r) \<Longrightarrow> (\<not> b \<Longrightarrow> sure Q r') \<Longrightarrow> sure Q (if b then r else r')"
  by simp

lemma sure_mono: "sure Q r \<Longrightarrow> (\<And>x. Q x \<Longrightarrow> Q' x) \<Longrightarrow> sure Q' r"
  by (auto simp: sure_def split: option.splits)

lemma sure_returns: "sure Q r \<Longrightarrow> r \<noteq> None"
  by (cases r) simp_all

text \<open>
  What an invariant of the journal needs: every text appended, every allowed drain, every clock and sync call returns and
  keeps it, and it depends on the buffer, the file binding and the deferral only.
\<close>

abbreviation (input) ends2 where "ends2 P \<equiv> (\<lambda>x. P (fst x) (snd x))"
abbreviation (input) ends3 where "ends3 P \<equiv> (\<lambda>x. P (fst (snd x)) (snd (snd x)))"

locale journal_quiet =
  fixes io :: "('m, 'z) log_io_scheme" and P :: "logd \<Rightarrow> 'm \<Rightarrow> bool"
  assumes append: "P s m \<Longrightarrow> sure (ends2 P) (append_bytes io bs s m)"
    and drained: "P s m \<Longrightarrow> log_open s \<Longrightarrow> \<not> storage_deferred s \<Longrightarrow> sure (ends3 P) (drain io s m)"
    and calls: "P s m \<Longrightarrow> P s (snd (io_now io m))" "P s m \<Longrightarrow> P s (snd (io_times io m))" "P s m \<Longrightarrow> P s (snd (io_fsync io m))"
    and same: "P s m \<Longrightarrow> log_buffer s' = log_buffer s \<Longrightarrow> log_open s' = log_open s \<Longrightarrow> storage_deferred s' = storage_deferred s \<Longrightarrow> P s' m"
begin

lemma flush_keeps: "P s m \<Longrightarrow> sure (ends3 P) (flush_log io s m)"
  by (simp add: flush_log_def drained)

lemma sync_keeps: "P s m \<Longrightarrow> sure (ends3 P) (sync_log io s m)"
  using calls(3) by (auto simp: sync_log_def split_def Let_def intro!: sure_mono [OF flush_keeps])

lemma record_keeps: "P s m \<Longrightarrow> sure (ends2 P) (append_record io src pl s m)"
  using calls(1,2) by (auto simp: append_record_def split_def Let_def intro!: sure_mono [OF append] append)

lemma records_keep: "P s m \<Longrightarrow> sure (ends2 P) (append_records io rs s m)"
  by (induction rs arbitrary: s m) (auto simp: split_def intro!: sure_mono [OF record_keeps])

lemma profile_keeps: "P s m \<Longrightarrow> sure (ends2 P) (append_system_profile io fs s m)"
  by (induction fs arbitrary: s m) (auto simp: append_profile_file_def split_def intro!: sure_mono [OF records_keep])

lemma probe_keeps: "P s m \<Longrightarrow> sure (ends2 P) (probe io r now s m)"
  by (auto simp: probe_def split_def Let_def intro!: sure_mono [OF record_keeps] sure_mono [OF profile_keeps] elim!: same)

lemma periodic_keeps: "P s m \<Longrightarrow> sure (ends2 P) (periodic io active now s m)"
  by (auto simp: periodic_def split_def Let_def intro!: sure_mono [OF flush_keeps] sure_mono [OF sync_keeps] elim!: same)

end

text \<open>With checkpoints: a drain keeps the invariant even while writes are deferred.\<close>

locale journal_invariant = journal_quiet io P
  for io :: "('m, 'z) log_io_scheme" and P :: "logd \<Rightarrow> 'm \<Rightarrow> bool" +
  assumes forced: "P s m \<Longrightarrow> log_open s \<Longrightarrow> sure (ends3 P) (drain io s m)"
begin

lemma force_keeps: "P s m \<Longrightarrow> sure (ends3 P) (force_flush_log io s m)"
  using calls(3) by (auto simp: force_flush_log_def split_def Let_def intro!: sure_mono [OF forced])

lemma checkpoint_keeps: "P s m \<Longrightarrow> sure (ends3 P) (checkpoint_log io reason s m)"
  by (auto simp: checkpoint_log_def split_def Let_def intro!: sure_mono [OF record_keeps] force_keeps)

lemma event_keeps: "P s m \<Longrightarrow> sure (ends2 P) (input_event io e s m)"
  by (auto simp: input_event_def split_def Let_def intro!: sure_mono [OF record_keeps] sure_mono [OF checkpoint_keeps] elim!: same)

lemma input_keeps: "P s m \<Longrightarrow> sure (ends2 P) (drain_input_fds io es s m)"
  by (induction es arbitrary: s m) (auto simp: split_def intro!: sure_mono [OF event_keeps])

lemma request_keeps: "P s m \<Longrightarrow> sure (ends2 P) (service_flush_request io q s m)"
  by (auto simp: service_flush_request_def split_def Let_def intro!: sure_mono [OF checkpoint_keeps] elim!: same split: option.split)

end

text \<open>An invariant of the buffer alone, which the file binding and the deferral do not touch.\<close>

locale buffer_invariant = journal_invariant io P
  for io :: "('m, 'z) log_io_scheme" and P :: "logd \<Rightarrow> 'm \<Rightarrow> bool" +
  assumes modes: "P s m \<Longrightarrow> log_buffer s' = log_buffer s \<Longrightarrow> P s' m"
    and files: "P s m \<Longrightarrow> P s (snd (io_open io m))" "P s m \<Longrightarrow> P s (io_close io m)"
begin

lemma updates [simp]:
  "P (s\<lparr>log_peak := v0\<rparr>) m = P s m" "P (s\<lparr>log_dropped := v1\<rparr>) m = P s m" "P (s\<lparr>log_open := v2\<rparr>) m = P s m"
  "P (s\<lparr>storage_deferred := v3\<rparr>) m = P s m" "P (s\<lparr>performance_metric_records := v4\<rparr>) m = P s m" "P (s\<lparr>performance_metric_bytes := v5\<rparr>) m = P s m"
  "P (s\<lparr>mount_generation := v6\<rparr>) m = P s m" "P (s\<lparr>log_chord_keys := v7\<rparr>) m = P s m" "P (s\<lparr>log_chord_latched := v8\<rparr>) m = P s m"
  "P (s\<lparr>last_flush := v9\<rparr>) m = P s m" "P (s\<lparr>last_probe := v10\<rparr>) m = P s m" "P (s\<lparr>last_sync := v11\<rparr>) m = P s m"
  "P (s\<lparr>previous_topology := v12\<rparr>) m = P s m" "P (s\<lparr>performance_ready := v13\<rparr>) m = P s m" "P (s\<lparr>flush_done := v14\<rparr>) m = P s m"
  by (auto elim: modes)

lemma close_keeps: "P s m \<Longrightarrow> sure (ends2 P) (close_log io s m)"
  by (auto simp: close_log_def split_def Let_def intro!: sure_mono [OF flush_keeps] files)

lemma open_keeps: "P s m \<Longrightarrow> ends3 P (open_log_file io s m)"
  by (auto simp: open_log_file_def split_def Let_def intro!: files)

lemma binding_keeps: "P s m \<Longrightarrow> sure (ends2 P) (refresh_storage_binding io mk g s m)"
  using open_keeps by (auto simp: refresh_storage_binding_def split_def Let_def close_keeps
      intro!: sure_mono [OF close_keeps] sure_mono [OF record_keeps] sure_mono [OF sync_keeps])

lemma begin_keeps: "P s m \<Longrightarrow> sure (ends2 P) (journal_begin io s m)"
  by (auto simp: journal_begin_def split_def Let_def intro!: sure_mono [OF sync_keeps] sure_mono [OF record_keeps])

lemma import_keeps: "P s m \<Longrightarrow> sure (ends2 P) (import_performance_metrics io c s m)"
  by (auto simp: import_performance_metrics_def Let_def intro!: records_keep split: option.split)

lemma end_keeps: "P s m \<Longrightarrow> sure (ends2 P) (journal_end io c s m)"
  by (auto simp: journal_end_def split_def Let_def calls
      intro!: sure_mono [OF import_keeps] sure_mono [OF record_keeps] sure_mono [OF flush_keeps])

lemma busy_keeps: "P s m \<Longrightarrow> sure (ends2 P) (busy_round io r s m)"
  by (auto simp: busy_round_def journal_switch_def split_def Let_def calls intro!: sure_mono [OF begin_keeps] sure_mono [OF end_keeps]
      sure_mono [OF records_keep] sure_mono [OF input_keeps] sure_mono [OF request_keeps] sure_mono [OF probe_keeps] periodic_keeps)

lemma round_keeps: "P s m \<Longrightarrow> sure (ends2 P) (logd_round io r s m)"
  by (auto simp: logd_round_def standby_round_def split_def Let_def calls intro!: sure_mono [OF binding_keeps] sure_mono [OF sync_keeps]
      busy_keeps)

lemma rounds_keep: "P s m \<Longrightarrow> sure (ends2 P) (logd_rounds io rs s m)"
  by (induction rs arbitrary: s m) (auto simp: split_def intro!: sure_mono [OF round_keeps])

lemma main_keeps:
  assumes "\<And>t m. P (logd_start t) m"
  shows "sure (\<lambda>x. case x of None \<Rightarrow> True | Some (s, m) \<Rightarrow> P s m) (logd_main io ticks early g rs m)"
  using assms by (auto simp: logd_main_def logd_stop_def split_def Let_def calls files intro!: sure_mono [OF record_keeps] sure_mono [OF records_keep]
      sure_mono [OF sync_keeps] sure_mono [OF rounds_keep] dest: open_keeps)

end

text \<open>A write loop returns when the device interrupts it finitely often, and keeps what every write keeps.\<close>

lemma write_all_sure:
  assumes dec: "\<And>m bs r m'. wr m bs = (r, m') \<Longrightarrow> bs \<noteq> [] \<Longrightarrow>
      (case r of Wrote n \<Rightarrow> p m' \<le> p m | Interrupted \<Rightarrow> p m' < (p m :: nat) | Failed \<Rightarrow> True)"
    and inv: "\<And>m bs r m'. wr m bs = (r, m') \<Longrightarrow> bs \<noteq> [] \<Longrightarrow> I m bs \<Longrightarrow>
      (case r of Wrote n \<Rightarrow> if n = 0 then Q (False, m') else I m' (drop n bs) | Interrupted \<Rightarrow> I m' bs | Failed \<Rightarrow> Q (False, m'))"
    and finish: "\<And>m. I m [] \<Longrightarrow> Q (True, m)"
  shows "I m bs \<Longrightarrow> sure Q (write_all wr bs m)"
proof (induction "(p m, length bs)" arbitrary: bs m rule: wf_induct_rule [OF wf_lex_prod [OF wf_measure [of id] wf_measure [of id]]])
  case 1
  show ?case
  proof (cases "bs = []")
    case True
    then show ?thesis using finish 1(2) by (simp add: write_all.simps [of wr "[]" m])
  next
    case False
    obtain r m' where r: "wr m bs = (r, m')" by (cases "wr m bs")
    note call = dec [OF r False] inv [OF r False 1(2)]
    show ?thesis
    proof (cases r)
      case (Wrote n)
      then have "((p m', length (drop n bs)), p m, length bs) \<in> measure id <*lex*> measure id" if "n \<noteq> 0"
        using call(1) that False by auto
      from 1(1) [OF this] show ?thesis using call(2) Wrote r False by (auto simp: write_all.simps [of wr bs m] split: if_splits)
    next
      case Interrupted
      then have "((p m', length bs), p m, length bs) \<in> measure id <*lex*> measure id" using call(1) by auto
      from 1(1) [OF this] show ?thesis using call(2) Interrupted r False by (simp add: write_all.simps [of wr bs m])
    next
      case Failed
      then show ?thesis using call(2) r False by (simp add: write_all.simps [of wr bs m])
    qed
  qed
qed

section \<open>The bounded buffer\<close>

definition newest :: "string \<Rightarrow> string" where
  "newest bs = drop (length bs - LOG_BUFFER_SIZE) bs"

lemma newest_short [simp]: "length bs \<le> LOG_BUFFER_SIZE \<Longrightarrow> newest bs = bs"
  by (simp add: newest_def)

lemma newest_append [simp]: "newest (newest a @ b) = newest (a @ b)"
  by (cases "length a \<le> LOG_BUFFER_SIZE") (simp_all add: newest_def add.commute)

lemma length_newest [simp]: "length (newest bs) = min (length bs) LOG_BUFFER_SIZE"
  by (simp add: newest_def)

lemma add_bytes_newest:
  "length (log_buffer s) \<le> LOG_BUFFER_SIZE \<Longrightarrow> length bs \<le> LOG_BUFFER_SIZE \<Longrightarrow>
    log_buffer (add_bytes bs (make_room (length bs) s)) = newest (log_buffer s @ bs)"
  by (auto simp: add_bytes_def make_room_def newest_def Let_def)

lemma add_bytes_modes [simp]:
  "storage_deferred (add_bytes bs s) = storage_deferred s" "log_open (add_bytes bs s) = log_open s"
  "storage_deferred (make_room n s) = storage_deferred s" "log_open (make_room n s) = log_open s"
  by (simp_all add: add_bytes_def make_room_def Let_def)

text \<open>A device that interrupts a writer finitely often.\<close>

locale patient_device =
  fixes io :: "('m, 'z) log_io_scheme" and patience :: "'m \<Rightarrow> nat"
  assumes progress: "io_write io m bs = (r, m') \<Longrightarrow> bs \<noteq> [] \<Longrightarrow>
    (case r of Wrote n \<Rightarrow> patience m' \<le> patience m | Interrupted \<Rightarrow> patience m' < patience m | Failed \<Rightarrow> True)"
begin

lemma write_returns: "sure (\<lambda>_. True) (write_all (io_write io) bs m)"
  by (rule write_all_sure [where p = patience and I = "\<lambda>_ _. True"]) (auto dest: progress split: write_result.split)

abbreviation (input) bounded :: "logd \<Rightarrow> 'm \<Rightarrow> bool" where "bounded s m \<equiv> length (log_buffer s) \<le> LOG_BUFFER_SIZE"

lemma drain_bounded: "bounded s m \<Longrightarrow> sure (ends3 bounded) (drain io s m)"
  by (auto simp: drain_def split_def intro!: sure_mono [OF write_returns])

lemma flush_bounded: "bounded s m \<Longrightarrow> sure (ends3 bounded) (flush_log io s m)"
  by (auto simp: flush_log_def intro!: drain_bounded)

lemma append_bounded:
  assumes "bounded s m"
  shows "sure (ends2 bounded) (append_bytes io bs s m)"
proof -
  have "sure (ends2 bounded) (append_short io bs s m)" if "length bs \<le> LOG_BUFFER_SIZE"
    using assms that by (auto simp: append_short_def split_def Let_def add_bytes_newest
      intro!: sure_mono [OF flush_bounded])
  moreover have "sure (ends2 bounded) (append_long io bs s m)" if "\<not> length bs \<le> LOG_BUFFER_SIZE"
    using assms that by (auto simp: append_long_def split_def Let_def intro!: sure_mono [OF flush_bounded] sure_mono [OF write_returns])
  ultimately show ?thesis using assms by (simp add: append_bytes_def)
qed

end

sublocale patient_device \<subseteq> buffer: buffer_invariant io bounded
  by unfold_locales (simp_all add: append_bounded drain_bounded)

section \<open>Deferred writes\<close>

lemma append_deferred:
  assumes "storage_deferred s" "length (log_buffer s) \<le> LOG_BUFFER_SIZE"
  shows "\<exists>s'. append_bytes io bs s m = Some (s', m) \<and> log_buffer s' = newest (log_buffer s @ bs) \<and> storage_deferred s'"
proof -
  consider "bs = []" | "bs \<noteq> []" "length bs \<le> LOG_BUFFER_SIZE" | "length bs > LOG_BUFFER_SIZE" by linarith
  then show ?thesis
    using assms by cases
      (auto simp: append_bytes_def append_short_def append_long_def split_def Let_def add_bytes_newest newest_def)
qed

fun append_texts :: "('m, 'z) log_io_scheme \<Rightarrow> string list \<Rightarrow> 'm op" where
  "append_texts io [] s m = Some (s, m)"
| "append_texts io (t # ts) s m = do { (s, m) \<leftarrow> append_bytes io t s m; append_texts io ts s m }"

text \<open>What a device that keeps its file over clock and file calls has in it.\<close>

locale file_device =
  fixes io :: "('m, 'z) log_io_scheme" and written :: "'m \<Rightarrow> string"
  assumes keeps [simp]: "written (snd (io_now io m)) = written m" "written (snd (io_times io m)) = written m"
    "written (snd (io_fsync io m)) = written m" "written (snd (io_open io m)) = written m" "written (io_close io m) = written m"
begin

abbreviation (input) quiet :: "string \<Rightarrow> logd \<Rightarrow> 'm \<Rightarrow> bool" where
  "quiet f s m \<equiv> storage_deferred s \<and> length (log_buffer s) \<le> LOG_BUFFER_SIZE \<and> written m = f"

end

sublocale file_device \<subseteq> quiet: journal_quiet io "quiet f" for f
proof unfold_locales
  show "sure (ends2 (quiet f)) (append_bytes io bs s m)" if "quiet f s m" for bs s m
    using append_deferred [of s io bs m] that by auto
qed auto

definition quiet_event :: "key_event \<Rightarrow> bool" where
  "quiet_event e = (ke_type e \<noteq> 1 \<or> ke_code e \<notin> {BTN_START, BTN_DPAD_RIGHT})"

definition session_round :: "round \<Rightarrow> bool" where
  "session_round r = (rd_active r \<and> list_all quiet_event (rd_events r) \<and> rd_request r = None)"

context file_device
begin

lemma quiet_input: "quiet f s m \<Longrightarrow> list_all quiet_event es \<Longrightarrow> sure (ends2 (quiet f)) (drain_input_fds io es s m)"
proof (induction es arbitrary: s m)
  case (Cons e es)
  then have "fst (chord_event e st) = False" "snd (chord_event e st) = st" for st
    by (auto simp: chord_event_def quiet_event_def Let_def split_def)
  with Cons show ?case
    by (auto simp: input_event_def split_def Let_def intro!: sure_mono [OF quiet.record_keeps])
qed simp

lemma quiet_binding: "quiet f s m \<Longrightarrow> sure (ends2 (quiet f)) (refresh_storage_binding io mk g s m)"
  by (auto simp: refresh_storage_binding_def close_log_def flush_log_def open_log_file_def sync_log_def split_def Let_def
      intro!: sure_mono [OF quiet.record_keeps])

lemma quiet_busy: "quiet f s m \<Longrightarrow> session_round r \<Longrightarrow> sure (ends2 (quiet f)) (busy_round io r s m)"
  by (auto simp: busy_round_def session_round_def journal_switch_def service_flush_request_def split_def Let_def
      intro!: sure_mono [OF quiet.records_keep] sure_mono [OF quiet_input] sure_mono [OF quiet.probe_keeps]
      quiet.periodic_keeps)

lemma quiet_round: "quiet f s m \<Longrightarrow> session_round r \<Longrightarrow> sure (ends2 (quiet f)) (logd_round io r s m)"
  by (auto simp: logd_round_def standby_round_def sync_log_def split_def Let_def
      intro!: sure_mono [OF quiet_binding] quiet_busy)

lemma quiet_rounds: "quiet f s m \<Longrightarrow> list_all session_round rs \<Longrightarrow> sure (ends2 (quiet f)) (logd_rounds io rs s m)"
  by (induction rs arbitrary: s m) (auto simp: split_def intro!: sure_mono [OF quiet_round])

end

section \<open>Devices that take every byte\<close>

locale healthy_device = patient_device io patience + file_device io written
  for io :: "('m, 'z) log_io_scheme" and patience :: "'m \<Rightarrow> nat" and written :: "'m \<Rightarrow> string" +
  assumes takes: "io_write io m bs = (r, m') \<Longrightarrow> bs \<noteq> [] \<Longrightarrow>
    (case r of Wrote n \<Rightarrow> 0 < n \<and> written m' = written m @ take n bs | Interrupted \<Rightarrow> written m' = written m | Failed \<Rightarrow> False)"
    and opens: "fst (io_open io m)"
begin

lemma write_exact: "sure (\<lambda>x. fst x \<and> written (snd x) = written m @ bs) (write_all (io_write io) bs m)"
proof (rule write_all_sure [where p = patience and I = "\<lambda>m' b. written m' @ b = written m @ bs"])
  show "case r of Wrote n \<Rightarrow> if n = 0 then fst (False, m'') \<and> written (snd (False, m'')) = written m @ bs
        else written m'' @ drop n b = written m @ bs
      | Interrupted \<Rightarrow> written m'' @ b = written m @ bs
      | Failed \<Rightarrow> fst (False, m'') \<and> written (snd (False, m'')) = written m @ bs"
    if "io_write io m' b = (r, m'')" "b \<noteq> []" "written m' @ b = written m @ bs" for m' b r m''
    using takes [OF that(1,2)] that(3) by (auto split: write_result.split_asm)
qed (auto dest: progress)

text \<open>The text that is in the file or still in the buffer.\<close>

abbreviation (input) stream :: "logd \<Rightarrow> 'm \<Rightarrow> string" where "stream s m \<equiv> written m @ log_buffer s"
abbreviation (input) lossless :: "string \<Rightarrow> logd \<Rightarrow> 'm \<Rightarrow> bool" where
  "lossless t s m \<equiv> \<not> storage_deferred s \<and> log_open s \<and> length (log_buffer s) \<le> LOG_BUFFER_SIZE \<and> stream s m = t"

lemma drain_exact: "lossless t s m \<Longrightarrow> sure (\<lambda>x. lossless t (fst (snd x)) (snd (snd x)) \<and> log_buffer (fst (snd x)) = []) (drain io s m)"
  by (auto simp: drain_def split_def intro!: sure_mono [OF write_exact])

lemma flush_exact: "lossless t s m \<Longrightarrow> sure (\<lambda>x. lossless t (fst (snd x)) (snd (snd x)) \<and> log_buffer (fst (snd x)) = []) (flush_log io s m)"
  using drain_exact [of s m t] by (cases "log_buffer s = []") (simp_all add: flush_log_def)

lemma append_exact:
  assumes "lossless t s m"
  shows "sure (ends2 (lossless (t @ bs))) (append_bytes io bs s m)"
proof -
  define rest where "rest s m = (let s = add_bytes bs (make_room (length bs) s)
      in do { (_, s, m) \<leftarrow> (if \<not> storage_deferred s \<and> length (log_buffer s) \<ge> LOG_FLUSH_BYTES
                         then flush_log io s m else Some (True, s, m));
              Some (s, m) })" for s m
  have rest: "sure (ends2 (lossless (t @ bs))) (rest s m)"
    if "lossless t s m" "length (log_buffer s) + length bs \<le> LOG_BUFFER_SIZE" for s m
    using that by (auto simp: rest_def Let_def split_def add_bytes_newest intro!: sure_mono [OF flush_exact [where t = "t @ bs"]])
  have "append_short io bs s m =
      (if length (log_buffer s) + length bs > LOG_BUFFER_SIZE then flush_log io s m else Some (True, s, m)) \<bind>
      (\<lambda>x. rest (fst (snd x)) (snd (snd x)))"
    using assms by (simp add: append_short_def rest_def split_def)
  then have "sure (ends2 (lossless (t @ bs))) (append_short io bs s m)" if "length bs \<le> LOG_BUFFER_SIZE"
    using assms that rest by (auto intro!: sure_mono [OF flush_exact [OF assms]])
  moreover have "sure (ends2 (lossless (t @ bs))) (append_long io bs s m)"
    using assms by (auto simp: append_long_def split_def Let_def
      intro!: sure_mono [OF flush_exact [where t = t]] sure_mono [OF write_exact])
  ultimately show ?thesis using assms by (simp add: append_bytes_def)
qed

end

sublocale healthy_device \<subseteq> exact: journal_invariant io "\<lambda>s m. \<exists>t. lossless (f @ t) s m" for f
proof unfold_locales
  show "sure (ends2 (\<lambda>s m. \<exists>t. lossless (f @ t) s m)) (append_bytes io bs s m)" if "\<exists>t. lossless (f @ t) s m" for s m bs
    using that by (auto intro!: sure_mono [OF append_exact])
qed (auto intro!: sure_mono [OF drain_exact])

definition idle_round :: "round \<Rightarrow> bool" where
  "idle_round r = (rd_marker r \<and> \<not> rd_active r)"

context healthy_device
begin

lemma binding_exact:
  "lossless (f @ t) s m \<Longrightarrow> sure (ends2 (\<lambda>s m. \<exists>t. lossless (f @ t) s m)) (refresh_storage_binding io True g s m)"
  using opens by (auto simp: refresh_storage_binding_def close_log_def open_log_file_def split_def Let_def
      intro!: sure_mono [OF flush_exact [where t = "f @ t"]] sure_mono [OF exact.record_keeps [where f = f]] sure_mono [OF exact.sync_keeps [where f = f]])

lemma busy_exact:
  "lossless (f @ t) s m \<Longrightarrow> idle_round r \<Longrightarrow> sure (ends2 (\<lambda>s m. \<exists>t. lossless (f @ t) s m)) (busy_round io r s m)"
  by (auto simp: busy_round_def idle_round_def journal_switch_def split_def Let_def
      intro!: sure_mono [OF exact.records_keep [where f = f]] sure_mono [OF exact.input_keeps [where f = f]] sure_mono [OF exact.request_keeps [where f = f]]
        sure_mono [OF exact.probe_keeps [where f = f]] sure_mono [OF exact.periodic_keeps [where f = f]])

lemma rounds_exact:
  "lossless (f @ t) s m \<Longrightarrow> list_all idle_round rs \<Longrightarrow> sure (ends2 (\<lambda>s m. \<exists>t. lossless (f @ t) s m)) (logd_rounds io rs s m)"
proof (induction rs arbitrary: t s m)
  case (Cons r rs)
  have "idle_round r" "rd_marker r" using Cons.prems(2) by (simp_all add: idle_round_def)
  then have "sure (ends2 (\<lambda>s m. \<exists>t. lossless (f @ t) s m)) (logd_round io r s m)"
    using Cons.prems(1) by (auto simp: logd_round_def standby_round_def split_def Let_def
      intro!: sure_mono [OF binding_exact [where f = f]] sure_mono [OF exact.sync_keeps [where f = f]] sure_mono [OF busy_exact [where f = f]])
  then show ?case using Cons.prems(2)
    by (auto simp: split_def intro!: sure_mono [OF Cons.IH] elim!: sure_mono)
qed auto

end

section \<open>A card that follows a script\<close>

text \<open>
  A device for examples and for the interfaces above: each write takes the next entry of a script (at least one byte
  when it succeeds), and the whole text once the script is empty; the clock advances by 1 ms per reading.
\<close>

record card_dev =
  cd_script :: "write_result list"
  cd_file :: string
  cd_now :: u64

definition card_write :: "card_dev \<Rightarrow> string \<Rightarrow> write_result \<times> card_dev" where
  "card_write c bs =
     (case cd_script c of
        [] \<Rightarrow> (Wrote (length bs), c\<lparr>cd_file := cd_file c @ bs\<rparr>)
      | Wrote n # rest \<Rightarrow> (Wrote (max 1 n), c\<lparr>cd_script := rest, cd_file := cd_file c @ take (max 1 n) bs\<rparr>)
      | r # rest \<Rightarrow> (r, c\<lparr>cd_script := rest\<rparr>))"

definition card_io :: "card_dev log_io" where
  "card_io = \<lparr>io_write = card_write, io_fsync = Pair True, io_open = Pair True, io_close = id,
     io_now = (\<lambda>c. (cd_now c, c\<lparr>cd_now := cd_now c + 1000\<rparr>)), io_times = Pair (0, 0, 0)\<rparr>"

lemma card_io_simps [simp]:
  "io_write card_io = card_write" "io_fsync card_io c = (True, c)" "io_open card_io c = (True, c)" "io_close card_io c = c"
  "io_now card_io c = (cd_now c, c\<lparr>cd_now := cd_now c + 1000\<rparr>)" "io_times card_io c = ((0, 0, 0), c)"
  by (simp_all add: card_io_def)

interpretation card: patient_device card_io "\<lambda>c. length (cd_script c)"
  by unfold_locales (auto simp: card_write_def split: list.splits write_result.splits)

interpretation card_file: file_device card_io cd_file
  by unfold_locales simp_all

text \<open>The same card, which never fails.\<close>

definition sound_write :: "card_dev \<Rightarrow> string \<Rightarrow> write_result \<times> card_dev" where
  "sound_write c bs = card_write (c\<lparr>cd_script := filter (\<lambda>r. r \<noteq> Failed) (cd_script c)\<rparr>) bs"

definition sound_io :: "card_dev log_io" where
  "sound_io = card_io\<lparr>io_write := sound_write\<rparr>"

lemma sound_io_simps [simp]:
  "io_write sound_io = sound_write" "io_fsync sound_io c = (True, c)" "io_open sound_io c = (True, c)" "io_close sound_io c = c"
  "io_now sound_io c = (cd_now c, c\<lparr>cd_now := cd_now c + 1000\<rparr>)" "io_times sound_io c = ((0, 0, 0), c)"
  by (simp_all add: sound_io_def)

lemma filter_length_less: "filter P xs = y # ys \<Longrightarrow> length ys < length xs"
  by (metis length_Cons length_filter_le Suc_le_eq)

interpretation sound: healthy_device sound_io "\<lambda>c. length (cd_script c)" cd_file
proof unfold_locales
  show "case r of Wrote n \<Rightarrow> length (cd_script m') \<le> length (cd_script m)
      | Interrupted \<Rightarrow> length (cd_script m') < length (cd_script m) | Failed \<Rightarrow> True"
    if "io_write sound_io m bs = (r, m')" "bs \<noteq> []" for m bs r m'
    using that by (auto simp: sound_write_def card_write_def dest: filter_length_less less_imp_le
        split: list.splits write_result.splits)
  show "case r of Wrote n \<Rightarrow> 0 < n \<and> cd_file m' = cd_file m @ take n bs | Interrupted \<Rightarrow> cd_file m' = cd_file m | Failed \<Rightarrow> False"
    if "io_write sound_io m bs = (r, m')" "bs \<noteq> []" for m bs r m'
    using that by (auto simp: sound_write_def card_write_def filter_eq_Cons_iff split: list.splits write_result.splits)
qed simp_all

section \<open>Devices as seen by the loop\<close>

context patient_device
begin

lemma rounds_bounded: "length (log_buffer s) \<le> LOG_BUFFER_SIZE \<Longrightarrow>
    sure (\<lambda>x. length (log_buffer (fst x)) \<le> LOG_BUFFER_SIZE) (logd_rounds io rs s m)"
  by (rule buffer.rounds_keep)

lemma main_returns: "logd_main io ticks early generation rs m \<noteq> None"
  using buffer.main_keeps [of ticks early generation rs m] by (intro sure_returns) (simp add: logd_start_def)

end

text \<open>One record as it appears in the log.\<close>

definition record_text :: "u64 \<Rightarrow> u64 \<Rightarrow> int \<times> int \<times> int \<Rightarrow> string \<Rightarrow> string \<Rightarrow> string" where
  "record_text ticks usec cpu source payload =
     record_prefix ticks usec cpu source @ payload @ (if payload = [] \<or> last payload \<noteq> CHR 0x0A then [CHR 0x0A] else [])"

context healthy_device
begin

lemma record_exact:
  "lossless t s m \<Longrightarrow> sure (ends2 (lossless (t @ record_text (ticks_per_second s)
      (fst (io_now io (snd (io_times io m)))) (fst (io_times io m)) source payload))) (append_record io source payload s m)"
  by (auto simp: append_record_def record_text_def split_def Let_def intro!: sure_mono [OF append_exact [where t = t]]
      sure_mono [OF append_exact [where t = "t @ b" for b]] sure_mono [OF append_exact [where t = "t @ b @ c" for b c]])

end

section \<open>Properties\<close>

text \<open>States for the examples: a journal with three bytes, a round of a session, a round outside one.\<close>

definition demo_logd :: "bool \<Rightarrow> logd" where
  "demo_logd deferred = (logd_start 100)\<lparr>log_open := True, storage_deferred := deferred, log_buffer := ''abc''\<rparr>"

definition demo_round :: "bool \<Rightarrow> round" where
  "demo_round active = \<lparr>rd_marker = True, rd_generation = None, rd_standby = False, rd_active = active, rd_metrics = None,
     rd_kmsg = [''usb 1-1: new device''], rd_events = [\<lparr>ke_device = 0, ke_type = 3, ke_code = 1, ke_value = 5\<rparr>],
     rd_request = None, rd_profile = [(''proc-uptime'', ''12.5'')], rd_topology = ''usb1''\<rparr>"

definition demo_card :: "write_result list \<Rightarrow> card_dev" where
  "demo_card script = \<lparr>cd_script = script, cd_file = ''old'', cd_now = 0\<rparr>"

lemma dec_zero: "dec_digits 0 = ''0''"
  by code_simp

lemmas demo_defs = demo_logd_def demo_round_def demo_card_def logd_start_def session_round_def idle_round_def quiet_event_def

text \<open>
  C25. The daemon returns on every device that interrupts a writer finitely often, whatever fails.
\<close>

theorem logd_main_returns:
  assumes "patient_device io patience"
  shows "logd_main io ticks early generation rs m \<noteq> None"
  using patient_device.main_returns [OF assms] by blast

theorem logd_main_returns_witness:
  "logd_main card_io 100 [''boot''] None [demo_round True, demo_round False] (demo_card [Interrupted, Wrote 3, Failed]) \<noteq> None"
  by (rule logd_main_returns [OF card.patient_device_axioms])

text \<open>
  C26. The journal never outgrows its array of 512 KB: every sequence of rounds of the main loop returns with at most
  that much in the buffer, whatever is logged and however the device fails.
\<close>

theorem journal_bounded:
  assumes "patient_device io patience" "length (log_buffer s) \<le> LOG_BUFFER_SIZE"
  shows "\<exists>s' m'. logd_rounds io rs s m = Some (s', m') \<and> length (log_buffer s') \<le> LOG_BUFFER_SIZE"
  using patient_device.rounds_bounded [OF assms, of rs m] by (auto simp: sure_def split: option.splits)

theorem journal_bounded_witness:
  "\<exists>s' m'. logd_rounds card_io [demo_round True] (demo_logd False) (demo_card [Failed]) = Some (s', m') \<and>
    length (log_buffer s') \<le> 524288"
  by (rule journal_bounded [OF card.patient_device_axioms]) (simp add: demo_defs)

text \<open>
  C23. While writes are deferred the journal is the newest 512 KB of all text appended, and nothing reaches the device.
\<close>

theorem journal_keeps_newest:
  assumes "storage_deferred s" "length (log_buffer s) \<le> LOG_BUFFER_SIZE"
  shows "\<exists>s'. append_texts io ts s m = Some (s', m) \<and> log_buffer s' = newest (log_buffer s @ concat ts)"
  using assms
proof (induction ts arbitrary: s)
  case (Cons t ts)
  obtain s' where s': "append_bytes io t s m = Some (s', m)" "log_buffer s' = newest (log_buffer s @ t)" "storage_deferred s'"
    using append_deferred [OF Cons.prems, of io t m] by blast
  then obtain s'' where "append_texts io ts s' m = Some (s'', m)" "log_buffer s'' = newest (log_buffer s' @ concat ts)"
    using Cons.IH [of s'] by auto
  then show ?case using s' by simp
qed simp

theorem journal_keeps_newest_witness:
  "\<exists>s'. append_texts card_io [''de'', ''f''] (demo_logd True) (demo_card []) = Some (s', demo_card []) \<and> log_buffer s' = ''abcdef''"
  using journal_keeps_newest [of "demo_logd True" card_io "[''de'', ''f'']" "demo_card []"] by (simp add: demo_defs)

text \<open>
  C22. A performance session writes nothing to the card: while writes are deferred, rounds without a checkpoint key or a
  flush request return and leave what was written as it was, however long they last.
\<close>

theorem session_writes_nothing:
  assumes "file_device io written" "storage_deferred s" "length (log_buffer s) \<le> LOG_BUFFER_SIZE"
    and "list_all session_round rs"
  shows "\<exists>s' m'. logd_rounds io rs s m = Some (s', m') \<and> storage_deferred s' \<and> written m' = written m"
  using file_device.quiet_rounds [OF assms(1), of s m "written m" rs] assms(2-) by (auto simp: sure_def split: option.splits)

theorem session_writes_nothing_witness:
  "\<exists>s' m'. logd_rounds card_io [demo_round True, demo_round True] (demo_logd True) (demo_card []) = Some (s', m') \<and>
    storage_deferred s' \<and> cd_file m' = cd_file (demo_card [])"
  by (rule session_writes_nothing [OF card_file.file_device_axioms]) (simp_all add: demo_defs)

text \<open>
  C21. Outside a session, with the mount marker present, no byte is lost or reordered: on a device that takes every byte, rounds of the main loop
  return, and what was written or buffered before them is followed by what they add.
\<close>

theorem log_loses_nothing:
  assumes "healthy_device io patience written" "\<not> storage_deferred s" "log_open s"
    and "length (log_buffer s) \<le> LOG_BUFFER_SIZE" "list_all idle_round rs"
  shows "\<exists>s' m' t. logd_rounds io rs s m = Some (s', m') \<and> written m' @ log_buffer s' = written m @ log_buffer s @ t"
  using healthy_device.rounds_exact [OF assms(1), of s m "written m @ log_buffer s" "[]" rs] assms(2-)
  by (auto simp: sure_def split: option.splits)

theorem log_loses_nothing_witness:
  "\<exists>s' m' t. logd_rounds sound_io [demo_round False] (demo_logd False) (demo_card [Interrupted]) = Some (s', m') \<and>
    cd_file m' @ log_buffer s' = cd_file (demo_card [Interrupted]) @ log_buffer (demo_logd False) @ t"
  by (rule log_loses_nothing [OF sound.healthy_device_axioms]) (simp_all add: demo_defs)

text \<open>
  C24. A record reaches the log as it is: outside a session, on a device that takes every byte, one record adds exactly
  its time stamp, its payload and a final line feed if the payload has none, in the file or in the buffer behind it.
\<close>

theorem record_reaches_log:
  assumes "healthy_device io patience written" "\<not> storage_deferred s" "log_open s" "length (log_buffer s) \<le> LOG_BUFFER_SIZE"
  shows "\<exists>s' m'. append_record io source payload s m = Some (s', m') \<and>
    written m' @ log_buffer s' = written m @ log_buffer s @
      record_text (ticks_per_second s) (fst (io_now io (snd (io_times io m)))) (fst (io_times io m)) source payload"
  using healthy_device.record_exact [OF assms(1), of s m "written m @ log_buffer s" source payload] assms(2-)
  by (auto simp: sure_def split: option.splits)

theorem record_reaches_log_witness:
  "\<exists>s' m'. append_record sound_io ''logd'' ''on'' (demo_logd False) (demo_card []) = Some (s', m') \<and>
    cd_file m' @ log_buffer s' = ''oldabctick=0 mono_us=0 proc=0 user=0 sys=0 source=logd on'' @ [CHR 0x0A]"
  using record_reaches_log [OF sound.healthy_device_axioms, of "demo_logd False" "''logd''" "''on''" "demo_card []"]
  by (simp add: demo_defs record_text_def record_prefix_def show_int_def dec_zero)

text \<open>
  C32. A flush that fails in the middle repeats text: the bytes the device took before it failed stay in the buffer, so
  the next flush writes them again.
\<close>

theorem failed_flush_repeats:
  assumes "\<not> storage_deferred s" "log_open s" "0 < k" "k < length (log_buffer s)" "cd_script c = [Wrote k, Failed]"
  shows "\<exists>c'. flush_log card_io s c = Some (False, s, c') \<and>
    (\<exists>s' c''. flush_log card_io s c' = Some (True, s', c'') \<and> log_buffer s' = [] \<and>
      cd_file c'' = cd_file c @ take k (log_buffer s) @ log_buffer s)"
proof -
  have "log_buffer s \<noteq> []" "drop k (log_buffer s) \<noteq> []" "max 1 k = k" using assms(3,4) by auto
  then show ?thesis using assms
    by (simp add: flush_log_def drain_def card_write_def write_all.simps [of card_write "log_buffer s"]
        write_all.simps [of card_write "drop k (log_buffer s)"] write_all.simps [of card_write "[]"])
qed

theorem failed_flush_repeats_witness:
  "\<exists>c'. flush_log card_io (demo_logd False) (demo_card [Wrote 1, Failed]) = Some (False, demo_logd False, c') \<and>
    (\<exists>s' c''. flush_log card_io (demo_logd False) c' = Some (True, s', c'') \<and> log_buffer s' = [] \<and>
      cd_file c'' = ''oldaabc'')"
  using failed_flush_repeats [of "demo_logd False" 1 "demo_card [Wrote 1, Failed]"] by (simp add: demo_defs)

text \<open>The keys held after a sequence of events.\<close>

definition key_held :: "u16 \<Rightarrow> key_event list \<Rightarrow> bool" where
  "key_held code es = (let ks = filter (\<lambda>e. ke_type e = 1 \<and> ke_code e = code) es in ks \<noteq> [] \<and> ke_value (last ks) \<noteq> 0)"

definition chord_held :: "key_event list \<Rightarrow> bool" where
  "chord_held es = (key_held BTN_START es \<and> key_held BTN_DPAD_RIGHT es)"

lemma key_held_simps [simp]:
  "\<not> key_held code []"
  "key_held code (es @ [e]) = (if ke_type e = 1 \<and> ke_code e = code then ke_value e \<noteq> 0 else key_held code es)"
  by (simp_all add: key_held_def Let_def)

abbreviation (input) chord_state where
  "chord_state es \<equiv> foldl (\<lambda>st e. snd (chord_event e st)) (0, False) es"

lemma chord_state_held:
  "chord_state es = ((if key_held BTN_START es then 1 else 0) OR (if key_held BTN_DPAD_RIGHT es then 2 else 0), chord_held es)"
proof (induction es rule: rev_induct)
  case (snoc e es)
  then show ?case by (simp add: chord_event_def chord_held_def Let_def split: if_splits)
qed (simp add: chord_held_def)

text \<open>
  C27. START and RIGHT together ask for exactly one checkpoint: after any sequence of events, the next one does so
  exactly if both keys are held after it and were not both held before it, so autorepeat and other keys do not.
\<close>

theorem chord_fires_once:
  "fst (chord_event e (chord_state es)) = (chord_held (es @ [e]) \<and> \<not> chord_held es)"
  unfolding chord_state_held by (simp add: chord_event_def chord_held_def Let_def split: if_splits)

end
