(* ===== verification/Powerd.thy ===== *)
theory Powerd
  imports CText "HOL-Library.Monad_Syntax"
begin

text \<open>
  The power daemon \<^verbatim>\<open>src/userspace/sf2000-powerd.c\<close>: configuration, battery samples, the backlight, the
  hand-over of the screen, the life of the frontend, and the key state machine of the main loop. GPIO and ADC
  registers, the clock, marker files and the child process are callbacks over a machine state \<open>'m\<close>; the events of the
  input device are a list. The waits for the child and the relaunch of the frontend may never end, so results are
  options. The experimental device tests, the mapping of the registers and the wait for the input device are not
  modelled. The rounds of the main loop are a list, as long as one likes: the loop of the source ends only when the
  poll fails.
\<close>

section \<open>The machine\<close>

datatype marker =
    STANDBY_MARKER | STORAGE_MARKER | FRONTEND_READY_MARKER | BROWSER_EXIT_MARKER | PERFORMANCE_MARKER
  | PERFORMANCE_READY_MARKER | SCREEN_PAUSED_MARKER | SCREEN_PAUSE_REQUEST

datatype exit_status = Exited nat | Signaled nat | OtherStatus nat

datatype wait_result = Ended exit_status | Running | Interrupted | WaitFailed

text \<open>The line of a battery sample as the values printed, every other line as its text.\<close>

record battery_line =
  bt_mode :: string
  bt_profile :: string
  bt_raw :: u32
  bt_query_raw :: u32
  bt_generic_raw :: u32
  bt_mv :: u32
  bt_rate :: u32
  bt_interval :: u64
  bt_adc :: "u32 list"
  bt_poll_ms :: u32

datatype log_line = Line string | Battery battery_line

record 'm power_io =
  pw_read32 :: "'m \<Rightarrow> u32 \<Rightarrow> u32 \<times> 'm"
  pw_write32 :: "'m \<Rightarrow> u32 \<Rightarrow> u32 \<Rightarrow> 'm"
  pw_write8 :: "'m \<Rightarrow> u32 \<Rightarrow> u8 \<Rightarrow> 'm"
  pw_adc :: "'m \<Rightarrow> nat \<Rightarrow> u32 \<times> 'm"
  pw_set_adc :: "'m \<Rightarrow> nat \<Rightarrow> u32 \<Rightarrow> 'm"
  pw_now :: "'m \<Rightarrow> u64 \<times> 'm"
  pw_sleep :: "'m \<Rightarrow> nat \<Rightarrow> 'm"
  pw_exists :: "'m \<Rightarrow> marker \<Rightarrow> bool \<times> 'm"
  pw_create :: "'m \<Rightarrow> marker \<Rightarrow> string \<Rightarrow> bool \<times> 'm"
  pw_unlink :: "'m \<Rightarrow> marker \<Rightarrow> bool \<times> 'm"
  pw_spawn :: "'m \<Rightarrow> bool \<times> 'm"
  pw_waitpid :: "'m \<Rightarrow> bool \<Rightarrow> wait_result \<times> 'm"
  pw_drain :: "'m \<Rightarrow> nat option \<times> 'm"
  pw_log :: "'m \<Rightarrow> log_line \<Rightarrow> 'm"

abbreviation (input) say where "say io text m \<equiv> pw_log io m (Line (''sf2000-powerd: '' @ text @ [CHR 0x0A]))"
abbreviation (input) remove where "remove io mk m \<equiv> snd (pw_unlink io m mk)"

section \<open>Configuration\<close>

abbreviation (input) DEFAULT_STANDBY_POLL_MS where "DEFAULT_STANDBY_POLL_MS \<equiv> (2000 :: u32)"

record powerd =
  standby_poll_ms :: u32
  boot_browser :: bool
  last_battery_mv :: u32
  last_battery_ms :: u64

definition powerd_start :: powerd where
  "powerd_start = \<lparr>standby_poll_ms = DEFAULT_STANDBY_POLL_MS, boot_browser = True, last_battery_mv = 0, last_battery_ms = 0\<rparr>"

definition same_text :: "string \<Rightarrow> string \<Rightarrow> bool" where
  "same_text a b = (map (\<lambda>c. if 65 \<le> (of_char c :: int) \<and> (of_char c :: int) \<le> 90 then char_of (of_char c + 32 :: int) else c) a = b)"

definition config_bool :: "string \<Rightarrow> bool \<Rightarrow> bool" where
  "config_bool value fallback =
     (if same_text value ''true'' \<or> value = ''1'' \<or> same_text value ''yes'' then True
      else if same_text value ''false'' \<or> value = ''0'' \<or> same_text value ''no'' then False else fallback)"

definition power_config_line :: "string \<Rightarrow> powerd \<Rightarrow> powerd" where
  "power_config_line line s =
     (let key = dropWhile is_blank (c_string line); rest = dropWhile (\<lambda>c. c \<noteq> CHR ''='') key
      in if key = [] \<or> hd key = CHR ''#'' \<or> hd key = CHR '';'' \<or> rest = [] then s
         else
           let name = strip_end is_blank (takeWhile (\<lambda>c. c \<noteq> CHR ''='') key);
               value = dropWhile is_blank (strip_end (\<lambda>c. c = CHR 0x0D \<or> c = CHR 0x0A \<or> is_blank c) (tl rest))
           in if name = ''standby_poll_ms''
              then case strtoul10 value of
                  Some parsed \<Rightarrow> if parsed \<ge> 100 \<and> parsed \<le> 10000 then s\<lparr>standby_poll_ms := parsed\<rparr> else s
                | None \<Rightarrow> s
              else if name = ''boot_browser'' then s\<lparr>boot_browser := config_bool value (boot_browser s)\<rparr>
              else s)"

definition power_config_file :: "string option \<Rightarrow> powerd \<Rightarrow> powerd" where
  "power_config_file content s =
     (case content of None \<Rightarrow> s | Some text \<Rightarrow> fold power_config_line (fgets_lines text []) s)"

definition load_config :: "string option \<Rightarrow> string option \<Rightarrow> powerd \<Rightarrow> powerd" where
  "load_config system user s = power_config_file user (power_config_file system s)"

section \<open>The battery\<close>

definition adc_update :: "('m, 'z) power_io_scheme \<Rightarrow> nat \<Rightarrow> u32 \<Rightarrow> u32 \<Rightarrow> 'm \<Rightarrow> 'm" where
  "adc_update io i clr st m = (let (v, m) = pw_adc io m i in pw_set_adc io m i (v AND NOT clr OR st))"

definition adc_raw :: "('m, 'z) power_io_scheme \<Rightarrow> 'm \<Rightarrow> u32 \<times> 'm" where
  "adc_raw io m = (let (v, m) = pw_adc io m 0 in (drop_bit 16 v AND 0xff, m))"

text \<open>The reading, the readings with the two set-ups, the name of the one that gave it.\<close>

definition battery_read :: "('m, 'z) power_io_scheme \<Rightarrow> 'm \<Rightarrow> (u32 \<times> u32 \<times> u32 \<times> string) \<times> 'm" where
  "battery_read io m =
     (let m = adc_update io 3 0x30000 0x10000 m;
          m = adc_update io 2 0xffff 0xff m;
          m = adc_update io 1 0xff000f01 0x01000f01 m;
          m = adc_update io 1 0x0000ff01 0x0000ff01 m;
          (query_raw, m) = adc_raw io (pw_sleep io m 1)
      in if query_raw \<noteq> 0 then ((query_raw, query_raw, 0, ''query''), m)
         else
           let m = adc_update io 3 0x30001 0 m;
               m = adc_update io 2 0xffff 0x0ff8 m;
               m = adc_update io 1 0xff00ff01 0x0f00ff01 m;
               (generic_raw, m) = adc_raw io (pw_sleep io m 20)
           in if generic_raw \<noteq> 0 then ((generic_raw, 0, generic_raw, ''generic''), m)
              else ((0, 0, 0, ''unavailable''), m))"

abbreviation (input) BATTERY_RATE_MIN_MS where "BATTERY_RATE_MIN_MS \<equiv> (300000 :: u64)"

definition discharge_rate :: "u32 \<Rightarrow> u64 \<Rightarrow> powerd \<Rightarrow> u32" where
  "discharge_rate mv now s =
     (if last_battery_ms s \<noteq> 0 \<and> now - last_battery_ms s \<ge> BATTERY_RATE_MIN_MS \<and> last_battery_mv s > mv
      then ucast (ucast (last_battery_mv s - mv) * 3600000 div (now - last_battery_ms s)) else 0)"

definition battery_sample :: "('m, 'z) power_io_scheme \<Rightarrow> string \<Rightarrow> powerd \<Rightarrow> 'm \<Rightarrow> powerd \<times> 'm" where
  "battery_sample io mode s m =
     (let (now, m) = pw_now io m; ((raw, query_raw, generic_raw, profile), m) = battery_read io m; mv = raw * 20;
          (a0, m) = pw_adc io m 0; (a1, m) = pw_adc io m 1; (a2, m) = pw_adc io m 2; (a3, m) = pw_adc io m 3;
          line = \<lparr>bt_mode = mode, bt_profile = profile, bt_raw = raw, bt_query_raw = query_raw, bt_generic_raw = generic_raw,
            bt_mv = mv, bt_rate = discharge_rate mv now s,
            bt_interval = (if last_battery_ms s \<noteq> 0 then now - last_battery_ms s else 0),
            bt_adc = [a0, a1, a2, a3], bt_poll_ms = standby_poll_ms s\<rparr>
      in (s\<lparr>last_battery_mv := mv, last_battery_ms := now\<rparr>, pw_log io m (Battery line)))"

section \<open>Backlight and screen\<close>

abbreviation (input) PINMUX_R_OFF where "PINMUX_R_OFF \<equiv> (0x4e0 :: u32)"
abbreviation (input) GPIO_R_OUT_OFF where "GPIO_R_OUT_OFF \<equiv> (0xf4 :: u32)"
abbreviation (input) GPIO_R_DIR_OFF where "GPIO_R_DIR_OFF \<equiv> (0xf8 :: u32)"
abbreviation (input) PIN_R05 where "PIN_R05 \<equiv> (5 :: nat)"

text \<open>The light is on when the pin is low.\<close>

definition backlight_set :: "('m, 'z) power_io_scheme \<Rightarrow> bool \<Rightarrow> 'm \<Rightarrow> 'm" where
  "backlight_set io on m =
     (let m = pw_write8 io m (PINMUX_R_OFF + of_nat PIN_R05) 0;
          (dir, m) = pw_read32 io m GPIO_R_DIR_OFF;
          m = pw_write32 io m GPIO_R_DIR_OFF (dir OR BIT PIN_R05);
          (out, m) = pw_read32 io m GPIO_R_OUT_OFF
      in pw_write32 io m GPIO_R_OUT_OFF (if on then out AND NOT (BIT PIN_R05) else out OR BIT PIN_R05))"

fun pause_wait :: "('m, 'z) power_io_scheme \<Rightarrow> nat \<Rightarrow> 'm \<Rightarrow> bool \<times> 'm" where
  "pause_wait io 0 m = (False, m)"
| "pause_wait io (Suc n) m =
     (let (paused, m) = pw_exists io m SCREEN_PAUSED_MARKER
      in if paused then (True, m) else pause_wait io n (pw_sleep io m 1))"

definition pause_screen :: "('m, 'z) power_io_scheme \<Rightarrow> 'm \<Rightarrow> bool \<times> 'm" where
  "pause_screen io m =
     (let m = remove io SCREEN_PAUSED_MARKER m; (ok, m) = pw_create io m SCREEN_PAUSE_REQUEST []
      in if \<not> ok then (False, m)
         else let (paused, m) = pause_wait io 1000 m
              in if paused then (True, m) else (False, remove io SCREEN_PAUSE_REQUEST m))"

definition resume_screen :: "('m, 'z) power_io_scheme \<Rightarrow> 'm \<Rightarrow> bool \<times> 'm" where
  "resume_screen io m = pw_unlink io m SCREEN_PAUSE_REQUEST"

definition set_standby :: "('m, 'z) power_io_scheme \<Rightarrow> bool \<Rightarrow> powerd \<Rightarrow> 'm \<Rightarrow> powerd \<times> 'm" where
  "set_standby io standby s m =
     (if standby
      then let (s, m) = battery_sample io ''normal-exit'' s (say io ''display standby entering'' m);
               (_, m) = pw_create io m STANDBY_MARKER (dec_digits (unat (standby_poll_ms s)) @ [CHR 0x0A]);
               (ok, m) = pause_screen io (backlight_set io False (pw_sleep io m 100))
           in (s, if ok then m else say io ''screen stop failed'' m)
      else let (s, m) = battery_sample io ''standby-exit'' s m;
               (ok, m) = resume_screen io m;
               m = (if ok then m else say io ''screen resume failed'' m);
               m = remove io STANDBY_MARKER (backlight_set io True m)
           in (s, say io ''display standby resumed'' m))"

section \<open>The frontend\<close>

partial_function (option) wait_blocking ::
    "('m \<Rightarrow> bool \<Rightarrow> wait_result \<times> 'm) \<Rightarrow> 'm \<Rightarrow> (exit_status \<times> 'm) option" where
  "wait_blocking wait m =
     (case wait m True of
        (Ended st, m) \<Rightarrow> Some (st, m)
      | (Interrupted, m) \<Rightarrow> wait_blocking wait m
      | (_, m) \<Rightarrow> Some (Exited 0, m))"

text \<open>The light goes on with the first frame; from then on the wait for the child blocks.\<close>

partial_function (option) wait_frontend :: "('m, 'z) power_io_scheme \<Rightarrow> 'm \<Rightarrow> (exit_status \<times> 'm) option" where
  "wait_frontend io m =
     (case pw_waitpid io m False of
        (Ended st, m) \<Rightarrow> Some (st, m)
      | (WaitFailed, m) \<Rightarrow> Some (Exited 0, m)
      | (_, m) \<Rightarrow>
          let (ready, m) = pw_exists io m FRONTEND_READY_MARKER
          in if ready then wait_blocking (pw_waitpid io) (say io ''frontend first frame visible'' (backlight_set io True m))
             else wait_frontend io (pw_sleep io m 10))"

definition exit_line :: "exit_status \<Rightarrow> string" where
  "exit_line st =
     (case st of
        Exited n \<Rightarrow> ''frontend exit status='' @ dec_digits n
      | Signaled n \<Rightarrow> ''frontend signal='' @ dec_digits n
      | OtherStatus n \<Rightarrow> ''frontend wait status=0x'' @ hex_text n)"

fun drain_wait :: "('m, 'z) power_io_scheme \<Rightarrow> nat \<Rightarrow> 'm \<Rightarrow> 'm" where
  "drain_wait io 0 m = m"
| "drain_wait io (Suc n) m =
     (let (busy, m) = pw_exists io m PERFORMANCE_READY_MARKER
      in if busy then drain_wait io n (pw_sleep io m 10) else m)"

text \<open>The end of a session: the journal of the log daemon is drained, for a second at most.\<close>

definition end_session :: "('m, 'z) power_io_scheme \<Rightarrow> exit_status \<Rightarrow> 'm \<Rightarrow> 'm" where
  "end_session io st m =
     (let m = drain_wait io 100 (remove io PERFORMANCE_MARKER (say io (exit_line st) m));
          (busy, m) = pw_exists io m PERFORMANCE_READY_MARKER
      in if busy then say io ''performance journal drain timeout'' m else m)"

partial_function (option) frontend_loop :: "('m, 'z) power_io_scheme \<Rightarrow> 'm \<Rightarrow> 'm option" where
  "frontend_loop io m =
     (let (up, m) = pw_spawn io (remove io FRONTEND_READY_MARKER m)
      in if \<not> up then Some m
         else do { (st, m) \<leftarrow> wait_frontend io m;
                   let (quit, m) = pw_exists io (end_session io st m) BROWSER_EXIT_MARKER;
                   if quit then Some m
                   else frontend_loop io (say io ''relaunch browser after application exit'' (backlight_set io False m)) })"

definition frontend_begin :: "('m, 'z) power_io_scheme \<Rightarrow> 'm \<Rightarrow> 'm" where
  "frontend_begin io m =
     (let m = remove io FRONTEND_READY_MARKER (say io ''frontend launch'' m);
          m = remove io PERFORMANCE_READY_MARKER (remove io PERFORMANCE_MARKER (remove io BROWSER_EXIT_MARKER m));
          (ok, m) = pause_screen io (backlight_set io False m)
      in if ok then m else say io ''frontend screen stop failed'' m)"

definition frontend_end :: "('m, 'z) power_io_scheme \<Rightarrow> 'm \<Rightarrow> 'm" where
  "frontend_end io m =
     (let m = remove io PERFORMANCE_MARKER (backlight_set io False m);
          m = remove io BROWSER_EXIT_MARKER (remove io FRONTEND_READY_MARKER m);
          (ok, m) = resume_screen io m;
          m = pw_sleep io (if ok then m else say io ''frontend screen resume failed'' m) 50
      in say io ''frontend returned to console'' (backlight_set io True m))"

definition run_frontend :: "('m, 'z) power_io_scheme \<Rightarrow> 'm \<Rightarrow> 'm option" where
  "run_frontend io m = do { m \<leftarrow> frontend_loop io (frontend_begin io m); Some (frontend_end io m) }"

text \<open>\<open>None\<close>: the device could not be made non-blocking.\<close>

definition drain_input :: "('m, 'z) power_io_scheme \<Rightarrow> 'm \<Rightarrow> 'm" where
  "drain_input io m =
     (case pw_drain io m of
        (None, m) \<Rightarrow> m
      | (Some count, m) \<Rightarrow> say io (''discarded '' @ dec_digits count @ '' stale frontend input events'') m)"

section \<open>The keys\<close>

abbreviation (input) BTN_START where "BTN_START \<equiv> (0x13b :: u16)"
abbreviation (input) BTN_WEST where "BTN_WEST \<equiv> (0x134 :: u16)"
abbreviation (input) BTN_TR where "BTN_TR \<equiv> (0x137 :: u16)"

record power_keys =
  pk_start :: bool
  pk_y :: bool
  pk_r :: bool
  pk_standby :: bool
  pk_released :: bool
  pk_launch_released :: bool

definition keys_start :: power_keys where
  "keys_start = \<lparr>pk_start = False, pk_y = False, pk_r = False, pk_standby = False, pk_released = True, pk_launch_released = True\<rparr>"

datatype power_action = Nothing | EnterStandby | LeaveStandby | LaunchFrontend

definition key_levels :: "u16 \<Rightarrow> int \<Rightarrow> power_keys \<Rightarrow> power_keys" where
  "key_levels code v k =
     (let k = (if code = BTN_START then k\<lparr>pk_start := v \<noteq> 0\<rparr> else k);
          k = (if code = BTN_WEST then k\<lparr>pk_y := v \<noteq> 0\<rparr> else k);
          k = (if code = BTN_TR then k\<lparr>pk_r := v \<noteq> 0\<rparr> else k);
          k = (if \<not> pk_start k \<and> \<not> pk_y k then k\<lparr>pk_released := True\<rparr> else k)
      in if \<not> pk_start k \<and> \<not> pk_r k then k\<lparr>pk_launch_released := True\<rparr> else k)"

definition key_action :: "u16 \<Rightarrow> int \<Rightarrow> power_keys \<Rightarrow> power_action \<times> power_keys" where
  "key_action code v k =
     (let k = key_levels code v k
      in if \<not> pk_standby k \<and> pk_released k \<and> pk_start k \<and> pk_y k
         then (EnterStandby, k\<lparr>pk_released := False, pk_standby := True\<rparr>)
         else if pk_standby k \<and> pk_released k \<and> v \<noteq> 0
         then (LeaveStandby, k\<lparr>pk_released := False, pk_standby := False\<rparr>)
         else if \<not> pk_standby k \<and> pk_launch_released k \<and> pk_start k \<and> pk_r k
         then (LaunchFrontend, k\<lparr>pk_start := False, pk_y := False, pk_r := False, pk_released := True, pk_launch_released := True\<rparr>)
         else (Nothing, k))"

section \<open>The main loop\<close>

text \<open>What a round of the loop finds: nothing for a minute, an interrupted or short read, an event, or a failed poll.\<close>

datatype power_input = Quiet | Retry | Event u16 u16 int | PollFailed

definition power_event :: "('m, 'z) power_io_scheme \<Rightarrow> u16 \<Rightarrow> int \<Rightarrow> power_keys \<times> powerd \<Rightarrow> 'm \<Rightarrow>
    ((power_keys \<times> powerd) \<times> 'm) option" where
  "power_event io code v ks m =
     (let (a, k) = key_action code v (fst ks); s = snd ks
      in case a of
           Nothing \<Rightarrow> Some ((k, s), m)
         | EnterStandby \<Rightarrow> let (s, m) = set_standby io True s m in Some ((k, s), m)
         | LeaveStandby \<Rightarrow> let (s, m) = set_standby io False s m in Some ((k, s), m)
         | LaunchFrontend \<Rightarrow> do { m \<leftarrow> run_frontend io m; Some ((k, s), drain_input io m) })"

fun power_loop :: "('m, 'z) power_io_scheme \<Rightarrow> power_input list \<Rightarrow> power_keys \<times> powerd \<Rightarrow> 'm \<Rightarrow>
    ((power_keys \<times> powerd) \<times> 'm) option" where
  "power_loop io [] ks m = Some (ks, m)"
| "power_loop io (Quiet # is) ks m =
     (let (s, m) = battery_sample io (if pk_standby (fst ks) then ''standby'' else ''normal'') (snd ks) m
      in power_loop io is (fst ks, s) m)"
| "power_loop io (Retry # is) ks m = power_loop io is ks m"
| "power_loop io (PollFailed # is) ks m = Some (ks, m)"
| "power_loop io (Event ty code v # is) ks m =
     (if ty \<noteq> 1 then power_loop io is ks m
      else do { (ks, m) \<leftarrow> power_event io code v ks m; power_loop io is ks m })"

fun storage_wait :: "('m, 'z) power_io_scheme \<Rightarrow> nat \<Rightarrow> 'm \<Rightarrow> 'm" where
  "storage_wait io 0 m = m"
| "storage_wait io (Suc n) m =
     (let (there, m) = pw_exists io m STORAGE_MARKER in if there then m else storage_wait io n (pw_sleep io m 10))"

definition boot_frontend :: "('m, 'z) power_io_scheme \<Rightarrow> string option \<Rightarrow> string option \<Rightarrow> powerd \<Rightarrow> 'm \<Rightarrow> (powerd \<times> 'm) option" where
  "boot_frontend io system user s m =
     (if \<not> boot_browser s then Some (s, m)
      else let m = storage_wait io 300 m; s = load_config system user s
           in if \<not> boot_browser s then Some (s, m)
              else let (there, m) = pw_exists io m STORAGE_MARKER
                   in if there then do { m \<leftarrow> run_frontend io m; Some (s, drain_input io m) } else Some (s, m))"

definition powerd_main :: "('m, 'z) power_io_scheme \<Rightarrow> string option \<Rightarrow> string option \<Rightarrow> string option \<Rightarrow> power_input list \<Rightarrow> 'm \<Rightarrow>
    (powerd \<times> 'm) option" where
  "powerd_main io system early_user user is m =
     (let (s, m) = battery_sample io ''normal'' (load_config system early_user powerd_start) m
      in do { (s, m) \<leftarrow> boot_frontend io system user s m;
              ((k, s), m) \<leftarrow> power_loop io is (keys_start, s) (say io ''ready START+Y standby START+R browser'' m);
              Some (if pk_standby k then set_standby io False s m else (s, m)) })"

end
