(* ===== verification/PowerBoard.thy ===== *)
theory PowerBoard
  imports Powerd
begin

text \<open>
  What the power daemon relies on (the locale \<open>power_board\<close>: plain registers, and a standby marker that nobody else
  touches), an instance, and what it promises: light and marker follow the standby state, the keys must be released
  before a second change, battery figures do not wrap, and a frontend that cannot run is started for ever.
\<close>

section \<open>The keys\<close>

fun key_run :: "(u16 \<times> int) list \<Rightarrow> power_keys \<Rightarrow> power_action list \<times> power_keys" where
  "key_run [] k = ([], k)"
| "key_run (e # es) k =
     (let (a, k) = key_action (fst e) (snd e) k; (as, k) = key_run es k in (a # as, k))"

abbreviation (input) key_held where "key_held k \<equiv> pk_start k \<or> pk_y k"

lemma key_levels_standby: "pk_standby (key_levels c v k) = pk_standby k"
  by (simp add: key_levels_def Let_def)

lemma key_levels_released:
  "pk_released (key_levels c v k) = (pk_released k \<or> \<not> key_held (key_levels c v k))"
  by (simp add: key_levels_def Let_def)

lemma held_no_action:
  assumes "pk_standby k" "\<not> pk_released k" "key_held (snd (key_action c v k))"
  shows "fst (key_action c v k) = Nothing \<and> pk_standby (snd (key_action c v k)) \<and> \<not> pk_released (snd (key_action c v k))"
proof -
  define l where "l = key_levels c v k"
  have "pk_standby l" using assms(1) by (simp add: l_def key_levels_standby)
  then have a: "key_action c v k = (if pk_released l \<and> v \<noteq> 0 then (LeaveStandby, l\<lparr>pk_released := False, pk_standby := False\<rparr>) else (Nothing, l))"
    by (simp add: key_action_def l_def [symmetric] Let_def)
  then have "key_held l" using assms(3) by (auto split: if_splits)
  then have "\<not> pk_released l" using assms(2) by (simp add: l_def key_levels_released)
  then show ?thesis using a \<open>pk_standby l\<close> by simp
qed

lemma held_run:
  "pk_standby k \<Longrightarrow> \<not> pk_released k \<Longrightarrow> \<forall>n<length es. key_held (snd (key_run (take (Suc n) es) k)) \<Longrightarrow>
    set (fst (key_run es k)) \<subseteq> {Nothing}"
proof (induction es arbitrary: k)
  case (Cons e es)
  define k' where "k' = snd (key_action (fst e) (snd e) k)"
  have "key_held k'" using Cons.prems(3) [rule_format, of 0] by (simp add: k'_def Let_def split_def)
  from held_no_action [OF Cons.prems(1,2) this [unfolded k'_def]]
  have k': "fst (key_action (fst e) (snd e) k) = Nothing" "pk_standby k'" "\<not> pk_released k'" by (simp_all add: k'_def)
  have "\<forall>n<length es. key_held (snd (key_run (take (Suc n) es) k'))"
    using Cons.prems(3) by (auto simp: k'_def Let_def split_def dest!: spec [of _ "Suc _"])
  from Cons.IH [OF k'(2,3) this] show ?case using k'(1) by (simp add: Let_def split_def k'_def)
qed simp

text \<open>
  The display does not wake up while the keys that put it to sleep are still held: after an event that enters
  standby, an event that leaves it is preceded by a moment at which START and Y are both up.
\<close>

theorem standby_needs_release:
  assumes "fst (key_action c v k) = EnterStandby"
    and "a \<in> set (fst (key_run es (snd (key_action c v k))))" "a \<noteq> Nothing"
  shows "\<exists>n\<le>length es. \<not> key_held (snd (key_run (take n es) (snd (key_action c v k))))"
proof (rule ccontr)
  assume n: "\<not> ?thesis"
  have "pk_standby (snd (key_action c v k)) \<and> \<not> pk_released (snd (key_action c v k))"
    using assms(1) by (auto simp: key_action_def Let_def split: if_splits)
  then have "set (fst (key_run es (snd (key_action c v k)))) \<subseteq> {Nothing}"
    using n by (intro held_run) auto
  then show False using assms(2,3) by auto
qed

theorem standby_needs_release_witness:
  "\<exists>n\<le>length [(0x13b :: u16, 0 :: int), (0x134, 0), (0x131, 1)].
     \<not> (pk_start (snd (key_run (take n [(0x13b, 0), (0x134, 0), (0x131, 1)]) (snd (key_action 0x134 1 (keys_start\<lparr>pk_start := True\<rparr>))))) \<or>
        pk_y (snd (key_run (take n [(0x13b, 0), (0x134, 0), (0x131, 1)]) (snd (key_action 0x134 1 (keys_start\<lparr>pk_start := True\<rparr>))))))"
  by (rule standby_needs_release [where a = LeaveStandby])
     (simp_all add: key_action_def key_levels_def keys_start_def Let_def)

section \<open>The battery\<close>

lemma adc_raw_range: "unat (fst (adc_raw io m)) \<le> 255"
proof -
  have "unat (x AND 0xff) \<le> 255" for x :: u32
    using word_and_le1 [of x "0xff"] by (simp add: word_le_nat_alt)
  then show ?thesis by (simp add: adc_raw_def split_def Let_def)
qed

lemma battery_read_range: "unat (fst (fst (battery_read io m))) \<le> 255"
  using adc_raw_range [of io] by (simp add: battery_read_def split_def Let_def)

lemma battery_parts:
  assumes "unat (last_battery_mv s) \<le> 5100"
  shows "unat (last_battery_mv (fst (battery_sample io mode s m))) \<le> 5100"
    and "unat (discharge_rate mv now s) \<le> 61200"
    and "last_battery_ms s \<noteq> 0 \<Longrightarrow> 300000 \<le> unat (now - last_battery_ms s) \<Longrightarrow> mv < last_battery_mv s \<Longrightarrow>
      unat (discharge_rate mv now s) = (unat (last_battery_mv s) - unat mv) * 3600000 div unat (now - last_battery_ms s)"
proof -
  show "unat (last_battery_mv (fst (battery_sample io mode s m))) \<le> 5100"
    using battery_read_range [of io "snd (pw_now io m)"]
    by (simp add: battery_sample_def split_def Let_def unat_word_ariths)
next
  define d where "d = last_battery_mv s - mv"
  define t where "t = now - last_battery_ms s"
  have rate: "unat (discharge_rate mv now s) = (unat (last_battery_mv s) - unat mv) * 3600000 div unat t \<and>
      unat (discharge_rate mv now s) \<le> 61200"
    if "last_battery_ms s \<noteq> 0" "300000 \<le> unat t" "mv < last_battery_mv s"
  proof -
    have d: "unat d = unat (last_battery_mv s) - unat mv" using that(3) by (simp add: d_def unat_sub)
    then have le: "unat d \<le> 5100" using assms by simp
    have u: "unat (ucast d :: u64) = unat d"
      using le by (simp add: unsigned_ucast_eq take_bit_nat_eq_self)
    have w: "unat (ucast d * 3600000 :: u64) = unat d * 3600000"
      using le by (simp add: unat_word_ariths u)
    have q: "unat d * 3600000 div unat t \<le> 61200"
    proof -
      have "unat d * 3600000 div unat t \<le> 5100 * 3600000 div 300000"
        by (rule order_trans [OF div_le_mono div_le_mono2]) (use le that(2) in auto)
      then show ?thesis by simp
    qed
    have "discharge_rate mv now s = ucast (ucast d * 3600000 div t :: u64)"
      using that by (simp add: discharge_rate_def d_def t_def word_le_nat_alt)
    then have "unat (discharge_rate mv now s) = unat d * 3600000 div unat t"
      using q by (simp add: unsigned_ucast_eq take_bit_nat_eq_self unat_div w)
    then show ?thesis using q d by simp
  qed
  show "unat (discharge_rate mv now s) \<le> 61200"
    using rate by (cases "last_battery_ms s \<noteq> 0 \<and> 300000 \<le> unat t \<and> mv < last_battery_mv s")
      (auto simp: discharge_rate_def t_def word_le_nat_alt)
  show "unat (discharge_rate mv now s) = (unat (last_battery_mv s) - unat mv) * 3600000 div unat (now - last_battery_ms s)"
    if "last_battery_ms s \<noteq> 0" "300000 \<le> unat (now - last_battery_ms s)" "mv < last_battery_mv s"
    using rate that by (simp add: t_def)
qed

section \<open>The board\<close>

lemmas wait_blocking_cases = wait_blocking.raw_induct [rotated, consumes 1, case_names step]
lemmas wait_frontend_cases = wait_frontend.raw_induct [rotated, consumes 1, case_names step]
lemmas frontend_loop_cases = frontend_loop.raw_induct [rotated, consumes 1, case_names step]

text \<open>The backlight is on: the pin is an output, and low.\<close>

definition light_on :: "('m \<Rightarrow> u32 \<Rightarrow> u32) \<Rightarrow> 'm \<Rightarrow> bool" where
  "light_on view m = (bit (view m GPIO_R_DIR_OFF) PIN_R05 \<and> \<not> bit (view m GPIO_R_OUT_OFF) PIN_R05)"

text \<open>
  Registers that keep what is written, and a standby marker that only the daemon creates and removes: \<open>view\<close> reads a
  register, \<open>marked\<close> says whether the marker is there.
\<close>

locale power_board =
  fixes io :: "('m, 'z) power_io_scheme" and view :: "'m \<Rightarrow> u32 \<Rightarrow> u32" and marked :: "'m \<Rightarrow> bool"
  assumes regs [simp]: "fst (pw_read32 io m a) = view m a" "view (snd (pw_read32 io m a)) = view m"
      "view (pw_write32 io m a v) = (view m)(a := v)" "view (pw_write8 io m a w) = view m"
    and view_keeps [simp]: "view (snd (pw_adc io m i)) = view m" "view (pw_set_adc io m i v) = view m"
      "view (snd (pw_now io m)) = view m" "view (pw_sleep io m n) = view m" "view (snd (pw_exists io m mk)) = view m"
      "view (snd (pw_create io m mk t)) = view m" "view (snd (pw_unlink io m mk)) = view m" "view (pw_log io m l) = view m"
      "view (snd (pw_drain io m)) = view m"
    and marks [simp]: "marked (snd (pw_create io m mk t)) = (mk = STANDBY_MARKER \<or> marked m)"
      "marked (snd (pw_unlink io m mk)) = (mk \<noteq> STANDBY_MARKER \<and> marked m)"
    and marks_keep [simp]: "marked (snd (pw_adc io m i)) = marked m" "marked (pw_set_adc io m i v) = marked m"
      "marked (snd (pw_now io m)) = marked m" "marked (pw_sleep io m n) = marked m" "marked (snd (pw_exists io m mk)) = marked m"
      "marked (snd (pw_read32 io m a)) = marked m" "marked (pw_write32 io m a v) = marked m" "marked (pw_write8 io m a w) = marked m"
      "marked (snd (pw_spawn io m)) = marked m" "marked (snd (pw_waitpid io m b)) = marked m" "marked (pw_log io m l) = marked m"
      "marked (snd (pw_drain io m)) = marked m"
begin

abbreviation (input) lit :: "'m \<Rightarrow> bool" where "lit \<equiv> light_on view"

lemma lit_keeps [simp]:
  "lit (snd (pw_adc io m i)) = lit m" "lit (pw_set_adc io m i v) = lit m" "lit (snd (pw_now io m)) = lit m"
  "lit (pw_sleep io m n) = lit m" "lit (snd (pw_exists io m mk)) = lit m" "lit (snd (pw_create io m mk t)) = lit m"
  "lit (snd (pw_unlink io m mk)) = lit m" "lit (pw_log io m l) = lit m" "lit (snd (pw_drain io m)) = lit m"
  by (simp_all add: light_on_def)

lemma backlight [simp]: "lit (backlight_set io on m) = on" "marked (backlight_set io on m) = marked m"
  by (simp_all add: backlight_set_def light_on_def split_def Let_def bit_simps bit_BIT)

lemma adc [simp]: "lit (adc_update io i c s m) = lit m" "marked (adc_update io i c s m) = marked m"
    "lit (snd (adc_raw io m)) = lit m" "marked (snd (adc_raw io m)) = marked m"
  by (simp_all add: adc_update_def adc_raw_def split_def Let_def)

lemma battery [simp]: "lit (snd (battery_sample io mode s m)) = lit m" "marked (snd (battery_sample io mode s m)) = marked m"
  by (simp_all add: battery_sample_def battery_read_def split_def Let_def)

lemma pause_loop [simp]: "lit (snd (pause_wait io n m)) = lit m" "marked (snd (pause_wait io n m)) = marked m"
  by (induction n arbitrary: m) (simp_all add: split_def Let_def)

lemma pause [simp]: "lit (snd (pause_screen io m)) = lit m" "marked (snd (pause_screen io m)) = marked m"
  by (simp_all add: pause_screen_def split_def Let_def)

lemma standby [simp]: "lit (snd (set_standby io on s m)) = (\<not> on)" "marked (snd (set_standby io on s m)) = on"
  by (simp_all add: set_standby_def resume_screen_def split_def Let_def)

lemma blocking_marked: "wait_blocking (pw_waitpid io) m = Some r \<Longrightarrow> marked (snd r) = marked m"
proof -
  have "wt = pw_waitpid io \<longrightarrow> marked (snd r) = marked m" if "wait_blocking wt m = Some r" for wt
    using that
  proof (induction wt m r rule: wait_blocking_cases)
    case (step rec wt m r)
    show ?case
    proof
      assume wt: "wt = pw_waitpid io"
      show "marked (snd r) = marked m"
        using step(2) step(1) [of wt "snd (pw_waitpid io m True)" r] marks_keep(10) [of m True]
        by (auto simp: wt split_def split: prod.splits wait_result.splits)
    qed
  qed
  then show "wait_blocking (pw_waitpid io) m = Some r \<Longrightarrow> marked (snd r) = marked m" by blast
qed

lemma waiting_marked: "wait_frontend io m = Some r \<Longrightarrow> marked (snd r) = marked m"
proof -
  have "i = io \<longrightarrow> marked (snd r) = marked m" if "wait_frontend i m = Some r" for i
    using that
  proof (induction i m r rule: wait_frontend_cases)
    case (step rec i m r)
    show ?case
    proof
      assume i: "i = io"
      define m1 where "m1 = snd (pw_waitpid io m False)"
      define m2 where "m2 = snd (pw_exists io m1 FRONTEND_READY_MARKER)"
      have m: "marked m1 = marked m" "marked m2 = marked m" by (simp_all add: m1_def m2_def)
      show "marked (snd r) = marked m"
        using step(2) step(1) [of i "pw_sleep io m2 10" r] m blocking_marked [of _ r]
        by (auto simp: i split_def m1_def [symmetric] m2_def [symmetric] Let_def prod.case_eq_if
            split: wait_result.splits if_splits)
    qed
  qed
  then show "wait_frontend io m = Some r \<Longrightarrow> marked (snd r) = marked m" by blast
qed

lemma session_end [simp]: "marked (end_session io st m) = marked m"
proof -
  have "marked (drain_wait io n m) = marked m" for n m
    by (induction n arbitrary: m) (simp_all add: split_def Let_def)
  then show ?thesis by (simp add: end_session_def split_def Let_def)
qed

lemma loop_marked: "frontend_loop io m = Some r \<Longrightarrow> marked r = marked m"
proof -
  have "i = io \<longrightarrow> marked r = marked m" if "frontend_loop i m = Some r" for i
    using that
  proof (induction i m r rule: frontend_loop_cases)
    case (step rec i m r)
    show ?case
    proof
      assume i: "i = io"
      define m1 where "m1 = snd (pw_spawn io (remove io FRONTEND_READY_MARKER m))"
      have m1: "marked m1 = marked m" by (simp add: m1_def)
      show "marked r = marked m"
      proof (cases "fst (pw_spawn io (remove io FRONTEND_READY_MARKER m))")
        case False
        then show ?thesis using step(2) m1 by (simp add: i split_def m1_def)
      next
        case True
        then obtain x where x: "wait_frontend io m1 = Some x"
            "(if fst (pw_exists io (end_session io (fst x) (snd x)) BROWSER_EXIT_MARKER)
              then Some (snd (pw_exists io (end_session io (fst x) (snd x)) BROWSER_EXIT_MARKER))
              else rec io (say io ''relaunch browser after application exit''
                (backlight_set io False (snd (pw_exists io (end_session io (fst x) (snd x)) BROWSER_EXIT_MARKER))))) = Some r"
          using step(2) by (auto simp only: i split_def Let_def m1_def bind_eq_Some_conv simp_thms if_True if_False)
        have "marked (snd x) = marked m" using waiting_marked [OF x(1)] m1 by simp
        then show ?thesis using x(2) step(1) [of i _ r] by (auto simp: i split: if_splits)
      qed
    qed
  qed
  then show "frontend_loop io m = Some r \<Longrightarrow> marked r = marked m" by blast
qed

lemma frontend_ends [simp]:
  "marked (frontend_begin io m) = marked m" "marked (frontend_end io m) = marked m" "lit (frontend_end io m)"
  by (simp_all add: frontend_begin_def frontend_end_def resume_screen_def split_def Let_def)

lemma frontend_keeps: "run_frontend io m = Some m' \<Longrightarrow> lit m' \<and> marked m' = marked m"
  by (auto simp: run_frontend_def bind_eq_Some_conv dest!: loop_marked)

abbreviation (input) follows :: "power_keys \<Rightarrow> 'm \<Rightarrow> bool" where
  "follows k m \<equiv> lit m = (\<not> pk_standby k) \<and> marked m = pk_standby k"

lemma action_standby:
  assumes "key_action c v k = (a, k')"
  shows "case a of Nothing \<Rightarrow> pk_standby k' = pk_standby k | EnterStandby \<Rightarrow> pk_standby k' | LeaveStandby \<Rightarrow> \<not> pk_standby k'
    | LaunchFrontend \<Rightarrow> \<not> pk_standby k \<and> \<not> pk_standby k'"
  using assms key_levels_standby [of c v k] by (auto simp: key_action_def Let_def split: if_splits)

lemma drain [simp]: "lit (drain_input io m) = lit m" "marked (drain_input io m) = marked m"
proof -
  obtain n m1 where d: "pw_drain io m = (n, m1)" by fastforce
  have "lit m1 = lit m" "marked m1 = marked m" using lit_keeps(9) [of m] marks_keep(12) [of m] by (simp_all add: d)
  then show "lit (drain_input io m) = lit m" "marked (drain_input io m) = marked m"
    by (simp_all add: drain_input_def d split: option.split)
qed

lemma event_follows:
  assumes "follows (fst ks) m" "power_event io c v ks m = Some (ks', m')"
  shows "follows (fst ks') m'"
proof -
  obtain a k where a: "key_action c v (fst ks) = (a, k)" by fastforce
  show ?thesis
    using assms action_standby [OF a]
    by (auto simp: power_event_def a split_def Let_def bind_eq_Some_conv
        split: power_action.splits dest: frontend_keeps)
qed

lemma loop_follows: "follows (fst ks) m \<Longrightarrow> power_loop io es ks m = Some (ks', m') \<Longrightarrow> follows (fst ks') m'"
proof (induction es arbitrary: ks m)
  case (Cons e es)
  show ?case
  proof (cases e)
    case (Event ty code v)
    show ?thesis
    proof (cases "ty = 1")
      case True
      then obtain x where x: "power_event io code v ks m = Some x" "power_loop io es (fst x) (snd x) = Some (ks', m')"
        using Cons.prems(2) Event by (auto simp: bind_eq_Some_conv split_def)
      have "follows (fst (fst x)) (snd x)" using event_follows [where ks = ks and m = m and c = code and v = v and ks' = "fst x" and m' = "snd x"] Cons.prems(1) x(1) by simp
      from Cons.IH [OF this x(2)] show ?thesis .
    qed (use Cons Event in simp)
  next
    case Quiet
    then have "power_loop io es (fst ks, fst (battery_sample io (if pk_standby (fst ks) then ''standby'' else ''normal'') (snd ks) m))
        (snd (battery_sample io (if pk_standby (fst ks) then ''standby'' else ''normal'') (snd ks) m)) = Some (ks', m')"
      using Cons.prems(2) by (simp add: split_def Let_def)
    from Cons.IH [OF _ this] show ?thesis using Cons.prems(1) by simp
  qed (use Cons in simp_all)
qed simp

end

section \<open>A handheld\<close>

text \<open>
  A machine for the locale and the examples: registers, marker files, a screen service that pauses when asked, and a
  frontend that exits at once, with the wish to leave the browser if \<open>bx_quits\<close>.
\<close>

record box =
  bx_regs :: "u32 \<Rightarrow> u32"
  bx_marks :: "marker set"
  bx_quits :: bool

definition box_io :: "box power_io" where
  "box_io = \<lparr>pw_read32 = (\<lambda>b a. (bx_regs b a, b)), pw_write32 = (\<lambda>b a v. b\<lparr>bx_regs := (bx_regs b)(a := v)\<rparr>),
     pw_write8 = (\<lambda>b a v. b), pw_adc = (\<lambda>b i. (0x00c00000, b)), pw_set_adc = (\<lambda>b i v. b), pw_now = (\<lambda>b. (1000, b)),
     pw_sleep = (\<lambda>b n. b), pw_exists = (\<lambda>b mk. (mk \<in> bx_marks b, b)),
     pw_create = (\<lambda>b mk t. (True, b\<lparr>bx_marks := bx_marks b \<union> {mk} \<union> (if mk = SCREEN_PAUSE_REQUEST then {SCREEN_PAUSED_MARKER} else {})\<rparr>)),
     pw_unlink = (\<lambda>b mk. (True, b\<lparr>bx_marks := bx_marks b - {mk}\<rparr>)),
     pw_spawn = (\<lambda>b. (True, b\<lparr>bx_marks := bx_marks b \<union> (if bx_quits b then {BROWSER_EXIT_MARKER} else {})\<rparr>)),
     pw_waitpid = (\<lambda>b block. (Ended (Exited 127), b)), pw_drain = Pair (Some 0), pw_log = (\<lambda>b l. b)\<rparr>"

lemma box_simps [simp]:
  "pw_read32 box_io b a = (bx_regs b a, b)" "pw_write32 box_io b a v = b\<lparr>bx_regs := (bx_regs b)(a := v)\<rparr>"
  "pw_write8 box_io b a w = b" "pw_adc box_io b i = (0x00c00000, b)" "pw_set_adc box_io b i v = b" "pw_now box_io b = (1000, b)"
  "pw_sleep box_io b n = b" "pw_exists box_io b mk = (mk \<in> bx_marks b, b)"
  "pw_create box_io b mk t = (True, b\<lparr>bx_marks := bx_marks b \<union> {mk} \<union> (if mk = SCREEN_PAUSE_REQUEST then {SCREEN_PAUSED_MARKER} else {})\<rparr>)"
  "pw_unlink box_io b mk = (True, b\<lparr>bx_marks := bx_marks b - {mk}\<rparr>)"
  "pw_spawn box_io b = (True, b\<lparr>bx_marks := bx_marks b \<union> (if bx_quits b then {BROWSER_EXIT_MARKER} else {})\<rparr>)"
  "pw_waitpid box_io b block = (Ended (Exited 127), b)" "pw_drain box_io b = (Some 0, b)" "pw_log box_io b l = b"
  by (simp_all add: box_io_def)

interpretation box: power_board box_io bx_regs "\<lambda>b. STANDBY_MARKER \<in> bx_marks b"
  by unfold_locales auto

definition demo_box :: box where
  "demo_box = \<lparr>bx_regs = (\<lambda>a. if a = 0xf8 then 0x20 else 0), bx_marks = {}, bx_quits = False\<rparr>"

text \<open>
  C38. Light and marker follow the standby state: starting with the light on and no standby marker, after any inputs
  that the main loop gets through, frontend launches and failed screen hand-overs included, the backlight is on exactly
  outside standby and the marker is there exactly in standby.
\<close>

theorem light_follows_standby:
  assumes "power_board io view marked" "light_on view m" "\<not> marked m"
    and "power_loop io es (keys_start, s) m = Some ((k, s'), m')"
  shows "light_on view m' = (\<not> pk_standby k) \<and> marked m' = pk_standby k"
  using power_board.loop_follows [OF assms(1) _ assms(4)] assms(2,3) by (simp add: keys_start_def)

theorem light_follows_standby_witness:
  "\<exists>k s m. power_loop box_io [Event 1 0x13b 1, Retry, Event 1 0x134 1, Quiet] (keys_start, powerd_start) demo_box = Some ((k, s), m) \<and>
     pk_standby k \<and> \<not> light_on bx_regs m \<and> STANDBY_MARKER \<in> bx_marks m"
proof -
  obtain k s m where r: "power_loop box_io [Event 1 0x13b 1, Retry, Event 1 0x134 1, Quiet] (keys_start, powerd_start) demo_box = Some ((k, s), m)"
      "pk_standby k"
    by (simp add: power_event_def key_action_def key_levels_def keys_start_def split_def Let_def)
  have "light_on bx_regs m = (\<not> pk_standby k) \<and> (STANDBY_MARKER \<in> bx_marks m) = pk_standby k"
    by (rule light_follows_standby [OF box.power_board_axioms _ _ r(1)]) (simp_all add: demo_box_def light_on_def bit_simps)
  then show ?thesis using r by auto
qed

text \<open>
  A frontend that can be started but never asks to leave is started for ever: when the exit marker never appears,
  \<open>run_frontend\<close> does not return, even if the program is missing and every child exits at once.
\<close>

theorem frontend_never_returns:
  assumes "\<And>m. fst (pw_spawn io m)" "\<And>m. \<not> fst (pw_exists io m BROWSER_EXIT_MARKER)"
  shows "run_frontend io m = None"
proof -
  have loops: "i = io \<longrightarrow> False" if "frontend_loop i m = Some r" for i m r
    using that
  proof (induction i m r rule: frontend_loop_cases)
    case (step rec i m r)
    show ?case
    proof
      assume i: "i = io"
      then obtain x where "rec io x = Some r"
        using step(2) assms by (auto simp only: i split_def Let_def bind_eq_Some_conv simp_thms if_True if_False)
      from step(1) [OF this] show False by simp
    qed
  qed
  show ?thesis
  proof (rule ccontr)
    assume "run_frontend io m \<noteq> None"
    then show False using loops by (auto simp: run_frontend_def bind_eq_Some_conv)
  qed
qed

theorem frontend_never_returns_witness:
  "run_frontend (box_io\<lparr>pw_exists := \<lambda>b mk. (mk \<in> bx_marks b \<and> mk \<noteq> BROWSER_EXIT_MARKER, b)\<rparr>) demo_box = None"
  by (rule frontend_never_returns) simp_all

text \<open>
  The battery figures do not wrap: whatever the converter and the clock return, a sample is at most 5100 mV, and
  when the one before was too, the discharge rate is the exact quotient, at most 61200 mV per hour.
\<close>

theorem battery_figures:
  assumes "unat (last_battery_mv s) \<le> 5100"
  shows "unat (last_battery_mv (fst (battery_sample io mode s m))) \<le> 5100 \<and> unat (discharge_rate mv now s) \<le> 61200 \<and>
    (last_battery_ms s \<noteq> 0 \<and> 300000 \<le> unat (now - last_battery_ms s) \<and> mv < last_battery_mv s \<longrightarrow>
      unat (discharge_rate mv now s) = (unat (last_battery_mv s) - unat mv) * 3600000 div unat (now - last_battery_ms s))"
  by (intro conjI impI battery_parts [OF assms]; (elim conjE)?; assumption)

theorem battery_figures_witness:
  "unat (discharge_rate 3600 4000000 (powerd_start\<lparr>last_battery_mv := 4000, last_battery_ms := 400000\<rparr>)) = 400 * 3600000 div 3600000"
  using battery_figures [where s = "powerd_start\<lparr>last_battery_mv := 4000, last_battery_ms := 400000\<rparr>" and io = box_io and mv = 3600 and now = 4000000] by simp

end
