(* ===== verification/Mount.thy ===== *)
theory Mount
  imports CText
begin

text \<open>
  The mount supervisor \<^verbatim>\<open>src/userspace/sf2000-mount.c\<close>: device nodes and candidates, the choice of the
  primary volume, the move of the volumes to their public paths, what is published, and the loop that follows the
  card. Files, nodes and mounts are callbacks over a machine state \<open>'m\<close>; what is only looked at (a file, a directory,
  the boot sector) is a function of that state.
\<close>

section \<open>The machine\<close>

record 'm mount_io =
  mt_is_block :: "'m \<Rightarrow> string \<Rightarrow> bool"
  mt_is_dir :: "'m \<Rightarrow> string \<Rightarrow> bool"
  mt_exists :: "'m \<Rightarrow> string \<Rightarrow> bool"
  mt_read :: "'m \<Rightarrow> string \<Rightarrow> string option"
  mt_list :: "'m \<Rightarrow> string \<Rightarrow> string list option"
  mt_sector :: "'m \<Rightarrow> u8 list option"
  mt_errno :: "'m \<Rightarrow> nat"
  mt_mount :: "'m \<Rightarrow> string \<Rightarrow> string \<Rightarrow> string \<Rightarrow> string option \<Rightarrow> bool \<times> 'm"
  mt_move :: "'m \<Rightarrow> string \<Rightarrow> string \<Rightarrow> bool \<times> 'm"
  mt_umount :: "'m \<Rightarrow> string \<Rightarrow> bool \<times> 'm"
  mt_mkdir :: "'m \<Rightarrow> string \<Rightarrow> 'm"
  mt_rmdir :: "'m \<Rightarrow> string \<Rightarrow> 'm"
  mt_unlink :: "'m \<Rightarrow> string \<Rightarrow> 'm"
  mt_mknod :: "'m \<Rightarrow> string \<Rightarrow> u32 \<Rightarrow> u32 \<Rightarrow> 'm"
  mt_symlink :: "'m \<Rightarrow> string \<Rightarrow> string \<Rightarrow> 'm"
  mt_write :: "'m \<Rightarrow> string \<Rightarrow> string \<Rightarrow> 'm"
  mt_kmsg :: "'m \<Rightarrow> string \<Rightarrow> 'm"
  mt_sleep :: "'m \<Rightarrow> nat \<Rightarrow> 'm"

abbreviation (input) PRIMARY_MOUNT where "PRIMARY_MOUNT \<equiv> ''/mnt/sd''"
abbreviation (input) MOUNT_MARKER where "MOUNT_MARKER \<equiv> ''/run/sf2000-storage-mounted''"
abbreviation (input) ROOTS_PATH where "ROOTS_PATH \<equiv> ''/run/sf2000-storage-roots''"
abbreviation (input) MAP_PATH where "MAP_PATH \<equiv> ''/run/sf2000-storage-map''"
abbreviation (input) GEN_PATH where "GEN_PATH \<equiv> ''/run/sf2000-storage-generation''"
abbreviation (input) UNIFROG_MOUNT_POINT where "UNIFROG_MOUNT_POINT \<equiv> ''/media/mmcblk0''"
abbreviation (input) STATUS_PATH where "STATUS_PATH \<equiv> ''/run/sf2000-storage.status''"
abbreviation (input) MAX_CANDIDATES where "MAX_CANDIDATES \<equiv> (16 :: nat)"
abbreviation (input) MAX_MOUNTS where "MAX_MOUNTS \<equiv> (8 :: nat)"
abbreviation (input) MMC_BLOCK_MAJOR where "MMC_BLOCK_MAJOR \<equiv> (179 :: u32)"

definition fallback_devices :: "string list" where
  "fallback_devices =
     [''/dev/mmcblk0p1'', ''/dev/mmcblk0p2'', ''/dev/mmcblk0p3'', ''/dev/mmcblk0p4'', ''/dev/mmcblk0p5'',
      ''/dev/mmcblk0p6'', ''/dev/mmcblk0p7'', ''/dev/mmcblk0'']"

definition fstypes :: "string list" where
  "fstypes = [''vfat'', ''msdos'', ''exfat'']"

definition public_mounts :: "string list" where
  "public_mounts =
     [''/mnt/sd'', ''/mnt/sd2'', ''/mnt/sd3'', ''/mnt/sd4'', ''/mnt/sd5'', ''/mnt/sd6'', ''/mnt/sd7'', ''/mnt/sd8'']"

text \<open>A message goes to the kernel log (at most 191 characters) and to the status file.\<close>

definition log_status :: "('m, 'z) mount_io_scheme \<Rightarrow> string \<Rightarrow> 'm \<Rightarrow> 'm" where
  "log_status io message m =
     mt_write io (mt_kmsg io m (take 191 (''<6>sf2000-mount: '' @ message @ [CHR 0x0A]))) STATUS_PATH message"

section \<open>Device nodes\<close>

definition is_digit :: "char \<Rightarrow> bool" where
  "is_digit c \<longleftrightarrow> 48 \<le> (of_char c :: int) \<and> (of_char c :: int) \<le> 57"

definition read_number :: "string \<Rightarrow> u32" where
  "read_number ds = foldl (\<lambda>v c. v * 10 + of_int (of_char c - 48)) 0 ds"

definition read_devt :: "string option \<Rightarrow> (u32 \<times> u32) option" where
  "read_devt content =
     (case content of None \<Rightarrow> None
      | Some text \<Rightarrow>
          let buf = take 31 text; rest = dropWhile is_digit buf
          in if rest = [] \<or> hd rest \<noteq> CHR '':'' then None
             else Some (read_number (takeWhile is_digit buf), read_number (takeWhile is_digit (tl rest))))"

definition ensure_block_node :: "('m, 'z) mount_io_scheme \<Rightarrow> string \<Rightarrow> string \<Rightarrow> u32 \<Rightarrow> bool \<Rightarrow> 'm \<Rightarrow> 'm" where
  "ensure_block_node io node sys_dev fallback_minor require_sys m =
     (if mt_is_block io m node then m
      else case read_devt (mt_read io m sys_dev) of
          Some (major, minor) \<Rightarrow> mt_mknod io (mt_unlink io m node) node major minor
        | None \<Rightarrow> if require_sys then m else mt_mknod io (mt_unlink io m node) node MMC_BLOCK_MAJOR fallback_minor)"

definition ensure_known_nodes :: "('m, 'z) mount_io_scheme \<Rightarrow> 'm \<Rightarrow> 'm" where
  "ensure_known_nodes io m =
     fold (\<lambda>i. ensure_block_node io (''/dev/mmcblk0p'' @ dec_digits i) (''/sys/block/mmcblk0/mmcblk0p'' @ dec_digits i @ ''/dev'')
         (of_nat i) True) [1..<8]
       (ensure_block_node io ''/dev/mmcblk0'' ''/sys/block/mmcblk0/dev'' 0 False m)"

section \<open>Candidates\<close>

definition is_partition_name :: "string \<Rightarrow> bool" where
  "is_partition_name name =
     (let p = drop 8 name
      in take 8 name = ''mmcblk0p'' \<and> p \<noteq> [] \<and> is_digit (hd p) \<and> hd p \<noteq> CHR ''0'' \<and> list_all is_digit p)"

definition whole_disk_is_superfloppy :: "u8 list option \<Rightarrow> bool" where
  "whole_disk_is_superfloppy boot =
     (case boot of None \<Rightarrow> False
      | Some sector \<Rightarrow>
          length sector \<ge> 512 \<and> sector ! 510 = 0x55 \<and> sector ! 511 = 0xaa \<and>
          (take 3 (drop 54 sector) = [0x46, 0x41, 0x54] \<or> take 3 (drop 82 sector) = [0x46, 0x41, 0x54] \<or>
           take 3 (drop 3 sector) = [0x45, 0x58, 0x46]))"

fun scan_entries :: "('m, 'z) mount_io_scheme \<Rightarrow> nat \<Rightarrow> string list \<Rightarrow> string list \<Rightarrow> 'm \<Rightarrow> string list \<times> 'm" where
  "scan_entries io max_count [] candidates m = (candidates, m)"
| "scan_entries io max_count (name # es) candidates m =
     (if length candidates \<ge> max_count then (candidates, m)
      else if \<not> is_partition_name name then scan_entries io max_count es candidates m
      else let node = ''/dev/'' @ take 16 name;
               m = ensure_block_node io node (''/sys/block/mmcblk0/'' @ take 16 name @ ''/dev'') 0 True m
           in scan_entries io max_count es (if node \<in> set candidates then candidates else candidates @ [node]) m)"

text \<open>\<open>strcmp(a, b) < 0\<close>, and the exchange sort.\<close>

fun str_less :: "string \<Rightarrow> string \<Rightarrow> bool" where
  "str_less a [] = False"
| "str_less [] (y # ys) = True"
| "str_less (x # xs) (y # ys) = (if x = y then str_less xs ys else (of_char x :: int) < of_char y)"

definition exchange :: "nat \<Rightarrow> nat \<Rightarrow> string list \<Rightarrow> string list" where
  "exchange i j cs = (if str_less (cs ! j) (cs ! i) then cs[i := cs ! j, j := cs ! i] else cs)"

definition sort_candidates :: "string list \<Rightarrow> string list" where
  "sort_candidates cs = fold (\<lambda>i. fold (exchange i) [Suc i..<length cs]) [0..<length cs - 1] cs"

definition add_fallbacks :: "nat \<Rightarrow> string list \<Rightarrow> string list" where
  "add_fallbacks max_count =
     fold (\<lambda>d cs. if length cs \<ge> max_count \<or> d \<in> set cs then cs else cs @ [d]) fallback_devices"

definition collect_candidates :: "('m, 'z) mount_io_scheme \<Rightarrow> nat \<Rightarrow> 'm \<Rightarrow> string list \<times> 'm" where
  "collect_candidates io max_count m =
     (case mt_list io m ''/sys/block/mmcblk0'' of
        None \<Rightarrow> (add_fallbacks max_count [], m)
      | Some es \<Rightarrow> let (cs, m) = scan_entries io max_count es [] m in (add_fallbacks max_count (sort_candidates cs), m))"

section \<open>Probing\<close>

text \<open>What is looked for on a volume: the path, whether it must be a directory, and what it is worth.\<close>

definition score_table :: "(string \<times> bool \<times> nat) list" where
  "score_table =
     [(''/sf2000'', True, 120), (''/sf2000/ui.ttf'', False, 100), (''/sf2000.conf'', False, 80), (''/bios'', True, 100),
      (''/firmware'', True, 80), (''/saves'', True, 40), (''/loglinux.txt'', False, 20), (''/GB'', True, 30),
      (''/GBA'', True, 30), (''/NES'', True, 30), (''/ROMS'', True, 25), (''/roms'', True, 25)]"

definition score_volume :: "('m, 'z) mount_io_scheme \<Rightarrow> string \<Rightarrow> 'm \<Rightarrow> nat" where
  "score_volume io mp m =
     1 + sum_list (map (\<lambda>(path, dir, points).
       if (if dir then mt_is_dir io m (mp @ path) else mt_exists io m (mp @ path)) then points else 0) score_table)"

fun try_types :: "('m, 'z) mount_io_scheme \<Rightarrow> string \<Rightarrow> string \<Rightarrow> string list \<Rightarrow> 'm \<Rightarrow> string option \<times> 'm" where
  "try_types io device mp [] m = (None, m)"
| "try_types io device mp (t # ts) m =
     (let (ok, m) = mt_mount io m device mp t (if t = ''vfat'' \<or> t = ''msdos'' then Some ''iocharset=utf8'' else None)
      in if ok then (Some t, m)
         else try_types io device mp ts
           (log_status io (take 159 (''mount try '' @ take 24 device @ '' -> '' @ take 24 mp @ '' type='' @ t @
              '' errno='' @ dec_digits (mt_errno io m))) m))"

definition try_mount_at :: "('m, 'z) mount_io_scheme \<Rightarrow> string \<Rightarrow> string \<Rightarrow> 'm \<Rightarrow> string option \<times> 'm" where
  "try_mount_at io device mp m =
     (if \<not> mt_is_block io m device then (None, m) else try_types io device mp fstypes (mt_mkdir io m mp))"

record volume =
  vol_device :: string
  vol_mountpoint :: string
  vol_fstype :: string
  vol_score :: nat

definition tmp_mount :: "nat \<Rightarrow> string" where
  "tmp_mount n = ''/mnt/.sf2000-vol'' @ dec_digits n"

definition extra_mount :: "nat \<Rightarrow> string" where
  "extra_mount slot = ''/mnt/sd'' @ dec_digits slot"

definition probe_one :: "('m, 'z) mount_io_scheme \<Rightarrow> nat \<Rightarrow> nat \<Rightarrow> string \<Rightarrow> volume list \<Rightarrow> 'm \<Rightarrow> volume list \<times> 'm" where
  "probe_one io count i candidate vols m =
     (let tmp = tmp_mount (length vols);
          (fstype, m) = try_mount_at io candidate tmp (snd (mt_umount io m tmp))
      in case fstype of None \<Rightarrow> (vols, m)
         | Some t \<Rightarrow>
             let score = (if count > 1 then score_volume io tmp m else 1) + (MAX_CANDIDATES - i);
                 m = log_status io (''volume '' @ take 24 candidate @ '' type='' @ t @ '' score='' @ dec_digits score) m
             in (vols @ [\<lparr>vol_device = candidate, vol_mountpoint = [], vol_fstype = t, vol_score = score\<rparr>], m))"

fun probe_all :: "('m, 'z) mount_io_scheme \<Rightarrow> nat \<Rightarrow> nat \<Rightarrow> string list \<Rightarrow> volume list \<Rightarrow> 'm \<Rightarrow> volume list \<times> 'm" where
  "probe_all io count i [] vols m = (vols, m)"
| "probe_all io count i (c # cs) vols m =
     (if length vols \<ge> MAX_MOUNTS then (vols, m)
      else let (vols, m) = probe_one io count i c vols m in probe_all io count (Suc i) cs vols m)"

definition probe_list :: "('m, 'z) mount_io_scheme \<Rightarrow> string list \<Rightarrow> 'm \<Rightarrow> volume list \<times> 'm" where
  "probe_list io cs m = probe_all io (length cs) 0 cs [] m"

text \<open>The whole disk alone on a card without partitions, and the partitions if that gives nothing.\<close>

definition probe_volumes :: "('m, 'z) mount_io_scheme \<Rightarrow> 'm \<Rightarrow> volume list \<times> 'm" where
  "probe_volumes io m =
     (if whole_disk_is_superfloppy (mt_sector io m)
      then let m = log_status io ''candidates=1'' (log_status io ''superfloppy: whole disk first'' m);
               (vols, m) = probe_list io [''/dev/mmcblk0''] m
           in if vols \<noteq> [] then (vols, m)
              else let m = log_status io ''superfloppy: whole-disk probe empty; scanning partitions'' m;
                       (cs, m) = collect_candidates io MAX_CANDIDATES m
                   in probe_list io cs m
      else let (cs, m) = collect_candidates io MAX_CANDIDATES m
           in probe_list io cs (log_status io (''candidates='' @ dec_digits (length cs)) m))"

text \<open>The first volume with the highest score.\<close>

definition best_volume :: "volume list \<Rightarrow> nat" where
  "best_volume vols = fold (\<lambda>i p. if vol_score (vols ! i) > vol_score (vols ! p) then i else p) [1..<length vols] 0"

section \<open>Publishing\<close>

definition umount_public :: "('m, 'z) mount_io_scheme \<Rightarrow> string \<Rightarrow> 'm \<Rightarrow> 'm" where
  "umount_public io mp m =
     (let (ok, m) = mt_umount io m mp in if ok then log_status io (''umount ok '' @ take 32 mp) m else m)"

definition unmount_all_volumes :: "('m, 'z) mount_io_scheme \<Rightarrow> 'm \<Rightarrow> 'm" where
  "unmount_all_volumes io m =
     (let m = fold (umount_public io) (rev public_mounts) m;
          m = fold (\<lambda>i m. mt_rmdir io (snd (mt_umount io m (tmp_mount i))) (tmp_mount i)) [0..<MAX_MOUNTS] m;
          m = fold (\<lambda>p m. mt_unlink io m p) [MOUNT_MARKER, ROOTS_PATH, MAP_PATH, UNIFROG_MOUNT_POINT] m
      in log_status io ''storage released'' (mt_write io m STATUS_PATH ''card removed or unmounted''))"

text \<open>One volume moves to its public path; when the move fails it is mounted again from its device.\<close>

definition relocate_one :: "('m, 'z) mount_io_scheme \<Rightarrow> string \<Rightarrow> string \<Rightarrow> volume \<Rightarrow> 'm \<Rightarrow> volume option \<times> 'm" where
  "relocate_one io tmp dest v m =
     (let m = mt_mkdir io (snd (mt_umount io m dest)) dest;
          (moved, m) = mt_move io m tmp dest
      in if moved then (Some (v\<lparr>vol_mountpoint := dest\<rparr>), mt_rmdir io m tmp)
         else let m = mt_rmdir io (snd (mt_umount io m tmp)) tmp; (fstype, m) = try_mount_at io (vol_device v) dest m
              in case fstype of
                   Some t \<Rightarrow> (Some (v\<lparr>vol_mountpoint := dest, vol_fstype := t\<rparr>), m)
                 | None \<Rightarrow> (None, log_status io (''relocate fail '' @ take 24 (vol_device v) @ '' errno='' @ dec_digits (mt_errno io m)) m))"

text \<open>All volumes from number \<open>i\<close>, with the extra slot; \<open>None\<close> when the primary cannot be moved.\<close>

fun relocate :: "('m, 'z) mount_io_scheme \<Rightarrow> nat \<Rightarrow> nat \<Rightarrow> nat \<Rightarrow> volume list \<Rightarrow> 'm \<Rightarrow> volume list option \<times> 'm" where
  "relocate io primary i slot [] m = (Some [], m)"
| "relocate io primary i slot (v # vs) m =
     (let dest = (if i = primary then PRIMARY_MOUNT else extra_mount slot);
          (r, m) = relocate_one io (tmp_mount i) dest v m;
          slot = (if i = primary then slot else Suc slot)
      in if r = None \<and> i = primary
         then (None, unmount_all_volumes io (log_status io ''primary relocation failed; retrying'' m))
         else let (rest, m) = relocate io primary (Suc i) slot vs m
              in (map_option (\<lambda>ws. case r of Some w \<Rightarrow> w # ws | None \<Rightarrow> v\<lparr>vol_mountpoint := []\<rparr> # ws) rest, m))"

definition append_line :: "nat \<Rightarrow> string \<Rightarrow> string \<times> nat \<Rightarrow> string \<times> nat" where
  "append_line cap line b =
     (let (buf, len) = b
      in if len \<ge> cap then b
         else (take len buf @ take (cap - len - 1) line,
               if line \<noteq> [] \<and> length line < cap - len then len + length line else len))"

definition map_line :: "bool \<Rightarrow> volume \<Rightarrow> string" where
  "map_line primary v =
     take 191 (take 30 (vol_device v) @ '' '' @ take 30 (vol_mountpoint v) @ (if primary then '' primary '' else '' extra '') @
       take 14 (vol_fstype v) @ '' score='' @ dec_digits (vol_score v) @ [CHR 0x0A])"

definition root_line :: "volume \<Rightarrow> string" where
  "root_line v = take 30 (vol_mountpoint v) @ [CHR 0x0A]"

text \<open>The primary volume comes first.\<close>

definition primary_first :: "volume list \<Rightarrow> nat \<Rightarrow> volume list" where
  "primary_first vols primary = vols ! primary # map ((!) vols) (filter (\<lambda>i. i \<noteq> primary) [0..<length vols])"

definition roots_text :: "volume list \<Rightarrow> nat \<Rightarrow> string" where
  "roots_text vols primary = fst (fold (\<lambda>v. append_line 512 (root_line v)) (primary_first vols primary) ([], 0))"

definition map_text :: "volume list \<Rightarrow> nat \<Rightarrow> string" where
  "map_text vols primary =
     fst (fold (\<lambda>v. append_line 768 (map_line False v)) (tl (primary_first vols primary))
       (append_line 768 (map_line True (vols ! primary)) ([], 0)))"

definition publish_results :: "('m, 'z) mount_io_scheme \<Rightarrow> volume list \<Rightarrow> nat \<Rightarrow> 'm \<Rightarrow> 'm" where
  "publish_results io vols primary m =
     (let m = mt_write io (mt_write io m ROOTS_PATH (roots_text vols primary)) MAP_PATH (map_text vols primary);
          m = mt_write io m MOUNT_MARKER (vol_device (vols ! primary) @ [CHR 0x0A]);
          m = mt_symlink io (mt_unlink io m UNIFROG_MOUNT_POINT) PRIMARY_MOUNT UNIFROG_MOUNT_POINT
      in log_status io (''mount ok primary='' @ take 24 (vol_device (vols ! primary)) @ '' extras='' @
           dec_digits (length vols - 1) @ '' at '' @ PRIMARY_MOUNT) m)"

definition mount_all_volumes :: "('m, 'z) mount_io_scheme \<Rightarrow> u32 \<Rightarrow> 'm \<Rightarrow> (bool \<times> u32) \<times> 'm" where
  "mount_all_volumes io gen m =
     (let (vols, m) = probe_volumes io m; primary = best_volume vols
      in if vols = [] then ((False, gen), m)
         else let (moved, m) = relocate io primary 0 2 vols m
              in case moved of None \<Rightarrow> ((False, gen), m)
                 | Some ws \<Rightarrow>
                     let kept = filter (\<lambda>v. vol_mountpoint v \<noteq> []) ws;
                         new_primary = length (filter (\<lambda>v. vol_mountpoint v \<noteq> []) (take primary ws));
                         gen' = gen + 1
                     in if kept = [] \<or> vol_mountpoint (ws ! primary) = [] then ((False, gen), m)
                        else ((True, gen'), publish_results io kept new_primary
                                (mt_write io m GEN_PATH (dec_digits (unat gen') @ [CHR 0x0A]))))"

section \<open>The supervisor\<close>

definition card_present :: "('m, 'z) mount_io_scheme \<Rightarrow> 'm \<Rightarrow> bool" where
  "card_present io m = (mt_is_dir io m ''/sys/block/mmcblk0'' \<or> mt_is_block io m ''/dev/mmcblk0'')"

text \<open>Empty when nothing can be read.\<close>

definition read_card_identity :: "('m, 'z) mount_io_scheme \<Rightarrow> 'm \<Rightarrow> string" where
  "read_card_identity io m =
     (let part = (\<lambda>content limit. case content of None \<Rightarrow> [] | Some t \<Rightarrow> take limit t);
          size_buf = part (mt_read io m ''/sys/block/mmcblk0/size'') 31;
          cid_buf = part (mt_read io m ''/sys/block/mmcblk0/device/cid'') 63;
          size_text = (if size_buf = [] then [] else ''size='' @ c_string size_buf)
      in if cid_buf = [] then size_text
         else size_text @ (if size_text = [] then [] else '' '') @ ''cid='' @ take 48 (c_string cid_buf))"

definition primary_mount_alive :: "('m, 'z) mount_io_scheme \<Rightarrow> 'm \<Rightarrow> bool" where
  "primary_mount_alive io m =
     (mt_is_dir io m PRIMARY_MOUNT \<and> mt_exists io m (PRIMARY_MOUNT @ ''/.'') \<and> mt_exists io m MOUNT_MARKER)"

definition warm_ui_font :: "('m, 'z) mount_io_scheme \<Rightarrow> 'm \<Rightarrow> 'm" where
  "warm_ui_font io m =
     (case mt_read io m (PRIMARY_MOUNT @ ''/sf2000/ui.ttf'') of
        None \<Rightarrow> m
      | Some font \<Rightarrow>
          if font = [] then m
          else let kb = dec_digits (length font div 1024)
               in log_status io (''font warm '' @ replicate (3 - length kb) CHR ''0'' @ kb @ '' KB'') m)"

record supervisor =
  sv_mounted :: bool
  sv_identity :: string
  sv_generation :: u32

definition supervisor_start :: supervisor where
  "supervisor_start = \<lparr>sv_mounted = False, sv_identity = [], sv_generation = 0\<rparr>"

definition mount_attempt :: "('m, 'z) mount_io_scheme \<Rightarrow> string \<Rightarrow> supervisor \<Rightarrow> 'm \<Rightarrow> supervisor \<times> 'm" where
  "mount_attempt io identity s m =
     (let ((ok, gen), m) = mount_all_volumes io (sv_generation s) m; s = s\<lparr>sv_generation := gen\<rparr>
      in if ok then (s\<lparr>sv_mounted := True, sv_identity := take 150 identity\<rparr>, mt_sleep io (warm_ui_font io m) 1000)
         else (s, mt_sleep io (log_status io ''mount retry pending'' m) 1000))"

definition card_lost :: "('m, 'z) mount_io_scheme \<Rightarrow> string \<Rightarrow> supervisor \<Rightarrow> 'm \<Rightarrow> bool" where
  "card_lost io identity s m =
     (\<not> primary_mount_alive io m \<or> (identity \<noteq> [] \<and> sv_identity s \<noteq> [] \<and> identity \<noteq> sv_identity s))"

definition supervise :: "('m, 'z) mount_io_scheme \<Rightarrow> supervisor \<Rightarrow> 'm \<Rightarrow> supervisor \<times> 'm" where
  "supervise io s m =
     (let m = ensure_known_nodes io m
      in if \<not> card_present io m
         then if sv_mounted s
              then (s\<lparr>sv_mounted := False, sv_identity := []\<rparr>,
                    mt_sleep io (unmount_all_volumes io (log_status io ''card removed'' m)) 500)
              else (s, mt_sleep io m 500)
         else
           let identity = read_card_identity io m
           in if \<not> sv_mounted s then mount_attempt io identity s m
              else if card_lost io identity s m
              then mount_attempt io identity (s\<lparr>sv_mounted := False\<rparr>)
                     (unmount_all_volumes io (log_status io ''card changed or mount lost; remounting'' m))
              else (s, mt_sleep io m 1000))"

text \<open>One round for each change the outside makes to the machine between two rounds.\<close>

fun supervise_all :: "('m, 'z) mount_io_scheme \<Rightarrow> ('m \<Rightarrow> 'm) list \<Rightarrow> supervisor \<Rightarrow> 'm \<Rightarrow> supervisor \<times> 'm" where
  "supervise_all io [] s m = (s, m)"
| "supervise_all io (change # cs) s m = (let (s, m) = supervise io s (change m) in supervise_all io cs s m)"

definition mount_main :: "('m, 'z) mount_io_scheme \<Rightarrow> ('m \<Rightarrow> 'm) list \<Rightarrow> 'm \<Rightarrow> supervisor \<times> 'm" where
  "mount_main io changes m =
     supervise_all io changes supervisor_start
       (log_status io ''mount service start (hotplug)''
         (fold (\<lambda>p m. mt_mkdir io m p) [''/run'', ''/mnt'', PRIMARY_MOUNT, ''/media''] m))"

end
