(* ===== verification/MountTable.thy ===== *)
theory MountTable
  imports Mount "HOL-Library.Multiset"
begin

text \<open>
  What the mount supervisor relies on (the locale \<open>mount_table\<close>: a table of mounts and files that keep their text),
  an instance, and what it promises: the candidates are well-formed, the volume with the highest score is at
  \<^verbatim>\<open>/mnt/sd\<close>, every path published is mounted, and the marker is there exactly while a card is mounted.
\<close>

section \<open>Names\<close>

lemma dec_digits_inj [simp]: "dec_digits a = dec_digits b \<longleftrightarrow> a = b"
  by (metis digits_value_dec of_nat_eq_iff)

lemma dec_digits_nonempty [simp]: "dec_digits n \<noteq> []" "[] \<noteq> dec_digits n"
  using digits_value_dec [of n] by auto

lemma length_dec_digits: "n < 10 \<Longrightarrow> length (dec_digits n) = 1"
  by (simp add: dec_digits.simps [of n])

lemma mount_names [simp]:
  "tmp_mount a = tmp_mount b \<longleftrightarrow> a = b" "extra_mount a = extra_mount b \<longleftrightarrow> a = b"
  "tmp_mount a \<noteq> extra_mount b" "extra_mount b \<noteq> tmp_mount a" "tmp_mount a \<noteq> PRIMARY_MOUNT" "PRIMARY_MOUNT \<noteq> tmp_mount a"
  "extra_mount a \<noteq> PRIMARY_MOUNT" "PRIMARY_MOUNT \<noteq> extra_mount a" "extra_mount a \<noteq> []"
  by (auto simp: tmp_mount_def extra_mount_def)

section \<open>Candidates\<close>

definition device_name :: "string \<Rightarrow> bool" where
  "device_name d \<longleftrightarrow> take 12 d = ''/dev/mmcblk0'' \<and> length d \<le> 21"

lemma exchange_facts:
  assumes "i < length cs" "j < length cs"
  shows "length (exchange i j cs) = length cs" "mset (exchange i j cs) = mset cs"
  using assms by (auto simp: exchange_def mset_swap)

lemma sort_mset: "mset (sort_candidates cs) = mset cs"
proof -
  have inner: "length (fold (exchange i) js ds) = length ds \<and> mset (fold (exchange i) js ds) = mset ds"
    if "i < length ds" "\<forall>j\<in>set js. j < length ds" for i js ds
    using that by (induction js arbitrary: ds) (simp_all add: exchange_facts)
  have outer: "length (fold (\<lambda>i. fold (exchange i) [Suc i..<n]) ks ds) = length ds \<and> mset (fold (\<lambda>i. fold (exchange i) [Suc i..<n]) ks ds) = mset ds"
    if "\<forall>i\<in>set ks. i < n" "length ds = n" for n ks ds
    using that by (induction ks arbitrary: ds) (simp_all add: inner)
  have "\<forall>i\<in>set [0..<length cs - 1]. i < length cs" by auto
  from outer [OF this refl] show ?thesis by (simp add: sort_candidates_def)
qed

definition candidates_ok :: "nat \<Rightarrow> string list \<Rightarrow> bool" where
  "candidates_ok n cs \<longleftrightarrow> distinct cs \<and> length cs \<le> n \<and> list_all device_name cs"

lemma candidates_ok_sort: "candidates_ok n cs \<Longrightarrow> candidates_ok n (sort_candidates cs)"
  using sort_mset [of cs] mset_eq_imp_distinct_iff [of cs "sort_candidates cs"] mset_eq_length [of "sort_candidates cs" cs]
    mset_eq_setD [of "sort_candidates cs" cs]
  by (simp add: candidates_ok_def list_all_iff)

lemma partition_device: "is_partition_name name \<Longrightarrow> device_name (''/dev/'' @ take 16 name)"
proof -
  assume "is_partition_name name"
  then have "take 8 name = ''mmcblk0p''" by (simp add: is_partition_name_def Let_def)
  then have "take 7 (take 8 name) = take 7 ''mmcblk0p''" by (simp only:)
  then have "take 7 name = ''mmcblk0''" by (simp add: min_def)
  then show ?thesis by (simp add: device_name_def)
qed

lemma scan_ok: "candidates_ok n cs \<Longrightarrow> candidates_ok n (fst (scan_entries io n es cs m))"
proof (induction es arbitrary: cs m)
  case (Cons e es)
  then show ?case using partition_device [of e] by (auto simp: candidates_ok_def Let_def)
qed simp

lemma fallbacks_ok: "candidates_ok n cs \<Longrightarrow> candidates_ok n (add_fallbacks n cs)"
proof -
  have "candidates_ok n (fold (\<lambda>d cs. if length cs \<ge> n \<or> d \<in> set cs then cs else cs @ [d]) ds cs)"
    if "candidates_ok n cs" "list_all device_name ds" for ds cs
    using that by (induction ds arbitrary: cs) (auto simp: candidates_ok_def)
  moreover have "list_all device_name fallback_devices"
    by (simp add: fallback_devices_def device_name_def)
  ultimately show "candidates_ok n cs \<Longrightarrow> candidates_ok n (add_fallbacks n cs)"
    by (simp add: add_fallbacks_def)
qed

text \<open>
  The list of candidates is well-formed: at most as many as asked for, all different, and each one the card or one
  of its partitions with a name that fits its array, whatever the directory holds.
\<close>

theorem candidates_well_formed:
  "candidates_ok n (fst (collect_candidates io n m))"
  by (auto simp: collect_candidates_def split_def Let_def candidates_ok_def [of n "[]"]
      intro!: fallbacks_ok candidates_ok_sort scan_ok split: option.split)

section \<open>The choice of the primary\<close>

abbreviation (input) better where
  "better vols i p \<equiv> (if vol_score (vols ! i) > vol_score (vols ! p) then i else p)"

lemma best_fold:
  "p < length vols \<Longrightarrow> \<forall>k\<in>set ks. k < length vols \<Longrightarrow>
    fold (\<lambda>i p. better vols i p) ks p < length vols \<and>
    (\<forall>k\<in>insert p (set ks). vol_score (vols ! k) \<le> vol_score (vols ! fold (\<lambda>i p. better vols i p) ks p))"
proof (induction ks arbitrary: p)
  case (Cons i js)
  define p' where "p' = better vols i p"
  have "p' < length vols" using Cons.prems by (simp add: p'_def)
  from Cons.IH [OF this] Cons.prems(2)
  have ih: "fold (\<lambda>i p. better vols i p) js p' < length vols"
    "\<And>k. k \<in> insert p' (set js) \<Longrightarrow> vol_score (vols ! k) \<le> vol_score (vols ! fold (\<lambda>i p. better vols i p) js p')" by auto
  have "vol_score (vols ! p) \<le> vol_score (vols ! p')" "vol_score (vols ! i) \<le> vol_score (vols ! p')"
    by (simp_all add: p'_def)
  with ih(2) [of p'] have "vol_score (vols ! k) \<le> vol_score (vols ! fold (\<lambda>i p. better vols i p) js p')"
    if "k \<in> insert p (set (i # js))" for k
    using that ih(2) [of k] by auto
  with ih(1) show ?case by (simp add: p'_def [symmetric])
qed simp

lemma best_volume_best:
  assumes "vols \<noteq> []"
  shows "best_volume vols < length vols" "v \<in> set vols \<Longrightarrow> vol_score v \<le> vol_score (vols ! best_volume vols)"
proof -
  have b: "best_volume vols < length vols \<and> (\<forall>k\<in>insert 0 (set [1..<length vols]). vol_score (vols ! k) \<le> vol_score (vols ! best_volume vols))"
    unfolding best_volume_def using assms by (intro best_fold) auto
  then show "best_volume vols < length vols" by simp
  show "v \<in> set vols \<Longrightarrow> vol_score v \<le> vol_score (vols ! best_volume vols)"
  proof -
    assume "v \<in> set vols"
    then obtain k where "k < length vols" "v = vols ! k" by (auto simp: in_set_conv_nth)
    then show ?thesis using b by (cases k) auto
  qed
qed

section \<open>The table of mounts\<close>

text \<open>
  \<open>table\<close> maps a mount point to the device mounted there, \<open>content\<close> a path to the text of its file. A move takes the mount
  with it, unmounting always works, and nothing else touches the two.
\<close>

locale mount_table =
  fixes io :: "('m, 'z) mount_io_scheme" and table :: "'m \<Rightarrow> string \<Rightarrow> string option" and content :: "'m \<Rightarrow> string \<Rightarrow> string option"
  assumes mounts [simp]:
      "table (snd (mt_mount io m d p t opt)) = (if fst (mt_mount io m d p t opt) then (table m)(p := Some d) else table m)"
      "table (snd (mt_move io m p q)) = (if fst (mt_move io m p q) then (table m)(p := None, q := table m p) else table m)"
      "table (snd (mt_umount io m p)) = (table m)(p := None)"
    and table_keeps [simp]: "table (mt_mkdir io m p) = table m" "table (mt_rmdir io m p) = table m" "table (mt_unlink io m p) = table m"
      "table (mt_mknod io m p a b) = table m" "table (mt_symlink io m p q) = table m" "table (mt_write io m p x) = table m"
      "table (mt_kmsg io m x) = table m" "table (mt_sleep io m n) = table m"
    and files [simp]: "content (mt_write io m p x) = (content m)(p := Some x)" "content (mt_unlink io m p) = (content m)(p := None)"
    and content_keeps [simp]: "content (snd (mt_mount io m d p t opt)) = content m" "content (snd (mt_move io m p q)) = content m"
      "content (snd (mt_umount io m p)) = content m" "content (mt_mkdir io m p) = content m" "content (mt_rmdir io m p) = content m"
      "content (mt_mknod io m p a b) = content m" "content (mt_symlink io m p q) = content m" "content (mt_kmsg io m x) = content m"
      "content (mt_sleep io m n) = content m"
begin

text \<open>The marker and the list of mount points are what the others look at.\<close>

abbreviation (input) public_text where "public_text m \<equiv> (content m MOUNT_MARKER, content m ROOTS_PATH)"

lemma status [simp]: "table (log_status io x m) = table m" "public_text (log_status io x m) = public_text m"
  by (simp_all add: log_status_def)

lemmas status_text [simp] = status(2) [unfolded prod.inject, THEN conjunct1] status(2) [unfolded prod.inject, THEN conjunct2]

lemma try_types_table [simp]:
  "table (snd (try_types io d p ts m)) = (if fst (try_types io d p ts m) = None then table m else (table m)(p := Some d))"
  "content (snd (try_types io d p ts m)) MOUNT_MARKER = content m MOUNT_MARKER"
  "content (snd (try_types io d p ts m)) ROOTS_PATH = content m ROOTS_PATH"
  by (induction ts arbitrary: m) (simp_all add: split_def Let_def)

lemma try_mount [simp]:
  "table (snd (try_mount_at io d p m)) = (if fst (try_mount_at io d p m) = None then table m else (table m)(p := Some d))"
  "content (snd (try_mount_at io d p m)) MOUNT_MARKER = content m MOUNT_MARKER"
  "content (snd (try_mount_at io d p m)) ROOTS_PATH = content m ROOTS_PATH"
  by (simp_all add: try_mount_at_def)

lemma node [simp]: "table (ensure_block_node io p s a b m) = table m"
  "content (ensure_block_node io (''/dev/'' @ p) s a b m) MOUNT_MARKER = content m MOUNT_MARKER"
  "content (ensure_block_node io (''/dev/'' @ p) s a b m) ROOTS_PATH = content m ROOTS_PATH"
  by (simp_all add: ensure_block_node_def split: option.split)

lemma scan [simp]: "table (snd (scan_entries io n es cs m)) = table m"
  "content (snd (scan_entries io n es cs m)) MOUNT_MARKER = content m MOUNT_MARKER"
  "content (snd (scan_entries io n es cs m)) ROOTS_PATH = content m ROOTS_PATH"
  using node(2,3) by (induction es arbitrary: cs m) (simp_all add: Let_def)

lemma collect [simp]: "table (snd (collect_candidates io n m)) = table m"
  "content (snd (collect_candidates io n m)) MOUNT_MARKER = content m MOUNT_MARKER"
  "content (snd (collect_candidates io n m)) ROOTS_PATH = content m ROOTS_PATH"
  by (simp_all add: collect_candidates_def split_def Let_def split: option.split)

text \<open>Probing: every volume found is at its temporary mount point, and no other place is touched.\<close>

definition probed :: "volume list \<Rightarrow> 'm \<Rightarrow> bool" where
  "probed vols m \<longleftrightarrow> length vols \<le> MAX_MOUNTS \<and> (\<forall>i<length vols. table m (tmp_mount i) = Some (vol_device (vols ! i)))"

definition outside :: "'m \<Rightarrow> 'm \<Rightarrow> bool" where
  "outside m m' \<longleftrightarrow> public_text m' = public_text m \<and> (\<forall>q. (\<forall>n. q \<noteq> tmp_mount n) \<longrightarrow> table m' q = table m q)"

lemma outside_refl [simp]: "outside m m"
  by (simp add: outside_def)

lemma outside_trans [trans]: "outside m1 m2 \<Longrightarrow> outside m2 m3 \<Longrightarrow> outside m1 m3"
  by (simp add: outside_def)

lemma probe_step:
  assumes "probed vols m" "length vols < MAX_MOUNTS" "probe_one io k i c vols m = (vols', m')"
  shows "probed vols' m' \<and> outside m m'"
  using assms by (auto simp: probe_one_def split_def Let_def probed_def outside_def nth_append less_Suc_eq split: option.splits if_splits)

lemma probe_loop: "probed vols m \<Longrightarrow> probe_all io k i cs vols m = (vols', m') \<Longrightarrow> probed vols' m' \<and> outside m m'"
proof (induction cs arbitrary: i vols m)
  case (Cons c cs)
  show ?case
  proof (cases "length vols \<ge> MAX_MOUNTS")
    case False
    obtain vols1 m1 where p: "probe_one io k i c vols m = (vols1, m1)" by fastforce
    have "probed vols1 m1 \<and> outside m m1" using probe_step [OF Cons.prems(1) _ p] False by simp
    then show ?thesis using Cons.IH [of vols1 m1 "Suc i"] Cons.prems(2) p False outside_trans by auto
  qed (use Cons.prems in simp)
qed simp

lemma probe_list: "probe_list io cs m = (vols, m') \<Longrightarrow> probed vols m' \<and> outside m m'"
  unfolding probe_list_def by (rule probe_loop) (auto simp: probed_def)

lemma probe_volumes:
  assumes "probe_volumes io m = (vols, m')"
  shows "probed vols m' \<and> outside m m'"
proof -
  have o: "outside m (log_status io x m)" "outside m (snd (collect_candidates io n m))" for x n m by (simp_all add: outside_def)
  show ?thesis
  proof (cases "whole_disk_is_superfloppy (mt_sector io m)")
    case False
    define cs where "cs = fst (collect_candidates io MAX_CANDIDATES m)"
    define m1 where "m1 = log_status io (''candidates='' @ dec_digits (length cs)) (snd (collect_candidates io MAX_CANDIDATES m))"
    have "probe_list io cs m1 = (vols, m')"
      using assms False by (simp add: probe_volumes_def split_def Let_def cs_def m1_def)
    moreover have "outside m m1" using o outside_trans unfolding m1_def by blast
    ultimately show ?thesis using probe_list outside_trans by blast
  next
    case True
    define m1 where "m1 = log_status io ''candidates=1'' (log_status io ''superfloppy: whole disk first'' m)"
    obtain v2 m2 where p: "probe_list io [''/dev/mmcblk0''] m1 = (v2, m2)" by fastforce
    have m2: "probed v2 m2" "outside m m2" using probe_list [OF p] o outside_trans unfolding m1_def by blast+
    show ?thesis
    proof (cases "v2 = []")
      case False
      then show ?thesis using assms True m2 p by (simp add: probe_volumes_def m1_def)
    next
      case empty: True
      define m3 where "m3 = snd (collect_candidates io MAX_CANDIDATES
        (log_status io ''superfloppy: whole-disk probe empty; scanning partitions'' m2))"
      have "outside m m3" using m2(2) o outside_trans unfolding m3_def by blast
      moreover have "probe_list io (fst (collect_candidates io MAX_CANDIDATES
        (log_status io ''superfloppy: whole-disk probe empty; scanning partitions'' m2))) m3 = (vols, m')"
        using assms True p empty by (simp add: probe_volumes_def m1_def m3_def split_def Let_def)
      ultimately show ?thesis using probe_list outside_trans by blast
    qed
  qed
qed

text \<open>Unmounting clears all public places.\<close>

lemma umount_fold: "table (fold (umount_public io) ps m) = (\<lambda>q. if q \<in> set ps then None else table m q)"
    "content (fold (umount_public io) ps m) ROOTS_PATH = content m ROOTS_PATH"
  by (induction ps arbitrary: m) (auto simp: umount_public_def split_def Let_def fun_eq_iff)

lemma umount_tmps:
  "table (fold (\<lambda>i m. mt_rmdir io (snd (mt_umount io m (tmp_mount i))) (tmp_mount i)) is m) =
     (\<lambda>q. if \<exists>i\<in>set is. q = tmp_mount i then None else table m q)"
  by (induction "is" arbitrary: m) (auto simp: fun_eq_iff)

lemma released:
  "q \<in> set public_mounts \<Longrightarrow> table (unmount_all_volumes io m) q = None"
  "content (unmount_all_volumes io m) MOUNT_MARKER = None"
proof -
  have u: "table (fold (\<lambda>p m. mt_unlink io m p) ps m) = table m" for ps m by (induction ps arbitrary: m) simp_all
  show "q \<in> set public_mounts \<Longrightarrow> table (unmount_all_volumes io m) q = None"
    by (simp add: unmount_all_volumes_def Let_def u umount_fold(1) umount_tmps del: fold.simps)
  show "content (unmount_all_volumes io m) MOUNT_MARKER = None"
    by (simp add: unmount_all_volumes_def Let_def)
qed

text \<open>Moving one volume touches its two places only.\<close>

lemma relocate_one:
  assumes "tmp \<noteq> dest" "table m tmp = Some (vol_device v)" "relocate_one io tmp dest v m = (r, m')"
  shows "content m' MOUNT_MARKER = content m MOUNT_MARKER" "content m' ROOTS_PATH = content m ROOTS_PATH"
    and "case r of Some w \<Rightarrow> vol_device w = vol_device v \<and> vol_mountpoint w = dest \<and> table m' = (table m)(tmp := None, dest := Some (vol_device v))
      | None \<Rightarrow> table m' = (table m)(tmp := None, dest := None)"
  using assms by (auto simp: relocate_one_def split_def Let_def fun_eq_iff split: if_splits option.splits)

end

text \<open>Where volume \<open>i + j\<close> goes when the relocation starts at \<open>i\<close> with a free slot.\<close>

definition place :: "nat \<Rightarrow> nat \<Rightarrow> nat \<Rightarrow> nat \<Rightarrow> string" where
  "place primary i slot j =
     (if i + j = primary then PRIMARY_MOUNT
      else extra_mount (slot + j - (if i \<le> primary \<and> primary < i + j then 1 else 0)))"

lemma place_0: "place primary i slot 0 = (if i = primary then PRIMARY_MOUNT else extra_mount slot)"
  by (simp add: place_def)

lemma place_Suc: "place primary (Suc i) (if i = primary then slot else Suc slot) j = place primary i slot (Suc j)"
  by (auto simp: place_def)

lemma place_inj: "place primary i slot j = place primary i slot k \<Longrightarrow> j = k"
  by (auto simp: place_def split: if_splits)

lemma place_tmp [simp]: "tmp_mount n \<noteq> place primary i slot j" "place primary i slot j \<noteq> tmp_mount n" "place primary i slot j \<noteq> []"
  by (simp_all add: place_def)

lemma public_extra: "public_mounts = PRIMARY_MOUNT # map extra_mount [2..<9]"
  by code_simp

lemma place_public:
  assumes "primary < n" "n \<le> 8" "j < n"
  shows "place primary 0 2 j \<in> set public_mounts"
  using assms by (auto simp: place_def public_extra)

context mount_table
begin

definition moved :: "nat \<Rightarrow> nat \<Rightarrow> nat \<Rightarrow> volume list \<Rightarrow> volume list \<Rightarrow> 'm \<Rightarrow> 'm \<Rightarrow> bool" where
  "moved primary i slot vs ws m m' \<longleftrightarrow>
     length ws = length vs \<and> public_text m' = public_text m \<and>
     (\<forall>j<length vs. vol_device (ws ! j) = vol_device (vs ! j) \<and>
       (if vol_mountpoint (ws ! j) = [] then i + j \<noteq> primary
        else vol_mountpoint (ws ! j) = place primary i slot j \<and> table m' (place primary i slot j) = Some (vol_device (vs ! j)))) \<and>
     (\<forall>q. (\<forall>n. q \<noteq> tmp_mount n) \<and> (\<forall>j<length vs. q \<noteq> place primary i slot j) \<longrightarrow> table m' q = table m q)"

lemma relocate_moved:
  "relocate io primary i slot vs m = (Some ws, m') \<Longrightarrow> \<forall>j<length vs. table m (tmp_mount (i + j)) = Some (vol_device (vs ! j)) \<Longrightarrow>
    moved primary i slot vs ws m m'"
proof (induction vs arbitrary: i slot m ws m')
  case Nil
  then show ?case by (simp add: moved_def)
next
  case (Cons v vs)
  define dest where "dest = place primary i slot 0"
  define slot' where "slot' = (if i = primary then slot else Suc slot)"
  obtain r m1 where one: "relocate_one io (tmp_mount i) dest v m = (r, m1)" by fastforce
  obtain rest m2 where more: "relocate io primary (Suc i) slot' vs m1 = (rest, m2)" by fastforce
  define w where "w = (case r of Some w \<Rightarrow> w | None \<Rightarrow> v\<lparr>vol_mountpoint := []\<rparr>)"
  have eq: "\<not> (r = None \<and> i = primary)" "rest \<noteq> None" "ws = w # the rest" "m' = m2"
    using Cons.prems(1) one more
    by (auto simp: dest_def place_0 slot'_def w_def Let_def split_def split: if_splits option.splits)
  have ne: "tmp_mount i \<noteq> dest" by (simp add: dest_def)
  have tmp: "table m (tmp_mount i) = Some (vol_device v)" using Cons.prems(2) by force
  note facts = relocate_one [OF ne tmp one]
  have IH: "moved primary (Suc i) slot' vs (the rest) m1 m2"
  proof (rule Cons.IH)
    show "relocate io primary (Suc i) slot' vs m1 = (Some (the rest), m2)" using more eq(2) by simp
    show "\<forall>j<length vs. table m1 (tmp_mount (Suc i + j)) = Some (vol_device (vs ! j))"
    proof (intro allI impI)
      fix j assume "j < length vs"
      then have "table m (tmp_mount (Suc (i + j))) = Some (vol_device (vs ! j))" using Cons.prems(2) [rule_format, of "Suc j"] by simp
      then show "table m1 (tmp_mount (Suc i + j)) = Some (vol_device (vs ! j))"
        using facts(3) by (auto simp: dest_def split: option.splits)
    qed
  qed
  have pl: "place primary (Suc i) slot' j = place primary i slot (Suc j)" for j by (simp add: slot'_def place_Suc)
  have dest: "dest \<noteq> place primary i slot (Suc j)" for j using place_inj [of primary i slot 0 "Suc j"] by (auto simp: dest_def)
  have keep: "table m2 dest = table m1 dest" using IH dest by (auto simp: moved_def pl) (auto simp: dest_def)
  have first: "vol_device w = vol_device v \<and> (if vol_mountpoint w = [] then i \<noteq> primary
      else vol_mountpoint w = dest \<and> table m2 dest = Some (vol_device v))"
    using facts(3) eq(1) keep by (auto simp: w_def dest_def split: option.splits)
  have frame: "table m2 q = table m q" if "\<forall>n. q \<noteq> tmp_mount n" "\<forall>j<length (v # vs). q \<noteq> place primary i slot j" for q
  proof -
    have "table m2 q = table m1 q" using IH that by (auto simp: moved_def pl)
    moreover have "q \<noteq> dest" using that(2) by (auto simp: dest_def)
    ultimately show ?thesis using that facts(3) by (auto split: option.splits)
  qed
  show ?case
    unfolding moved_def eq(3,4)
  proof (intro conjI allI impI)
    fix j assume j: "j < length (v # vs)"
    have "vol_device ((w # the rest) ! j) = vol_device ((v # vs) ! j) \<and>
      (if vol_mountpoint ((w # the rest) ! j) = [] then i + j \<noteq> primary
       else vol_mountpoint ((w # the rest) ! j) = place primary i slot j \<and>
         table m2 (place primary i slot j) = Some (vol_device ((v # vs) ! j)))"
    proof (cases j)
      case 0
      then show ?thesis using first by (auto simp: dest_def split: if_splits)
    next
      case (Suc k)
      then have "vol_device (the rest ! k) = vol_device (vs ! k) \<and>
        (if vol_mountpoint (the rest ! k) = [] then Suc i + k \<noteq> primary
         else vol_mountpoint (the rest ! k) = place primary (Suc i) slot' k \<and>
           table m2 (place primary (Suc i) slot' k) = Some (vol_device (vs ! k)))"
        using j IH [unfolded moved_def, THEN conjunct2, THEN conjunct2, THEN conjunct1, rule_format, of k]
        by (auto split: if_splits)
      then show ?thesis by (auto simp: Suc pl split: if_splits)
    qed
    then show "vol_device ((w # the rest) ! j) = vol_device ((v # vs) ! j)"
      "if vol_mountpoint ((w # the rest) ! j) = [] then i + j \<noteq> primary
       else vol_mountpoint ((w # the rest) ! j) = place primary i slot j \<and>
         table m2 (place primary i slot j) = Some (vol_device ((v # vs) ! j))" by blast+
  qed (use IH facts(1,2) frame in \<open>simp_all add: moved_def\<close>)
qed

end

section \<open>The lists published\<close>

lemma append_lines:
  assumes "\<forall>v\<in>set vs. f v \<noteq> []" "length buf + length (concat (map f vs)) < cap"
  shows "fold (\<lambda>v. append_line cap (f v)) vs (buf, length buf) = (buf @ concat (map f vs), length (buf @ concat (map f vs)))"
  using assms
proof (induction vs arbitrary: buf)
  case (Cons v vs)
  then have "append_line cap (f v) (buf, length buf) = (buf @ f v, length (buf @ f v))"
    by (simp add: append_line_def)
  then show ?case using Cons.IH [of "buf @ f v"] Cons.prems by simp
qed simp

lemma nth_filtered:
  "n < length xs \<Longrightarrow> P (xs ! n) \<Longrightarrow> filter P xs ! length (filter P (take n xs)) = xs ! n \<and> length (filter P (take n xs)) < length (filter P xs)"
proof -
  assume n: "n < length xs" "P (xs ! n)"
  have "filter P xs = filter P (take n xs) @ xs ! n # filter P (drop (Suc n) xs)"
    using n id_take_nth_drop [of n xs] by (metis filter.simps(2) filter_append)
  then show ?thesis by (simp add: nth_append)
qed

lemma primary_first_set: "p < length vs \<Longrightarrow> set (primary_first vs p) = set vs"
  by (auto simp: primary_first_def in_set_conv_nth)

lemma primary_first_distinct: "p < length vs \<Longrightarrow> distinct (map f vs) \<Longrightarrow> distinct (map f (primary_first vs p))"
proof -
  assume p: "p < length vs" and d: "distinct (map f vs)"
  have inj: "inj_on (\<lambda>i. f (vs ! i)) {..<length vs}"
    using d by (auto simp: inj_on_def distinct_conv_nth)
  have "distinct (map (\<lambda>i. f (vs ! i)) (p # filter (\<lambda>i. i \<noteq> p) [0..<length vs]))"
    unfolding distinct_map by (rule conjI [OF _ inj_on_subset [OF inj]]) (use p in auto)
  then show ?thesis by (simp add: primary_first_def comp_def)
qed

lemma length_concat_le: "\<forall>x\<in>set xs. length (f x) \<le> k \<Longrightarrow> length (concat (map f xs)) \<le> k * length xs"
  by (induction xs) auto

lemma public_lengths: "p \<in> set public_mounts \<Longrightarrow> length p \<le> 8"
  by (auto simp: public_mounts_def)

lemma length_primary_first: "p < length vs \<Longrightarrow> length (primary_first vs p) = length vs"
proof -
  assume p: "p < length vs"
  have "length (filter (\<lambda>i. i \<noteq> p) [0..<length vs]) = card ({0..<length vs} - {p})"
    by (subst distinct_length_filter) (auto intro: arg_cong [of _ _ card])
  then show ?thesis using p by (simp add: primary_first_def)
qed

lemma roots_listed:
  assumes "p < length vs" "length vs \<le> 8" "\<forall>v\<in>set vs. vol_mountpoint v \<in> set public_mounts"
  shows "roots_text vs p = concat (map (\<lambda>v. vol_mountpoint v @ [CHR 0x0A]) (primary_first vs p))"
proof -
  have line: "root_line v = vol_mountpoint v @ [CHR 0x0A]" "length (root_line v) \<le> 9" if "v \<in> set (primary_first vs p)" for v
    using that assms(3) public_lengths [of "vol_mountpoint v"] by (simp_all add: root_line_def primary_first_set [OF assms(1)])
  then have "length (concat (map root_line (primary_first vs p))) \<le> 9 * 8"
    using length_concat_le [of "primary_first vs p" root_line 9] assms(2) length_primary_first [OF assms(1)] by auto
  then have "roots_text vs p = concat (map root_line (primary_first vs p))"
    using append_lines [of "primary_first vs p" root_line "[]" 512] by (simp add: roots_text_def root_line_def)
  also have "map root_line (primary_first vs p) = map (\<lambda>v. vol_mountpoint v @ [CHR 0x0A]) (primary_first vs p)"
    using line(1) by simp
  finally show ?thesis .
qed

section \<open>Properties\<close>

context mount_table
begin

lemma moved_distinct:
  assumes "moved primary i slot vs ws m m'"
  shows "distinct (map vol_mountpoint (filter (\<lambda>v. vol_mountpoint v \<noteq> []) ws))"
proof -
  define ks where "ks = filter (\<lambda>j. vol_mountpoint (ws ! j) \<noteq> []) [0..<length ws]"
  have pl: "vol_mountpoint (ws ! j) = place primary i slot j" if "j \<in> set ks" for j
    using assms that by (auto simp: moved_def ks_def split: if_splits)
  have "inj_on (\<lambda>j. vol_mountpoint (ws ! j)) (set ks)"
    by (rule inj_onI) (metis pl place_inj)
  then have "distinct (map (\<lambda>j. vol_mountpoint (ws ! j)) ks)" by (simp add: distinct_map ks_def)
  moreover have "map (\<lambda>j. vol_mountpoint (ws ! j)) ks = map vol_mountpoint (filter (\<lambda>v. vol_mountpoint v \<noteq> []) (map ((!) ws) [0..<length ws]))"
    by (simp add: filter_map comp_def ks_def)
  ultimately show ?thesis by (simp add: map_nth)
qed

lemma mount_all:
  assumes "mount_all_volumes io gen m = ((True, gen'), m')" "probe_volumes io m = (vols, m1)"
  shows "table m' PRIMARY_MOUNT = Some (vol_device (vols ! best_volume vols)) \<and> vols \<noteq> [] \<and>
    content m' MOUNT_MARKER = Some (vol_device (vols ! best_volume vols) @ [CHR 0x0A]) \<and>
    (\<exists>mps. content m' ROOTS_PATH = Some (concat (map (\<lambda>p. p @ [CHR 0x0A]) mps)) \<and> mps \<noteq> [] \<and> hd mps = PRIMARY_MOUNT \<and>
      distinct mps \<and> set mps \<subseteq> set public_mounts \<and> (\<forall>p\<in>set mps. \<exists>v\<in>set vols. table m' p = Some (vol_device v)))"
proof -
  define primary where "primary = best_volume vols"
  obtain r m2 where rel: "relocate io primary 0 2 vols m1 = (r, m2)" by fastforce
  have ne: "vols \<noteq> []" using assms by (auto simp: mount_all_volumes_def split: if_splits)
  then obtain ws where ws: "r = Some ws" using assms rel by (auto simp: mount_all_volumes_def primary_def Let_def split: option.splits)
  have pr: "probed vols m1" using probe_volumes [OF assms(2)] by simp
  have lt: "primary < length vols" "length vols \<le> 8" using best_volume_best(1) [OF ne] pr by (simp_all add: primary_def probed_def)
  have mv: "moved primary 0 2 vols ws m1 m2"
    using relocate_moved [OF rel [unfolded ws]] pr by (simp add: probed_def)
  define kept where "kept = filter (\<lambda>v. vol_mountpoint v \<noteq> []) ws"
  define new_primary where "new_primary = length (filter (\<lambda>v. vol_mountpoint v \<noteq> []) (take primary ws))"
  have wsj: "vol_device (ws ! j) = vol_device (vols ! j)" "vol_mountpoint (ws ! j) = [] \<Longrightarrow> j \<noteq> primary"
    "vol_mountpoint (ws ! j) \<noteq> [] \<Longrightarrow> vol_mountpoint (ws ! j) = place primary 0 2 j \<and> table m2 (place primary 0 2 j) = Some (vol_device (vols ! j))"
    if "j < length vols" for j
    using mv that by (auto simp: moved_def split: if_splits)
  have len: "length ws = length vols" using mv by (simp add: moved_def)
  have mp: "vol_mountpoint (ws ! primary) = PRIMARY_MOUNT"
    using wsj(2,3) [OF lt(1)] by (auto simp: place_def)
  have np: "kept ! new_primary = ws ! primary \<and> new_primary < length kept"
    unfolding kept_def new_primary_def by (rule nth_filtered) (use len lt mp in auto)
  have m': "m' = publish_results io kept new_primary (mt_write io m2 GEN_PATH (dec_digits (unat (gen + 1)) @ [CHR 0x0A]))"
    using assms rel ws ne by (auto simp: mount_all_volumes_def primary_def kept_def new_primary_def Let_def split: if_splits)
  have tab: "table m' = table m2" by (simp add: m' publish_results_def Let_def)
  have places: "vol_mountpoint v \<in> set public_mounts \<and> (\<exists>u\<in>set vols. table m2 (vol_mountpoint v) = Some (vol_device u))" if v: "v \<in> set kept" for v
  proof -
    obtain j where j: "j < length vols" "v = ws ! j" "vol_mountpoint v \<noteq> []" using v len by (auto simp: kept_def in_set_conv_nth)
    then show ?thesis using wsj(3) [OF j(1)] place_public [OF lt j(1)] by (auto intro!: bexI [of _ "vols ! j"])
  qed
  have dist: "distinct (map vol_mountpoint kept)" unfolding kept_def by (rule moved_distinct [OF mv])
  define mps where "mps = map vol_mountpoint (primary_first kept new_primary)"
  have lk: "length kept \<le> 8" using lt(2) len length_filter_le [of _ ws] unfolding kept_def by (metis le_trans)
  have first: "primary_first kept new_primary = ws ! primary # map ((!) kept) (filter (\<lambda>i. i \<noteq> new_primary) [0..<length kept])"
    using np by (simp add: primary_first_def)
  have "roots_text kept new_primary = concat (map (\<lambda>p. p @ [CHR 0x0A]) mps)"
    using roots_listed [of new_primary kept] np lk places by (auto simp: mps_def comp_def)
  then have "content m' ROOTS_PATH = Some (concat (map (\<lambda>p. p @ [CHR 0x0A]) mps))"
    by (simp add: m' publish_results_def Let_def)
  moreover have "content m' MOUNT_MARKER = Some (vol_device (vols ! primary) @ [CHR 0x0A])"
    using wsj(1) [OF lt(1)] np by (simp add: m' publish_results_def Let_def)
  moreover have "table m' PRIMARY_MOUNT = Some (vol_device (vols ! primary))"
    using wsj(3) [OF lt(1)] mp by (simp add: tab place_def)
  moreover have "mps \<noteq> [] \<and> hd mps = PRIMARY_MOUNT" by (simp add: mps_def first mp)
  moreover have "distinct mps" unfolding mps_def using primary_first_distinct np dist by blast
  moreover have "set mps \<subseteq> set public_mounts \<and> (\<forall>p\<in>set mps. \<exists>v\<in>set vols. table m' p = Some (vol_device v))"
    using places np by (auto simp: mps_def primary_first_set tab)
  ultimately show ?thesis using ne unfolding primary_def by blast
qed

lemma relocate_gives_up: "relocate io primary i slot vs m = (None, m') \<Longrightarrow> \<exists>m0. m' = unmount_all_volumes io m0"
proof (induction vs arbitrary: i slot m)
  case (Cons v vs)
  obtain r m1 where r: "relocate_one io (tmp_mount i) (if i = primary then PRIMARY_MOUNT else extra_mount slot) v m = (r, m1)" by fastforce
  show ?case
  proof (cases "r = None \<and> i = primary")
    case True
    then show ?thesis using Cons.prems r by (auto simp: Let_def)
  next
    case False
    obtain rest m2 where more: "relocate io primary (Suc i) (if i = primary then slot else Suc slot) vs m1 = (rest, m2)" by fastforce
    then have "rest = None" "m2 = m'" using Cons.prems r False by (auto simp: Let_def split: if_splits)
    then show ?thesis using Cons.IH more by blast
  qed
qed simp

abbreviation (input) unmounted where "unmounted m \<equiv> \<forall>p\<in>set public_mounts. table m p = None"

lemma public_not_tmp: "p \<in> set public_mounts \<Longrightarrow> p \<noteq> tmp_mount n"
  by (auto simp: public_extra)

lemma mount_all_fails:
  assumes "mount_all_volumes io gen m = ((False, gen'), m')" "content m MOUNT_MARKER = None" "unmounted m"
  shows "content m' MOUNT_MARKER = None \<and> unmounted m'"
proof -
  obtain vols m1 where pv: "probe_volumes io m = (vols, m1)" by fastforce
  obtain r m2 where rel: "relocate io (best_volume vols) 0 2 vols m1 = (r, m2)" by fastforce
  have pr: "probed vols m1" "outside m m1" using probe_volumes [OF pv] by simp_all
  show ?thesis
  proof (cases "vols = []")
    case True
    then have "m' = m1" using assms(1) pv by (simp add: mount_all_volumes_def)
    then show ?thesis using pr(2) assms(2,3) public_not_tmp by (auto simp: outside_def)
  next
    case ne: False
    show ?thesis
    proof (cases r)
      case None
      then have "m' = m2" using assms(1) pv rel ne by (simp add: mount_all_volumes_def Let_def)
      moreover obtain m0 where "m2 = unmount_all_volumes io m0" using relocate_gives_up rel None by blast
      ultimately show ?thesis using released by simp
    next
      case (Some ws)
      have lt: "best_volume vols < length vols" using best_volume_best(1) [OF ne] .
      have "moved (best_volume vols) 0 2 vols ws m1 m2" using relocate_moved [OF rel [unfolded Some]] pr by (simp add: probed_def)
      then have "vol_mountpoint (ws ! best_volume vols) \<noteq> []" "length ws = length vols" using lt by (auto simp: moved_def split: if_splits)
      moreover from this have "filter (\<lambda>v. vol_mountpoint v \<noteq> []) ws \<noteq> []" using lt by (auto simp: filter_empty_conv dest: nth_mem)
      ultimately have False using assms(1) pv rel ne Some by (auto simp: mount_all_volumes_def Let_def split: if_splits)
      then show ?thesis ..
    qed
  qed
qed

lemma known_nodes [simp]: "table (ensure_known_nodes io m) = table m"
  "content (ensure_known_nodes io m) MOUNT_MARKER = content m MOUNT_MARKER"
proof -
  have other: "content (ensure_block_node io p s a b m) q = content m q" if "p \<noteq> q" for p s a b q m
    using that by (simp add: ensure_block_node_def split: option.split)
  have fold: "table (fold (\<lambda>i. ensure_block_node io (f i) (g i) (h i) True) ks m) = table m"
    "\<forall>i. f i \<noteq> q \<Longrightarrow> content (fold (\<lambda>i. ensure_block_node io (f i) (g i) (h i) True) ks m) q = content m q" for f g h ks q m
    by (induction ks arbitrary: m) (simp_all add: other)
  show "table (ensure_known_nodes io m) = table m" by (simp add: ensure_known_nodes_def fold(1) del: fold.simps upt_Suc)
  show "content (ensure_known_nodes io m) MOUNT_MARKER = content m MOUNT_MARKER"
    unfolding ensure_known_nodes_def by (subst fold(2)) (simp_all add: other)
qed

definition follows :: "supervisor \<Rightarrow> 'm \<Rightarrow> bool" where
  "follows s m \<longleftrightarrow> (content m MOUNT_MARKER \<noteq> None \<longleftrightarrow> sv_mounted s) \<and> (\<not> sv_mounted s \<longrightarrow> unmounted m)"

lemma attempt_follows:
  assumes "content m MOUNT_MARKER = None" "unmounted m" "\<not> sv_mounted s"
  shows "follows (fst (mount_attempt io identity s m)) (snd (mount_attempt io identity s m))"
proof -
  obtain ok gen m' where a: "mount_all_volumes io (sv_generation s) m = ((ok, gen), m')" by (metis prod.exhaust)
  obtain vols m1 where pv: "probe_volumes io m = (vols, m1)" by fastforce
  have warm: "table (warm_ui_font io x) = table x \<and> content (warm_ui_font io x) MOUNT_MARKER = content x MOUNT_MARKER" for x
    by (simp add: warm_ui_font_def Let_def split: option.split)
  show ?thesis
  proof (cases ok)
    case True
    then show ?thesis using mount_all [OF _ pv, of "sv_generation s" gen m'] a by (simp add: mount_attempt_def follows_def warm)
  next
    case False
    then show ?thesis using mount_all_fails [of "sv_generation s" m gen m'] a assms by (simp add: mount_attempt_def follows_def)
  qed
qed

lemma supervise_follows: "follows s m \<Longrightarrow> follows (fst (supervise io s m)) (snd (supervise io s m))"
proof -
  assume f: "follows s m"
  have known: "follows s (ensure_known_nodes io m)" using f by (simp add: follows_def)
  show ?thesis
    using known attempt_follows released
    by (auto simp: supervise_def Let_def follows_def [of s] follows_def [of "s\<lparr>sv_mounted := False, sv_identity := []\<rparr>"])
qed

lemma supervise_all_follows:
  assumes "\<forall>c\<in>set changes. \<forall>m. content (c m) MOUNT_MARKER = content m MOUNT_MARKER \<and> (unmounted m \<longrightarrow> unmounted (c m))"
    and "follows s m"
  shows "follows (fst (supervise_all io changes s m)) (snd (supervise_all io changes s m))"
  using assms
proof (induction changes arbitrary: s m)
  case (Cons c cs)
  then have "follows s (c m)" by (simp add: follows_def)
  from supervise_follows [OF this] Cons show ?case by (simp add: split_def Let_def)
qed simp

lemma main_follows:
  assumes "\<forall>c\<in>set changes. \<forall>m. content (c m) MOUNT_MARKER = content m MOUNT_MARKER \<and> (unmounted m \<longrightarrow> unmounted (c m))"
    and "content m MOUNT_MARKER = None" "unmounted m"
  shows "follows (fst (mount_main io changes m)) (snd (mount_main io changes m))"
  unfolding mount_main_def
  by (rule supervise_all_follows [OF assms(1)]) (use assms(2,3) in \<open>simp add: follows_def supervisor_start_def\<close>)

end

section \<open>A card\<close>

text \<open>
  A machine for the locale and the examples: the mounts, the files written, the block devices with a FAT file system,
  the paths that exist, and whether a mount can be moved.
\<close>

definition forget :: "string \<Rightarrow> (string \<times> string) list \<Rightarrow> (string \<times> string) list" where
  "forget p = filter (\<lambda>x. fst x \<noteq> p)"

lemma map_of_forget [simp]: "map_of (forget p xs) = (map_of xs)(p := None)"
  by (induction xs) (auto simp: forget_def fun_eq_iff)

record card_box =
  cb_table :: "(string \<times> string) list"
  cb_files :: "(string \<times> string) list"
  cb_devices :: "string list"
  cb_paths :: "string list"
  cb_moves :: bool

definition box_mount :: "card_box mount_io" where
  "box_mount = \<lparr>mt_is_block = (\<lambda>b p. p \<in> set (cb_devices b)), mt_is_dir = (\<lambda>b p. p \<in> set (cb_paths b)),
     mt_exists = (\<lambda>b p. p \<in> set (cb_paths b) \<or> map_of (cb_files b) p \<noteq> None), mt_read = (\<lambda>b p. map_of (cb_files b) p), mt_list = (\<lambda>b p. None),
     mt_sector = (\<lambda>b. None), mt_errno = (\<lambda>b. 22),
     mt_mount = (\<lambda>b d p t opt. if d \<in> set (cb_devices b) \<and> t = ''vfat'' then (True, b\<lparr>cb_table := (p, d) # forget p (cb_table b)\<rparr>) else (False, b)),
     mt_move = (\<lambda>b p q. if cb_moves b then (True, b\<lparr>cb_table := (case map_of (cb_table b) p of None \<Rightarrow> [] | Some d \<Rightarrow> [(q, d)]) @ forget q (forget p (cb_table b))\<rparr>) else (False, b)),
     mt_umount = (\<lambda>b p. (map_of (cb_table b) p \<noteq> None, b\<lparr>cb_table := forget p (cb_table b)\<rparr>)),
     mt_mkdir = (\<lambda>b p. b), mt_rmdir = (\<lambda>b p. b), mt_unlink = (\<lambda>b p. b\<lparr>cb_files := forget p (cb_files b)\<rparr>),
     mt_mknod = (\<lambda>b p i j. b), mt_symlink = (\<lambda>b p q. b), mt_write = (\<lambda>b p x. b\<lparr>cb_files := (p, x) # forget p (cb_files b)\<rparr>),
     mt_kmsg = (\<lambda>b x. b), mt_sleep = (\<lambda>b n. b)\<rparr>"

interpretation card_table: mount_table box_mount "\<lambda>b. map_of (cb_table b)" "\<lambda>b. map_of (cb_files b)"
  by unfold_locales (auto simp: box_mount_def fun_eq_iff split: option.splits)

text \<open>Two partitions: ROMs on the first, the BIOS on the second.\<close>

definition demo_card_box :: card_box where
  "demo_card_box = \<lparr>cb_table = [], cb_files = [], cb_devices = [''/dev/mmcblk0p1'', ''/dev/mmcblk0p2''],
     cb_paths = [''/mnt/.sf2000-vol0/ROMS'', ''/mnt/.sf2000-vol1/bios''], cb_moves = True\<rparr>"

lemma demo_mounts: "fst (mount_all_volumes box_mount 0 demo_card_box) = (True, 1)"
  by code_simp

section \<open>Properties\<close>

text \<open>
  C37. A successful mount publishes the truth: the volume with the highest score is at /mnt/sd and named in the marker,
  and the list of roots has /mnt/sd first, no path twice, only public paths, each with one of the volumes mounted there.
\<close>

theorem published_roots_are_mounted:
  assumes "mount_table io table content"
    and "mount_all_volumes io gen m = ((True, gen'), m')" "probe_volumes io m = (vols, m1)"
  shows "\<exists>best mps. best \<in> set vols \<and> (\<forall>v\<in>set vols. vol_score v \<le> vol_score best) \<and>
    table m' PRIMARY_MOUNT = Some (vol_device best) \<and> content m' MOUNT_MARKER = Some (vol_device best @ [CHR 0x0A]) \<and>
    content m' ROOTS_PATH = Some (concat (map (\<lambda>p. p @ [CHR 0x0A]) (PRIMARY_MOUNT # mps))) \<and>
    distinct (PRIMARY_MOUNT # mps) \<and> set mps \<subseteq> set public_mounts \<and> (\<forall>p\<in>set mps. \<exists>v\<in>set vols. table m' p = Some (vol_device v))"
proof -
  note all = mount_table.mount_all [OF assms]
  then have ne: "vols \<noteq> []" by simp
  obtain mps where mps: "content m' ROOTS_PATH = Some (concat (map (\<lambda>p. p @ [CHR 0x0A]) mps))" "mps \<noteq> []" "hd mps = PRIMARY_MOUNT"
      "distinct mps" "set mps \<subseteq> set public_mounts" "\<forall>p\<in>set mps. \<exists>v\<in>set vols. table m' p = Some (vol_device v)"
    using all by blast
  then have "mps = PRIMARY_MOUNT # tl mps" by (metis list.collapse)
  then show ?thesis using all mps best_volume_best [OF ne]
    by (intro exI [of _ "vols ! best_volume vols"] exI [of _ "tl mps"]) (auto dest: list.set_sel(2))
qed

theorem published_roots_are_mounted_witness:
  "\<exists>best mps. best \<in> set (fst (probe_volumes box_mount demo_card_box)) \<and>
    map_of (cb_table (snd (mount_all_volumes box_mount 0 demo_card_box))) PRIMARY_MOUNT = Some (vol_device best) \<and>
    map_of (cb_files (snd (mount_all_volumes box_mount 0 demo_card_box))) ROOTS_PATH =
      Some (concat (map (\<lambda>p. p @ [CHR 0x0A]) (PRIMARY_MOUNT # mps)))"
proof -
  obtain m' where m': "mount_all_volumes box_mount 0 demo_card_box = ((True, 1), m')"
    using demo_mounts by (cases "mount_all_volumes box_mount 0 demo_card_box") simp
  obtain vols m1 where pv: "probe_volumes box_mount demo_card_box = (vols, m1)" by fastforce
  show ?thesis
    using published_roots_are_mounted [OF card_table.mount_table_axioms m' pv] unfolding m' pv fst_conv snd_conv by blast
qed

text \<open>
  Marker and mounts follow the supervisor: whatever happens to the card between two rounds, the marker is there
  exactly while the supervisor holds a card mounted, and while it does not, nothing is mounted at a public path.
\<close>

theorem marker_follows_mount:
  assumes "mount_table io table content"
    and "\<forall>c\<in>set changes. \<forall>m. content (c m) MOUNT_MARKER = content m MOUNT_MARKER \<and>
      ((\<forall>p\<in>set public_mounts. table m p = None) \<longrightarrow> (\<forall>p\<in>set public_mounts. table (c m) p = None))"
    and "content m MOUNT_MARKER = None" "\<forall>p\<in>set public_mounts. table m p = None"
    and "mount_main io changes m = (s, m')"
  shows "(content m' MOUNT_MARKER \<noteq> None \<longleftrightarrow> sv_mounted s) \<and>
    (\<not> sv_mounted s \<longrightarrow> (\<forall>p\<in>set public_mounts. table m' p = None))"
  using mount_table.main_follows [OF assms(1), of changes m] assms(2-) by (simp add: mount_table.follows_def [OF assms(1)])

theorem marker_follows_mount_witness:
  "\<exists>s b. mount_main box_mount [id, \<lambda>b. b\<lparr>cb_devices := []\<rparr>] demo_card_box = (s, b) \<and>
    (map_of (cb_files b) MOUNT_MARKER \<noteq> None \<longleftrightarrow> sv_mounted s)"
proof -
  obtain s b where r: "mount_main box_mount [id, \<lambda>b. b\<lparr>cb_devices := []\<rparr>] demo_card_box = (s, b)" by fastforce
  have "(map_of (cb_files b) MOUNT_MARKER \<noteq> None \<longleftrightarrow> sv_mounted s) \<and>
      (\<not> sv_mounted s \<longrightarrow> (\<forall>p\<in>set public_mounts. map_of (cb_table b) p = None))"
    by (rule marker_follows_mount [OF card_table.mount_table_axioms _ _ _ r]) (simp_all add: demo_card_box_def)
  then show ?thesis using r by blast
qed

text \<open>
  A low partition number can outweigh the content: with ROM directories on the first and the seventh partition, the
  first becomes the primary volume although the seventh alone scores higher.
\<close>

theorem index_outweighs_content:
  "let b = demo_card_box\<lparr>cb_devices := [''/dev/mmcblk0p1'', ''/dev/mmcblk0p7''],
        cb_paths := [''/mnt/.sf2000-vol0/ROMS'', ''/mnt/.sf2000-vol1/GB'']\<rparr>
   in map_of (cb_table (snd (mount_all_volumes box_mount 0 b))) PRIMARY_MOUNT = Some ''/dev/mmcblk0p1'' \<and>
      score_volume box_mount (tmp_mount 0) b < score_volume box_mount (tmp_mount 1) b"
  by code_simp

end
