(* ===== verification/Spec2Isabelle.thy ===== *)
theory Spec2Isabelle
  imports Prelude Mmio Efuse Dsc Vdec Audio Avsync Resampler Retained Asdpack
    GeNode GeSurface GeClip GeQueue GeBlit GeUtils LoaderPlace CacheBooks CacheHot Pad LogdJournal
    PowerBoard MountTable
begin

text \<open>
  A verification development for the SF2000 Linux port (\<^verbatim>\<open>frog2k-linux\<close>): the OS-neutral drivers,
  the graphics-engine library, the retained log, the image packer, the boot loader, the cache model and the
  main services of user space, as executable HOL definitions that follow the C code function by function,
  with the theorems that make them correct.

  \<^bold>\<open>The program.\<close> The repository brings Linux to a MIPS handheld built on the HC15xx family. It
  has (1) OS-neutral drivers written against structures of callbacks: audio output, A/V
  synchronisation and resampling (\<^verbatim>\<open>src/audio\<close>), the display scan-out controller (\<^verbatim>\<open>src/dsc\<close>), the
  fuse block (\<^verbatim>\<open>src/efuse\<close>) and the video decoder with its display backend (\<^verbatim>\<open>src/vdec\<close>); (2) a clean
  reimplementation of the vendor's graphics library (\<^verbatim>\<open>src/ge\<close>), which validates drawing state,
  serialises command nodes and submits them to a kernel driver; (3) a boot loader (\<^verbatim>\<open>src/boot\<close>),
  user-space services (\<^verbatim>\<open>src/userspace\<close>), and a log that survives resets (\<^verbatim>\<open>src/platform\<close>); (4) host
  tools (\<^verbatim>\<open>src/tools\<close>), among them the packer of the firmware image.

  \<^bold>\<open>Theories.\<close>
  \<^item> \<open>Prelude\<close>: integer types, bit masks, little-endian packing, C division, shared lemmas.
  \<^item> \<open>Mmio\<close>: the callback structures \<open>struct hc15xx_*_io\<close> as records of functions over an arbitrary
    machine state, the locales \<open>reg_file\<close>, \<open>audio_regs\<close>, \<open>vdec_regs\<close> that say what a bank of plain
    registers promises, their interpretation on the register arrays of the repository's driver
    tests, the recording bus (an arbitrary list of answers, a log of calls), bounded polling.
  \<^item> \<open>Efuse\<close> (\<^verbatim>\<open>src/efuse/hc15xx_efuse.c\<close>): reading, programming only the missing bits, bit ranges.
  \<^item> \<open>Dsc\<close> (\<^verbatim>\<open>src/dsc/hc15xx_dsc.c\<close>): interrupt accounting, vertical-blank waits, DAC set-up.
  \<^item> \<open>Vdec\<close> (\<^verbatim>\<open>src/vdec/hc15xx_vdec.c\<close>, \<^verbatim>\<open>hc15xx_vdec_codec.c\<close>): reset, configuration, frame
    decoding, DMA and compositor.
  \<^item> \<open>Audio\<close> (\<^verbatim>\<open>src/audio/hc15xx_audio.c\<close>): the DMA ring with its full/empty guard, volume, clocks.
  \<^item> \<open>Avsync\<close> (\<^verbatim>\<open>src/audio/hc15xx_avsync.c\<close>): clock updates and classification, on top of \<open>Audio\<close>.
  \<^item> \<open>Resampler\<close> (\<^verbatim>\<open>src/audio/hc15xx_resampler.c\<close>): three loops and their common specification.
  \<^item> \<open>Retained\<close> (\<^verbatim>\<open>src/platform/hc15xx_retained.c\<close>): the ring of marks, store by store.
  \<^item> \<open>Asdpack\<close> (\<^verbatim>\<open>src/tools/asdpack.c\<close>): CRC, packing and checking of firmware images.
  \<^item> \<open>GeNode\<close> (\<^verbatim>\<open>src/ge/hcge_node.c\<close>): the command-node serialiser.
  \<^item> \<open>GeSurface\<close> (\<^verbatim>\<open>src/ge/ge_api.h\<close>, \<^verbatim>\<open>hcge_linux.c\<close>): data types, formats, colours, validity,
    raster operations, \<open>hcge_check_state\<close>.
  \<^item> \<open>GeClip\<close> (\<^verbatim>\<open>src/ge/hcge_matrix.c\<close>): clipping by pixel sets, matrix selection.
  \<^item> \<open>GeQueue\<close> (\<^verbatim>\<open>src/ge/hcge_linux.c\<close>): open/close, submission with retry, batches, cache
    maintenance; the kernel is a parameter described by the locale \<open>ge_syscalls\<close>.
  \<^item> \<open>GeBlit\<close> (\<^verbatim>\<open>src/ge/hcge_linux.c\<close>): fill, blit, stretched blit, outline.
  \<^item> \<open>GeUtils\<close> (\<^verbatim>\<open>src/ge/hcge_utils.c\<close>): names and flag lists.
  \<^item> \<open>LoaderMem\<close> (\<^verbatim>\<open>src/boot/linux-loader.c\<close>): memory and cache instructions as the record \<open>cpu\<close>, copying,
    clearing and flushing, and the locale \<open>cached_ram\<close> with what they rely on; \<open>LoaderCache\<close> is its
    instance, the two-way write-back cache the loader's comments describe, for any replacement policy.
  \<^item> \<open>BootLog\<close> (\<^verbatim>\<open>src/boot/linux-loader.c\<close>): console, boot log on the card, FAT chain walk, progress ring;
    \<open>LogFile\<close> has the locale \<open>rom_storage\<close> for the ROM's disk routines, its instance and what the log
    writes to the card.
  \<^item> \<open>LoaderElf\<close>, \<open>LoaderImage\<close>, \<open>Loader\<close>, \<open>LoaderPlace\<close> (\<^verbatim>\<open>src/boot/linux-loader.c\<close>): ELF checks, copy and
    verification; their lemmas; clocks, lights and the main function; what is in memory at the jump.
  \<^item> \<open>CacheSim\<close>, \<open>CacheProfile\<close>, \<open>CacheConfig\<close> (\<^verbatim>\<open>src/tools/qemu/sf2000-cache-model.c\<close>): the cache
    simulator, the callbacks of the QEMU plugin and its installation; \<open>CacheBooks\<close> and \<open>CacheHot\<close> have the
    theorems on whole runs (counters, hotspot table, reports, release of memory).
  \<^item> \<open>CText\<close>: C strings and numbers in text, for the configuration files of the services.
  \<^item> \<open>Pad\<close> (\<^verbatim>\<open>src/userspace/sf2000-pad.c\<close>): the key registers behind GPIO pins, board detection, debouncing and
    events, with the locale \<open>key_shifter\<close> for the registers and its instance.
  \<^item> \<open>Logd\<close> (\<^verbatim>\<open>src/userspace/sf2000-logd.c\<close>): the bounded journal, its drains and the main loop; \<open>LogdJournal\<close> has
    the locales for the devices written to and for invariants of the journal, and what the daemon promises.
  \<^item> \<open>Powerd\<close> (\<^verbatim>\<open>src/userspace/sf2000-powerd.c\<close>): configuration, battery samples, backlight, hand-over of the
    screen, the life of the frontend, the keys and the main loop; \<open>PowerBoard\<close> has the locale \<open>power_board\<close> for the
    registers and the standby marker, its instance, and what the daemon promises.
  \<^item> \<open>Mount\<close> (\<^verbatim>\<open>src/userspace/sf2000-mount.c\<close>): candidates, probing and scoring of volumes, their move to the
    public paths, what is published, and the loop that follows the card; \<open>MountTable\<close> has the locale \<open>mount_table\<close>
    for mounts and files that keep what is done to them, its instance, and what the supervisor promises.

  \<^bold>\<open>How code becomes definitions.\<close> A C function is a HOL function of the same name. Structures are
  records, enumerations datatypes, fixed-width integers words; \<open>int\<close> is \<open>int\<close> with ranges stated where
  they matter, and reduced to 32 bits at every sum, difference and product where rectangles are clipped
  (\<open>c_int\<close> of \<open>GeClip\<close>). State is passed explicitly; a callback or system call is a function of a record
  parameter. A NULL pointer is \<open>None\<close>; an access outside an array makes the result \<open>None\<close>, so memory
  safety is a theorem. Contexts and batches of the graphics library live in stores indexed by
  numbers, so their mutual pointers can be followed.

  \<^bold>\<open>What the theorems show.\<close> Drivers: what a call does to a bank of plain registers (functional
  behaviour), and what it does to the bus for every sequence of hardware answers (ordering,
  termination, safety). The fuse driver sends no bit that is not asked for or already burnt; the
  audio ring does not look empty when data is pending, except for an offset inside the unit the consumer is in,
  and always publishes behind a barrier; the
  video driver brackets every hardware access with cache maintenance and swaps buffers only after
  success; the resampler's fast paths equal its reference loop and do not drift. Graphics: every
  node a drawing operation builds has the length its header announces and fits its array, drawing
  is memory safe on every input, blits stay inside their buffers, clipping is exact on pixels for coordinates that do not overflow, a
  submission is accepted exactly once, a batch is one submission or none. The retained log keeps
  the last 1024 marks and is consistent after a reset between any two stores. The packer's table
  CRC is the bit-serial one, packing and checking are inverse, and corruption is detected. The boot
  loader copies an accepted image right even where it overlaps the load window, because it walks the records
  backwards, and, where nothing overlaps, has the kernel and the device tree in memory and out of both caches
  when it jumps, from any stale cache state outside the payload; its log is exactly what is on the card; its repair pass is wrong when the image
  overlaps its load window, and faults on an unaligned zero part. The cache model counts the misses of a
  least-recently-used cache for fewer than 2^32 accesses, its books balance after every history of callbacks, and it releases what it
  allocates; after an invalidation, or past 2^32 accesses, it is not such a cache any more. The keypad bridge
  reads the keys pressed, reports no glitch and loses no change. The log daemon returns on every device that
  interrupts it finitely often, stays within its buffer, writes nothing during a session, loses nothing outside
  one, and repeats bytes after a flush that failed half-way. The power daemon has the light on exactly outside
  standby, wants the keys released before it wakes, and starts a frontend that cannot run for ever. The mount
  supervisor publishes exactly what is mounted, the best volume first, and its marker follows the card.

  \<^bold>\<open>Bounds and fuel.\<close> Polling loops recurse on their C limits (5000 or 100000 rounds), so no fuel is
  added; the delay loops of the boot loader, which wait for a hardware counter, are partial functions
  (\<open>None\<close> if they do not return), and so are the write loop of the log daemon and the waits for the frontend in the
  power daemon. The endless loops of the services run over a finite list of rounds or inputs of any length, one
  entry for what the outside does before each round; every other loop is structural recursion on its data.

  \<^bold>\<open>Not modelled.\<close> The floating-point routines of \<^verbatim>\<open>src/ge\<close> (rotation, inverse, bounding
  rectangle, filter design), the text of the reports of the QEMU plugin, the other user-space services (console, init, watchdog and probe
  programs, mostly sequences of system calls) and the player, the generators of test images, and the kernel patches.
\<close>

end
